(* ===== verification/Js_Prelude.thy ===== *)
theory Js_Prelude
  imports Main "HOL-Library.AList" "HOL-Library.Word"
begin

text \<open>
  Shared vocabulary of the development.

  The sources are TypeScript, so the prelude fixes how the pieces of the language that the
  components use are written in HOL:
  \<^item> a thrown \<open>Error\<close> is the left value of a sum (\<open>result\<close>); the constructors of
    \<open>js_error\<close> name who throws;
  \<^item> a \<open>Map\<close> is an association list in insertion order. \<open>Map.prototype.set\<close> replaces the
    value of an existing key in place and appends a new one, which is \<open>AList.update\<close>;
    \<open>Map.prototype.delete\<close> is \<open>AList.delete\<close> and \<open>get\<close> is \<open>map_of\<close>;
  \<^item> a \<open>Set\<close> whose iteration order matters is a distinct list to which \<open>set_add\<close> appends;
  \<^item> branded string types (\<open>RevisionId\<close>, \<open>VaultId\<close>, ...) are strings, as they are at run
    time (\<open>brand\<close> in packages/core/src/types.ts is the identity).
\<close>

section \<open>Names for the run-time types\<close>

type_synonym VaultId = string
type_synonym RevisionId = string
type_synonym PeerId = string
type_synonym DeviceId = string
type_synonym RoomId = string
type_synonym TransferId = string
type_synonym ConflictId = string
type_synonym BookmarkId = string
type_synonym Sha256Hex = string
type_synonym Date = nat

text \<open>A \<open>Uint8Array\<close>.\<close>

type_synonym byte = "8 word"
type_synonym bytes = "byte list"

section \<open>Errors\<close>

datatype js_error =
    ContractViolation string
  | ThrownError string

type_synonym 'a result = "js_error + 'a"

definition assert_contract :: "bool \<Rightarrow> string \<Rightarrow> unit result" where
  "assert_contract condition message =
     (if condition then Inr () else Inl (ContractViolation message))"

text \<open>The \<open>message\<close> of a thrown error.\<close>

fun error_message :: "js_error \<Rightarrow> string" where
  "error_message (ContractViolation m) = ''Contract violation: '' @ m"
| "error_message (ThrownError m) = m"

definition res_bind :: "'a result \<Rightarrow> ('a \<Rightarrow> 'b result) \<Rightarrow> 'b result" where
  "res_bind r f = (case r of Inl e \<Rightarrow> Inl e | Inr x \<Rightarrow> f x)"

definition brand :: "string \<Rightarrow> string" where
  "brand value = value"

section \<open>Insertion-ordered sets\<close>

definition set_add :: "'a list \<Rightarrow> 'a \<Rightarrow> 'a list" where
  "set_add xs x = (if x \<in> set xs then xs else xs @ [x])"

definition set_of_iterable :: "'a list \<Rightarrow> 'a list" where
  "set_of_iterable xs = foldl set_add [] xs"

section \<open>Strings\<close>

text \<open>
  Strings are lists of 8-bit code units. White space is what \<open>String.prototype.trim\<close> strips
  in that range; upper-casing follows the default case mapping, in which the sharp s becomes
  two letters (the micro sign and the y with diaeresis, whose capitals lie outside the range,
  are left alone).
\<close>

definition is_js_space :: "char \<Rightarrow> bool" where
  "is_js_space c = (of_char c \<in> {9, 10, 11, 12, 13, 32, 160 :: nat})"

definition js_trim :: "string \<Rightarrow> string" where
  "js_trim s = rev (dropWhile is_js_space (rev (dropWhile is_js_space s)))"

definition in_code_range :: "nat \<Rightarrow> nat \<Rightarrow> char \<Rightarrow> bool" where
  "in_code_range lo hi c = (lo \<le> of_char c \<and> of_char c \<le> hi)"

definition char_toUpperCase :: "char \<Rightarrow> string" where
  "char_toUpperCase c =
     (if in_code_range 97 122 c \<or> (in_code_range 224 254 c \<and> of_char c \<noteq> (247 :: nat))
      then [char_of (of_char c - (32 :: nat))]
      else if of_char c = (223 :: nat) then ''SS'' else [c])"

definition js_toUpperCase :: "string \<Rightarrow> string" where
  "js_toUpperCase s = concat (map char_toUpperCase s)"

definition char_toLowerCase :: "char \<Rightarrow> char" where
  "char_toLowerCase c =
     (if in_code_range 65 90 c \<or> (in_code_range 192 222 c \<and> of_char c \<noteq> (215 :: nat))
      then char_of (of_char c + (32 :: nat)) else c)"

definition js_toLowerCase :: "string \<Rightarrow> string" where
  "js_toLowerCase s = map char_toLowerCase s"

fun js_includes :: "string \<Rightarrow> string \<Rightarrow> bool" where
  "js_includes [] needle = (needle = [])"
| "js_includes (c # s) needle =
     (take (length needle) (c # s) = needle \<or> js_includes s needle)"

text \<open>For evaluation: a search that gives up at the first character that differs.\<close>

fun begins_with :: "string \<Rightarrow> string \<Rightarrow> bool" where
  "begins_with [] s = True"
| "begins_with (x # xs) [] = False"
| "begins_with (x # xs) (y # ys) = (x = y \<and> begins_with xs ys)"

lemma begins_with_take: "begins_with p s \<longleftrightarrow> take (length p) s = p"
  by (induction p s rule: begins_with.induct) auto

lemma js_includes_search [code]:
  "js_includes [] needle = (needle = [])"
  "js_includes (c # s) needle = (begins_with needle (c # s) \<or> js_includes s needle)"
  by (simp_all add: begins_with_take)

text \<open>\<open>s.split(d)\<close> for a one-character separator.\<close>

fun js_split :: "char \<Rightarrow> string \<Rightarrow> string list" where
  "js_split d [] = [[]]"
| "js_split d (c # s) =
     (if c = d then [] # js_split d s
      else case js_split d s of [] \<Rightarrow> [[c]] | w # ws \<Rightarrow> (c # w) # ws)"

text \<open>\<open>String(n)\<close> for a natural number.\<close>

fun decimal_string :: "nat \<Rightarrow> string" where
  "decimal_string n =
     (if n < 10 then [char_of (48 + n)] else decimal_string (n div 10) @ [char_of (48 + n mod 10)])"

declare decimal_string.simps [simp del]

section \<open>Hash strings\<close>

definition is_lower_hex :: "char \<Rightarrow> bool" where
  "is_lower_hex c = (in_code_range 97 102 c \<or> in_code_range 48 57 c)"

text \<open>For evaluation: the same on the bits of the character.\<close>

lemma is_lower_hex_bits [code]:
  "is_lower_hex (Char b0 b1 b2 b3 b4 b5 b6 b7) \<longleftrightarrow>
     \<not> b7 \<and> b5 \<and> (if b6 then \<not> b4 \<and> \<not> b3 \<and> (b0 \<or> b1 \<or> b2) \<and> \<not> (b0 \<and> b1 \<and> b2)
                  else b4 \<and> (\<not> b3 \<or> \<not> b2 \<and> \<not> b1))"
  by (cases b0; cases b1; cases b2; cases b3; cases b4; cases b5; cases b6; cases b7)
    (simp_all add: is_lower_hex_def in_code_range_def)

definition is_hex64 :: "string \<Rightarrow> bool" where
  "is_hex64 s = (length s = 64 \<and> list_all is_lower_hex s)"

definition asSha256Hex :: "string \<Rightarrow> Sha256Hex result" where
  "asSha256Hex value =
     res_bind (assert_contract (is_hex64 value) ''sha256 hash must be 64 lowercase hex characters'')
       (\<lambda>_. Inr value)"

definition isSha256Hex :: "string \<Rightarrow> bool" where
  "isSha256Hex value = (length value = 64 \<and> value \<noteq> [] \<and> list_all is_lower_hex value)"

section \<open>Operations that change a state and may throw\<close>

text \<open>
  An asynchronous method of a stateful object runs to its end here: it takes the state, returns
  its value or what it threw, and the state it left, also when it threw.
\<close>

type_synonym ('s, 'a) action = "'s \<Rightarrow> 'a result \<times> 's"

definition act_return :: "'a \<Rightarrow> ('s, 'a) action" where
  "act_return x = (\<lambda>s. (Inr x, s))"

definition act_throw :: "js_error \<Rightarrow> ('s, 'a) action" where
  "act_throw e = (\<lambda>s. (Inl e, s))"

definition act_bind :: "('s, 'a) action \<Rightarrow> ('a \<Rightarrow> ('s, 'b) action) \<Rightarrow> ('s, 'b) action" where
  "act_bind m f = (\<lambda>s. case m s of (Inl e, t) \<Rightarrow> (Inl e, t) | (Inr x, t) \<Rightarrow> f x t)"

definition act_lift :: "'a result \<Rightarrow> ('s, 'a) action" where
  "act_lift r = (\<lambda>s. (r, s))"

text \<open>
  \<open>wp a Q s\<close>: running \<open>a\<close> from \<open>s\<close> ends with an outcome and a state that satisfy \<open>Q\<close>. Its
  rules for the operations above reduce a claim about a handler to claims about the calls it makes.
\<close>

definition wp :: "('s, 'a) action \<Rightarrow> ('a result \<Rightarrow> 's \<Rightarrow> bool) \<Rightarrow> 's \<Rightarrow> bool" where
  "wp a Q s = (case a s of (r, t) \<Rightarrow> Q r t)"

named_theorems js_simps \<open>evaluation rules of the language model\<close>
named_theorems js_intros \<open>introduction rules of the language model\<close>

section \<open>Facts about the language model\<close>

lemma assert_contract_Inr [simp, js_simps]:
  "assert_contract c m = Inr u \<longleftrightarrow> c"
  by (simp add: assert_contract_def)

lemma assert_contract_Inl [simp, js_simps]:
  "assert_contract c m = Inl e \<longleftrightarrow> \<not> c \<and> e = ContractViolation m"
  by (auto simp: assert_contract_def)

lemma assert_contract_simps [simp, js_simps]:
  "assert_contract True m = Inr ()" "assert_contract False m = Inl (ContractViolation m)"
  by (simp_all add: assert_contract_def)

lemma res_bind_Inr [simp, js_simps]: "res_bind (Inr x) f = f x"
  by (simp add: res_bind_def)

lemma res_bind_Inl [simp, js_simps]: "res_bind (Inl e) f = Inl e"
  by (simp add: res_bind_def)

lemma res_bind_eq_Inr [js_simps]:
  "res_bind r f = Inr y \<longleftrightarrow> (\<exists>x. r = Inr x \<and> f x = Inr y)"
  by (cases r) simp_all

lemma res_bind_eq_Inl [js_simps]:
  "res_bind r f = Inl e \<longleftrightarrow> r = Inl e \<or> (\<exists>x. r = Inr x \<and> f x = Inl e)"
  by (cases r) auto

lemma set_set_add [simp, js_simps]: "set (set_add xs x) = insert x (set xs)"
  by (auto simp: set_add_def)

lemma distinct_set_add [simp, js_intros]: "distinct (set_add xs x) \<longleftrightarrow> distinct xs"
  by (auto simp: set_add_def)

lemma foldl_set_add_set: "set (foldl set_add acc xs) = set acc \<union> set xs"
  by (induction xs arbitrary: acc) auto

lemma foldl_set_add_distinct: "distinct acc \<Longrightarrow> distinct (foldl set_add acc xs)"
  by (induction xs arbitrary: acc) auto

lemma set_set_of_iterable [simp, js_simps]: "set (set_of_iterable xs) = set xs"
  by (simp add: set_of_iterable_def foldl_set_add_set)

lemma distinct_set_of_iterable [simp, js_intros]: "distinct (set_of_iterable xs)"
  by (simp add: set_of_iterable_def foldl_set_add_distinct)

lemma foldl_set_add_id: "distinct (acc @ xs) \<Longrightarrow> foldl set_add acc xs = acc @ xs"
  by (induction xs arbitrary: acc) (auto simp: set_add_def)

lemma set_of_iterable_id [js_simps]: "distinct xs \<Longrightarrow> set_of_iterable xs = xs"
  by (simp add: set_of_iterable_def foldl_set_add_id)

lemma length_filter_imp:
  "(\<And>x. x \<in> set xs \<Longrightarrow> P x \<Longrightarrow> Q x) \<Longrightarrow> length (filter P xs) \<le> length (filter Q xs)"
  by (induction xs) (auto intro: le_SucI)

lemma act_simps [simp, js_simps]:
  "act_return x s = (Inr x, s)" "act_throw e s = (Inl e, s)" "act_lift r s = (r, s)"
  by (simp_all add: act_return_def act_throw_def act_lift_def)

lemma act_bind_simp [js_simps]:
  "act_bind m f s = (case m s of (Inl e, t) \<Rightarrow> (Inl e, t) | (Inr x, t) \<Rightarrow> f x t)"
  by (simp add: act_bind_def)

lemma act_bind_Inr:
  "act_bind m f s = (Inr y, u) \<longleftrightarrow> (\<exists>x t. m s = (Inr x, t) \<and> f x t = (Inr y, u))"
  by (cases "m s"; cases "fst (m s)") (auto simp: act_bind_simp)

lemma act_bind_Inl:
  "act_bind m f s = (Inl e, u) \<longleftrightarrow> m s = (Inl e, u) \<or> (\<exists>x t. m s = (Inr x, t) \<and> f x t = (Inl e, u))"
  by (cases "m s"; cases "fst (m s)") (auto simp: act_bind_simp)

lemma wp_return [simp]: "wp (act_return x) Q s = Q (Inr x) s"
  by (simp add: wp_def)

lemma wp_throw [simp]: "wp (act_throw e) Q s = Q (Inl e) s"
  by (simp add: wp_def)

lemma wp_lift [simp]: "wp (act_lift r) Q s = Q r s"
  by (simp add: wp_def)

lemma wp_bind [simp]:
  "wp (act_bind m f) Q s = wp m (\<lambda>r t. case r of Inl e \<Rightarrow> Q (Inl e) t | Inr x \<Rightarrow> wp (f x) Q t) s"
  by (simp add: wp_def act_bind_simp split: prod.split sum.split)

lemma wpI: "(\<And>r t. a s = (r, t) \<Longrightarrow> Q r t) \<Longrightarrow> wp a Q s"
  by (simp add: wp_def split: prod.split)

lemma wpD: "wp a Q s \<Longrightarrow> a s = (r, t) \<Longrightarrow> Q r t"
  by (simp add: wp_def)

lemma wp_mono: "wp a Q s \<Longrightarrow> (\<And>r t. Q r t \<Longrightarrow> R r t) \<Longrightarrow> wp a R s"
  by (simp add: wp_def split: prod.splits)

text \<open>Association lists as \<open>Map\<close>s.\<close>

lemma alist_map_of_update [simp, js_simps]:
  "map_of (AList.update k v m) k' = (if k' = k then Some v else map_of m k')"
  by (simp add: update_conv)

lemma alist_map_of_delete [simp, js_simps]:
  "map_of (AList.delete k m) k' = (if k' = k then None else map_of m k')"
  by (simp add: delete_conv)

lemma alist_keys_update [simp, js_simps]:
  "fst ` set (AList.update k v m) = insert k (fst ` set m)"
  by (induction m) auto

lemma alist_keys_delete [simp, js_simps]:
  "fst ` set (AList.delete k m) = fst ` set m - {k}"
  by (auto simp: AList.delete_eq)

lemma alist_distinct_update [simp, js_intros]:
  "distinct (map fst m) \<Longrightarrow> distinct (map fst (AList.update k v m))"
  by (rule distinct_update)

lemma alist_distinct_delete [simp, js_intros]:
  "distinct (map fst m) \<Longrightarrow> distinct (map fst (AList.delete k m))"
  by (rule distinct_delete)

lemma alist_update_mem:
  "p \<in> set (AList.update k v m) \<Longrightarrow> p = (k, v) \<or> p \<in> set m"
  by (induction m) (auto split: if_splits)

lemma alist_update_length:
  "length (AList.update k v m) = (if k \<in> fst ` set m then length m else Suc (length m))"
  by (induction m) auto

lemma alist_delete_length: "length (AList.delete k m) \<le> length m"
  by (simp add: AList.delete_eq)

lemma map_of_mem_keys: "map_of m k = Some v \<Longrightarrow> k \<in> fst ` set m"
  by (auto dest: map_of_SomeD intro: rev_image_eqI)

end
