(* ===== verification/Revision_Dag.thy ===== *)
theory Revision_Dag
  imports Js_Prelude
begin

text \<open>
  The revision graph of packages/core/src/dag.ts: ancestry, merge bases, divergence, topological
  order, the missing set and the validation of a peer's history.

  A \<open>RevisionGraph\<close> is the \<open>Map\<close> that \<open>buildGraph\<close> closes over. The worklists of the source
  are arrays popped at the end; here the top of the stack is the head of the list, so pushing a
  run of parents prepends its reverse. The search loops and the explicit-stack depth-first
  search are total functions with their termination proofs.
\<close>

section \<open>Graphs\<close>

record RevisionNode =
  node_id :: RevisionId
  node_parentIds :: "RevisionId list"

type_synonym RevisionGraph = "(RevisionId \<times> RevisionNode) list"

definition graph_get :: "RevisionGraph \<Rightarrow> RevisionId \<Rightarrow> RevisionNode option" where
  "graph_get g i = map_of g i"

definition graph_has :: "RevisionGraph \<Rightarrow> RevisionId \<Rightarrow> bool" where
  "graph_has g i = (map_of g i \<noteq> None)"

definition graph_ids :: "RevisionGraph \<Rightarrow> RevisionId list" where
  "graph_ids g = map fst g"

definition buildGraph :: "RevisionNode list \<Rightarrow> RevisionGraph" where
  "buildGraph nodes = foldl (\<lambda>byId node. AList.update (node_id node) node byId) [] nodes"

definition graph_nodes :: "RevisionGraph \<Rightarrow> RevisionNode list" where
  "graph_nodes g = List.map_filter (graph_get g) (graph_ids g)"

definition unionGraphs :: "RevisionGraph \<Rightarrow> RevisionGraph \<Rightarrow> RevisionGraph" where
  "unionGraphs base overlay = buildGraph (graph_nodes base @ graph_nodes overlay)"

section \<open>Ancestry\<close>

text \<open>The loop of \<open>ancestorsOf\<close>: \<open>queue\<close> is the stack and \<open>seen\<close> the result in insertion order.\<close>

function ancestors_loop ::
    "RevisionGraph \<Rightarrow> RevisionId list \<Rightarrow> RevisionId list \<Rightarrow> RevisionId list" where
  "ancestors_loop g [] seen = seen"
| "ancestors_loop g (current # queue) seen =
     (if current \<in> set seen then ancestors_loop g queue seen
      else case graph_get g current of
        None \<Rightarrow> ancestors_loop g queue (seen @ [current])
      | Some node \<Rightarrow>
          ancestors_loop g
            (rev (filter (\<lambda>p. p \<notin> set (seen @ [current])) (node_parentIds node)) @ queue)
            (seen @ [current]))"
  by pat_completeness auto

definition unseen_nodes :: "RevisionGraph \<Rightarrow> RevisionId list \<Rightarrow> nat" where
  "unseen_nodes g seen = card (set (graph_ids g) - set seen)"

lemma graph_get_in_ids: "graph_get g i = Some node \<Longrightarrow> i \<in> set (graph_ids g)"
  by (auto simp: graph_get_def graph_ids_def dest: map_of_mem_keys)

lemma unseen_nodes_less:
  assumes "graph_get g i = Some node" and "i \<notin> set seen"
  shows "unseen_nodes g (seen @ [i]) < unseen_nodes g seen"
proof -
  have "i \<in> set (graph_ids g) - set seen"
    using assms graph_get_in_ids by blast
  then have "set (graph_ids g) - set (seen @ [i]) \<subset> set (graph_ids g) - set seen"
    by auto
  then show ?thesis
    by (simp add: unseen_nodes_def psubset_card_mono)
qed

lemma unseen_nodes_le: "unseen_nodes g (seen @ [i]) \<le> unseen_nodes g seen"
  by (auto simp: unseen_nodes_def intro!: card_mono)

termination ancestors_loop
proof (relation "measures [\<lambda>(g, queue, seen). unseen_nodes g seen, \<lambda>(g, queue, seen). length queue]",
    goal_cases)
  case 1
  then show ?case by simp
next
  case 2
  then show ?case by simp
next
  case (3 g current queue seen)
  then show ?case
    using unseen_nodes_le [of g seen current] by (simp add: less_le)
next
  case (4 g current queue seen node)
  then show ?case
    using unseen_nodes_less [of g current node seen] by simp
qed

definition ancestorsOf :: "RevisionGraph \<Rightarrow> RevisionId \<Rightarrow> RevisionId list" where
  "ancestorsOf g i = ancestors_loop g [i] []"

text \<open>
  The loop of \<open>isAncestor\<close> returns as soon as a parent equal to the wanted ancestor is met;
  \<open>scan_parents\<close> is its inner \<open>for\<close> loop: \<open>None\<close> is the early \<open>return true\<close>.
\<close>

fun scan_parents ::
    "RevisionId \<Rightarrow> RevisionId set \<Rightarrow> RevisionId list \<Rightarrow> RevisionId list \<Rightarrow> RevisionId list option" where
  "scan_parents ancestor seen [] queue = Some queue"
| "scan_parents ancestor seen (p # ps) queue =
     (if p = ancestor then None
      else scan_parents ancestor seen ps (if p \<in> seen then queue else p # queue))"

function is_ancestor_loop ::
    "RevisionGraph \<Rightarrow> RevisionId \<Rightarrow> RevisionId list \<Rightarrow> RevisionId list \<Rightarrow> bool" where
  "is_ancestor_loop g ancestor [] seen = False"
| "is_ancestor_loop g ancestor (current # queue) seen =
     (if current \<in> set seen then is_ancestor_loop g ancestor queue seen
      else case graph_get g current of
        None \<Rightarrow> is_ancestor_loop g ancestor queue (seen @ [current])
      | Some node \<Rightarrow>
          (case scan_parents ancestor (set (seen @ [current])) (node_parentIds node) queue of
             None \<Rightarrow> True
           | Some queue' \<Rightarrow> is_ancestor_loop g ancestor queue' (seen @ [current])))"
  by pat_completeness auto

termination is_ancestor_loop
proof (relation "measures [\<lambda>(g, a, queue, seen). unseen_nodes g seen, \<lambda>(g, a, queue, seen). length queue]",
    goal_cases)
  case 1
  then show ?case by simp
next
  case 2
  then show ?case by simp
next
  case (3 g ancestor current queue seen)
  then show ?case
    using unseen_nodes_le [of g seen current] by (simp add: less_le)
next
  case (4 g ancestor current queue seen node queue')
  then show ?case
    using unseen_nodes_less [of g current node seen] by simp
qed

definition isAncestor :: "RevisionGraph \<Rightarrow> RevisionId \<Rightarrow> RevisionId \<Rightarrow> bool" where
  "isAncestor g ancestor descendant =
     (if ancestor = descendant then True else is_ancestor_loop g ancestor [descendant] [])"

section \<open>Merge bases and divergence\<close>

definition dominated_by :: "RevisionGraph \<Rightarrow> RevisionId \<Rightarrow> RevisionId list \<Rightarrow> RevisionId list" where
  "dominated_by g candidate dominated =
     (case graph_get g candidate of
        None \<Rightarrow> dominated
      | Some node \<Rightarrow>
          foldl (\<lambda>acc parentId. foldl set_add acc (ancestorsOf g parentId))
            dominated (node_parentIds node))"

definition findMergeBase :: "RevisionGraph \<Rightarrow> RevisionId \<Rightarrow> RevisionId \<Rightarrow> RevisionId list" where
  "findMergeBase g a b =
     (let ancestorsA = ancestorsOf g a;
          ancestorsB = ancestorsOf g b;
          common = set_of_iterable (filter (\<lambda>i. i \<in> set ancestorsB) ancestorsA)
      in if common = [] then []
         else let dominated = foldl (\<lambda>acc candidate. dominated_by g candidate acc) [] common
              in filter (\<lambda>candidate. candidate \<notin> set dominated) common)"

datatype Divergence =
    Equal
  | LocalAhead
  | RemoteAhead
  | Diverged "RevisionId list"
  | Unrelated

definition classifyDivergence :: "RevisionGraph \<Rightarrow> RevisionId \<Rightarrow> RevisionId \<Rightarrow> Divergence" where
  "classifyDivergence g localHead remoteHead =
     (if localHead = remoteHead then Equal
      else if isAncestor g remoteHead localHead then LocalAhead
      else if isAncestor g localHead remoteHead then RemoteAhead
      else let mergeBases = findMergeBase g localHead remoteHead
           in if length mergeBases = 0 then Unrelated else Diverged mergeBases)"

section \<open>Topological order\<close>

type_synonym frame = "RevisionId \<times> bool"

text \<open>
  The inner \<open>for\<close> loop of \<open>topologicalOrder\<close>: push every parent of interest, or fail on a cycle.
  The thrown message names the parent.
\<close>

fun push_parents ::
    "RevisionId set \<Rightarrow> RevisionId set \<Rightarrow> RevisionId set \<Rightarrow> RevisionId list \<Rightarrow> frame list
      \<Rightarrow> frame list result" where
  "push_parents target done_ids onStack [] stack = Inr stack"
| "push_parents target done_ids onStack (p # ps) stack =
     (if p \<notin> target \<or> p \<in> done_ids then push_parents target done_ids onStack ps stack
      else if p \<in> onStack
      then Inl (ContractViolation (''revision graph contains a cycle at '' @ p))
      else push_parents target done_ids onStack ps ((p, False) # stack))"

record topo_state =
  ordered :: "RevisionId list"
  done_ids :: "RevisionId set"
  onStack :: "RevisionId set"

function topo_loop ::
    "RevisionGraph \<Rightarrow> RevisionId list \<Rightarrow> frame list \<Rightarrow> topo_state \<Rightarrow> topo_state result" where
  "topo_loop g target [] s = Inr s"
| "topo_loop g target ((x, expanded) # stack) s =
     (if x \<in> done_ids s then
        topo_loop g target stack (s\<lparr>onStack := onStack s - {x}\<rparr>)
      else if expanded then
        topo_loop g target stack
          (s\<lparr>onStack := onStack s - {x}, done_ids := insert x (done_ids s),
             ordered := ordered s @ [x]\<rparr>)
      else case graph_get g x of
        None \<Rightarrow> topo_loop g target ((x, True) # stack) (s\<lparr>onStack := insert x (onStack s)\<rparr>)
      | Some node \<Rightarrow>
          (case push_parents (set target) (done_ids s) (insert x (onStack s))
                  (node_parentIds node) ((x, True) # stack) of
             Inl e \<Rightarrow> Inl e
           | Inr stack' \<Rightarrow> topo_loop g target stack' (s\<lparr>onStack := insert x (onStack s)\<rparr>)))"
  by pat_completeness auto

text \<open>
  The loop ends on every stack and state: an expansion of a fresh id shrinks the ids that are
  neither done nor on the stack; a repeated expansion (which no run from an empty state makes)
  shrinks the unexpanded frames of ids on the stack; every other step shortens the stack.
\<close>

definition open_ids :: "RevisionId list \<Rightarrow> frame list \<Rightarrow> topo_state \<Rightarrow> RevisionId set" where
  "open_ids target stack s = set target \<union> fst ` set stack - done_ids s - onStack s"

definition stale_frames :: "frame list \<Rightarrow> topo_state \<Rightarrow> nat" where
  "stale_frames stack s =
     length (filter (\<lambda>(y, e). \<not> e \<and> y \<in> onStack s \<and> y \<notin> done_ids s) stack)"

definition frame_weight :: "frame list \<Rightarrow> nat" where
  "frame_weight stack = sum_list (map (\<lambda>(y, e). if e then 1 else 2) stack)"

lemma finite_open_ids [simp]: "finite (open_ids target stack s)"
  by (simp add: open_ids_def)

lemma push_parents_Inr:
  "push_parents target dn os ps stack = Inr stack' \<Longrightarrow>
     \<exists>pushed. stack' = pushed @ stack \<and>
       set pushed = {(p, False) |p. p \<in> set ps \<and> p \<in> target \<and> p \<notin> dn} \<and>
       (\<forall>(p, e) \<in> set pushed. p \<notin> os)"
proof (induction ps arbitrary: stack)
  case Nil
  then show ?case by simp
next
  case (Cons p ps)
  show ?case
  proof (cases "p \<notin> target \<or> p \<in> dn")
    case True
    with Cons.prems have "push_parents target dn os ps stack = Inr stack'" by simp
    from Cons.IH [OF this] True show ?thesis by auto
  next
    case False
    with Cons.prems have fresh: "p \<notin> os"
      and rest: "push_parents target dn os ps ((p, False) # stack) = Inr stack'"
      by (auto split: if_splits)
    from Cons.IH [OF rest] obtain pushed where
      "stack' = pushed @ (p, False) # stack"
      "set pushed = {(p, False) |p. p \<in> set ps \<and> p \<in> target \<and> p \<notin> dn}"
      "\<forall>(p, e) \<in> set pushed. p \<notin> os" by auto
    with False fresh show ?thesis
      by (intro exI [of _ "pushed @ [(p, False)]"]) auto
  qed
qed

lemma push_parents_Inl:
  "push_parents target dn os ps stack = Inl e \<Longrightarrow>
     \<exists>p \<in> set ps. p \<in> target \<and> p \<notin> dn \<and> p \<in> os"
  by (induction ps arbitrary: stack) (auto split: if_splits)


lemma open_ids_mono:
  assumes "set target \<union> fst ` set stack' - done_ids s' - onStack s'
      \<subseteq> set target \<union> fst ` set stack - done_ids s - onStack s"
  shows "card (open_ids target stack' s') \<le> card (open_ids target stack s)"
  using assms by (intro card_mono) (simp_all add: open_ids_def)

lemma open_ids_expand:
  assumes "x \<notin> done_ids s" and "x \<notin> onStack s"
    and "fst ` set stack' \<subseteq> set target \<union> fst ` set ((x, False) # stack)"
  shows "card (open_ids target stack' (s\<lparr>onStack := insert x (onStack s)\<rparr>))
      < card (open_ids target ((x, False) # stack) s)"
  using assms by (intro psubset_card_mono) (auto simp: open_ids_def)

lemma stale_frames_mono:
  assumes "\<And>y. (y, False) \<in> set stack \<Longrightarrow> y \<in> onStack s' \<Longrightarrow> y \<notin> done_ids s' \<Longrightarrow>
      y \<in> onStack s \<and> y \<notin> done_ids s"
  shows "stale_frames stack s' \<le> stale_frames stack s"
  unfolding stale_frames_def using assms by (intro length_filter_imp) auto

lemma stale_frames_Cons_le: "stale_frames stack s \<le> stale_frames (f # stack) s"
  by (simp add: stale_frames_def split: prod.split)

lemma topo_pop_measure:
  assumes "\<And>y. y \<in> onStack s' \<and> y \<notin> done_ids s' \<Longrightarrow> y \<in> onStack s \<and> y \<notin> done_ids s"
    and "done_ids s \<union> onStack s \<subseteq> done_ids s' \<union> onStack s'"
  shows "((g, target, stack, s'), (g, target, f # stack, s)) \<in>
    measures [\<lambda>(g, target, stack, s). card (open_ids target stack s),
      \<lambda>(g, target, stack, s). stale_frames stack s, \<lambda>(g, target, stack, s). frame_weight stack]"
proof -
  have "card (open_ids target stack s') \<le> card (open_ids target (f # stack) s)"
    using assms(2) by (intro open_ids_mono) auto
  moreover have "stale_frames stack s' \<le> stale_frames stack s"
    using assms(1) by (intro stale_frames_mono) blast
  moreover note stale_frames_Cons_le [of stack s f]
  moreover have "frame_weight stack < frame_weight (f # stack)"
    by (simp add: frame_weight_def split: prod.split)
  ultimately show ?thesis by (auto simp: less_le)
qed

lemma topo_expand_measure:
  assumes "x \<notin> done_ids s" and stack': "stack' = pushed @ (x, True) # stack"
    and pushed: "\<And>p e. (p, e) \<in> set pushed \<Longrightarrow> p \<in> set target \<and> p \<notin> insert x (onStack s)"
  shows "((g, target, stack', s\<lparr>onStack := insert x (onStack s)\<rparr>), (g, target, (x, False) # stack, s)) \<in>
    measures [\<lambda>(g, target, stack, s). card (open_ids target stack s),
      \<lambda>(g, target, stack, s). stale_frames stack s, \<lambda>(g, target, stack, s). frame_weight stack]"
proof (cases "x \<in> onStack s")
  case False
  have "fst ` set stack' \<subseteq> set target \<union> fst ` set ((x, False) # stack)"
    using pushed by (auto simp: stack')
  from open_ids_expand [OF assms(1) False this] show ?thesis by simp
next
  case True
  then have same: "s\<lparr>onStack := insert x (onStack s)\<rparr> = s" by (simp add: insert_absorb)
  have "card (open_ids target stack' s) \<le> card (open_ids target ((x, False) # stack) s)"
    using pushed by (intro open_ids_mono) (auto simp: stack')
  moreover have "filter (\<lambda>(y, e). \<not> e \<and> y \<in> onStack s \<and> y \<notin> done_ids s) pushed = []"
    using pushed by (auto simp: filter_empty_conv)
  then have "stale_frames stack' s < stale_frames ((x, False) # stack) s"
    using True assms(1) by (simp add: stale_frames_def stack')
  ultimately show ?thesis using same by (auto simp: less_le)
qed

termination topo_loop
proof (relation "measures [\<lambda>(g, target, stack, s). card (open_ids target stack s),
      \<lambda>(g, target, stack, s). stale_frames stack s, \<lambda>(g, target, stack, s). frame_weight stack]",
    goal_cases)
  case 1
  show ?case by simp
next
  case (2 g target x expanded stack s)
  then show ?case by (intro topo_pop_measure) auto
next
  case (3 g target x expanded stack s)
  then show ?case by (intro topo_pop_measure) auto
next
  case (4 g target x expanded stack s)
  then show ?case
    using topo_expand_measure [where pushed = "[]"] by simp
next
  case (5 g target x expanded stack s node stack')
  from push_parents_Inr [OF 5(4)] obtain pushed where
    "stack' = pushed @ (x, True) # stack"
    "set pushed = {(p, False) |p. p \<in> set (node_parentIds node) \<and> p \<in> set target \<and> p \<notin> done_ids s}"
    "\<forall>(p, e) \<in> set pushed. p \<notin> insert x (onStack s)" by blast
  with 5(1,2) show ?case
    using topo_expand_measure [of x s stack' pushed stack target g] by auto
qed

text \<open>The outer \<open>for\<close> loop over the target set.\<close>

fun topo_starts ::
    "RevisionGraph \<Rightarrow> RevisionId list \<Rightarrow> RevisionId list \<Rightarrow> topo_state \<Rightarrow> topo_state result" where
  "topo_starts g target [] s = Inr s"
| "topo_starts g target (start # starts) s =
     (if start \<in> done_ids s then topo_starts g target starts s
      else case topo_loop g target [(start, False)] s of
        Inl e \<Rightarrow> Inl e
      | Inr s' \<Rightarrow> topo_starts g target starts s')"

definition topologicalOrder :: "RevisionGraph \<Rightarrow> RevisionId list \<Rightarrow> RevisionId list result" where
  "topologicalOrder g ids =
     (let target = set_of_iterable ids
      in case topo_starts g target target \<lparr>ordered = [], done_ids = {}, onStack = {}\<rparr> of
        Inl e \<Rightarrow> Inl e
      | Inr s \<Rightarrow> Inr (ordered s))"

section \<open>What is missing, and what a peer may claim\<close>

definition missingRevisions ::
    "RevisionGraph \<Rightarrow> RevisionId \<Rightarrow> (RevisionId \<Rightarrow> bool) \<Rightarrow> RevisionId list result" where
  "missingRevisions remoteGraph remoteHead hasLocally =
     (let wanted = filter (\<lambda>i. \<not> hasLocally i \<and> graph_has remoteGraph i)
                     (ancestorsOf remoteGraph remoteHead)
      in topologicalOrder remoteGraph wanted)"

fun check_unrepeated :: "RevisionNode list \<Rightarrow> RevisionId list \<Rightarrow> RevisionId list result" where
  "check_unrepeated [] seen = Inr seen"
| "check_unrepeated (node # nodes) seen =
     (if node_id node \<in> set seen
      then Inl (ContractViolation (''history summary repeats revision '' @ node_id node))
      else check_unrepeated nodes (set_add seen (node_id node)))"

definition validateRemoteGraph :: "RevisionNode list \<Rightarrow> unit result" where
  "validateRemoteGraph nodes =
     (case check_unrepeated nodes [] of
        Inl e \<Rightarrow> Inl e
      | Inr seen \<Rightarrow>
          (case topologicalOrder (buildGraph nodes) seen of
             Inl e \<Rightarrow> Inl e
           | Inr _ \<Rightarrow> Inr ()))"

section \<open>Graph facts\<close>

text \<open>\<open>edge g\<close> relates a stored revision to each of its declared parents.\<close>

definition edge :: "RevisionGraph \<Rightarrow> (RevisionId \<times> RevisionId) set" where
  "edge g = {(x, p). \<exists>node. graph_get g x = Some node \<and> p \<in> set (node_parentIds node)}"

lemma edge_iff: "(x, p) \<in> edge g \<longleftrightarrow> (\<exists>node. graph_get g x = Some node \<and> p \<in> set (node_parentIds node))"
  by (simp add: edge_def)

lemma edge_Some [simp]:
  "graph_get g x = Some node \<Longrightarrow> edge g `` {x} = set (node_parentIds node)"
  by (auto simp: edge_def)

lemma edge_None [simp]: "graph_get g x = None \<Longrightarrow> edge g `` {x} = {}"
  by (auto simp: edge_def)

lemma finite_edge: "finite (edge g)"
proof -
  have "edge g \<subseteq> (\<Union>(x, node) \<in> set g. {x} \<times> set (node_parentIds node))"
    by (auto simp: edge_def graph_get_def dest: map_of_SomeD)
  then show ?thesis
    by (rule finite_subset) (auto split: prod.split)
qed

lemma graph_has_iff: "graph_has g i \<longleftrightarrow> (\<exists>node. graph_get g i = Some node)"
  by (auto simp: graph_has_def graph_get_def)

lemma foldl_update_map_of:
  "map_of (foldl (\<lambda>m n. AList.update (f n) n m) m ns) k =
     (case find (\<lambda>n. f n = k) (rev ns) of Some n \<Rightarrow> Some n | None \<Rightarrow> map_of m k)"
  by (induction ns arbitrary: m rule: rev_induct) auto

lemma graph_get_buildGraph: "graph_get (buildGraph ns) k = find (\<lambda>n. node_id n = k) (rev ns)"
  by (simp add: graph_get_def buildGraph_def foldl_update_map_of split: option.split)

lemma find_distinct:
  "n \<in> set ns \<Longrightarrow> distinct (map f ns) \<Longrightarrow> f n = k \<Longrightarrow> find (\<lambda>n. f n = k) ns = Some n"
  by (induction ns) (auto simp: rev_image_eqI)

lemma graph_get_buildGraph_distinct:
  assumes "distinct (map node_id ns)" and "n \<in> set ns"
  shows "graph_get (buildGraph ns) (node_id n) = Some n"
  unfolding graph_get_buildGraph
  by (rule find_distinct) (use assms in \<open>simp_all add: rev_map [symmetric]\<close>)

lemma graph_get_buildGraph_Some:
  "graph_get (buildGraph ns) k = Some n \<Longrightarrow> n \<in> set ns \<and> node_id n = k"
  unfolding graph_get_buildGraph by (auto simp: find_Some_iff) (metis nth_mem set_rev length_rev)

text \<open>A graph whose nodes are filed under their own ids, as \<open>buildGraph\<close> files them.\<close>

definition wf_graph :: "RevisionGraph \<Rightarrow> bool" where
  "wf_graph g \<longleftrightarrow> distinct (map fst g) \<and> (\<forall>(k, n) \<in> set g. node_id n = k)"

lemma wf_graph_update: "wf_graph g \<Longrightarrow> wf_graph (AList.update (node_id n) n g)"
  by (auto simp: wf_graph_def dest!: alist_update_mem)

lemma wf_graph_foldl:
  "wf_graph g \<Longrightarrow> wf_graph (foldl (\<lambda>m n. AList.update (node_id n) n m) g ns)"
  by (induction ns arbitrary: g) (simp_all add: wf_graph_update)

lemma wf_graph_buildGraph [simp, intro]: "wf_graph (buildGraph ns)"
  unfolding buildGraph_def by (rule wf_graph_foldl) (simp add: wf_graph_def)

lemma graph_nodes_wf:
  assumes "wf_graph g"
  shows "graph_nodes g = map snd g"
proof -
  have "List.map_filter (graph_get g) (graph_ids h) = map snd h"
    if "set h \<subseteq> set g" for h
    using that
  proof (induction h)
    case Nil
    then show ?case by (simp add: graph_ids_def map_filter_simps)
  next
    case (Cons p h)
    then have "graph_get g (fst p) = Some (snd p)"
      using assms by (auto simp: wf_graph_def graph_get_def)
    with Cons show ?case by (simp add: graph_ids_def map_filter_simps)
  qed
  then show ?thesis by (simp add: graph_nodes_def)
qed

lemma wf_graph_keys: "wf_graph g \<Longrightarrow> map fst g = map node_id (map snd g)"
  by (auto simp: wf_graph_def)

lemma find_wf_graph:
  assumes "wf_graph g"
  shows "find (\<lambda>n. node_id n = k) (rev (map snd g)) = graph_get g k"
proof (cases "graph_get g k")
  case None
  then have "k \<notin> fst ` set g" by (simp add: graph_get_def map_of_eq_None_iff)
  with assms have "\<forall>n \<in> set (rev (map snd g)). node_id n \<noteq> k"
    by (force simp: wf_graph_def)
  then show ?thesis using None by (simp add: find_None_iff)
next
  case (Some n)
  then have mem: "(k, n) \<in> set g" by (simp add: graph_get_def map_of_SomeD)
  with assms have id: "node_id n = k" by (auto simp: wf_graph_def)
  have "distinct (map node_id (map snd g))"
    using assms wf_graph_keys [OF assms] by (simp add: wf_graph_def)
  then have "distinct (map node_id (rev (map snd g)))"
    by (simp add: rev_map [symmetric])
  with mem id have "find (\<lambda>n. node_id n = k) (rev (map snd g)) = Some n"
    by (intro find_distinct) (auto intro: rev_image_eqI)
  then show ?thesis using Some by simp
qed

lemma graph_get_unionGraphs:
  assumes "wf_graph base" and "wf_graph overlay"
  shows "graph_get (unionGraphs base overlay) k =
    (case graph_get overlay k of Some n \<Rightarrow> Some n | None \<Rightarrow> graph_get base k)"
proof -
  have app: "find P (xs @ ys) = (case find P xs of Some n \<Rightarrow> Some n | None \<Rightarrow> find P ys)"
    for P :: "RevisionNode \<Rightarrow> bool" and xs ys
    by (induction xs) auto
  show ?thesis
    unfolding unionGraphs_def graph_get_buildGraph graph_nodes_wf [OF assms(1)]
      graph_nodes_wf [OF assms(2)] rev_append app find_wf_graph [OF assms(1)]
      find_wf_graph [OF assms(2)] by simp
qed

end
