(* ===== verification/Dag_Ancestry.thy ===== *)
theory Dag_Ancestry
  imports Revision_Dag
begin

text \<open>
  Ancestry, merge bases and divergence are what packages/core/src/dag.ts says they are: the
  searches compute reachability along declared parents, merge bases are the common ancestors no
  other common ancestor reaches, and the five-way classification of two heads is decided by
  reachability alone.
\<close>

section \<open>The ancestor search computes reachability\<close>

lemma Image_snoc: "R `` set (xs @ [x]) = R `` {x} \<union> R `` set xs"
  by auto

lemma ancestors_loop_superset: "set seen \<union> set queue \<subseteq> set (ancestors_loop g queue seen)"
proof (induction g queue seen rule: ancestors_loop.induct)
  case (1 g seen)
  show ?case by simp
next
  case (2 g current queue seen)
  show ?case
  proof (cases "current \<in> set seen")
    case True
    with 2 show ?thesis by auto
  next
    case False
    with 2 show ?thesis by (cases "graph_get g current") auto
  qed
qed

lemma ancestors_loop_closed:
  "edge g `` set seen \<subseteq> set seen \<union> set queue \<Longrightarrow>
     edge g `` set (ancestors_loop g queue seen) \<subseteq> set (ancestors_loop g queue seen)"
proof (induction g queue seen rule: ancestors_loop.induct)
  case (1 g seen)
  then show ?case by simp
next
  case (2 g current queue seen)
  show ?case
  proof (cases "current \<in> set seen")
    case True
    with 2 show ?thesis by (auto simp: insert_absorb)
  next
    case False
    show ?thesis
    proof (cases "graph_get g current")
      case None
      then have "edge g `` set (seen @ [current]) = edge g `` set seen"
        by (simp only: Image_snoc edge_None) simp
      with 2 False None show ?thesis by auto
    next
      case (Some node)
      then have "edge g `` set (seen @ [current]) = set (node_parentIds node) \<union> edge g `` set seen"
        by (simp only: Image_snoc edge_Some)
      with 2 False Some show ?thesis by auto
    qed
  qed
qed

lemma ancestors_loop_reachable:
  "set (ancestors_loop g queue seen) \<subseteq> set seen \<union> (edge g)\<^sup>* `` set queue"
proof (induction g queue seen rule: ancestors_loop.induct)
  case (1 g seen)
  show ?case by simp
next
  case (2 g current queue seen)
  show ?case
  proof (cases "current \<in> set seen")
    case True
    with 2 show ?thesis by auto
  next
    case False
    show ?thesis
    proof (cases "graph_get g current")
      case None
      with 2 False show ?thesis by auto
    next
      case (Some node)
      define queue' where
        "queue' = rev (filter (\<lambda>p. p \<notin> set (seen @ [current])) (node_parentIds node)) @ queue"
      have "set (ancestors_loop g queue' (seen @ [current]))
          \<subseteq> set (seen @ [current]) \<union> (edge g)\<^sup>* `` set queue'"
        unfolding queue'_def by (rule 2(3) [OF False Some])
      moreover have "(edge g)\<^sup>* `` set queue' \<subseteq> (edge g)\<^sup>* `` set (current # queue)"
      proof -
        have "(edge g)\<^sup>* `` set (node_parentIds node) \<subseteq> (edge g)\<^sup>* `` {current}"
          using Some by (blast intro: converse_rtrancl_into_rtrancl edge_iff [THEN iffD2])
        then show ?thesis unfolding queue'_def by fastforce
      qed
      moreover have "ancestors_loop g (current # queue) seen = ancestors_loop g queue' (seen @ [current])"
        using False Some by (simp add: queue'_def)
      ultimately show ?thesis by auto
    qed
  qed
qed

lemma ancestors_loop_distinct: "distinct seen \<Longrightarrow> distinct (ancestors_loop g queue seen)"
  by (induction g queue seen rule: ancestors_loop.induct) (auto split: option.split)

lemma set_ancestorsOf: "set (ancestorsOf g i) = (edge g)\<^sup>* `` {i}"
proof
  show "set (ancestorsOf g i) \<subseteq> (edge g)\<^sup>* `` {i}"
    using ancestors_loop_reachable [of g "[i]" "[]"] by (simp add: ancestorsOf_def)
next
  have "edge g `` set (ancestorsOf g i) \<subseteq> set (ancestorsOf g i)"
    unfolding ancestorsOf_def by (rule ancestors_loop_closed) simp
  then have "(edge g)\<^sup>* `` set (ancestorsOf g i) = set (ancestorsOf g i)"
    by (rule Image_closed_trancl)
  moreover have "i \<in> set (ancestorsOf g i)"
    using ancestors_loop_superset [of "[]" "[i]" g] by (simp add: ancestorsOf_def)
  ultimately show "(edge g)\<^sup>* `` {i} \<subseteq> set (ancestorsOf g i)" by blast
qed

lemma ancestorsOf_mem [simp]: "j \<in> set (ancestorsOf g i) \<longleftrightarrow> (i, j) \<in> (edge g)\<^sup>*"
  by (simp add: set_ancestorsOf)

lemma ancestorsOf_distinct [simp]: "distinct (ancestorsOf g i)"
  unfolding ancestorsOf_def by (rule ancestors_loop_distinct) simp

section \<open>The early-exit search agrees with it\<close>

lemma scan_parents_None: "scan_parents a seen ps queue = None \<longleftrightarrow> a \<in> set ps"
  by (induction ps arbitrary: queue) auto

lemma scan_parents_Some:
  "scan_parents a seen ps queue = Some queue' \<Longrightarrow>
     set queue' = set queue \<union> (set ps - seen) \<and> a \<notin> set ps"
  by (induction ps arbitrary: queue) (auto split: if_splits)

lemma is_ancestor_loop_sound:
  "is_ancestor_loop g a queue seen \<Longrightarrow> \<exists>x \<in> set queue. (x, a) \<in> (edge g)\<^sup>+"
proof (induction g a queue seen rule: is_ancestor_loop.induct)
  case (1 g a seen)
  then show ?case by simp
next
  case (2 g a current queue seen)
  show ?case
  proof (cases "current \<in> set seen \<or> graph_get g current = None")
    case True
    with 2 show ?thesis by (cases "current \<in> set seen") auto
  next
    case False
    then obtain node where node: "graph_get g current = Some node" by auto
    then have step: "(current, p) \<in> edge g" if "p \<in> set (node_parentIds node)" for p
      using that by (simp add: edge_iff)
    show ?thesis
    proof (cases "scan_parents a (set (seen @ [current])) (node_parentIds node) queue")
      case None
      then show ?thesis using step by (auto simp: scan_parents_None)
    next
      case (Some queue')
      with 2 False node obtain x where x: "x \<in> set queue'" "(x, a) \<in> (edge g)\<^sup>+" by auto
      with scan_parents_Some [OF Some] step show ?thesis
        by (auto intro: trancl_into_trancl2)
    qed
  qed
qed

lemma is_ancestor_loop_complete:
  assumes "\<not> is_ancestor_loop g a queue seen"
    and "edge g `` set seen \<subseteq> set seen \<union> set queue" and "a \<notin> edge g `` set seen"
  shows "\<exists>C. set seen \<union> set queue \<subseteq> C \<and> edge g `` C \<subseteq> C \<and> a \<notin> edge g `` C"
  using assms
proof (induction g a queue seen rule: is_ancestor_loop.induct)
  case (1 g a seen)
  then show ?case by auto
next
  case (2 g a current queue seen)
  show ?case
  proof (cases "current \<in> set seen")
    case True
    have "\<exists>C. set seen \<union> set queue \<subseteq> C \<and> edge g `` C \<subseteq> C \<and> a \<notin> edge g `` C"
    proof (rule 2(1) [OF True])
      show "\<not> is_ancestor_loop g a queue seen" using 2(4) True by simp
      show "edge g `` set seen \<subseteq> set seen \<union> set queue" using 2(5) True by auto
      show "a \<notin> edge g `` set seen" by (rule 2(6))
    qed
    moreover have "set seen \<union> set (current # queue) = set seen \<union> set queue"
      using True by auto
    ultimately show ?thesis by simp
  next
    case False
    show ?thesis
    proof (cases "graph_get g current")
      case None
      then have same: "edge g `` set (seen @ [current]) = edge g `` set seen"
        by (simp only: Image_snoc edge_None) simp
      have "\<exists>C. set (seen @ [current]) \<union> set queue \<subseteq> C \<and> edge g `` C \<subseteq> C \<and> a \<notin> edge g `` C"
      proof (rule 2(2) [OF False None])
        show "\<not> is_ancestor_loop g a queue (seen @ [current])" using 2(4) False None by simp
        show "edge g `` set (seen @ [current]) \<subseteq> set (seen @ [current]) \<union> set queue"
          unfolding same using 2(5) by auto
        show "a \<notin> edge g `` set (seen @ [current])" unfolding same by (rule 2(6))
      qed
      moreover have "set seen \<union> set (current # queue) = set (seen @ [current]) \<union> set queue"
        by simp
      ultimately show ?thesis by simp
    next
      case (Some node)
      with 2(4) False obtain queue' where
        scan: "scan_parents a (set (seen @ [current])) (node_parentIds node) queue = Some queue'"
        by (cases "scan_parents a (set (seen @ [current])) (node_parentIds node) queue") auto
      note queue' = scan_parents_Some [OF scan]
      have new: "edge g `` set (seen @ [current]) = set (node_parentIds node) \<union> edge g `` set seen"
        using Some by (simp only: Image_snoc edge_Some)
      have "\<exists>C. set (seen @ [current]) \<union> set queue' \<subseteq> C \<and> edge g `` C \<subseteq> C \<and> a \<notin> edge g `` C"
      proof (rule 2(3) [OF False Some scan])
        show "\<not> is_ancestor_loop g a queue' (seen @ [current])"
          using 2(4) False Some scan by simp
        show "edge g `` set (seen @ [current]) \<subseteq> set (seen @ [current]) \<union> set queue'"
          unfolding new using 2(5) queue' by auto
        show "a \<notin> edge g `` set (seen @ [current])"
          unfolding new using 2(6) queue' by auto
      qed
      then obtain C where "set (seen @ [current]) \<union> set queue' \<subseteq> C" "edge g `` C \<subseteq> C"
        "a \<notin> edge g `` C" by blast
      with queue' show ?thesis by (intro exI [of _ C]) auto
    qed
  qed
qed

lemma closed_no_trancl:
  assumes "edge g `` C \<subseteq> C" and "x \<in> C" and "a \<notin> edge g `` C"
  shows "(x, a) \<notin> (edge g)\<^sup>+"
proof
  assume "(x, a) \<in> (edge g)\<^sup>+"
  then obtain y where "(x, y) \<in> (edge g)\<^sup>*" and "(y, a) \<in> edge g"
    by (meson tranclD2)
  moreover from this(1) assms(1,2) have "y \<in> C"
    by (induction rule: rtrancl_induct) auto
  ultimately show False using assms(3) by auto
qed

lemma isAncestor_iff [simp]: "isAncestor g a d \<longleftrightarrow> (d, a) \<in> (edge g)\<^sup>*"
proof (cases "a = d")
  case True
  then show ?thesis by (simp add: isAncestor_def)
next
  case False
  have "is_ancestor_loop g a [d] [] \<longleftrightarrow> (d, a) \<in> (edge g)\<^sup>+"
    using is_ancestor_loop_sound [of g a "[d]" "[]"] is_ancestor_loop_complete [of g a "[d]" "[]"]
      closed_no_trancl [of g _ d a] by auto
  with False show ?thesis by (auto simp: isAncestor_def rtrancl_eq_or_trancl)
qed

section \<open>Merge bases\<close>

lemma set_dominated_by:
  "set (dominated_by g c dominated) = set dominated \<union> (edge g)\<^sup>+ `` {c}"
proof (cases "graph_get g c")
  case None
  then have "(edge g)\<^sup>+ `` {c} = {}"
    by (auto simp: edge_iff dest: tranclD)
  with None show ?thesis by (simp add: dominated_by_def)
next
  case (Some node)
  have fold: "set (foldl (\<lambda>acc p. foldl set_add acc (ancestorsOf g p)) acc ps) =
      set acc \<union> (edge g)\<^sup>* `` set ps" for acc ps
    by (induction ps arbitrary: acc) (auto simp: foldl_set_add_set set_ancestorsOf)
  have "(edge g)\<^sup>+ `` {c} = (edge g)\<^sup>* `` set (node_parentIds node)"
    using Some by (auto simp: edge_iff dest!: tranclD intro: rtrancl_into_trancl2)
  with Some show ?thesis by (simp add: dominated_by_def fold)
qed

lemma set_foldl_dominated:
  "set (foldl (\<lambda>acc c. dominated_by g c acc) acc cs) = set acc \<union> (edge g)\<^sup>+ `` set cs"
  by (induction cs arbitrary: acc) (auto simp: set_dominated_by)

definition common_ancestors :: "RevisionGraph \<Rightarrow> RevisionId \<Rightarrow> RevisionId \<Rightarrow> RevisionId set" where
  "common_ancestors g a b = {c. (a, c) \<in> (edge g)\<^sup>* \<and> (b, c) \<in> (edge g)\<^sup>*}"

lemma set_findMergeBase:
  "set (findMergeBase g a b) =
     {c \<in> common_ancestors g a b. \<forall>d \<in> common_ancestors g a b. (d, c) \<notin> (edge g)\<^sup>+}"
proof -
  define common where
    "common = set_of_iterable (filter (\<lambda>i. i \<in> set (ancestorsOf g b)) (ancestorsOf g a))"
  have common: "set common = common_ancestors g a b"
    by (auto simp: common_def common_ancestors_def)
  have "set (findMergeBase g a b) =
      {c \<in> set common. c \<notin> set (foldl (\<lambda>acc c. dominated_by g c acc) [] common)}"
    unfolding findMergeBase_def Let_def common_def [symmetric] by auto
  then show ?thesis by (auto simp: common set_foldl_dominated)
qed

lemma findMergeBase_distinct: "distinct (findMergeBase g a b)"
  by (simp add: findMergeBase_def Let_def)

lemma acyclic_merge_base_exists:
  assumes "acyclic (edge g)" and "c \<in> common_ancestors g a b"
  shows "findMergeBase g a b \<noteq> []"
proof -
  have "wf ((edge g)\<^sup>+)"
    using assms(1) by (intro wf_trancl finite_acyclic_wf finite_edge)
  then obtain z where "z \<in> common_ancestors g a b"
    and "\<forall>y. (y, z) \<in> (edge g)\<^sup>+ \<longrightarrow> y \<notin> common_ancestors g a b"
    using assms(2) by (meson wfE_min)
  then have "z \<in> set (findMergeBase g a b)" by (auto simp: set_findMergeBase)
  then show ?thesis by auto
qed

section \<open>Divergence\<close>

lemma common_ancestors_sym: "common_ancestors g a b = common_ancestors g b a"
  by (auto simp: common_ancestors_def)

lemma set_findMergeBase_sym: "set (findMergeBase g a b) = set (findMergeBase g b a)"
  by (simp add: set_findMergeBase common_ancestors_sym [of g a b])

lemma findMergeBase_Nil_iff:
  "acyclic (edge g) \<Longrightarrow> findMergeBase g a b = [] \<longleftrightarrow> common_ancestors g a b = {}"
  using acyclic_merge_base_exists [of g _ a b] set_findMergeBase [of g a b] by fastforce

lemma acyclic_antisym:
  "acyclic r \<Longrightarrow> (a, b) \<in> r\<^sup>* \<Longrightarrow> (b, a) \<in> r\<^sup>* \<Longrightarrow> a = b"
  by (metis acyclic_def rtranclD rtrancl_trancl_trancl)

lemma related_common:
  "(a, b) \<in> (edge g)\<^sup>* \<Longrightarrow> common_ancestors g a b \<noteq> {}"
  by (auto simp: common_ancestors_def)

lemmas classify_simps = classifyDivergence_def Let_def findMergeBase_Nil_iff

text \<open>
  The early-exit search \<open>isAncestor\<close> and the full search \<open>ancestorsOf\<close> agree with each other
  and with reachability along declared parents, on every graph, cyclic or partial ones included;
  \<open>ancestorsOf\<close> lists each ancestor once.
\<close>

theorem ancestry_is_reachability:
  "distinct (ancestorsOf g d) \<and>
   (a \<in> set (ancestorsOf g d) \<longleftrightarrow> (d, a) \<in> (edge g)\<^sup>*) \<and>
   (isAncestor g a d \<longleftrightarrow> a \<in> set (ancestorsOf g d))"
  by simp

text \<open>
  C9: \<open>findMergeBase\<close> returns, without repetition, exactly the common ancestors that no other
  common ancestor properly descends to; on an acyclic graph it is empty only when the two
  revisions share no history at all.
\<close>

theorem findMergeBase_best_common:
  "distinct (findMergeBase g a b) \<and>
   set (findMergeBase g a b) =
     {c. c \<in> set (ancestorsOf g a) \<and> c \<in> set (ancestorsOf g b) \<and>
         (\<forall>d. d \<in> set (ancestorsOf g a) \<and> d \<in> set (ancestorsOf g b) \<longrightarrow> (d, c) \<notin> (edge g)\<^sup>+)} \<and>
   (acyclic (edge g) \<longrightarrow>
     (findMergeBase g a b = [] \<longleftrightarrow> set (ancestorsOf g a) \<inter> set (ancestorsOf g b) = {}))"
  using findMergeBase_distinct [of g a b] set_findMergeBase [of g a b]
    findMergeBase_Nil_iff [of g a b]
  by (auto simp: common_ancestors_def set_ancestorsOf)

text \<open>Two edits \<open>b\<close> and \<open>c\<close> of one root \<open>a\<close>, used by the witnesses.\<close>

definition fork_graph :: RevisionGraph where
  "fork_graph = buildGraph
     [\<lparr>node_id = ''a'', node_parentIds = []\<rparr>, \<lparr>node_id = ''b'', node_parentIds = [''a'']\<rparr>,
      \<lparr>node_id = ''c'', node_parentIds = [''a'']\<rparr>]"

lemma fork_graph_eq:
  "fork_graph =
     [(''a'', \<lparr>node_id = ''a'', node_parentIds = []\<rparr>),
      (''b'', \<lparr>node_id = ''b'', node_parentIds = [''a'']\<rparr>),
      (''c'', \<lparr>node_id = ''c'', node_parentIds = [''a'']\<rparr>)]"
  by (simp add: fork_graph_def buildGraph_def)

lemma edge_fork_graph: "edge fork_graph = {(''b'', ''a''), (''c'', ''a'')}"
  by (auto simp: edge_def graph_get_def fork_graph_eq split: if_splits)

lemma acyclic_fork_graph: "acyclic (edge fork_graph)"
proof -
  have "wf (edge fork_graph)"
    by (rule wf_subset [of "measure (\<lambda>s. if s = ''a'' then 1 else 0)"])
      (auto simp: edge_fork_graph)
  then show ?thesis by (rule wf_acyclic)
qed

lemma classify_fork_graph:
  "classifyDivergence fork_graph ''b'' ''c'' = Diverged [''a'']"
  "classifyDivergence fork_graph ''b'' ''a'' = LocalAhead"
  by (simp_all del: isAncestor_iff add: isAncestor_def classifyDivergence_def graph_get_def
      fork_graph_eq findMergeBase_def ancestorsOf_def dominated_by_def set_of_iterable_def
      set_add_def)

lemma findMergeBase_fork_graph: "findMergeBase fork_graph ''b'' ''c'' = [''a'']"
  by (simp add: findMergeBase_def ancestorsOf_def graph_get_def fork_graph_eq dominated_by_def
      set_of_iterable_def set_add_def)

theorem findMergeBase_best_common_witness:
  "acyclic (edge fork_graph) \<and> findMergeBase fork_graph ''b'' ''c'' = [''a''] \<and>
   set (ancestorsOf fork_graph ''b'') \<inter> set (ancestorsOf fork_graph ''c'') \<noteq> {}"
  using findMergeBase_best_common [of fork_graph "''b''" "''c''"] acyclic_fork_graph
    findMergeBase_fork_graph by simp

text \<open>
  C8: On an acyclic graph the classification of two heads is decided by reachability: equal heads,
  a remote head behind the local one, a local head behind the remote one, no shared history at
  all, and otherwise a fork whose reported merge bases are a non-empty list of best common
  ancestors.
\<close>

theorem classifyDivergence_correct:
  assumes "acyclic (edge g)"
  shows "(classifyDivergence g l r = Equal \<longleftrightarrow> l = r) \<and>
    (classifyDivergence g l r = LocalAhead \<longleftrightarrow> l \<noteq> r \<and> (l, r) \<in> (edge g)\<^sup>*) \<and>
    (classifyDivergence g l r = RemoteAhead \<longleftrightarrow> l \<noteq> r \<and> (r, l) \<in> (edge g)\<^sup>*) \<and>
    (classifyDivergence g l r = Unrelated \<longleftrightarrow>
       set (ancestorsOf g l) \<inter> set (ancestorsOf g r) = {}) \<and>
    (\<forall>bases. classifyDivergence g l r = Diverged bases \<longleftrightarrow>
       (l, r) \<notin> (edge g)\<^sup>* \<and> (r, l) \<notin> (edge g)\<^sup>* \<and>
       set (ancestorsOf g l) \<inter> set (ancestorsOf g r) \<noteq> {} \<and>
       bases = findMergeBase g l r)"
proof -
  have common: "set (ancestorsOf g l) \<inter> set (ancestorsOf g r) = common_ancestors g l r"
    by (auto simp: common_ancestors_def)
  show ?thesis
    unfolding common using acyclic_antisym [OF assms, of l r] related_common [of l r g]
      related_common [of r l g] common_ancestors_sym [of g l r]
    by (auto simp: classify_simps assms)
qed

theorem classifyDivergence_correct_witness:
  "acyclic (edge fork_graph) \<and>
   classifyDivergence fork_graph ''b'' ''c'' = Diverged [''a''] \<and>
   classifyDivergence fork_graph ''b'' ''a'' = LocalAhead"
  using classifyDivergence_correct [OF acyclic_fork_graph, of "''b''" "''c''"]
    classify_fork_graph acyclic_fork_graph by simp

text \<open>
  The two ends of a session reach mirrored verdicts. Exchanging the two heads turns "local
  ahead" into "remote ahead" and back, and leaves "equal", "unrelated" and "diverged" in place
  with the same set of merge bases.
\<close>

theorem classifyDivergence_mirror:
  assumes "acyclic (edge g)"
  shows "case classifyDivergence g l r of
      Equal \<Rightarrow> classifyDivergence g r l = Equal
    | LocalAhead \<Rightarrow> classifyDivergence g r l = RemoteAhead
    | RemoteAhead \<Rightarrow> classifyDivergence g r l = LocalAhead
    | Diverged bases \<Rightarrow> (\<exists>bases'. classifyDivergence g r l = Diverged bases' \<and> set bases' = set bases)
    | Unrelated \<Rightarrow> classifyDivergence g r l = Unrelated"
  using acyclic_antisym [OF assms, of l r] set_findMergeBase_sym [of g l r]
    common_ancestors_sym [of g l r]
  by (auto simp: classify_simps assms)

theorem classifyDivergence_mirror_witness:
  "classifyDivergence fork_graph ''b'' ''a'' = LocalAhead \<and>
   classifyDivergence fork_graph ''a'' ''b'' = RemoteAhead"
  using classifyDivergence_mirror [OF acyclic_fork_graph, where l = "''b''" and r = "''a''"]
    classify_fork_graph by simp

end
