(* ===== verification/Dag_Topology.thy ===== *)
theory Dag_Topology
  imports Dag_Ancestry
begin

text \<open>
  The explicit-stack depth-first search of \<open>topologicalOrder\<close> (packages/core/src/dag.ts) is
  proved correct through an invariant of its stack: frames already expanded form a path, nothing
  above an expanded frame repeats its id, and the parents of an expanded frame are done or wait
  above it. From it: the order is a permutation of the target with parents first, and the
  search throws exactly on a cycle inside the target. \<open>missingRevisions\<close> and
  \<open>validateRemoteGraph\<close> inherit both.
\<close>

section \<open>The stack invariant\<close>

definition target_edge :: "RevisionGraph \<Rightarrow> RevisionId set \<Rightarrow> (RevisionId \<times> RevisionId) set" where
  "target_edge g T = {(x, p) \<in> edge g. x \<in> T \<and> p \<in> T}"

text \<open>Every element of the list has its target parents among the elements before it.\<close>

definition parents_first ::
    "RevisionGraph \<Rightarrow> RevisionId set \<Rightarrow> RevisionId list \<Rightarrow> bool" where
  "parents_first g T xs \<longleftrightarrow>
     (\<forall>as x bs. xs = as @ x # bs \<longrightarrow> target_edge g T `` {x} \<subseteq> set as)"

definition path_frames ::
    "RevisionGraph \<Rightarrow> RevisionId set \<Rightarrow> RevisionId set \<Rightarrow> frame list \<Rightarrow> bool" where
  "path_frames g T dn stack \<longleftrightarrow>
     (\<forall>above x below. stack = above @ (x, True) # below \<longrightarrow>
        x \<notin> dn \<and> x \<notin> fst ` set above \<and>
        (\<forall>y \<in> fst ` set above. (x, y) \<in> (target_edge g T)\<^sup>+) \<and>
        target_edge g T `` {x} \<subseteq> dn \<union> fst ` set above)"

definition topo_inv ::
    "RevisionGraph \<Rightarrow> RevisionId set \<Rightarrow> frame list \<Rightarrow> topo_state \<Rightarrow> bool" where
  "topo_inv g T stack s \<longleftrightarrow>
     set (ordered s) = done_ids s \<and> distinct (ordered s) \<and> done_ids s \<subseteq> T \<and>
     parents_first g T (ordered s) \<and>
     fst ` set stack \<subseteq> T \<and> onStack s = {x. (x, True) \<in> set stack} \<and>
     path_frames g T (done_ids s) stack"

lemma parents_first_snoc:
  assumes "parents_first g T xs" and "target_edge g T `` {x} \<subseteq> set xs"
  shows "parents_first g T (xs @ [x])"
proof -
  have "target_edge g T `` {y} \<subseteq> set as" if "xs @ [x] = as @ y # bs" for as y bs
  proof (cases bs rule: rev_cases)
    case Nil
    with that assms(2) show ?thesis by simp
  next
    case (snoc bs' z)
    with that have "xs = as @ y # bs'" by simp
    with assms(1) show ?thesis by (auto simp: parents_first_def)
  qed
  then show ?thesis by (auto simp: parents_first_def)
qed

lemma path_framesD:
  assumes "path_frames g T dn stack" and "stack = upper @ (x, True) # below"
  shows "x \<notin> dn \<and> x \<notin> fst ` set upper \<and>
    (\<forall>y \<in> fst ` set upper. (x, y) \<in> (target_edge g T)\<^sup>+) \<and>
    target_edge g T `` {x} \<subseteq> dn \<union> fst ` set upper"
  using assms unfolding path_frames_def by blast

lemma path_frames_Cons:
  assumes "path_frames g T dn (f # stack)" and "fst f \<in> dn"
  shows "path_frames g T dn stack"
  unfolding path_frames_def
proof (intro allI impI)
  fix above x below
  assume "stack = above @ (x, True) # below"
  then have "f # stack = (f # above) @ (x, True) # below" by simp
  from path_framesD [OF assms(1) this] assms(2)
  show "x \<notin> dn \<and> x \<notin> fst ` set above \<and>
      (\<forall>y \<in> fst ` set above. (x, y) \<in> (target_edge g T)\<^sup>+) \<and>
      target_edge g T `` {x} \<subseteq> dn \<union> fst ` set above" by auto
qed

lemma path_frames_mono_done:
  assumes "path_frames g T dn ((x, e) # stack)"
  shows "path_frames g T (insert x dn) stack"
  unfolding path_frames_def
proof (intro allI impI)
  fix above y below
  assume "stack = above @ (y, True) # below"
  then have "(x, e) # stack = ((x, e) # above) @ (y, True) # below" by simp
  from path_framesD [OF assms this]
  show "y \<notin> insert x dn \<and> y \<notin> fst ` set above \<and>
      (\<forall>z \<in> fst ` set above. (y, z) \<in> (target_edge g T)\<^sup>+) \<and>
      target_edge g T `` {y} \<subseteq> insert x dn \<union> fst ` set above" by auto
qed

lemma path_frames_top:
  "path_frames g T dn ((x, True) # stack) \<Longrightarrow> x \<notin> dn \<and> target_edge g T `` {x} \<subseteq> dn"
  unfolding path_frames_def by (force dest: spec [of _ "[]"])

lemma path_frames_no_repeat:
  assumes "path_frames g T dn ((x, False) # stack)"
  shows "(x, True) \<notin> set stack"
proof
  assume "(x, True) \<in> set stack"
  then obtain above below where "stack = above @ (x, True) # below" by (meson split_list)
  then have "(x, False) # stack = ((x, False) # above) @ (x, True) # below" by simp
  from path_framesD [OF assms this] show False by simp
qed

lemma path_frames_reach:
  assumes "path_frames g T dn ((x, e) # stack)" and "(p, True) \<in> set stack"
  shows "(p, x) \<in> (target_edge g T)\<^sup>+"
proof -
  from assms(2) obtain above below where "stack = above @ (p, True) # below" by (meson split_list)
  then have "(x, e) # stack = ((x, e) # above) @ (p, True) # below" by simp
  from path_framesD [OF assms(1) this] show ?thesis by simp
qed

lemma path_frames_expand:
  assumes inv: "path_frames g T dn ((x, False) # stack)" and "x \<notin> dn"
    and pushed: "\<And>p e. (p, e) \<in> set pushed \<Longrightarrow> \<not> e \<and> (x, p) \<in> target_edge g T \<and> p \<noteq> x \<and> (p, True) \<notin> set stack"
    and complete: "target_edge g T `` {x} \<subseteq> dn \<union> fst ` set pushed"
  shows "path_frames g T dn (pushed @ (x, True) # stack)"
  unfolding path_frames_def
proof (intro allI impI)
  fix above y below
  assume split: "pushed @ (x, True) # stack = above @ (y, True) # below"
  have "(y, True) \<notin> set pushed" using pushed by blast
  then consider (top) "above = pushed" "y = x" "below = stack"
    | (below) above' where "above = pushed @ (x, True) # above'" "stack = above' @ (y, True) # below"
    using split by (auto simp: append_eq_append_conv2 append_eq_Cons_conv Cons_eq_append_conv)
  then show "y \<notin> dn \<and> y \<notin> fst ` set above \<and>
      (\<forall>z \<in> fst ` set above. (y, z) \<in> (target_edge g T)\<^sup>+) \<and>
      target_edge g T `` {y} \<subseteq> dn \<union> fst ` set above"
  proof cases
    case top
    with assms show ?thesis by fastforce
  next
    case below
    then have "(x, False) # stack = ((x, False) # above') @ (y, True) # below" by simp
    note y = path_framesD [OF inv this]
    then have "(y, p) \<in> (target_edge g T)\<^sup>+" if "(p, e) \<in> set pushed" for p e
      using pushed [OF that] by (auto intro: trancl_into_trancl)
    then have "\<forall>z \<in> fst ` set pushed. (y, z) \<in> (target_edge g T)\<^sup>+" by auto
    moreover have "y \<notin> fst ` set pushed"
    proof
      assume "y \<in> fst ` set pushed"
      then obtain e where "(y, e) \<in> set pushed" by auto
      with pushed have "(y, True) \<notin> set stack" by blast
      with below show False by simp
    qed
    moreover have ids: "fst ` set above = fst ` set pushed \<union> fst ` set ((x, False) # above')"
      by (simp add: below(1) image_Un)
    ultimately show ?thesis unfolding ids using y by (simp add: ball_Un) blast
  qed
qed

section \<open>Each step keeps the invariant\<close>

lemma topo_inv_pop:
  assumes "topo_inv g T ((x, e) # stack) s" and "x \<in> done_ids s"
  shows "topo_inv g T stack (s\<lparr>onStack := onStack s - {x}\<rparr>)"
proof -
  have path: "path_frames g T (done_ids s) stack"
    using assms path_frames_Cons by (fastforce simp: topo_inv_def)
  have "(x, True) \<notin> set ((x, e) # stack)"
    using assms split_list [of "(x, True)" "(x, e) # stack"]
    by (fastforce simp: topo_inv_def path_frames_def)
  then show ?thesis using assms path by (auto simp: topo_inv_def)
qed

lemma topo_inv_finish:
  assumes "topo_inv g T ((x, True) # stack) s"
  shows "topo_inv g T stack (s\<lparr>onStack := onStack s - {x}, done_ids := insert x (done_ids s),
    ordered := ordered s @ [x]\<rparr>)"
proof -
  from assms have path: "path_frames g T (done_ids s) ((x, True) # stack)"
    by (simp add: topo_inv_def)
  note top = path_frames_top [OF this]
  have "(x, True) \<notin> set stack"
  proof
    assume "(x, True) \<in> set stack"
    then obtain above below where "stack = above @ (x, True) # below" by (meson split_list)
    then have "(x, True) # stack = ((x, True) # above) @ (x, True) # below" by simp
    from path_framesD [OF path this] show False by simp
  qed
  moreover have "parents_first g T (ordered s @ [x])"
    using assms top by (intro parents_first_snoc) (auto simp: topo_inv_def)
  moreover have "onStack s - {x} = {y. (y, True) \<in> set stack}"
    using assms \<open>(x, True) \<notin> set stack\<close> by (auto simp: topo_inv_def)
  ultimately show ?thesis
    using assms top path_frames_mono_done [OF path] by (simp add: topo_inv_def)
qed

lemma topo_inv_expand:
  assumes inv: "topo_inv g T ((x, False) # stack) s" and "x \<notin> done_ids s"
    and pushed: "\<And>p e. (p, e) \<in> set pushed \<Longrightarrow> \<not> e \<and> (x, p) \<in> target_edge g T \<and> p \<notin> insert x (onStack s)"
    and complete: "target_edge g T `` {x} \<subseteq> done_ids s \<union> fst ` set pushed"
  shows "topo_inv g T (pushed @ (x, True) # stack) (s\<lparr>onStack := insert x (onStack s)\<rparr>)"
proof -
  have "path_frames g T (done_ids s) (pushed @ (x, True) # stack)"
  proof (rule path_frames_expand)
    show "path_frames g T (done_ids s) ((x, False) # stack)" using inv by (simp add: topo_inv_def)
    show "x \<notin> done_ids s" by (rule assms(2))
    show "\<not> e \<and> (x, p) \<in> target_edge g T \<and> p \<noteq> x \<and> (p, True) \<notin> set stack"
      if "(p, e) \<in> set pushed" for p e
      using pushed [OF that] inv by (auto simp: topo_inv_def)
    show "target_edge g T `` {x} \<subseteq> done_ids s \<union> fst ` set pushed" by (rule complete)
  qed
  moreover have "fst ` set pushed \<subseteq> T"
    using pushed by (fastforce simp: target_edge_def)
  moreover have "insert x (onStack s) = {y. (y, True) \<in> set (pushed @ (x, True) # stack)}"
    using inv pushed by (auto simp: topo_inv_def)
  ultimately show ?thesis using inv by (auto simp: topo_inv_def)
qed

lemma target_edge_parents:
  "graph_get g x = Some node \<Longrightarrow> x \<in> T \<Longrightarrow> target_edge g T `` {x} = set (node_parentIds node) \<inter> T"
  by (auto simp: target_edge_def edge_iff)

lemma target_edge_undefined: "graph_get g x = None \<Longrightarrow> target_edge g T `` {x} = {}"
  by (auto simp: target_edge_def edge_iff)

section \<open>The loop\<close>

lemma topo_loop_correct:
  assumes "topo_inv g (set target) stack s"
  shows "case topo_loop g target stack s of
      Inl e \<Rightarrow> \<not> acyclic (target_edge g (set target))
    | Inr s' \<Rightarrow> topo_inv g (set target) [] s' \<and> done_ids s \<union> fst ` set stack \<subseteq> done_ids s'"
  using assms
proof (induction g target stack s rule: topo_loop.induct)
  case (1 g target s)
  then show ?case by simp
next
  case (2 g target x expanded stack s)
  let ?T = "set target"
  note inv = 2(5)
  have xT: "x \<in> ?T" using inv by (simp add: topo_inv_def)
  consider (pop) "x \<in> done_ids s" | (finish) "x \<notin> done_ids s" expanded
    | (undefined) "x \<notin> done_ids s" "\<not> expanded" "graph_get g x = None"
    | (expand) node where "x \<notin> done_ids s" "\<not> expanded" "graph_get g x = Some node"
    by (cases "graph_get g x") auto
  then show ?case
  proof cases
    case pop
    have "topo_inv g ?T stack (s\<lparr>onStack := onStack s - {x}\<rparr>)"
      using inv pop by (rule topo_inv_pop)
    from 2(1) [OF pop this] pop show ?thesis by (auto split: sum.splits)
  next
    case finish
    have "topo_inv g ?T stack (s\<lparr>onStack := onStack s - {x}, done_ids := insert x (done_ids s),
        ordered := ordered s @ [x]\<rparr>)"
      using inv finish by (intro topo_inv_finish) simp
    from 2(2) [OF finish this] finish show ?thesis by (auto split: sum.splits)
  next
    case undefined
    have "topo_inv g ?T ([] @ (x, True) # stack) (s\<lparr>onStack := insert x (onStack s)\<rparr>)"
      using inv undefined target_edge_undefined [of g x ?T] by (intro topo_inv_expand) auto
    then have "topo_inv g ?T ((x, True) # stack) (s\<lparr>onStack := insert x (onStack s)\<rparr>)" by simp
    from 2(3) [OF undefined this] undefined show ?thesis by (auto split: sum.splits)
  next
    case (expand node)
    note parents = target_edge_parents [OF expand(3) xT]
    let ?push = "push_parents ?T (done_ids s) (insert x (onStack s)) (node_parentIds node) ((x, True) # stack)"
    show ?thesis
    proof (cases ?push)
      case (Inl e)
      from push_parents_Inl [OF this] obtain p where p: "p \<in> set (node_parentIds node)" "p \<in> ?T"
        "p \<in> insert x (onStack s)" by blast
      then have step: "(x, p) \<in> target_edge g ?T" using parents by blast
      have "(p, p) \<in> (target_edge g ?T)\<^sup>+"
      proof (cases "p = x")
        case True
        with step show ?thesis by auto
      next
        case False
        with p inv have "(p, True) \<in> set stack" by (auto simp: topo_inv_def)
        moreover have "path_frames g ?T (done_ids s) ((x, expanded) # stack)"
          using inv by (simp add: topo_inv_def)
        ultimately have "(p, x) \<in> (target_edge g ?T)\<^sup>+" by (rule path_frames_reach [rotated])
        from this step show ?thesis by (rule trancl_into_trancl)
      qed
      then have "\<not> acyclic (target_edge g ?T)" by (auto simp: acyclic_def)
      with Inl expand show ?thesis by simp
    next
      case (Inr stack')
      from push_parents_Inr [OF this] obtain pushed where stack': "stack' = pushed @ (x, True) # stack"
        and pushed: "set pushed = {(p, False) |p. p \<in> set (node_parentIds node) \<and> p \<in> ?T \<and> p \<notin> done_ids s}"
        and fresh: "\<forall>(p, e) \<in> set pushed. p \<notin> insert x (onStack s)" by blast
      have "topo_inv g ?T stack' (s\<lparr>onStack := insert x (onStack s)\<rparr>)"
        unfolding stack'
      proof (rule topo_inv_expand)
        show "topo_inv g ?T ((x, False) # stack) s" using inv expand by simp
        show "\<not> e \<and> (x, p) \<in> target_edge g ?T \<and> p \<notin> insert x (onStack s)" if "(p, e) \<in> set pushed" for p e
          using that pushed fresh parents by blast
        show "target_edge g ?T `` {x} \<subseteq> done_ids s \<union> fst ` set pushed"
          unfolding parents pushed by force
      qed (rule expand(1))
      from 2(4) [OF expand Inr this] expand Inr show ?thesis
        by (auto simp: stack' split: sum.splits)
    qed
  qed
qed

lemma topo_starts_correct:
  assumes "topo_inv g (set target) [] s" and "set starts \<subseteq> set target"
  shows "case topo_starts g target starts s of
      Inl e \<Rightarrow> \<not> acyclic (target_edge g (set target))
    | Inr s' \<Rightarrow> topo_inv g (set target) [] s' \<and> done_ids s \<union> set starts \<subseteq> done_ids s'"
  using assms
proof (induction starts arbitrary: s)
  case Nil
  then show ?case by simp
next
  case (Cons x starts)
  show ?case
  proof (cases "x \<in> done_ids s")
    case True
    with Cons.IH [OF Cons.prems(1)] Cons.prems(2) show ?thesis by (auto split: sum.splits)
  next
    case False
    have "topo_inv g (set target) [(x, False)] s"
      using Cons.prems by (auto simp: topo_inv_def path_frames_def Cons_eq_append_conv)
    note loop = topo_loop_correct [OF this]
    show ?thesis
    proof (cases "topo_loop g target [(x, False)] s")
      case (Inl e)
      with loop False show ?thesis by simp
    next
      case (Inr s')
      with loop have "topo_inv g (set target) [] s'" and more: "done_ids s \<union> {x} \<subseteq> done_ids s'"
        by auto
      from Cons.IH [OF this(1)] Cons.prems(2) more False Inr show ?thesis
        by (auto split: sum.splits)
    qed
  qed
qed

lemma parents_first_acyclic:
  assumes "parents_first g T xs" and "set xs = T" and "distinct xs"
  shows "acyclic (target_edge g T)"
proof -
  define pos where "pos x = length (takeWhile (\<lambda>y. y \<noteq> x) xs)" for x
  have "pos p < pos x" if e: "(x, p) \<in> target_edge g T" for x p
  proof -
    have "x \<in> set xs" using e assms(2) by (auto simp: target_edge_def)
    then obtain as bs where xs: "xs = as @ x # bs" "x \<notin> set as" by (meson split_list_first)
    with assms(1) e have "p \<in> set as" by (auto simp: parents_first_def)
    then obtain as1 as2 where "as = as1 @ p # as2" "p \<notin> set as1" by (meson split_list_first)
    with xs show ?thesis by (auto simp: pos_def takeWhile_append)
  qed
  then have "(target_edge g T)\<inverse> \<subseteq> measure pos" by auto
  then have "wf ((target_edge g T)\<inverse>)" by (rule wf_subset [OF wf_measure])
  then have "acyclic ((target_edge g T)\<inverse>)" by (rule wf_acyclic)
  then show ?thesis by simp
qed

lemma topologicalOrder_cases:
  "case topologicalOrder g ids of
     Inl e \<Rightarrow> \<not> acyclic (target_edge g (set ids))
   | Inr xs \<Rightarrow> distinct xs \<and> set xs = set ids \<and> parents_first g (set ids) xs \<and>
       acyclic (target_edge g (set ids))"
proof -
  let ?target = "set_of_iterable ids"
  let ?s0 = "\<lparr>ordered = [], done_ids = {}, onStack = {}\<rparr>"
  have "topo_inv g (set ?target) [] ?s0"
    by (simp add: topo_inv_def parents_first_def path_frames_def)
  from topo_starts_correct [OF this subset_refl] show ?thesis
    using parents_first_acyclic [of g "set ids"]
    by (auto simp: topologicalOrder_def Let_def topo_inv_def split: sum.splits)
qed

section \<open>Cycles live among defined revisions\<close>

lemma edge_trancl_defined:
  assumes "(x, y) \<in> (edge g)\<^sup>+" and "graph_has g y" and "\<And>i. graph_has g i \<Longrightarrow> i \<in> T"
  shows "(x, y) \<in> (target_edge g T)\<^sup>+"
  using assms(1,2)
proof (induction rule: trancl_induct)
  case (base y)
  then show ?case
    using assms(3) by (intro r_into_trancl) (auto simp: target_edge_def edge_iff graph_has_iff)
next
  case (step y z)
  then have "graph_has g y" by (auto simp: edge_iff graph_has_iff)
  moreover from this step have "(y, z) \<in> target_edge g T"
    using assms(3) by (auto simp: target_edge_def)
  ultimately show ?case using step.IH by (auto intro: trancl_into_trancl)
qed

lemma acyclic_target_edge_all:
  assumes "\<And>i. graph_has g i \<Longrightarrow> i \<in> T"
  shows "acyclic (target_edge g T) \<longleftrightarrow> acyclic (edge g)"
proof
  assume acyc: "acyclic (target_edge g T)"
  show "acyclic (edge g)"
    unfolding acyclic_def
  proof (intro allI notI)
    fix x
    assume cycle: "(x, x) \<in> (edge g)\<^sup>+"
    then have "graph_has g x" by (auto simp: edge_iff graph_has_iff dest!: tranclD)
    with cycle assms have "(x, x) \<in> (target_edge g T)\<^sup>+" by (intro edge_trancl_defined)
    with acyc show False by (simp add: acyclic_def)
  qed
next
  assume "acyclic (edge g)"
  then show "acyclic (target_edge g T)"
    by (rule acyclic_subset) (auto simp: target_edge_def)
qed

lemma acyclic_target_edge: "acyclic (edge g) \<Longrightarrow> acyclic (target_edge g T)"
  by (rule acyclic_subset) (auto simp: target_edge_def)

lemma parents_firstD:
  assumes "parents_first g T xs" and "xs = as @ x # bs" and "(x, p) \<in> edge g" and "x \<in> T" and "p \<in> T"
  shows "p \<in> set as"
proof -
  have "target_edge g T `` {x} \<subseteq> set as"
    using assms(1,2) unfolding parents_first_def by blast
  with assms(3-) show ?thesis by (auto simp: target_edge_def)
qed

section \<open>Properties of the order\<close>

text \<open>
  C36: A returned order lists every requested revision exactly once, and every parent that was
  also requested stands before its child.
\<close>

theorem topologicalOrder_parents_first:
  assumes "topologicalOrder g ids = Inr xs"
  shows "distinct xs \<and> set xs = set ids \<and>
    (\<forall>as x bs p. xs = as @ x # bs \<and> p \<in> set ids \<and> (x, p) \<in> edge g \<longrightarrow> p \<in> set as)"
proof -
  from topologicalOrder_cases [of g ids] assms
  have xs: "distinct xs" "set xs = set ids" "parents_first g (set ids) xs" by simp_all
  have "p \<in> set as" if "xs = as @ x # bs" "p \<in> set ids" "(x, p) \<in> edge g" for as x bs p
    by (rule parents_firstD [OF xs(3) that(1,3) _ that(2)]) (use xs(2) that(1) in auto)
  with xs show ?thesis by blast
qed

theorem topologicalOrder_parents_first_witness:
  "topologicalOrder fork_graph [''c'', ''b'', ''a''] = Inr [''a'', ''c'', ''b''] \<and>
   distinct [''a'', ''c'', ''b'']"
proof -
  have "topologicalOrder fork_graph [''c'', ''b'', ''a''] = Inr [''a'', ''c'', ''b'']"
    by (simp add: topologicalOrder_def set_of_iterable_def set_add_def graph_get_def fork_graph_eq)
  then show ?thesis using topologicalOrder_parents_first by blast
qed

text \<open>
  \<open>topologicalOrder\<close> throws exactly when the requested revisions contain a cycle, so a cyclic
  history is always refused and an acyclic one never is.
\<close>

theorem topologicalOrder_throws_iff_cycle:
  "(\<exists>e. topologicalOrder g ids = Inl e) \<longleftrightarrow>
   \<not> acyclic {(x, p). (x, p) \<in> edge g \<and> x \<in> set ids \<and> p \<in> set ids}"
proof -
  have "{(x, p). (x, p) \<in> edge g \<and> x \<in> set ids \<and> p \<in> set ids} = target_edge g (set ids)"
    by (auto simp: target_edge_def)
  then show ?thesis
    using topologicalOrder_cases [of g ids] by (auto split: sum.splits)
qed

lemma topologicalOrder_acyclic:
  assumes "acyclic (edge g)"
  obtains xs where "topologicalOrder g ids = Inr xs" "distinct xs" "set xs = set ids"
    "parents_first g (set ids) xs"
  using topologicalOrder_cases [of g ids] acyclic_target_edge [OF assms, of "set ids"]
  by (auto split: sum.splits)

text \<open>
  C4: For an acyclic history summary \<open>missingRevisions\<close> succeeds and returns, without repetition,
  exactly the revisions behind the remote head that the summary defines and this device does not
  hold; requesting them in that order, every parent the summary defines is held already or
  requested earlier.
\<close>

theorem missingRevisions_exact:
  assumes "acyclic (edge remote)"
  shows "\<exists>xs. missingRevisions remote head held = Inr xs \<and> distinct xs \<and>
    set xs = {i. (head, i) \<in> (edge remote)\<^sup>* \<and> graph_has remote i \<and> \<not> held i} \<and>
    (\<forall>as x bs p. xs = as @ x # bs \<and> (x, p) \<in> edge remote \<and> graph_has remote p \<longrightarrow>
       held p \<or> p \<in> set as)"
proof -
  let ?wanted = "filter (\<lambda>i. \<not> held i \<and> graph_has remote i) (ancestorsOf remote head)"
  obtain xs where xs: "topologicalOrder remote ?wanted = Inr xs" "distinct xs"
    "set xs = set ?wanted" "parents_first remote (set ?wanted) xs"
    using topologicalOrder_acyclic [OF assms] .
  have "held p \<or> p \<in> set as"
    if split: "xs = as @ x # bs" and e: "(x, p) \<in> edge remote" and p: "graph_has remote p" for as x bs p
  proof -
    have "x \<in> set ?wanted" using xs(3) split by auto
    then have "(head, p) \<in> (edge remote)\<^sup>*" using e by auto
    then have "held p \<or> p \<in> set ?wanted" using p by auto
    moreover have "p \<in> set as" if "p \<in> set ?wanted"
      by (rule parents_firstD [OF xs(4) split e \<open>x \<in> set ?wanted\<close> that])
    ultimately show ?thesis by blast
  qed
  with xs show ?thesis by (auto simp: missingRevisions_def Let_def)
qed

theorem missingRevisions_exact_witness:
  "acyclic (edge fork_graph) \<and>
   (\<exists>xs. missingRevisions fork_graph ''b'' (\<lambda>i. i = ''a'') = Inr xs \<and> set xs \<subseteq> {i. i \<noteq> ''a''})"
  using missingRevisions_exact [OF acyclic_fork_graph, of "''b''" "\<lambda>i. i = ''a''"]
    acyclic_fork_graph by auto

section \<open>Validating a peer's history\<close>

lemma check_unrepeated_Inr:
  "check_unrepeated nodes seen = Inr seen' \<Longrightarrow> distinct seen \<Longrightarrow>
     distinct (seen @ map node_id nodes) \<and> set seen' = set seen \<union> node_id ` set nodes"
proof (induction nodes arbitrary: seen)
  case Nil
  then show ?case by simp
next
  case (Cons n nodes)
  then have "node_id n \<notin> set seen" and "check_unrepeated nodes (seen @ [node_id n]) = Inr seen'"
    by (simp_all add: set_add_def split: if_splits)
  with Cons.IH [of "seen @ [node_id n]"] Cons.prems(2) show ?case by auto
qed

lemma check_unrepeated_Inl:
  "check_unrepeated nodes seen = Inl e \<Longrightarrow> \<not> distinct (seen @ map node_id nodes)"
proof (induction nodes arbitrary: seen)
  case Nil
  then show ?case by simp
next
  case (Cons n nodes)
  show ?case
  proof (cases "node_id n \<in> set seen")
    case True
    then show ?thesis by simp
  next
    case False
    with Cons.prems have "check_unrepeated nodes (seen @ [node_id n]) = Inl e"
      by (simp add: set_add_def)
    from Cons.IH [OF this] show ?thesis by auto
  qed
qed

lemma graph_has_buildGraph: "graph_has (buildGraph ns) i \<longleftrightarrow> i \<in> node_id ` set ns"
proof
  assume "graph_has (buildGraph ns) i"
  then show "i \<in> node_id ` set ns"
    by (auto simp: graph_has_iff dest!: graph_get_buildGraph_Some)
next
  assume "i \<in> node_id ` set ns"
  then have "find (\<lambda>n. node_id n = i) (rev ns) \<noteq> None" by (auto simp: find_None_iff)
  then show "graph_has (buildGraph ns) i" by (auto simp: graph_has_iff graph_get_buildGraph)
qed

lemma validateRemoteGraph_iff:
  "validateRemoteGraph nodes = Inr () \<longleftrightarrow>
   distinct (map node_id nodes) \<and> acyclic (edge (buildGraph nodes))"
proof (cases "check_unrepeated nodes []")
  case (Inl e)
  then show ?thesis using check_unrepeated_Inl [OF Inl] by (simp add: validateRemoteGraph_def)
next
  case (Inr seen)
  from check_unrepeated_Inr [OF Inr] have d: "distinct (map node_id nodes)"
    and seen: "set seen = node_id ` set nodes" by simp_all
  have "acyclic (target_edge (buildGraph nodes) (set seen)) \<longleftrightarrow> acyclic (edge (buildGraph nodes))"
    by (rule acyclic_target_edge_all) (simp add: graph_has_buildGraph seen)
  then show ?thesis
    using topologicalOrder_cases [of "buildGraph nodes" seen] Inr d
    by (auto simp: validateRemoteGraph_def split: sum.splits)
qed

text \<open>
  \<open>validateRemoteGraph\<close> accepts a peer's history exactly when no revision id is repeated and
  the history is acyclic; everything else is thrown out before it can reach storage.
\<close>

theorem validateRemoteGraph_accepts_iff:
  "validateRemoteGraph nodes = Inr () \<longleftrightarrow>
   distinct (map node_id nodes) \<and> acyclic (edge (buildGraph nodes))"
  by (rule validateRemoteGraph_iff)

end
