(* ===== verification/Revision_Model.thy ===== *)
theory Revision_Model
  imports Revision_Dag
begin

text \<open>
  The domain records of packages/core/src/model.ts and the pure operations on them: the
  revision constructors of lineage.ts, head moves and bookmarks of revisions.ts, the conflict
  state machine of conflicts.ts and the transfer records of transfers.ts. A failed \<open>assert\<close> is
  \<open>Inl (ContractViolation _)\<close>; an absent optional field is \<open>None\<close>.
\<close>

section \<open>model.ts\<close>

datatype RevisionOperation = Imported | Received | Merged | Restored | LocalChange

record Revision =
  rev_id :: RevisionId
  rev_vaultId :: VaultId
  rev_hash :: Sha256Hex
  rev_sizeBytes :: int
  rev_createdAt :: Date
  rev_originDeviceId :: "DeviceId option"
  rev_parentIds :: "RevisionId list"
  rev_operation :: RevisionOperation
  rev_message :: "string option"

record Vault =
  vault_id :: VaultId
  vault_name :: string
  vault_headRevisionId :: "RevisionId option"
  vault_kdbxPath :: "string option"
  vault_createdAt :: Date

record Bookmark =
  bm_id :: BookmarkId
  bm_vaultId :: VaultId
  bm_revisionId :: RevisionId
  bm_message :: string
  bm_createdAt :: Date

datatype HeadReason = Promote | Undo | Restore | FastForward

record HeadRevisionEvent =
  he_vaultId :: VaultId
  he_previousRevisionId :: "RevisionId option"
  he_nextRevisionId :: RevisionId
  he_createdAt :: Date
  he_reason :: HeadReason

datatype ConflictStatus = OpenStatus | ResolvedStatus | DeferredStatus

datatype ConflictDecision =
    KeepCurrent
  | SwitchIncoming
  | TryMerge
  | SaveBoth
  | RestoreRevision RevisionId

record Conflict =
  cf_id :: ConflictId
  cf_vaultId :: VaultId
  cf_currentRevisionId :: RevisionId
  cf_incomingRevisionId :: RevisionId
  cf_status :: ConflictStatus
  cf_createdAt :: Date
  cf_resolvedAt :: "Date option"
  cf_decision :: "ConflictDecision option"

datatype TransferStatus = Requested | Transferring | Complete | Failed | Cancelled

datatype TransferDirection = Inbound | Outbound

record PendingTransfer =
  tr_id :: TransferId
  tr_vaultId :: VaultId
  tr_revisionId :: RevisionId
  tr_direction :: TransferDirection
  tr_expectedHash :: Sha256Hex
  tr_expectedSizeBytes :: int
  tr_receivedBytes :: int
  tr_status :: TransferStatus
  tr_peerDeviceId :: DeviceId

section \<open>lineage.ts\<close>

record RevisionSeed =
  seed_id :: RevisionId
  seed_vaultId :: VaultId
  seed_hash :: Sha256Hex
  seed_sizeBytes :: int
  seed_at :: Date
  seed_message :: "string option"

text \<open>
  \<open>base\<close> checks the size and copies the seed; the constructors fill in parents, operation and
  origin, which is why it takes them as arguments here.
\<close>

definition base_revision ::
    "RevisionSeed \<Rightarrow> RevisionId list \<Rightarrow> RevisionOperation \<Rightarrow> DeviceId option \<Rightarrow> Revision result" where
  "base_revision seed parents operation origin =
     res_bind (assert_contract (seed_sizeBytes seed \<ge> 0) ''revision size must not be negative'')
       (\<lambda>_. Inr \<lparr>rev_id = seed_id seed, rev_vaultId = seed_vaultId seed, rev_hash = seed_hash seed,
             rev_sizeBytes = seed_sizeBytes seed, rev_createdAt = seed_at seed,
             rev_originDeviceId = origin, rev_parentIds = parents, rev_operation = operation,
             rev_message = seed_message seed\<rparr>)"

definition importedRevision :: "RevisionSeed \<Rightarrow> DeviceId option \<Rightarrow> Revision result" where
  "importedRevision seed originDeviceId = base_revision seed [] Imported originDeviceId"

definition localChangeRevision ::
    "RevisionSeed \<Rightarrow> RevisionId option \<Rightarrow> DeviceId option \<Rightarrow> Revision result" where
  "localChangeRevision seed currentHeadId originDeviceId =
     base_revision seed (case currentHeadId of None \<Rightarrow> [] | Some h \<Rightarrow> [h]) LocalChange originDeviceId"

definition receivedRevision ::
    "RevisionSeed \<Rightarrow> RevisionId list \<Rightarrow> DeviceId \<Rightarrow> Revision result" where
  "receivedRevision seed declaredParentIds originDeviceId =
     res_bind (assert_contract (seed_id seed \<notin> set declaredParentIds)
                 ''a revision cannot be its own parent'')
       (\<lambda>_. base_revision seed declaredParentIds Received (Some originDeviceId))"

definition mergedRevision ::
    "RevisionSeed \<Rightarrow> RevisionId \<Rightarrow> RevisionId list \<Rightarrow> DeviceId option \<Rightarrow> Revision result" where
  "mergedRevision seed baseRevisionId inputRevisionIds originDeviceId =
     res_bind (assert_contract (length inputRevisionIds > 0)
                 ''a merge must have at least one incoming revision'')
       (\<lambda>_. let parentIds = baseRevisionId # inputRevisionIds
            in res_bind (assert_contract (length (set_of_iterable parentIds) = length parentIds)
                           ''merge parents must be distinct'')
                 (\<lambda>_. base_revision seed parentIds Merged originDeviceId))"

section \<open>revisions.ts\<close>

definition moveHead ::
    "Vault \<Rightarrow> RevisionId \<Rightarrow> Date \<Rightarrow> HeadReason \<Rightarrow> Vault \<times> HeadRevisionEvent" where
  "moveHead vault nextRevisionId at reason =
     (vault\<lparr>vault_headRevisionId := Some nextRevisionId\<rparr>,
      \<lparr>he_vaultId = vault_id vault, he_previousRevisionId = vault_headRevisionId vault,
       he_nextRevisionId = nextRevisionId, he_createdAt = at, he_reason = reason\<rparr>)"

definition promoteRevision :: "Vault \<Rightarrow> Revision \<Rightarrow> Date \<Rightarrow> (Vault \<times> HeadRevisionEvent) result" where
  "promoteRevision vault nextRevision at =
     res_bind (assert_contract (vault_id vault = rev_vaultId nextRevision)
                 ''cannot promote revision from another vault'')
       (\<lambda>_. Inr (moveHead vault (rev_id nextRevision) at Promote))"

definition fastForwardRevision :: "Vault \<Rightarrow> Revision \<Rightarrow> Date \<Rightarrow> (Vault \<times> HeadRevisionEvent) result" where
  "fastForwardRevision vault nextRevision at =
     res_bind (assert_contract (vault_id vault = rev_vaultId nextRevision)
                 ''cannot fast-forward to a revision from another vault'')
       (\<lambda>_. Inr (moveHead vault (rev_id nextRevision) at FastForward))"

definition restoreRevision :: "Vault \<Rightarrow> Revision \<Rightarrow> Date \<Rightarrow> (Vault \<times> HeadRevisionEvent) result" where
  "restoreRevision vault targetRevision at =
     res_bind (assert_contract (vault_id vault = rev_vaultId targetRevision)
                 ''cannot restore revision from another vault'')
       (\<lambda>_. Inr (moveHead vault (rev_id targetRevision) at Restore))"

definition undoLastHeadMove ::
    "Vault \<Rightarrow> HeadRevisionEvent \<Rightarrow> Date \<Rightarrow> (Vault \<times> HeadRevisionEvent) result" where
  "undoLastHeadMove vault lastEvent at =
     res_bind (assert_contract (he_vaultId lastEvent = vault_id vault) ''undo event must belong to vault'')
       (\<lambda>_. case he_previousRevisionId lastEvent of
          None \<Rightarrow> Inl (ContractViolation ''cannot undo when there is no previous revision'')
        | Some previous \<Rightarrow> Inr (moveHead vault previous at Undo))"

definition bookmarkRevision :: "BookmarkId \<Rightarrow> Revision \<Rightarrow> string \<Rightarrow> Date \<Rightarrow> Bookmark result" where
  "bookmarkRevision bookmarkId revision message at =
     res_bind (assert_contract (length (js_trim message) > 0) ''bookmark message must not be empty'')
       (\<lambda>_. Inr \<lparr>bm_id = bookmarkId, bm_vaultId = rev_vaultId revision, bm_revisionId = rev_id revision,
             bm_message = message, bm_createdAt = at\<rparr>)"

definition revisionHasParent :: "Revision \<Rightarrow> RevisionId \<Rightarrow> bool" where
  "revisionHasParent revision parentId = (parentId \<in> set (rev_parentIds revision))"

section \<open>conflicts.ts\<close>

definition openConflict ::
    "ConflictId \<Rightarrow> Vault \<Rightarrow> Revision \<Rightarrow> Revision \<Rightarrow> Date \<Rightarrow> Conflict result" where
  "openConflict conflictId vault currentRevision incomingRevision at =
     res_bind (assert_contract (rev_vaultId currentRevision = vault_id vault)
                 ''current revision must belong to vault'')
       (\<lambda>_. res_bind (assert_contract (rev_vaultId incomingRevision = vault_id vault)
                        ''incoming revision must belong to vault'')
       (\<lambda>_. res_bind (assert_contract (vault_headRevisionId vault = Some (rev_id currentRevision))
                        ''current revision must be the vault head'')
       (\<lambda>_. Inr \<lparr>cf_id = conflictId, cf_vaultId = vault_id vault,
             cf_currentRevisionId = rev_id currentRevision,
             cf_incomingRevisionId = rev_id incomingRevision, cf_status = OpenStatus,
             cf_createdAt = at, cf_resolvedAt = None, cf_decision = None\<rparr>)))"

definition decision_status :: "ConflictDecision \<Rightarrow> ConflictStatus" where
  "decision_status decision = (case decision of
     KeepCurrent \<Rightarrow> ResolvedStatus
   | SwitchIncoming \<Rightarrow> ResolvedStatus
   | TryMerge \<Rightarrow> ResolvedStatus
   | RestoreRevision _ \<Rightarrow> ResolvedStatus
   | SaveBoth \<Rightarrow> DeferredStatus)"

definition recordConflictDecision :: "Conflict \<Rightarrow> ConflictDecision \<Rightarrow> Date \<Rightarrow> Conflict result" where
  "recordConflictDecision conflict decision at =
     res_bind (assert_contract (cf_status conflict = OpenStatus) ''only open conflicts can be decided'')
       (\<lambda>_. Inr (conflict\<lparr>cf_status := decision_status decision, cf_resolvedAt := Some at,
             cf_decision := Some decision\<rparr>))"

section \<open>transfers.ts\<close>

record ChunkPlan =
  plan_chunkIndex :: int
  plan_offset :: int
  plan_length :: int

definition ceil_div :: "int \<Rightarrow> int \<Rightarrow> int" where
  "ceil_div a b = - ((- a) div b)"

definition planChunks :: "int \<Rightarrow> int \<Rightarrow> ChunkPlan list result" where
  "planChunks sizeBytes chunkSizeBytes =
     res_bind (assert_contract (sizeBytes \<ge> 0) ''size must not be negative'')
       (\<lambda>_. res_bind (assert_contract (chunkSizeBytes > 0) ''chunk size must be positive'')
       (\<lambda>_. let totalChunks = ceil_div sizeBytes chunkSizeBytes
            in Inr (map (\<lambda>chunkIndex.
                 let offset = chunkIndex * chunkSizeBytes
                 in \<lparr>plan_chunkIndex = chunkIndex, plan_offset = offset,
                     plan_length = min chunkSizeBytes (sizeBytes - offset)\<rparr>)
               [0..totalChunks - 1])))"

definition createPendingTransfer ::
    "TransferId \<Rightarrow> Revision \<Rightarrow> TransferDirection \<Rightarrow> DeviceId \<Rightarrow> PendingTransfer" where
  "createPendingTransfer transferId revision direction peerDeviceId =
     \<lparr>tr_id = transferId, tr_vaultId = rev_vaultId revision, tr_revisionId = rev_id revision,
      tr_direction = direction, tr_expectedHash = rev_hash revision,
      tr_expectedSizeBytes = rev_sizeBytes revision, tr_receivedBytes = 0, tr_status = Requested,
      tr_peerDeviceId = peerDeviceId\<rparr>"

definition markTransferComplete ::
    "PendingTransfer \<Rightarrow> string \<Rightarrow> int \<Rightarrow> PendingTransfer result" where
  "markTransferComplete transfer actualHash actualSizeBytes =
     res_bind (assert_contract (actualHash = tr_expectedHash transfer) ''completed transfer hash must match'')
       (\<lambda>_. res_bind (assert_contract (actualSizeBytes = tr_expectedSizeBytes transfer)
                        ''completed transfer size must match'')
       (\<lambda>_. Inr (transfer\<lparr>tr_receivedBytes := actualSizeBytes, tr_status := Complete\<rparr>)))"

section \<open>Facts\<close>

lemmas lineage_defs = base_revision_def importedRevision_def localChangeRevision_def
  receivedRevision_def mergedRevision_def

lemma length_set_of_iterable_le: "length (set_of_iterable xs) = length xs \<longleftrightarrow> distinct xs"
proof
  assume "length (set_of_iterable xs) = length xs"
  moreover have "length (set_of_iterable xs) = card (set xs)"
    by (metis distinct_card distinct_set_of_iterable set_set_of_iterable)
  ultimately show "distinct xs" by (simp add: card_distinct)
qed (simp add: set_of_iterable_id)

text \<open>
  The revision constructors never invent lineage. An import has no parent; a local change has
  exactly the head it was given; a received revision keeps the sender's declared parents verbatim
  and is refused only for naming itself or a negative size; a merge records the base followed by
  every input, all distinct, and is refused otherwise. None of them alters id, vault, hash or
  size.
\<close>

theorem lineage_parents:
  "(\<forall>r. importedRevision seed o1 = Inr r \<longrightarrow> rev_parentIds r = [] \<and> rev_operation r = Imported) \<and>
   (\<forall>r. localChangeRevision seed head o1 = Inr r \<longrightarrow> set (rev_parentIds r) = set_option head) \<and>
   ((\<exists>r. receivedRevision seed ps dev = Inr r) \<longleftrightarrow> seed_id seed \<notin> set ps \<and> 0 \<le> seed_sizeBytes seed) \<and>
   (\<forall>r. receivedRevision seed ps dev = Inr r \<longrightarrow>
      rev_parentIds r = ps \<and> rev_originDeviceId r = Some dev \<and> rev_id r = seed_id seed) \<and>
   ((\<exists>r. mergedRevision seed b ins o1 = Inr r) \<longleftrightarrow>
      ins \<noteq> [] \<and> distinct (b # ins) \<and> 0 \<le> seed_sizeBytes seed) \<and>
   (\<forall>r. mergedRevision seed b ins o1 = Inr r \<longrightarrow> rev_parentIds r = b # ins) \<and>
   (\<forall>r. r \<in> {r. importedRevision seed o1 = Inr r \<or> localChangeRevision seed head o1 = Inr r \<or>
          receivedRevision seed ps dev = Inr r \<or> mergedRevision seed b ins o1 = Inr r} \<longrightarrow>
      rev_id r = seed_id seed \<and> rev_vaultId r = seed_vaultId seed \<and>
      rev_hash r = seed_hash seed \<and> rev_sizeBytes r = seed_sizeBytes seed)"
  by (auto simp: lineage_defs res_bind_eq_Inr Let_def length_set_of_iterable_le
      simp del: distinct.simps split: option.splits)

theorem lineage_parents_witness:
  "\<exists>r. receivedRevision
      \<lparr>seed_id = ''r2'', seed_vaultId = ''v'', seed_hash = ''h'', seed_sizeBytes = 3, seed_at = 0,
       seed_message = None\<rparr> [''r1''] ''dev'' = Inr r \<and> rev_parentIds r = [''r1'']"
  using lineage_parents [of "\<lparr>seed_id = ''r2'', seed_vaultId = ''v'', seed_hash = ''h'',
      seed_sizeBytes = 3, seed_at = 0, seed_message = None\<rparr>" None None "[''r1'']" "''dev''" "''b''" "[]"]
  by auto

text \<open>
  A head move never loses the way back. Whenever a promotion, fast-forward or restore
  succeeds on a vault that had a head, undoing its event succeeds and returns a vault equal to
  the one before the move; moves to another vault's revision are refused; a vault that had no
  head cannot be undone.
\<close>

theorem head_move_undo:
  assumes "move \<in> {promoteRevision, fastForwardRevision, restoreRevision}"
  shows "(case move vault r at of
      Inl e \<Rightarrow> vault_id vault \<noteq> rev_vaultId r
    | Inr (vault', event) \<Rightarrow>
        vault_id vault = rev_vaultId r \<and>
        vault' = vault\<lparr>vault_headRevisionId := Some (rev_id r)\<rparr> \<and>
        he_nextRevisionId event = rev_id r \<and>
        (case vault_headRevisionId vault of
           None \<Rightarrow> undoLastHeadMove vault' event at' =
             Inl (ContractViolation ''cannot undo when there is no previous revision'')
         | Some h \<Rightarrow> map_sum id fst (undoLastHeadMove vault' event at') = Inr vault))"
  using assms
  by (cases vault)
    (auto simp: promoteRevision_def fastForwardRevision_def restoreRevision_def moveHead_def
      undoLastHeadMove_def assert_contract_def split: option.split)

definition sample_vault :: Vault where
  "sample_vault = \<lparr>vault_id = ''v'', vault_name = ''n'', vault_headRevisionId = Some ''a'',
     vault_kdbxPath = None, vault_createdAt = 0\<rparr>"

definition sample_revision :: Revision where
  "sample_revision = \<lparr>rev_id = ''b'', rev_vaultId = ''v'', rev_hash = ''h'', rev_sizeBytes = 1,
     rev_createdAt = 0, rev_originDeviceId = None, rev_parentIds = [''a''],
     rev_operation = LocalChange, rev_message = None\<rparr>"

theorem head_move_undo_witness:
  "case promoteRevision sample_vault sample_revision 5 of
     Inl e \<Rightarrow> False
   | Inr (vault', event) \<Rightarrow> map_sum id fst (undoLastHeadMove vault' event 6) = Inr sample_vault"
  using head_move_undo [where move = promoteRevision and vault = sample_vault and
      r = sample_revision and at = 5 and at' = 6]
  by (auto simp: sample_vault_def sample_revision_def split: sum.splits)

text \<open>
  The conflict state machine. A conflict opens only between the vault's own head and a
  revision of the same vault; it can be decided exactly once: deciding an open conflict succeeds,
  keeps which revisions it is about, records the decision and time, and leaves it in a state in
  which every further decision is refused. Only "save both" defers; every other decision
  resolves.
\<close>

theorem conflict_decided_once:
  "(\<forall>c. openConflict i vault cur inc at = Inr c \<longrightarrow>
      cf_status c = OpenStatus \<and> vault_headRevisionId vault = Some (cf_currentRevisionId c) \<and>
      rev_vaultId cur = vault_id vault \<and> rev_vaultId inc = vault_id vault) \<and>
   ((\<exists>c'. recordConflictDecision conflict decision at = Inr c') \<longleftrightarrow> cf_status conflict = OpenStatus) \<and>
   (\<forall>c'. recordConflictDecision conflict decision at = Inr c' \<longrightarrow>
      cf_id c' = cf_id conflict \<and> cf_vaultId c' = cf_vaultId conflict \<and>
      cf_currentRevisionId c' = cf_currentRevisionId conflict \<and>
      cf_incomingRevisionId c' = cf_incomingRevisionId conflict \<and>
      cf_decision c' = Some decision \<and> cf_resolvedAt c' = Some at \<and>
      (cf_status c' = DeferredStatus \<longleftrightarrow> decision = SaveBoth) \<and>
      (\<forall>d2 at2. recordConflictDecision c' d2 at2 =
         Inl (ContractViolation ''only open conflicts can be decided'')))"
  by (cases decision)
    (auto simp: openConflict_def recordConflictDecision_def res_bind_eq_Inr decision_status_def
      assert_contract_def)

definition sample_conflict :: Conflict where
  "sample_conflict = \<lparr>cf_id = ''c'', cf_vaultId = ''v'', cf_currentRevisionId = ''a'',
     cf_incomingRevisionId = ''b'', cf_status = OpenStatus, cf_createdAt = 0, cf_resolvedAt = None,
     cf_decision = None\<rparr>"

theorem conflict_decided_once_witness:
  "\<exists>c'. recordConflictDecision sample_conflict SaveBoth 7 = Inr c' \<and> cf_status c' = DeferredStatus"
proof -
  have "cf_status sample_conflict = OpenStatus" by (simp add: sample_conflict_def)
  then show ?thesis
    using conflict_decided_once [where conflict = sample_conflict and decision = SaveBoth and at = 7 and
        i = "''c''" and vault = sample_vault and cur = sample_revision and inc = sample_revision]
    by auto
qed

end
