(* ===== verification/Chunk_Framing.thy ===== *)
theory Chunk_Framing
  imports Revision_Model "HOL-Library.Multiset"
begin

text \<open>
  Binary framing of vault bytes on the bulk channel (packages/core/src/framing.ts) and the
  chunk loop of the sender (\<open>serve\<close> in packages/sync/src/session.ts). A \<open>Uint8Array\<close> is a list
  of 8-bit words. Counters that come out of \<open>getUint32\<close> are naturals; the arguments of the
  encoder are integers, since it checks their range itself.
\<close>


section \<open>Frames\<close>

definition CHUNK_HEADER_BYTES :: nat where
  "CHUNK_HEADER_BYTES = 8"

definition DEFAULT_CHUNK_BYTES :: int where
  "DEFAULT_CHUNK_BYTES = 64 * 1024"

definition MAX_UINT32 :: int where
  "MAX_UINT32 = 0xffffffff"

record ChunkFrame =
  fr_transferSeq :: nat
  fr_chunkIndex :: nat
  fr_payload :: bytes

definition setUint32 :: "int \<Rightarrow> bytes" where
  "setUint32 v = [word_of_int (v div 2 ^ 24), word_of_int (v div 2 ^ 16), word_of_int (v div 2 ^ 8),
     word_of_int v]"

definition getUint32 :: "bytes \<Rightarrow> nat" where
  "getUint32 bs = foldl (\<lambda>acc b. acc * 256 + unat b) 0 (take 4 bs)"

definition encodeChunkFrame :: "int \<Rightarrow> int \<Rightarrow> bytes \<Rightarrow> bytes result" where
  "encodeChunkFrame transferSeq chunkIndex payload =
     res_bind (assert_contract (transferSeq \<ge> 0 \<and> transferSeq \<le> MAX_UINT32) ''transferSeq must fit in uint32'')
       (\<lambda>_. res_bind (assert_contract (chunkIndex \<ge> 0 \<and> chunkIndex \<le> MAX_UINT32) ''chunkIndex must fit in uint32'')
       (\<lambda>_. Inr (setUint32 transferSeq @ setUint32 chunkIndex @ payload)))"

definition decodeChunkFrame :: "bytes \<Rightarrow> ChunkFrame option" where
  "decodeChunkFrame frame =
     (if length frame < CHUNK_HEADER_BYTES then None
      else Some \<lparr>fr_transferSeq = getUint32 frame, fr_chunkIndex = getUint32 (drop 4 frame),
                 fr_payload = drop CHUNK_HEADER_BYTES frame\<rparr>)"

definition chunkCountFor :: "int \<Rightarrow> int \<Rightarrow> int result" where
  "chunkCountFor sizeBytes chunkBytes =
     res_bind (assert_contract (sizeBytes \<ge> 0) ''size must not be negative'')
       (\<lambda>_. res_bind (assert_contract (chunkBytes > 0) ''chunk size must be positive'')
       (\<lambda>_. Inr (max 1 (ceil_div sizeBytes chunkBytes))))"

section \<open>Reassembly\<close>

record ChunkAssembler =
  asm_totalChunks :: nat
  asm_expectedSizeBytes :: nat
  asm_chunks :: "(nat \<times> bytes) list"
  asm_received :: nat

definition new_ChunkAssembler :: "nat \<Rightarrow> nat \<Rightarrow> ChunkAssembler result" where
  "new_ChunkAssembler totalChunks expectedSizeBytes =
     res_bind (assert_contract (totalChunks > 0) ''a transfer must have at least one chunk'')
       (\<lambda>_. Inr \<lparr>asm_totalChunks = totalChunks, asm_expectedSizeBytes = expectedSizeBytes,
             asm_chunks = [], asm_received = 0\<rparr>)"

definition accept_chunk :: "ChunkAssembler \<Rightarrow> ChunkFrame \<Rightarrow> bool \<times> ChunkAssembler" where
  "accept_chunk this frame =
     (if fr_chunkIndex frame \<ge> asm_totalChunks this then (False, this)
      else if map_of (asm_chunks this) (fr_chunkIndex frame) \<noteq> None then (True, this)
      else let projected = asm_received this + length (fr_payload frame)
           in if projected > asm_expectedSizeBytes this then (False, this)
              else (True, this\<lparr>asm_chunks := AList.update (fr_chunkIndex frame) (fr_payload frame) (asm_chunks this),
                               asm_received := projected\<rparr>))"

definition isComplete :: "ChunkAssembler \<Rightarrow> bool" where
  "isComplete this =
     (length (asm_chunks this) = asm_totalChunks this \<and> asm_received this = asm_expectedSizeBytes this)"

definition receivedBytes :: "ChunkAssembler \<Rightarrow> nat" where
  "receivedBytes this = asm_received this"

definition missingIndices :: "ChunkAssembler \<Rightarrow> nat list" where
  "missingIndices this =
     filter (\<lambda>index. map_of (asm_chunks this) index = None) [0..<asm_totalChunks this]"

text \<open>\<open>TypedArray.prototype.set\<close> throws when the source does not fit at the offset.\<close>

definition typed_array_set :: "bytes \<Rightarrow> bytes \<Rightarrow> nat \<Rightarrow> bytes result" where
  "typed_array_set output chunk offset =
     (if offset + length chunk > length output then Inl (ThrownError ''offset is out of bounds'')
      else Inr (take offset output @ chunk @ drop (offset + length chunk) output))"

fun assemble_loop :: "(nat \<times> bytes) list \<Rightarrow> nat list \<Rightarrow> nat \<Rightarrow> bytes \<Rightarrow> bytes result" where
  "assemble_loop chunks [] offset output = Inr output"
| "assemble_loop chunks (index # indices) offset output =
     (case map_of chunks index of
        None \<Rightarrow> Inl (ContractViolation ''missing chunk'')
      | Some chunk \<Rightarrow>
          res_bind (typed_array_set output chunk offset)
            (\<lambda>output'. assemble_loop chunks indices (offset + length chunk) output'))"

definition assemble :: "ChunkAssembler \<Rightarrow> bytes result" where
  "assemble this =
     res_bind (assert_contract (isComplete this) ''cannot assemble an incomplete transfer'')
       (\<lambda>_. assemble_loop (asm_chunks this) [0..<asm_totalChunks this] 0
             (replicate (asm_expectedSizeBytes this) 0))"

text \<open>Feeding a run of frames, and whether every one of them was accepted.\<close>

fun accept_all :: "ChunkAssembler \<Rightarrow> ChunkFrame list \<Rightarrow> bool \<times> ChunkAssembler" where
  "accept_all this [] = (True, this)"
| "accept_all this (f # fs) =
     (let (ok, this') = accept_chunk this f; (oks, this'') = accept_all this' fs
      in (ok \<and> oks, this''))"

section \<open>The sender's chunks\<close>

definition subarray_chunk :: "bytes \<Rightarrow> nat \<Rightarrow> nat \<Rightarrow> bytes" where
  "subarray_chunk bs chunkBytes chunkIndex =
     (let start = chunkIndex * chunkBytes
      in take (min (start + chunkBytes) (length bs) - start) (drop start bs))"

fun encode_frames :: "int \<Rightarrow> bytes \<Rightarrow> nat \<Rightarrow> nat list \<Rightarrow> bytes list result" where
  "encode_frames transferSeq bs chunkBytes [] = Inr []"
| "encode_frames transferSeq bs chunkBytes (i # is) =
     res_bind (encodeChunkFrame transferSeq (int i) (subarray_chunk bs chunkBytes i))
       (\<lambda>f. res_bind (encode_frames transferSeq bs chunkBytes is) (\<lambda>fs. Inr (f # fs)))"

definition chunk_frames :: "int \<Rightarrow> bytes \<Rightarrow> nat \<Rightarrow> bytes list result" where
  "chunk_frames transferSeq bs chunkBytes =
     res_bind (chunkCountFor (int (length bs)) (int chunkBytes))
       (\<lambda>totalChunks. encode_frames transferSeq bs chunkBytes [0..<nat totalChunks])"

section \<open>Frames survive the wire\<close>

lemma length_setUint32 [simp]: "length (setUint32 v) = 4"
  by (simp add: setUint32_def)

lemma unat_word8_of_int: "0 \<le> v \<Longrightarrow> unat (word_of_int v :: byte) = nat (v mod 256)"
  by (simp add: unat_eq_nat_uint uint_word_of_int nat_mod_distrib)

lemma getUint32_setUint32 [simp]:
  assumes "0 \<le> v" and "v \<le> MAX_UINT32"
  shows "getUint32 (setUint32 v @ rest) = nat v"
proof -
  obtain n where n: "v = int n" using assms(1) by (metis nonneg_int_cases)
  have bound: "n < 2 ^ 32" using assms(2) by (simp add: n MAX_UINT32_def)
  have byte: "unat (word_of_int (int n div 2 ^ k) :: byte) = n div 2 ^ k mod 256" for k
    by (metis nat_int unat_word8_of_int zdiv_int of_nat_power of_nat_numeral zmod_int of_nat_0_le_iff)
  have "getUint32 (setUint32 v @ rest) =
      ((n div 2 ^ 24 mod 256 * 256 + n div 2 ^ 16 mod 256) * 256 + n div 2 ^ 8 mod 256) * 256 + n mod 256"
    using byte [of 24] byte [of 16] byte [of 8] byte [of 0]
    by (simp add: getUint32_def setUint32_def n)
  also have "\<dots> = n"
  proof -
    have "n div 2 ^ 24 < 256" using bound by (simp add: less_mult_imp_div_less)
    then have "n div 2 ^ 24 mod 256 = n div 2 ^ 16 div 256"
      by (simp add: div_mult2_eq [symmetric])
    moreover have "n div 2 ^ 16 = n div 2 ^ 8 div 256" "n div 2 ^ 8 = n div 256"
      by (simp_all add: div_mult2_eq [symmetric])
    ultimately show ?thesis by (metis div_mult_mod_eq)
  qed
  finally show ?thesis by (simp add: n)
qed

lemma decode_encode_frame:
  assumes "encodeChunkFrame s i payload = Inr frame"
  shows "decodeChunkFrame frame =
    Some \<lparr>fr_transferSeq = nat s, fr_chunkIndex = nat i, fr_payload = payload\<rparr>"
proof -
  from assms have range: "0 \<le> s" "s \<le> MAX_UINT32" "0 \<le> i" "i \<le> MAX_UINT32"
    and frame: "frame = setUint32 s @ setUint32 i @ payload"
    by (auto simp: encodeChunkFrame_def res_bind_eq_Inr)
  then show ?thesis by (simp add: decodeChunkFrame_def CHUNK_HEADER_BYTES_def)
qed

text \<open>
  A chunk frame survives the wire. Encoding succeeds exactly when both counters fit in
  32 bits, the frame is eight bytes longer than its payload, and decoding it returns the two
  counters and the payload unchanged; a frame shorter than the header decodes to nothing.
\<close>

theorem chunk_frame_roundtrip:
  "((\<exists>frame. encodeChunkFrame s i payload = Inr frame) \<longleftrightarrow>
      0 \<le> s \<and> s \<le> 2 ^ 32 - 1 \<and> 0 \<le> i \<and> i \<le> 2 ^ 32 - 1) \<and>
   (\<forall>frame. encodeChunkFrame s i payload = Inr frame \<longrightarrow>
      length frame = length payload + 8 \<and>
      decodeChunkFrame frame =
        Some \<lparr>fr_transferSeq = nat s, fr_chunkIndex = nat i, fr_payload = payload\<rparr>) \<and>
   (decodeChunkFrame raw = None \<longleftrightarrow> length raw < 8)"
  using decode_encode_frame [of s i payload]
  by (auto simp: encodeChunkFrame_def res_bind_eq_Inr MAX_UINT32_def decodeChunkFrame_def
      CHUNK_HEADER_BYTES_def)

theorem chunk_frame_roundtrip_witness:
  "\<exists>frame. encodeChunkFrame 1 258 [7, 9] = Inr frame \<and> length frame = 10 \<and>
     decodeChunkFrame frame = Some \<lparr>fr_transferSeq = 1, fr_chunkIndex = 258, fr_payload = [7, 9]\<rparr>"
  using chunk_frame_roundtrip [of 1 258 "[7, 9]" "[]"] by auto

section \<open>The assembler's invariant\<close>

definition asm_inv :: "ChunkAssembler \<Rightarrow> bool" where
  "asm_inv a \<longleftrightarrow>
     asm_totalChunks a > 0 \<and> distinct (map fst (asm_chunks a)) \<and>
     (\<forall>i \<in> fst ` set (asm_chunks a). i < asm_totalChunks a) \<and>
     asm_received a = sum_list (map (length \<circ> snd) (asm_chunks a)) \<and>
     asm_received a \<le> asm_expectedSizeBytes a"

lemma alist_update_fresh: "k \<notin> fst ` set m \<Longrightarrow> AList.update k v m = m @ [(k, v)]"
  by (induction m) auto

lemma asm_inv_new: "new_ChunkAssembler n sz = Inr a \<Longrightarrow> asm_inv a"
  by (auto simp: new_ChunkAssembler_def res_bind_eq_Inr asm_inv_def)

lemma asm_inv_accept:
  assumes "asm_inv a"
  shows "asm_inv (snd (accept_chunk a f))"
  using assms
  by (auto simp: accept_chunk_def Let_def asm_inv_def map_of_eq_None_iff alist_update_fresh)

lemma accept_chunk_frame [simp]:
  "asm_totalChunks (snd (accept_chunk a f)) = asm_totalChunks a"
  "asm_expectedSizeBytes (snd (accept_chunk a f)) = asm_expectedSizeBytes a"
  by (simp_all add: accept_chunk_def Let_def)

lemma asm_inv_keys_length: "asm_inv a \<Longrightarrow> length (asm_chunks a) = card (fst ` set (asm_chunks a))"
  by (metis asm_inv_def distinct_card length_map list.set_map)

lemma asm_inv_complete_keys:
  assumes "asm_inv a" and "isComplete a"
  shows "fst ` set (asm_chunks a) = {0..<asm_totalChunks a}"
proof (rule card_subset_eq)
  show "fst ` set (asm_chunks a) \<subseteq> {0..<asm_totalChunks a}"
    using assms(1) by (auto simp: asm_inv_def)
  show "card (fst ` set (asm_chunks a)) = card {0..<asm_totalChunks a}"
    using assms asm_inv_keys_length by (simp add: isComplete_def)
qed simp

lemma accept_all_asm_inv:
  "asm_inv a \<Longrightarrow> asm_inv (snd (accept_all a fs)) \<and>
     asm_totalChunks (snd (accept_all a fs)) = asm_totalChunks a \<and>
     asm_expectedSizeBytes (snd (accept_all a fs)) = asm_expectedSizeBytes a"
proof (induction fs arbitrary: a)
  case Nil
  then show ?case by simp
next
  case (Cons f fs)
  from Cons.IH [OF asm_inv_accept [OF Cons.prems, of f]] show ?case
    using accept_chunk_frame [of a f] by (simp add: Let_def split_def)
qed

section \<open>Assembling writes the chunks side by side\<close>

lemma assemble_loop_concat:
  assumes "\<forall>i \<in> set is. \<exists>c. map_of chunks i = Some c"
    and "length done_bytes + sum_list (map (\<lambda>i. length (the (map_of chunks i))) is) = length done_bytes + length rest"
  shows "assemble_loop chunks is (length done_bytes) (done_bytes @ rest) =
    Inr (done_bytes @ concat (map (\<lambda>i. the (map_of chunks i)) is))"
  using assms
proof (induction "is" arbitrary: done_bytes rest)
  case Nil
  then show ?case by simp
next
  case (Cons i "is")
  then obtain c where c: "map_of chunks i = Some c" by auto
  with Cons.prems(2) have len: "length c \<le> length rest" by simp
  have "assemble_loop chunks is (length (done_bytes @ c)) ((done_bytes @ c) @ drop (length c) rest) =
      Inr ((done_bytes @ c) @ concat (map (\<lambda>i. the (map_of chunks i)) is))"
    using Cons.prems c len by (intro Cons.IH) simp_all
  with c len show ?case by (simp add: typed_array_set_def)
qed

lemma sum_list_alist_keys:
  assumes "distinct (map fst m)" and "fst ` set m = set ks" and "distinct ks"
  shows "sum_list (map (\<lambda>k. f (the (map_of m k))) ks) = (sum_list (map (f \<circ> snd) m) :: nat)"
proof -
  have "mset (map fst m) = mset ks"
    using assms by (metis list.set_map set_eq_iff_mset_eq_distinct)
  then have "sum_list (map (\<lambda>k. f (the (map_of m k))) ks) =
      sum_list (map (\<lambda>k. f (the (map_of m k))) (map fst m))"
    by (metis (no_types, lifting) mset_map sum_mset_sum_list)
  also have "\<dots> = sum_list (map (f \<circ> snd) m)"
  proof -
    have "map (\<lambda>k. f (the (map_of m k))) (map fst m) = map (f \<circ> snd) m"
      using assms(1) by auto
    then show ?thesis by (rule arg_cong)
  qed
  finally show ?thesis .
qed

lemma assemble_complete:
  assumes "asm_inv a" and "isComplete a"
  shows "assemble a = Inr (concat (map (\<lambda>i. the (map_of (asm_chunks a) i)) [0..<asm_totalChunks a]))"
proof -
  note keys = asm_inv_complete_keys [OF assms]
  have "\<forall>i \<in> set [0..<asm_totalChunks a]. \<exists>c. map_of (asm_chunks a) i = Some c"
    using keys by (metis atLeastLessThan_upt map_of_eq_None_iff not_None_eq)
  moreover have "sum_list (map (\<lambda>i. length (the (map_of (asm_chunks a) i))) [0..<asm_totalChunks a]) =
      asm_expectedSizeBytes a"
    using assms keys by (subst sum_list_alist_keys) (auto simp: asm_inv_def isComplete_def)
  ultimately show ?thesis
    using assms(2) assemble_loop_concat [of "[0..<asm_totalChunks a]" "asm_chunks a" "[]"
        "replicate (asm_expectedSizeBytes a) 0"]
    by (simp add: assemble_def)
qed

text \<open>
  Whatever frames a peer sends, in whatever order and however often, the assembler of a
  transfer never holds more than the declared number of chunks or bytes; once it reports
  completion nothing is missing and assembling succeeds with exactly the declared number of
  bytes, and before that assembling is refused.
\<close>

theorem assembler_bounded:
  assumes "new_ChunkAssembler n sz = Inr a0" and "a = snd (accept_all a0 frames)"
  shows "length (asm_chunks a) \<le> n \<and> receivedBytes a \<le> sz \<and>
    (isComplete a \<longrightarrow> missingIndices a = [] \<and> (\<exists>bs. assemble a = Inr bs \<and> length bs = sz)) \<and>
    (\<not> isComplete a \<longrightarrow> assemble a = Inl (ContractViolation ''cannot assemble an incomplete transfer''))"
proof -
  have a0: "asm_inv a0" "asm_totalChunks a0 = n" "asm_expectedSizeBytes a0 = sz"
    using assms(1) asm_inv_new by (auto simp: new_ChunkAssembler_def res_bind_eq_Inr)
  with accept_all_asm_inv [of a0 frames] assms(2)
  have inv: "asm_inv a" and n: "asm_totalChunks a = n" and sz: "asm_expectedSizeBytes a = sz"
    by simp_all
  have sub: "fst ` set (asm_chunks a) \<subseteq> {0..<n}" using inv n by (auto simp: asm_inv_def)
  have "length (asm_chunks a) \<le> n"
    using asm_inv_keys_length [OF inv] card_mono [OF _ sub] by simp
  moreover have "receivedBytes a \<le> sz" using inv sz by (simp add: asm_inv_def receivedBytes_def)
  moreover have "missingIndices a = [] \<and> (\<exists>bs. assemble a = Inr bs \<and> length bs = sz)"
    if complete: "isComplete a"
  proof
    note keys = asm_inv_complete_keys [OF inv complete]
    show "missingIndices a = []"
      using keys by (auto simp: missingIndices_def filter_empty_conv map_of_eq_None_iff)
    have "sum_list (map (\<lambda>i. length (the (map_of (asm_chunks a) i))) [0..<asm_totalChunks a]) = sz"
      using inv complete keys sz by (subst sum_list_alist_keys) (auto simp: asm_inv_def isComplete_def)
    then show "\<exists>bs. assemble a = Inr bs \<and> length bs = sz"
      by (simp add: assemble_complete [OF inv complete] length_concat comp_def)
  qed
  moreover have "assemble a = Inl (ContractViolation ''cannot assemble an incomplete transfer'')"
    if "\<not> isComplete a"
    using that by (simp add: assemble_def assert_contract_def)
  ultimately show ?thesis by blast
qed


theorem assembler_bounded_witness:
  "\<exists>a0. new_ChunkAssembler 2 3 = Inr a0 \<and>
     receivedBytes (snd (accept_all a0 [\<lparr>fr_transferSeq = 1, fr_chunkIndex = 5, fr_payload = [1]\<rparr>,
       \<lparr>fr_transferSeq = 1, fr_chunkIndex = 1, fr_payload = [1, 2]\<rparr>])) \<le> 3"
proof -
  have "new_ChunkAssembler 2 3 = Inr \<lparr>asm_totalChunks = 2, asm_expectedSizeBytes = 3, asm_chunks = [],
      asm_received = 0\<rparr>"
    by (simp add: new_ChunkAssembler_def)
  then show ?thesis using assembler_bounded [OF _ refl] by blast
qed

section \<open>A transfer survives any delivery order\<close>

lemma subarray_chunk_eq: "subarray_chunk bs k i = take k (drop (i * k) bs)"
  by (simp add: subarray_chunk_def Let_def min_def)

lemma concat_subarray_chunks: "concat (map (subarray_chunk bs k) [0..<m]) = take (m * k) bs"
proof (induction m)
  case (Suc m)
  have "take (Suc m * k) bs = take (m * k + k) bs" by (simp add: add.commute)
  also have "\<dots> = take (m * k) bs @ subarray_chunk bs k m"
    by (simp only: take_add subarray_chunk_eq)
  finally show ?case using Suc by simp
qed simp

lemma ceil_div_bounds:
  assumes "0 < b" and "0 \<le> a"
  shows "a \<le> ceil_div a b * b" and "0 \<le> ceil_div a b" and "ceil_div a b \<le> a"
proof -
  have "(- a) div b * b \<le> - a" using assms(1) by (metis minus_mod_eq_div_mult pos_mod_sign diff_le_eq le_add_same_cancel1)
  then show "a \<le> ceil_div a b * b" by (simp add: ceil_div_def)
  show "0 \<le> ceil_div a b" using assms by (simp add: ceil_div_def div_nonpos_pos_le0)
  have "- a \<le> (- a) div b"
  proof -
    have "(- a) * 1 \<ge> (- a) * b" using assms by (intro mult_left_mono_neg) auto
    then have "((- a) * b) div b \<le> (- a) div b" using assms by (intro zdiv_mono1) auto
    moreover have "((- a) * b) div b = - a" using assms(1) by (intro nonzero_mult_div_cancel_right) simp
    ultimately show ?thesis by simp
  qed
  then show "ceil_div a b \<le> a" by (simp add: ceil_div_def)
qed

lemma chunkCountFor_covers:
  assumes "chunkCountFor (int (length bs)) (int k) = Inr n"
  shows "0 < n" and "n \<le> max 1 (int (length bs))" and "length bs \<le> nat n * k"
proof -
  from assms have k: "0 < int k" and n: "n = max 1 (ceil_div (int (length bs)) (int k))"
    by (auto simp: chunkCountFor_def res_bind_eq_Inr)
  note bounds = ceil_div_bounds [OF k, of "int (length bs)"]
  show "0 < n" using n by simp
  show "n \<le> max 1 (int (length bs))" using bounds(3) n by simp
  have "int (length bs) \<le> n * int k"
    using bounds(1) n k by (smt (verit) mult_right_mono of_nat_0_le_iff)
  then have "int (length bs) \<le> int (nat n * k)" using \<open>0 < n\<close> by simp
  then show "length bs \<le> nat n * k" by linarith
qed

abbreviation sent_chunk :: "int \<Rightarrow> bytes \<Rightarrow> nat \<Rightarrow> nat \<Rightarrow> ChunkFrame" where
  "sent_chunk s bs k i \<equiv>
     \<lparr>fr_transferSeq = nat s, fr_chunkIndex = i, fr_payload = subarray_chunk bs k i\<rparr>"

lemma encode_frames_decode:
  assumes "0 \<le> s" and "s \<le> MAX_UINT32" and "\<forall>i \<in> set is. int i \<le> MAX_UINT32"
  shows "\<exists>fs. encode_frames s bs k is = Inr fs \<and>
    map decodeChunkFrame fs = map (\<lambda>i. Some (sent_chunk s bs k i)) is"
  using assms(3)
proof (induction "is")
  case Nil
  then show ?case by simp
next
  case (Cons i "is")
  have "\<exists>f. encodeChunkFrame s (int i) (subarray_chunk bs k i) = Inr f"
    using assms(1,2) Cons.prems by (simp add: encodeChunkFrame_def)
  then obtain f where f: "encodeChunkFrame s (int i) (subarray_chunk bs k i) = Inr f" ..
  with decode_encode_frame [OF f] Cons show ?case by auto
qed

definition holds_chunks_of :: "bytes \<Rightarrow> nat \<Rightarrow> nat \<Rightarrow> ChunkAssembler \<Rightarrow> bool" where
  "holds_chunks_of bs k n a \<longleftrightarrow>
     asm_inv a \<and> asm_totalChunks a = n \<and> asm_expectedSizeBytes a = length bs \<and>
     (\<forall>(i, c) \<in> set (asm_chunks a). c = subarray_chunk bs k i)"

lemma holds_chunks_received:
  assumes "holds_chunks_of bs k n a"
  shows "asm_received a = (\<Sum>i \<in> fst ` set (asm_chunks a). length (subarray_chunk bs k i))"
proof -
  have "asm_received a = sum_list (map (\<lambda>p. length (subarray_chunk bs k (fst p))) (asm_chunks a))"
  proof -
    have "map (length \<circ> snd) (asm_chunks a) = map (\<lambda>p. length (subarray_chunk bs k (fst p))) (asm_chunks a)"
      using assms by (fastforce simp: holds_chunks_of_def)
    with assms show ?thesis by (simp add: holds_chunks_of_def asm_inv_def)
  qed
  also have "\<dots> = sum_list (map (\<lambda>i. length (subarray_chunk bs k i)) (map fst (asm_chunks a)))"
    by (simp add: comp_def)
  also have "\<dots> = (\<Sum>i \<in> fst ` set (asm_chunks a). length (subarray_chunk bs k i))"
    using assms sum_list_distinct_conv_sum_set [of "map fst (asm_chunks a)"]
    by (simp add: holds_chunks_of_def asm_inv_def)
  finally show ?thesis .
qed

lemma sum_chunk_lengths:
  assumes "length bs \<le> n * k"
  shows "(\<Sum>i \<in> {0..<n}. length (subarray_chunk bs k i)) = length bs"
proof -
  have "length (concat (map (subarray_chunk bs k) [0..<n])) = length bs"
    using assms by (simp add: concat_subarray_chunks)
  then show ?thesis by (simp add: length_concat comp_def interv_sum_list_conv_sum_set_nat)
qed

lemma accept_sent_chunk:
  assumes inv: "holds_chunks_of bs k n a" and n: "length bs \<le> n * k" and i: "i < n"
  obtains a' where "accept_chunk a (sent_chunk s bs k i) = (True, a')" "holds_chunks_of bs k n a'"
    "fst ` set (asm_chunks a') = insert i (fst ` set (asm_chunks a))"
proof (cases "i \<in> fst ` set (asm_chunks a)")
  case True
  then have "map_of (asm_chunks a) i \<noteq> None" by (simp add: map_of_eq_None_iff)
  with i inv have "accept_chunk a (sent_chunk s bs k i) = (True, a)"
    by (auto simp: accept_chunk_def holds_chunks_of_def)
  with inv True that show ?thesis by (simp add: insert_absorb)
next
  case False
  define a' where "a' = snd (accept_chunk a (sent_chunk s bs k i))"
  have "asm_received a + length (subarray_chunk bs k i) =
      (\<Sum>j \<in> insert i (fst ` set (asm_chunks a)). length (subarray_chunk bs k j))"
    using False holds_chunks_received [OF inv] by simp
  also have "\<dots> \<le> (\<Sum>j \<in> {0..<n}. length (subarray_chunk bs k j))"
    using inv i by (intro sum_mono2) (auto simp: holds_chunks_of_def asm_inv_def)
  finally have "asm_received a + length (subarray_chunk bs k i) \<le> asm_expectedSizeBytes a"
    using sum_chunk_lengths [OF n] inv by (simp add: holds_chunks_of_def)
  with False i inv have accept: "accept_chunk a (sent_chunk s bs k i) = (True, a')"
    and chunks: "asm_chunks a' = asm_chunks a @ [(i, subarray_chunk bs k i)]"
    by (auto simp: accept_chunk_def a'_def Let_def holds_chunks_of_def map_of_eq_None_iff
        alist_update_fresh)
  moreover have "holds_chunks_of bs k n a'"
    using inv asm_inv_accept [of a "sent_chunk s bs k i"] chunks
    by (auto simp: holds_chunks_of_def a'_def)
  ultimately show ?thesis using that by simp
qed

lemma accept_all_sent_chunks:
  assumes "holds_chunks_of bs k n a" and "length bs \<le> n * k" and "set is \<subseteq> {0..<n}"
  shows "\<exists>a'. accept_all a (map (sent_chunk s bs k) is) = (True, a') \<and> holds_chunks_of bs k n a' \<and>
    fst ` set (asm_chunks a') = fst ` set (asm_chunks a) \<union> set is"
  using assms
proof (induction "is" arbitrary: a)
  case Nil
  then show ?case by simp
next
  case (Cons i "is")
  then have "i < n" by simp
  then obtain a1 where "accept_chunk a (sent_chunk s bs k i) = (True, a1)" "holds_chunks_of bs k n a1"
    "fst ` set (asm_chunks a1) = insert i (fst ` set (asm_chunks a))"
    using accept_sent_chunk [OF Cons.prems(1,2)] by blast
  with Cons.IH [of a1] Cons.prems show ?case by auto
qed

lemma holds_all_chunks_assemble:
  assumes inv: "holds_chunks_of bs k n a" and n: "length bs \<le> n * k"
    and keys: "fst ` set (asm_chunks a) = {0..<n}"
  shows "isComplete a" and "assemble a = Inr bs"
proof -
  from inv have asm: "asm_inv a" by (simp add: holds_chunks_of_def)
  show complete: "isComplete a"
    using asm_inv_keys_length [OF asm] holds_chunks_received [OF inv] keys sum_chunk_lengths [OF n] inv
    by (simp add: isComplete_def holds_chunks_of_def)
  have "the (map_of (asm_chunks a) i) = subarray_chunk bs k i" if "i < n" for i
  proof -
    from that keys have "map_of (asm_chunks a) i \<noteq> None" by (simp add: map_of_eq_None_iff)
    then obtain c where "map_of (asm_chunks a) i = Some c" by auto
    with inv show ?thesis by (auto simp: holds_chunks_of_def dest!: map_of_SomeD)
  qed
  then have chunks: "map (\<lambda>i. the (map_of (asm_chunks a) i)) [0..<n] = map (subarray_chunk bs k) [0..<n]"
    by simp
  have "asm_totalChunks a = n" using inv by (simp add: holds_chunks_of_def)
  then show "assemble a = Inr bs"
    using assemble_complete [OF asm complete] n by (simp only: chunks concat_subarray_chunks) simp
qed

lemma decoded_delivery:
  assumes "map decodeChunkFrame fs = map (\<lambda>i. Some (g i)) is" and "set delivered \<subseteq> set fs"
  shows "\<exists>js. map decodeChunkFrame delivered = map (\<lambda>i. Some (g i)) js \<and> set js \<subseteq> set is"
  using assms(2)
proof (induction delivered)
  case Nil
  then show ?case by simp
next
  case (Cons f delivered)
  then obtain js where js: "map decodeChunkFrame delivered = map (\<lambda>i. Some (g i)) js" "set js \<subseteq> set is"
    by auto
  have "decodeChunkFrame f \<in> set (map decodeChunkFrame fs)" using Cons.prems by auto
  then obtain i where "i \<in> set is" "decodeChunkFrame f = Some (g i)" by (auto simp: assms(1))
  with js show ?case by (intro exI [of _ "i # js"]) simp
qed

text \<open>
  C29: A revision survives the bulk channel. For any bytes and any positive chunk size, cutting
  them into frames succeeds as long as the counters fit in 32 bits; if the receiver's frames are
  those frames in any order, with any repetitions, then every one of them is accepted, the
  assembler built from the announced chunk count and size completes, and assembling returns the
  sender's bytes.
\<close>

theorem transfer_roundtrip:
  assumes "0 < k" and "0 \<le> s" and "s \<le> 2 ^ 32 - 1" and "length bs < 2 ^ 32"
  shows "\<exists>n frames a0. chunkCountFor (int (length bs)) (int k) = Inr n \<and>
    chunk_frames s bs k = Inr frames \<and> length frames = nat n \<and>
    new_ChunkAssembler (nat n) (length bs) = Inr a0 \<and>
    (\<forall>delivered. set delivered = set frames \<longrightarrow>
       (let (ok, a) = accept_all a0 (map (the \<circ> decodeChunkFrame) delivered)
        in ok \<and> isComplete a \<and> assemble a = Inr bs))"
proof -
  obtain n where n: "chunkCountFor (int (length bs)) (int k) = Inr n"
    using assms(1) by (auto simp: chunkCountFor_def)
  note covers = chunkCountFor_covers [OF n]
  let ?n = "nat n"
  have small: "int i \<le> MAX_UINT32" if "i \<in> set [0..<?n]" for i
    using that covers(1,2) assms(4) by (auto simp: MAX_UINT32_def)
  from encode_frames_decode [of s "[0..<?n]" bs k] small assms(2,3)
  obtain frames where frames: "encode_frames s bs k [0..<?n] = Inr frames"
    and decoded: "map decodeChunkFrame frames = map (\<lambda>i. Some (sent_chunk s bs k i)) [0..<?n]"
    by (auto simp: MAX_UINT32_def)
  obtain a0 where a0: "new_ChunkAssembler ?n (length bs) = Inr a0"
    using covers(1) by (simp add: new_ChunkAssembler_def)
  then have inv0: "holds_chunks_of bs k ?n a0" and keys0: "asm_chunks a0 = []"
    using asm_inv_new [OF a0] by (auto simp: new_ChunkAssembler_def res_bind_eq_Inr holds_chunks_of_def)
  have "let (ok, a) = accept_all a0 (map (the \<circ> decodeChunkFrame) delivered)
        in ok \<and> isComplete a \<and> assemble a = Inr bs" if same: "set delivered = set frames" for delivered
  proof -
    from decoded_delivery [OF decoded, of delivered] same
    obtain js where js: "map decodeChunkFrame delivered = map (\<lambda>i. Some (sent_chunk s bs k i)) js"
      "set js \<subseteq> {0..<?n}" by auto
    have all: "{0..<?n} \<subseteq> set js"
    proof
      fix i
      assume "i \<in> {0..<?n}"
      then have "Some (sent_chunk s bs k i) \<in> set (map decodeChunkFrame frames)"
        by (simp add: decoded)
      then have "Some (sent_chunk s bs k i) \<in> set (map decodeChunkFrame delivered)"
        by (simp add: same)
      then show "i \<in> set js" by (auto simp: js(1))
    qed
    have "map (the \<circ> decodeChunkFrame) delivered = map (sent_chunk s bs k) js"
      using arg_cong [OF js(1), of "map the"] by (simp add: comp_def)
    with accept_all_sent_chunks [OF inv0 covers(3) js(2), of s] keys0
    obtain a where a: "accept_all a0 (map (the \<circ> decodeChunkFrame) delivered) = (True, a)"
      "holds_chunks_of bs k ?n a" "fst ` set (asm_chunks a) = set js" by auto
    with holds_all_chunks_assemble [OF a(2) covers(3)] all js(2) show ?thesis by auto
  qed
  moreover have "length frames = ?n" using arg_cong [OF decoded, of length] by simp
  ultimately show ?thesis using n frames a0 by (auto simp: chunk_frames_def)
qed

theorem transfer_roundtrip_witness:
  "\<exists>n frames. chunkCountFor 5 2 = Inr n \<and> chunk_frames 1 [1, 2, 3, 4, 5] 2 = Inr frames \<and>
     length frames = nat n"
  using transfer_roundtrip [of 2 1 "[1, 2, 3, 4, 5]"] by auto

end
