(* ===== verification/Wire_Protocol.thy ===== *)
theory Wire_Protocol
  imports Revision_Model
begin

text \<open>
  The control-channel messages of packages/core/src/protocol.ts: their data types, the limits on
  everything a peer can make this device allocate, and the parser that checks every field.

  A message on the wire is JSON text. The model starts at the value: \<open>encodeMessage\<close> builds the
  value given to \<open>JSON.stringify\<close>, and \<open>parseMessage\<close> takes what \<open>JSON.parse\<close> made of the text,
  \<open>None\<close> when it threw. An object is its list of properties; reading an absent one gives
  \<open>None\<close>, the model of \<open>undefined\<close>. A number is an integer or not (\<open>JFraction\<close>, which also
  covers the non-finite values), the one distinction the parser makes.
\<close>

section \<open>JSON values\<close>

datatype json =
    JNull
  | JBool bool
  | JInt int
  | JFraction
  | JStr string
  | JArr "json list"
  | JObj "(string \<times> json) list"

text \<open>\<open>value.key\<close> of a parsed value other than \<open>null\<close>.\<close>

fun js_property :: "string \<Rightarrow> json \<Rightarrow> json option" where
  "js_property key (JObj members) = map_of members key"
| "js_property key _ = None"

section \<open>Messages\<close>

definition PROTOCOL_VERSION :: int where
  "PROTOCOL_VERSION = 1"

definition maxHistoryNodes :: nat where "maxHistoryNodes = 100000"
definition maxParentsPerRevision :: nat where "maxParentsPerRevision = 64"
definition maxWantedRevisions :: nat where "maxWantedRevisions = 100000"
definition maxRevisionBytes :: int where "maxRevisionBytes = 512 * 1024 * 1024"
definition maxChunks :: int where "maxChunks = 262144"
definition maxStringLength :: nat where "maxStringLength = 4096"

lemmas LIMITS_defs = maxHistoryNodes_def maxParentsPerRevision_def maxWantedRevisions_def
  maxRevisionBytes_def maxChunks_def maxStringLength_def

record HistorySummaryEntry =
  hs_revisionId :: RevisionId
  hs_hash :: Sha256Hex
  hs_sizeBytes :: int
  hs_parentIds :: "RevisionId list"

record HelloMessage =
  hello_protocolVersion :: int
  hello_deviceId :: DeviceId
  hello_deviceName :: string
  hello_publicKey :: string
  hello_nonce :: string

record VaultSummaryMessage =
  vs_vaultId :: VaultId
  vs_vaultName :: string
  vs_headRevisionId :: "RevisionId option"
  vs_revisionCount :: int

record RevisionHeaderMessage =
  rh_transferSeq :: int
  rh_vaultId :: VaultId
  rh_revisionId :: RevisionId
  rh_hash :: Sha256Hex
  rh_sizeBytes :: int
  rh_parentIds :: "RevisionId list"
  rh_totalChunks :: int
  rh_message :: "string option"

datatype ProtocolErrorCode =
    UnsupportedVersion
  | Unauthorized
  | UnknownVault
  | MalformedMessage
  | LimitExceeded
  | Internal

datatype ProtocolMessage =
    Hello HelloMessage
  | Auth string
  | VaultSummary VaultSummaryMessage
  | HistorySummary VaultId "HistorySummaryEntry list"
  | WantRevisions VaultId "RevisionId list"
  | RevisionHeader RevisionHeaderMessage
  | RevisionAck RevisionId bool "string option"
  | TransferCancel int string
  | SyncComplete VaultId
  | Bye
  | ErrorMessage ProtocolErrorCode string

fun message_type :: "ProtocolMessage \<Rightarrow> string" where
  "message_type (Hello _) = ''hello''"
| "message_type (Auth _) = ''auth''"
| "message_type (VaultSummary _) = ''vault-summary''"
| "message_type (HistorySummary _ _) = ''history-summary''"
| "message_type (WantRevisions _ _) = ''want-revisions''"
| "message_type (RevisionHeader _) = ''revision-header''"
| "message_type (RevisionAck _ _ _) = ''revision-ack''"
| "message_type (TransferCancel _ _) = ''transfer-cancel''"
| "message_type (SyncComplete _) = ''sync-complete''"
| "message_type Bye = ''bye''"
| "message_type (ErrorMessage _ _) = ''error''"

fun error_code_string :: "ProtocolErrorCode \<Rightarrow> string" where
  "error_code_string UnsupportedVersion = ''unsupported-version''"
| "error_code_string Unauthorized = ''unauthorized''"
| "error_code_string UnknownVault = ''unknown-vault''"
| "error_code_string MalformedMessage = ''malformed-message''"
| "error_code_string LimitExceeded = ''limit-exceeded''"
| "error_code_string Internal = ''internal''"

section \<open>Encoding\<close>

definition optional_property :: "string \<Rightarrow> string option \<Rightarrow> (string \<times> json) list" where
  "optional_property key v = (case v of None \<Rightarrow> [] | Some s \<Rightarrow> [(key, JStr s)])"

definition encode_entry :: "HistorySummaryEntry \<Rightarrow> json" where
  "encode_entry e = JObj
     [(''revisionId'', JStr (hs_revisionId e)), (''hash'', JStr (hs_hash e)),
      (''sizeBytes'', JInt (hs_sizeBytes e)), (''parentIds'', JArr (map JStr (hs_parentIds e)))]"

fun message_properties :: "ProtocolMessage \<Rightarrow> (string \<times> json) list" where
  "message_properties (Hello h) =
     [(''protocolVersion'', JInt (hello_protocolVersion h)), (''deviceId'', JStr (hello_deviceId h)),
      (''deviceName'', JStr (hello_deviceName h)), (''publicKey'', JStr (hello_publicKey h)),
      (''nonce'', JStr (hello_nonce h))]"
| "message_properties (Auth signature) = [(''signature'', JStr signature)]"
| "message_properties (VaultSummary v) =
     [(''vaultId'', JStr (vs_vaultId v)), (''vaultName'', JStr (vs_vaultName v)),
      (''revisionCount'', JInt (vs_revisionCount v))]
     @ optional_property ''headRevisionId'' (vs_headRevisionId v)"
| "message_properties (HistorySummary vaultId revisions) =
     [(''vaultId'', JStr vaultId), (''revisions'', JArr (map encode_entry revisions))]"
| "message_properties (WantRevisions vaultId revisionIds) =
     [(''vaultId'', JStr vaultId), (''revisionIds'', JArr (map JStr revisionIds))]"
| "message_properties (RevisionHeader h) =
     [(''transferSeq'', JInt (rh_transferSeq h)), (''vaultId'', JStr (rh_vaultId h)),
      (''revisionId'', JStr (rh_revisionId h)), (''hash'', JStr (rh_hash h)),
      (''sizeBytes'', JInt (rh_sizeBytes h)), (''parentIds'', JArr (map JStr (rh_parentIds h))),
      (''totalChunks'', JInt (rh_totalChunks h))]
     @ optional_property ''message'' (rh_message h)"
| "message_properties (RevisionAck revisionId accepted reason) =
     [(''revisionId'', JStr revisionId), (''accepted'', JBool accepted)]
     @ optional_property ''reason'' reason"
| "message_properties (TransferCancel transferSeq reason) =
     [(''transferSeq'', JInt transferSeq), (''reason'', JStr reason)]"
| "message_properties (SyncComplete vaultId) = [(''vaultId'', JStr vaultId)]"
| "message_properties Bye = []"
| "message_properties (ErrorMessage code msg) =
     [(''code'', JStr (error_code_string code)), (''message'', JStr msg)]"

definition encodeMessage :: "ProtocolMessage \<Rightarrow> json" where
  "encodeMessage message =
     JObj ((''type'', JStr (message_type message)) # message_properties message)"

section \<open>Parsing\<close>

datatype ParseOutcome = Parsed ProtocolMessage | Refused ProtocolErrorCode string

definition malformed :: "string \<Rightarrow> ParseOutcome" where
  "malformed reason = Refused MalformedMessage reason"

definition exceeded :: "string \<Rightarrow> ParseOutcome" where
  "exceeded reason = Refused LimitExceeded reason"

definition str :: "json option \<Rightarrow> string option" where
  "str v = (case v of
     Some (JStr s) \<Rightarrow> if length s = 0 \<or> length s > maxStringLength then None else Some s
   | _ \<Rightarrow> None)"

definition hex64 :: "json option \<Rightarrow> Sha256Hex option" where
  "hex64 v = (case v of Some (JStr s) \<Rightarrow> if is_hex64 s then Some s else None | _ \<Rightarrow> None)"

text \<open>\<open>isCount\<close> narrows an unknown value to a non-negative integer.\<close>

definition isCount :: "json option \<Rightarrow> int option" where
  "isCount v = (case v of Some (JInt n) \<Rightarrow> if n \<ge> 0 then Some n else None | _ \<Rightarrow> None)"

definition isArray :: "json option \<Rightarrow> json list option" where
  "isArray v = (case v of Some (JArr xs) \<Rightarrow> Some xs | _ \<Rightarrow> None)"

text \<open>The loops that collect an array of strings; \<open>None\<close> is the early return on a bad element.\<close>

fun collect_strings :: "json list \<Rightarrow> string list option" where
  "collect_strings [] = Some []"
| "collect_strings (x # xs) =
     (case str (Some x) of
        None \<Rightarrow> None
      | Some s \<Rightarrow> (case collect_strings xs of None \<Rightarrow> None | Some ss \<Rightarrow> Some (s # ss)))"

definition parseHello :: "(string \<times> json) list \<Rightarrow> ParseOutcome" where
  "parseHello value =
     (case (str (map_of value ''deviceId''), str (map_of value ''deviceName'')) of
        (Some deviceId, Some deviceName) \<Rightarrow>
          (case (str (map_of value ''publicKey''), str (map_of value ''nonce'')) of
             (Some publicKey, Some nonce) \<Rightarrow>
               (case map_of value ''protocolVersion'' of
                  Some (JInt protocolVersion) \<Rightarrow>
                    Parsed (Hello \<lparr>hello_protocolVersion = protocolVersion, hello_deviceId = deviceId,
                      hello_deviceName = deviceName, hello_publicKey = publicKey, hello_nonce = nonce\<rparr>)
                | _ \<Rightarrow> malformed ''hello requires an integer protocolVersion'')
           | _ \<Rightarrow> malformed ''hello requires publicKey and nonce'')
      | _ \<Rightarrow> malformed ''hello requires deviceId and deviceName'')"

definition parseAuth :: "(string \<times> json) list \<Rightarrow> ParseOutcome" where
  "parseAuth value =
     (case str (map_of value ''signature'') of
        None \<Rightarrow> malformed ''auth requires a signature''
      | Some signature \<Rightarrow> Parsed (Auth signature))"

definition parseVaultSummary :: "(string \<times> json) list \<Rightarrow> ParseOutcome" where
  "parseVaultSummary value =
     (let vaultName = (case str (map_of value ''vaultName'') of None \<Rightarrow> ''Shared vault'' | Some s \<Rightarrow> s)
      in case str (map_of value ''vaultId'') of
        None \<Rightarrow> malformed ''vault-summary requires vaultId''
      | Some vaultId \<Rightarrow>
          (case isCount (map_of value ''revisionCount'') of
             None \<Rightarrow> malformed ''vault-summary requires a non-negative revisionCount''
           | Some revisionCount \<Rightarrow>
               Parsed (VaultSummary \<lparr>vs_vaultId = vaultId, vs_vaultName = vaultName,
                 vs_headRevisionId = str (map_of value ''headRevisionId''),
                 vs_revisionCount = revisionCount\<rparr>)))"

text \<open>One row of a history summary; the outcome of the row loop is its entry or the refusal.\<close>

definition parse_row :: "json \<Rightarrow> ParseOutcome + HistorySummaryEntry" where
  "parse_row row =
     (case row of
        JObj entry \<Rightarrow>
          (case (str (map_of entry ''revisionId''), hex64 (map_of entry ''hash'')) of
             (Some revisionId, Some hash) \<Rightarrow>
               (case isCount (map_of entry ''sizeBytes'') of
                  Some sizeBytes \<Rightarrow>
                    if sizeBytes > maxRevisionBytes
                    then Inl (malformed ''history-summary entry has an invalid sizeBytes'')
                    else (case isArray (map_of entry ''parentIds'') of
                       None \<Rightarrow> Inl (malformed ''history-summary entry requires parentIds'')
                     | Some parents \<Rightarrow>
                         if length parents > maxParentsPerRevision
                         then Inl (exceeded (''revision '' @ revisionId @ '' declares '' @
                                decimal_string (length parents) @ '' parents''))
                         else (case collect_strings parents of
                            None \<Rightarrow> Inl (malformed ''parentIds must be strings'')
                          | Some parentIds \<Rightarrow>
                              Inr \<lparr>hs_revisionId = revisionId, hs_hash = hash,
                                   hs_sizeBytes = sizeBytes, hs_parentIds = parentIds\<rparr>))
                | None \<Rightarrow> Inl (malformed ''history-summary entry has an invalid sizeBytes''))
           | _ \<Rightarrow> Inl (malformed ''history-summary entry requires revisionId and a sha256 hash''))
      | _ \<Rightarrow> Inl (malformed ''history-summary entry is not an object''))"

fun parse_rows :: "json list \<Rightarrow> ParseOutcome + HistorySummaryEntry list" where
  "parse_rows [] = Inr []"
| "parse_rows (row # rows) =
     (case parse_row row of
        Inl refusal \<Rightarrow> Inl refusal
      | Inr entry \<Rightarrow> (case parse_rows rows of Inl r \<Rightarrow> Inl r | Inr es \<Rightarrow> Inr (entry # es)))"

definition parseHistorySummary :: "(string \<times> json) list \<Rightarrow> ParseOutcome" where
  "parseHistorySummary value =
     (case str (map_of value ''vaultId'') of
        None \<Rightarrow> malformed ''history-summary requires vaultId''
      | Some vaultId \<Rightarrow>
          (case isArray (map_of value ''revisions'') of
             None \<Rightarrow> malformed ''history-summary requires a revisions array''
           | Some rows \<Rightarrow>
               if length rows > maxHistoryNodes
               then exceeded (''history-summary carries '' @ decimal_string (length rows) @ '' revisions'')
               else (case parse_rows rows of
                  Inl refusal \<Rightarrow> refusal
                | Inr revisions \<Rightarrow> Parsed (HistorySummary vaultId revisions))))"

definition parseWantRevisions :: "(string \<times> json) list \<Rightarrow> ParseOutcome" where
  "parseWantRevisions value =
     (case str (map_of value ''vaultId'') of
        None \<Rightarrow> malformed ''want-revisions requires vaultId''
      | Some vaultId \<Rightarrow>
          (case isArray (map_of value ''revisionIds'') of
             None \<Rightarrow> malformed ''want-revisions requires a revisionIds array''
           | Some ids \<Rightarrow>
               if length ids > maxWantedRevisions
               then exceeded (''want-revisions asks for '' @ decimal_string (length ids) @ '' revisions'')
               else (case collect_strings ids of
                  None \<Rightarrow> malformed ''revisionIds must be strings''
                | Some revisionIds \<Rightarrow> Parsed (WantRevisions vaultId revisionIds))))"

definition parseRevisionHeader :: "(string \<times> json) list \<Rightarrow> ParseOutcome" where
  "parseRevisionHeader value =
     (case (str (map_of value ''vaultId''), str (map_of value ''revisionId''), hex64 (map_of value ''hash'')) of
        (Some vaultId, Some revisionId, Some hash) \<Rightarrow>
          (case isCount (map_of value ''transferSeq'') of
             None \<Rightarrow> malformed ''revision-header requires a transferSeq''
           | Some transferSeq \<Rightarrow>
          (case isCount (map_of value ''sizeBytes'') of
             None \<Rightarrow> exceeded ''revision-header declares an unacceptable sizeBytes''
           | Some sizeBytes \<Rightarrow>
             if sizeBytes > maxRevisionBytes
             then exceeded ''revision-header declares an unacceptable sizeBytes''
             else
          (case isCount (map_of value ''totalChunks'') of
             None \<Rightarrow> exceeded ''revision-header declares an unacceptable totalChunks''
           | Some totalChunks \<Rightarrow>
             if totalChunks > maxChunks
             then exceeded ''revision-header declares an unacceptable totalChunks''
             else
          (case isArray (map_of value ''parentIds'') of
             None \<Rightarrow> malformed ''revision-header requires a bounded parentIds array''
           | Some parents \<Rightarrow>
             if length parents > maxParentsPerRevision
             then malformed ''revision-header requires a bounded parentIds array''
             else
          (case collect_strings parents of
             None \<Rightarrow> malformed ''parentIds must be strings''
           | Some parentIds \<Rightarrow>
             if map_of value ''message'' \<noteq> None \<and> str (map_of value ''message'') = None
             then malformed ''revision-header message must be a bounded string''
             else Parsed (RevisionHeader \<lparr>rh_transferSeq = transferSeq, rh_vaultId = vaultId,
                    rh_revisionId = revisionId, rh_hash = hash, rh_sizeBytes = sizeBytes,
                    rh_parentIds = parentIds, rh_totalChunks = totalChunks,
                    rh_message = (case map_of value ''message'' of Some (JStr m) \<Rightarrow> Some m | _ \<Rightarrow> None)\<rparr>))))))
      | _ \<Rightarrow> malformed ''revision-header requires vaultId, revisionId and a sha256 hash'')"

definition parseRevisionAck :: "(string \<times> json) list \<Rightarrow> ParseOutcome" where
  "parseRevisionAck value =
     (case (str (map_of value ''revisionId''), map_of value ''accepted'') of
        (Some revisionId, Some (JBool accepted)) \<Rightarrow>
          Parsed (RevisionAck revisionId accepted
            (case map_of value ''reason'' of
               Some (JStr reason) \<Rightarrow> Some (take maxStringLength reason)
             | _ \<Rightarrow> None))
      | _ \<Rightarrow> malformed ''revision-ack requires revisionId and accepted'')"

definition parseTransferCancel :: "(string \<times> json) list \<Rightarrow> ParseOutcome" where
  "parseTransferCancel value =
     (let reason = (case str (map_of value ''reason'') of None \<Rightarrow> ''cancelled'' | Some s \<Rightarrow> s)
      in case isCount (map_of value ''transferSeq'') of
        None \<Rightarrow> malformed ''transfer-cancel requires a transferSeq''
      | Some transferSeq \<Rightarrow> Parsed (TransferCancel transferSeq reason))"

definition parseSyncComplete :: "(string \<times> json) list \<Rightarrow> ParseOutcome" where
  "parseSyncComplete value =
     (case str (map_of value ''vaultId'') of
        None \<Rightarrow> malformed ''sync-complete requires vaultId''
      | Some vaultId \<Rightarrow> Parsed (SyncComplete vaultId))"

definition known_code :: "string \<Rightarrow> ProtocolErrorCode" where
  "known_code code =
     (if code = ''unsupported-version'' then UnsupportedVersion
      else if code = ''unauthorized'' then Unauthorized
      else if code = ''unknown-vault'' then UnknownVault
      else if code = ''malformed-message'' then MalformedMessage
      else if code = ''limit-exceeded'' then LimitExceeded
      else Internal)"

definition parseError :: "(string \<times> json) list \<Rightarrow> ParseOutcome" where
  "parseError value =
     (let code = (case str (map_of value ''code'') of None \<Rightarrow> ''internal'' | Some s \<Rightarrow> s);
          msg = (case str (map_of value ''message'') of None \<Rightarrow> '''' | Some s \<Rightarrow> s)
      in Parsed (ErrorMessage (known_code code) msg))"

definition parse_typed :: "string \<Rightarrow> (string \<times> json) list \<Rightarrow> ParseOutcome" where
  "parse_typed ty value =
     (if ty = ''hello'' then parseHello value
      else if ty = ''auth'' then parseAuth value
      else if ty = ''vault-summary'' then parseVaultSummary value
      else if ty = ''history-summary'' then parseHistorySummary value
      else if ty = ''want-revisions'' then parseWantRevisions value
      else if ty = ''revision-header'' then parseRevisionHeader value
      else if ty = ''revision-ack'' then parseRevisionAck value
      else if ty = ''transfer-cancel'' then parseTransferCancel value
      else if ty = ''sync-complete'' then parseSyncComplete value
      else if ty = ''bye'' then Parsed Bye
      else if ty = ''error'' then parseError value
      else malformed (''unknown message type '' @ ty))"

definition parseMessage :: "json option \<Rightarrow> ParseOutcome" where
  "parseMessage raw =
     (case raw of
        None \<Rightarrow> malformed ''message is not valid JSON''
      | Some (JObj value) \<Rightarrow>
          (case map_of value ''type'' of
             Some (JStr ty) \<Rightarrow> parse_typed ty value
           | _ \<Rightarrow> malformed ''message has no type'')
      | Some _ \<Rightarrow> malformed ''message has no type'')"

section \<open>What a parsed message may contain\<close>

definition ok_string :: "string \<Rightarrow> bool" where
  "ok_string s \<longleftrightarrow> s \<noteq> [] \<and> length s \<le> maxStringLength"

definition ok_ids :: "nat \<Rightarrow> string list \<Rightarrow> bool" where
  "ok_ids bound xs \<longleftrightarrow> length xs \<le> bound \<and> list_all ok_string xs"

definition ok_entry :: "HistorySummaryEntry \<Rightarrow> bool" where
  "ok_entry e \<longleftrightarrow> ok_string (hs_revisionId e) \<and> is_hex64 (hs_hash e) \<and>
     0 \<le> hs_sizeBytes e \<and> hs_sizeBytes e \<le> maxRevisionBytes \<and>
     ok_ids maxParentsPerRevision (hs_parentIds e)"

fun within_limits :: "ProtocolMessage \<Rightarrow> bool" where
  "within_limits (Hello h) \<longleftrightarrow> ok_string (hello_deviceId h) \<and> ok_string (hello_deviceName h) \<and>
     ok_string (hello_publicKey h) \<and> ok_string (hello_nonce h)"
| "within_limits (Auth signature) \<longleftrightarrow> ok_string signature"
| "within_limits (VaultSummary v) \<longleftrightarrow> ok_string (vs_vaultId v) \<and> ok_string (vs_vaultName v) \<and>
     pred_option ok_string (vs_headRevisionId v) \<and> 0 \<le> vs_revisionCount v"
| "within_limits (HistorySummary v es) \<longleftrightarrow> ok_string v \<and> length es \<le> maxHistoryNodes \<and> list_all ok_entry es"
| "within_limits (WantRevisions v ids) \<longleftrightarrow> ok_string v \<and> ok_ids maxWantedRevisions ids"
| "within_limits (RevisionHeader h) \<longleftrightarrow> ok_string (rh_vaultId h) \<and> ok_string (rh_revisionId h) \<and>
     is_hex64 (rh_hash h) \<and> 0 \<le> rh_transferSeq h \<and> 0 \<le> rh_sizeBytes h \<and> rh_sizeBytes h \<le> maxRevisionBytes \<and>
     0 \<le> rh_totalChunks h \<and> rh_totalChunks h \<le> maxChunks \<and>
     ok_ids maxParentsPerRevision (rh_parentIds h) \<and> pred_option ok_string (rh_message h)"
| "within_limits (RevisionAck r a reason) \<longleftrightarrow> ok_string r \<and>
     pred_option (\<lambda>s. length s \<le> maxStringLength) reason"
| "within_limits (TransferCancel n reason) \<longleftrightarrow> 0 \<le> n \<and> ok_string reason"
| "within_limits (SyncComplete v) \<longleftrightarrow> ok_string v"
| "within_limits Bye \<longleftrightarrow> True"
| "within_limits (ErrorMessage c m) \<longleftrightarrow> length m \<le> maxStringLength"

lemma str_None [simp]: "str None = None"
  by (simp add: str_def)

lemma str_JStr: "ok_string s \<Longrightarrow> str (Some (JStr s)) = Some s"
  by (auto simp: str_def ok_string_def)

lemma str_SomeD: "str v = Some s \<Longrightarrow> v = Some (JStr s) \<and> ok_string s"
  by (auto simp: str_def ok_string_def split: option.splits json.splits if_splits)

lemma isCount_JInt [simp]: "isCount (Some (JInt n)) = (if 0 \<le> n then Some n else None)"
  by (simp add: isCount_def)

lemma isCount_SomeD: "isCount v = Some n \<Longrightarrow> v = Some (JInt n) \<and> 0 \<le> n"
  by (auto simp: isCount_def split: option.splits json.splits if_splits)

lemma isArray_JArr [simp]: "isArray (Some (JArr xs)) = Some xs"
  by (simp add: isArray_def)

lemma hex64_JStr: "is_hex64 s \<Longrightarrow> hex64 (Some (JStr s)) = Some s"
  by (simp add: hex64_def)

lemma hex64_SomeD: "hex64 v = Some s \<Longrightarrow> is_hex64 s"
  by (auto simp: hex64_def split: option.splits json.splits if_splits)

lemma collect_strings_JStr: "list_all ok_string ss \<Longrightarrow> collect_strings (map JStr ss) = Some ss"
  by (induction ss) (auto simp: str_JStr)

lemma collect_strings_SomeD:
  "collect_strings xs = Some ss \<Longrightarrow> list_all ok_string ss \<and> length ss = length xs"
  by (induction xs arbitrary: ss) (auto dest: str_SomeD split: option.splits)

lemma parse_row_encode: "ok_entry e \<Longrightarrow> parse_row (encode_entry e) = Inr e"
  by (simp add: parse_row_def encode_entry_def ok_entry_def ok_ids_def str_JStr hex64_JStr
      collect_strings_JStr)

lemma parse_rows_encode: "list_all ok_entry es \<Longrightarrow> parse_rows (map encode_entry es) = Inr es"
  by (induction es) (simp_all add: parse_row_encode)

lemma parse_row_InrD: "parse_row row = Inr e \<Longrightarrow> ok_entry e"
  by (auto simp: parse_row_def ok_entry_def ok_ids_def isArray_def
      dest!: str_SomeD hex64_SomeD isCount_SomeD collect_strings_SomeD
      split: json.splits option.splits if_splits)

lemma parse_rows_InrD: "parse_rows rows = Inr es \<Longrightarrow> list_all ok_entry es \<and> length es = length rows"
  by (induction rows arbitrary: es) (auto dest: parse_row_InrD split: sum.splits)

lemma parse_row_Inl: "parse_row row = Inl r \<Longrightarrow> r \<noteq> Parsed m"
  by (auto simp: parse_row_def malformed_def exceeded_def
      split: json.splits option.splits if_splits)

lemma parse_rows_Inl: "parse_rows rows = Inl r \<Longrightarrow> r \<noteq> Parsed m"
  by (induction rows) (auto dest: parse_row_Inl split: sum.splits)

lemma known_code_string [simp]: "known_code (error_code_string c) = c"
  by (cases c) (simp_all add: known_code_def)

lemma ok_error_code: "ok_string (error_code_string c)"
  by (cases c) (simp_all add: ok_string_def maxStringLength_def)

lemmas wire_simps = str_JStr hex64_JStr collect_strings_JStr parse_rows_encode ok_ids_def
  optional_property_def

lemma str_short: "length s \<le> maxStringLength \<Longrightarrow>
    (case str (Some (JStr s)) of None \<Rightarrow> '''' | Some s \<Rightarrow> s) = s"
  by (auto simp: str_def)

lemma parse_encode:
  assumes "within_limits m"
  shows "parse_typed (message_type m) ((''type'', JStr (message_type m)) # message_properties m) = Parsed m"
proof (cases m)
  case (Hello h)
  with assms show ?thesis by (simp add: parse_typed_def parseHello_def wire_simps)
next
  case (VaultSummary v)
  with assms show ?thesis
    by (cases v; cases "vs_headRevisionId v")
      (simp_all add: parse_typed_def parseVaultSummary_def wire_simps)
next
  case (RevisionHeader h)
  with assms show ?thesis
    by (cases h; cases "rh_message h") (simp_all add: parse_typed_def parseRevisionHeader_def wire_simps)
next
  case (RevisionAck r a reason)
  with assms show ?thesis
    by (cases reason) (simp_all add: parse_typed_def parseRevisionAck_def wire_simps)
next
  case (ErrorMessage c msg)
  with assms str_short [of msg] show ?thesis
    by (simp add: parse_typed_def parseError_def str_JStr ok_error_code)
qed (use assms in \<open>simp_all add: parse_typed_def parseAuth_def parseHistorySummary_def
    parseWantRevisions_def parseTransferCancel_def parseSyncComplete_def wire_simps\<close>)

lemma parse_typed_within_limits:
  assumes "parse_typed ty value = Parsed m"
  shows "within_limits m"
proof -
  note D = str_SomeD hex64_SomeD isCount_SomeD collect_strings_SomeD parse_rows_InrD
  note S = option.splits json.splits if_splits sum.splits
  have "parseHello value = Parsed m \<Longrightarrow> within_limits m"
    by (auto simp: parseHello_def malformed_def dest!: D split: S)
  moreover have "parseAuth value = Parsed m \<Longrightarrow> within_limits m"
    by (auto simp: parseAuth_def malformed_def dest!: D split: S)
  moreover have "parseVaultSummary value = Parsed m \<Longrightarrow> within_limits m"
    by (auto simp: parseVaultSummary_def malformed_def Let_def ok_string_def maxStringLength_def
        pred_option_def dest!: D split: S)
  moreover have "parseHistorySummary value = Parsed m \<Longrightarrow> within_limits m"
    by (auto simp: parseHistorySummary_def malformed_def exceeded_def isArray_def
        dest!: D dest: parse_rows_Inl split: S)
  moreover have "parseWantRevisions value = Parsed m \<Longrightarrow> within_limits m"
    by (auto simp: parseWantRevisions_def malformed_def exceeded_def isArray_def ok_ids_def
        dest!: D split: S)
  moreover have "parseRevisionHeader value = Parsed m \<Longrightarrow> within_limits m"
    by (auto simp: parseRevisionHeader_def malformed_def exceeded_def isArray_def ok_ids_def
        pred_option_def dest!: D split: S)
  moreover have "parseRevisionAck value = Parsed m \<Longrightarrow> within_limits m"
    by (auto simp: parseRevisionAck_def malformed_def pred_option_def dest!: D split: S)
  moreover have "parseTransferCancel value = Parsed m \<Longrightarrow> within_limits m"
    by (auto simp: parseTransferCancel_def malformed_def Let_def ok_string_def maxStringLength_def
        dest!: D split: S)
  moreover have "parseSyncComplete value = Parsed m \<Longrightarrow> within_limits m"
    by (auto simp: parseSyncComplete_def malformed_def dest!: D split: S)
  moreover have "parseError value = Parsed m \<Longrightarrow> within_limits m"
    by (auto simp: parseError_def Let_def ok_string_def dest!: D split: S)
  ultimately show ?thesis
    using assms by (auto simp: parse_typed_def malformed_def split: if_splits)
qed

section \<open>Properties\<close>

lemma parseMessage_encode: "within_limits m \<Longrightarrow> parseMessage (Some (encodeMessage m)) = Parsed m"
  using parse_encode [of m] by (simp add: parseMessage_def encodeMessage_def)

text \<open>
  C27: Every message within the protocol's limits survives the wire: parsing what
  \<open>encodeMessage\<close> built for it gives exactly that message back, for every message type, every
  optional field present or absent, and every list of entries or ids up to its limit.\<close>

theorem message_roundtrip:
  assumes "within_limits m"
  shows "parseMessage (Some (encodeMessage m)) = Parsed m"
  using assms by (rule parseMessage_encode)

definition sample_header :: ProtocolMessage where
  "sample_header = RevisionHeader \<lparr>rh_transferSeq = 7, rh_vaultId = ''v1'', rh_revisionId = ''r9'',
     rh_hash = replicate 64 CHR ''a'', rh_sizeBytes = 100, rh_parentIds = [''r7'', ''r8''],
     rh_totalChunks = 2, rh_message = Some ''merge''\<rparr>"

lemma sample_header_ok: "within_limits sample_header"
  by (simp add: sample_header_def ok_string_def ok_ids_def is_hex64_def is_lower_hex_def
      in_code_range_def LIMITS_defs list_all_iff)

theorem message_roundtrip_witness:
  "within_limits sample_header \<and> parseMessage (Some (encodeMessage sample_header)) = Parsed sample_header"
  using message_roundtrip [OF sample_header_ok] sample_header_ok by simp

lemma parseMessage_within_limits: "parseMessage raw = Parsed m \<Longrightarrow> within_limits m"
  by (auto simp: parseMessage_def malformed_def dest: parse_typed_within_limits split: option.splits json.splits)

text \<open>
  C28: Whatever a peer sends, a message the parser lets through keeps every limit: no empty or
  over-long identifier, at most 100000 history entries and wanted revisions, at most 64 parents
  per revision, no declared size above 512 MiB or chunk count above 262144, every hash 64 lower-case
  hex digits, every count a non-negative integer.\<close>

theorem parsed_within_limits:
  assumes "parseMessage raw = Parsed m"
  shows "within_limits m"
  using assms by (rule parseMessage_within_limits)

theorem parsed_within_limits_witness:
  "parseMessage (Some (JObj [(''type'', JStr ''transfer-cancel''), (''transferSeq'', JInt 3)])) =
     Parsed (TransferCancel 3 ''cancelled'') \<and> within_limits (TransferCancel 3 ''cancelled'')"
proof -
  have *: "parseMessage (Some (JObj [(''type'', JStr ''transfer-cancel''), (''transferSeq'', JInt 3)])) =
     Parsed (TransferCancel 3 ''cancelled'')"
    by (simp add: parseMessage_def parse_typed_def parseTransferCancel_def)
  then show ?thesis using parsed_within_limits [OF *] by simp
qed

end
