(* ===== verification/Short_Code.thy ===== *)
theory Short_Code
  imports Js_Prelude
begin

text \<open>
  packages/core/src/shortCode.ts: the alphabet and shape of a short pairing code, what a person
  may type for one, and the server host a code or a setting may name. The two regular expressions
  of the file are written as the functions that decide them (\<open>matches_host\<close>,
  \<open>strip_scheme\<close>); neither needs backtracking, since the separators \<open>:\<close> and \<open>.\<close> are
  outside the character classes on either side.
\<close>

section \<open>Codes\<close>

definition SHORT_CODE_ALPHABET :: string where
  "SHORT_CODE_ALPHABET = ''0123456789ABCDEFGHJKMNPQRSTVWXYZ''"

definition SHORT_CODE_LENGTH :: nat where
  "SHORT_CODE_LENGTH = 8"

definition formatShortCode :: "string \<Rightarrow> string" where
  "formatShortCode code = take 4 code @ ''-'' @ drop 4 code"

definition normalizeShortCode :: "string \<Rightarrow> string" where
  "normalizeShortCode raw =
     map (\<lambda>c. if c = CHR ''I'' \<or> c = CHR ''L'' then CHR ''1'' else c)
       (map (\<lambda>c. if c = CHR ''O'' then CHR ''0'' else c)
         (filter (\<lambda>c. \<not> (is_js_space c \<or> c = CHR ''-''))
           (js_toUpperCase (js_trim raw))))"

record ParsedShortCode =
  psc_code :: string
  psc_host :: "string option"

section \<open>Server hosts\<close>

definition is_alnum :: "char \<Rightarrow> bool" where
  "is_alnum c = (in_code_range 97 122 c \<or> in_code_range 65 90 c \<or> in_code_range 48 57 c)"

definition is_digit :: "char \<Rightarrow> bool" where
  "is_digit c = in_code_range 48 57 c"

definition is_label :: "string \<Rightarrow> bool" where
  "is_label s = (s \<noteq> [] \<and> list_all (\<lambda>c. is_alnum c \<or> c = CHR ''-'') s \<and> is_alnum (hd s) \<and> is_alnum (last s))"

definition matches_host :: "string \<Rightarrow> bool" where
  "matches_host s =
     (case js_split CHR '':'' s of
        [name] \<Rightarrow> list_all is_label (js_split CHR ''.'' name)
      | [name, port] \<Rightarrow> list_all is_label (js_split CHR ''.'' name) \<and>
          1 \<le> length port \<and> length port \<le> 5 \<and> list_all is_digit port
      | _ \<Rightarrow> False)"

text \<open>\<open>Number(s)\<close> on a string of digits with white space around it.\<close>

definition digit_value :: "char \<Rightarrow> nat" where
  "digit_value c = of_char c - 48"

definition decimal_Number :: "string \<Rightarrow> nat" where
  "decimal_Number s = foldl (\<lambda>acc c. acc * 10 + digit_value c) 0 (js_trim s)"

definition isValidServerHost :: "string \<Rightarrow> bool" where
  "isValidServerHost host =
     (if \<not> matches_host (js_trim host) then False
      else case js_split CHR '':'' host of
        _ # port # _ \<Rightarrow> decimal_Number port > 0 \<and> decimal_Number port \<le> 65535
      | _ \<Rightarrow> True)"

definition is_scheme_char :: "char \<Rightarrow> bool" where
  "is_scheme_char c = (is_alnum c \<or> c = CHR ''+'' \<or> c = CHR ''.'' \<or> c = CHR ''-'')"

definition strip_scheme :: "string \<Rightarrow> string" where
  "strip_scheme s =
     (let scheme = takeWhile is_scheme_char s; rest = dropWhile is_scheme_char s
      in if scheme \<noteq> [] \<and> \<not> is_digit (hd scheme) \<and> is_alnum (hd scheme) \<and> take 3 rest = ''://''
         then drop 3 rest else s)"

definition normalizeServerHost :: "string \<Rightarrow> string option" where
  "normalizeServerHost raw =
     (let withoutScheme = strip_scheme (js_trim raw);
          host = js_toLowerCase (takeWhile (\<lambda>c. c \<notin> set ''/?#'') withoutScheme)
      in if isValidServerHost host then Some host else None)"

definition js_endsWith :: "string \<Rightarrow> string \<Rightarrow> bool" where
  "js_endsWith s suffix = (length suffix \<le> length s \<and> drop (length s - length suffix) s = suffix)"

definition isLocalHost :: "string \<Rightarrow> bool" where
  "isLocalHost host =
     (let name = js_toLowerCase (hd (js_split CHR '':'' host))
      in name = ''localhost'' \<or> name = ''127.0.0.1'' \<or> name = ''::1'' \<or> js_endsWith name ''.local'')"

definition httpUrlFor :: "string \<Rightarrow> string" where
  "httpUrlFor host = (if isLocalHost host then ''http'' else ''https'') @ ''://'' @ host"

definition signalUrlFor :: "string \<Rightarrow> string" where
  "signalUrlFor host = (if isLocalHost host then ''ws'' else ''wss'') @ ''://'' @ host @ ''/signal''"

section \<open>What was typed into the connect box\<close>

fun js_lastIndexOf :: "char \<Rightarrow> string \<Rightarrow> nat option" where
  "js_lastIndexOf d [] = None"
| "js_lastIndexOf d (c # s) =
     (case js_lastIndexOf d s of
        Some n \<Rightarrow> Some (Suc n)
      | None \<Rightarrow> if c = d then Some 0 else None)"

definition parseShortCode :: "string \<Rightarrow> ParsedShortCode option" where
  "parseShortCode raw =
     (let trimmed = js_trim raw in
      if js_includes trimmed ''://'' then None
      else let at = js_lastIndexOf CHR ''@'' trimmed;
               codePart = (case at of None \<Rightarrow> trimmed | Some n \<Rightarrow> take n trimmed);
               hostPart = (case at of None \<Rightarrow> None | Some n \<Rightarrow> Some (js_trim (drop (n + 1) trimmed)));
               code = normalizeShortCode codePart
           in if length code \<noteq> SHORT_CODE_LENGTH \<or> \<not> list_all (\<lambda>c. c \<in> set SHORT_CODE_ALPHABET) code
              then None
              else case hostPart of
                None \<Rightarrow> Some \<lparr>psc_code = code, psc_host = None\<rparr>
              | Some host \<Rightarrow>
                  if isValidServerHost host
                  then Some \<lparr>psc_code = code, psc_host = Some (js_toLowerCase host)\<rparr>
                  else None)"

definition looksLikeShortCode :: "string \<Rightarrow> bool" where
  "looksLikeShortCode raw = (parseShortCode raw \<noteq> None)"

definition formatQualifiedShortCode :: "string \<Rightarrow> string \<Rightarrow> string" where
  "formatQualifiedShortCode code host =
     (if length (normalizeShortCode code) = SHORT_CODE_LENGTH
      then formatShortCode (normalizeShortCode code) else code) @ ''@'' @ host"

section \<open>Trimming and case\<close>

lemma dropWhile_id: "(xs = [] \<or> \<not> P (hd xs)) \<Longrightarrow> dropWhile P xs = xs"
  by (cases xs) auto

lemma js_trim_id:
  assumes "list_all (\<lambda>c. \<not> is_js_space c) s"
  shows "js_trim s = s"
proof -
  have "dropWhile is_js_space s = s"
    using assms by (intro dropWhile_id) (cases s, auto)
  moreover have "dropWhile is_js_space (rev s) = rev s"
    using assms by (intro dropWhile_id) (cases s rule: rev_cases, auto)
  ultimately show ?thesis by (simp add: js_trim_def)
qed

lemma js_trim_split: "\<exists>l r. s = l @ js_trim s @ r \<and> list_all is_js_space l \<and> list_all is_js_space r"
proof -
  let ?t = "dropWhile is_js_space s"
  have "?t = js_trim s @ rev (takeWhile is_js_space (rev ?t))"
    by (metis js_trim_def rev_append rev_rev_ident takeWhile_dropWhile_id)
  then have "s = takeWhile is_js_space s @ js_trim s @ rev (takeWhile is_js_space (rev ?t))"
    by (metis takeWhile_dropWhile_id)
  moreover have "list_all is_js_space (takeWhile is_js_space s)"
      "list_all is_js_space (rev (takeWhile is_js_space (rev ?t)))"
    by (auto simp: list_all_iff dest: set_takeWhileD)
  ultimately show ?thesis by blast
qed

lemma js_trim_chars: "c \<in> set s \<Longrightarrow> is_js_space c \<or> c \<in> set (js_trim s)"
proof -
  assume c: "c \<in> set s"
  obtain l r where "s = l @ js_trim s @ r" and sp: "list_all is_js_space l" "list_all is_js_space r"
    using js_trim_split by blast
  then have "c \<in> set l \<union> set (js_trim s) \<union> set r" using c set_append by (metis Un_assoc)
  then show ?thesis using sp by (auto simp: list_all_iff)
qed

definition norm_char :: "char \<Rightarrow> string" where
  "norm_char c = map (\<lambda>c. if c = CHR ''I'' \<or> c = CHR ''L'' then CHR ''1'' else c)
       (map (\<lambda>c. if c = CHR ''O'' then CHR ''0'' else c)
         (filter (\<lambda>c. \<not> (is_js_space c \<or> c = CHR ''-'')) (char_toUpperCase c)))"

text \<open>Facts about single characters, by arithmetic on their codes.\<close>

lemma char_code_eq: "c = d \<longleftrightarrow> (of_char c :: nat) = of_char d"
  by simp

lemma norm_char_space: "is_js_space c \<Longrightarrow> norm_char c = []"
  by (auto simp: norm_char_def char_toUpperCase_def is_js_space_def in_code_range_def)

lemma char_toUpperCase_stable:
  "d \<in> set (char_toUpperCase c) \<Longrightarrow> char_toUpperCase d = [d]"
  by (auto simp: char_toUpperCase_def in_code_range_def split: if_splits)

lemma norm_char_plain:
  assumes "char_toUpperCase d = [d]" "\<not> is_js_space d"
    and "d \<noteq> CHR ''-''" "d \<noteq> CHR ''O''" "d \<noteq> CHR ''I''" "d \<noteq> CHR ''L''"
  shows "norm_char d = [d]"
  using assms by (simp add: norm_char_def)

lemma norm_char_digits: "norm_char CHR ''0'' = ''0''" "norm_char CHR ''1'' = ''1''"
  by (simp_all add: norm_char_def char_toUpperCase_def in_code_range_def is_js_space_def)

lemma norm_char_fix:
  assumes "d \<in> set (norm_char c)"
  shows "norm_char d = [d]"
proof -
  obtain e where e: "e \<in> set (char_toUpperCase c)" "\<not> is_js_space e" "e \<noteq> CHR ''-''"
    and d: "d = (\<lambda>c. if c = CHR ''I'' \<or> c = CHR ''L'' then CHR ''1'' else c)
      (if e = CHR ''O'' then CHR ''0'' else e)"
    using assms unfolding norm_char_def set_map set_filter by blast
  show ?thesis
    using norm_char_plain [OF char_toUpperCase_stable [OF e(1)] e(2,3)] norm_char_digits
    unfolding d by (simp split: if_split)
qed

lemma concat_map_fix: "(\<And>d. d \<in> set ds \<Longrightarrow> f d = [d]) \<Longrightarrow> concat (map f ds) = ds"
  by (induction ds) auto

lemma concat_map_norm_space: "list_all is_js_space s \<Longrightarrow> concat (map norm_char s) = []"
  by (induction s) (auto simp: norm_char_space)

lemma normalizeShortCode_chars: "normalizeShortCode raw = concat (map norm_char raw)"
proof -
  have "normalizeShortCode raw = concat (map norm_char (js_trim raw))"
    unfolding normalizeShortCode_def js_toUpperCase_def filter_concat map_concat map_map
    by (simp only: norm_char_def [abs_def] comp_def)
  moreover obtain l r where "raw = l @ js_trim raw @ r" "list_all is_js_space l" "list_all is_js_space r"
    using js_trim_split by blast
  ultimately show ?thesis
    by (metis append_Nil append_Nil2 concat_append concat_map_norm_space map_append)
qed

lemma normalizeShortCode_fix: "c \<in> set (normalizeShortCode raw) \<Longrightarrow> norm_char c = [c]"
  by (auto simp: normalizeShortCode_chars norm_char_fix)

lemma normalizeShortCode_idem: "normalizeShortCode (normalizeShortCode raw) = normalizeShortCode raw"
  using normalizeShortCode_fix by (subst normalizeShortCode_chars) (rule concat_map_fix)

lemma alphabet_all:
  "list_all (\<lambda>c. 48 \<le> (of_char c :: nat) \<and> of_char c \<le> (90 :: nat) \<and> c \<noteq> CHR ''-'' \<and>
     c \<noteq> CHR ''O'' \<and> c \<noteq> CHR ''I'' \<and> c \<noteq> CHR ''L'' \<and> c \<noteq> CHR '':'' \<and> c \<noteq> CHR ''@'') SHORT_CODE_ALPHABET"
  unfolding SHORT_CODE_ALPHABET_def by simp

lemma alphabet_codes:
  "c \<in> set SHORT_CODE_ALPHABET \<Longrightarrow> 48 \<le> (of_char c :: nat) \<and> of_char c \<le> (90 :: nat) \<and>
     c \<notin> {CHR ''O'', CHR ''I'', CHR ''L'', CHR '':'', CHR ''@''}"
  using alphabet_all unfolding list_all_iff by blast

lemma alphabet_norm:
  assumes "c \<in> set SHORT_CODE_ALPHABET"
  shows "norm_char c = [c]"
proof -
  have "char_toUpperCase d = [d]" "\<not> is_js_space d" if "48 \<le> (of_char d :: nat)" "of_char d \<le> (90 :: nat)" for d
    using that by (simp_all add: char_toUpperCase_def in_code_range_def is_js_space_def)
  then show ?thesis
    using alphabet_all assms unfolding list_all_iff by (intro norm_char_plain) blast+
qed

lemma alphabet_not_space: "c \<in> set SHORT_CODE_ALPHABET \<Longrightarrow> \<not> is_js_space c"
  using alphabet_codes [of c] by (auto simp: is_js_space_def)

lemma code_part:
  assumes "length code = SHORT_CODE_LENGTH" "list_all (\<lambda>c. c \<in> set SHORT_CODE_ALPHABET) code"
  shows "normalizeShortCode code = code" "normalizeShortCode (formatShortCode code) = code"
proof -
  have keep: "concat (map norm_char xs) = xs" if "set xs \<subseteq> set code" for xs
    using that assms(2) by (intro concat_map_fix alphabet_norm) (auto simp: list_all_iff)
  then show "normalizeShortCode code = code"
    by (simp add: normalizeShortCode_chars)
  have "norm_char CHR ''-'' = []"
    by (simp add: norm_char_def char_toUpperCase_def in_code_range_def)
  then show "normalizeShortCode (formatShortCode code) = code"
    using keep [of "take 4 code"] keep [of "drop 4 code"]
    by (simp add: normalizeShortCode_chars formatShortCode_def set_take_subset set_drop_subset)
qed

section \<open>Splitting and hosts\<close>

lemma js_split_nonempty [simp]: "js_split d s \<noteq> []"
  by (induction s) (auto split: list.split)

lemma js_split_chars: "c \<in> set s \<Longrightarrow> c = d \<or> (\<exists>w \<in> set (js_split d s). c \<in> set w)"
  by (induction s) (auto split: list.split)

lemma js_split_no_sep: "w \<in> set (js_split d s) \<Longrightarrow> d \<notin> set w"
  by (induction s arbitrary: w) (auto split: list.splits if_splits)

lemma js_split_map:
  assumes "\<And>c. f c = d \<longleftrightarrow> c = d"
  shows "js_split d (map f s) = map (map f) (js_split d s)"
  using assms by (induction s) (auto split: list.split)

definition host_char :: "char \<Rightarrow> bool" where
  "host_char c \<longleftrightarrow> is_alnum c \<or> c = CHR ''-'' \<or> c = CHR ''.'' \<or> c = CHR '':''"

lemma is_label_chars: "is_label w \<Longrightarrow> list_all host_char w"
  by (auto simp: is_label_def host_char_def list_all_iff)

lemma digits_chars: "list_all is_digit w \<Longrightarrow> list_all host_char w"
  by (auto simp: is_digit_def host_char_def is_alnum_def list_all_iff)

lemma labels_chars:
  assumes "list_all is_label (js_split CHR ''.'' name)"
  shows "list_all host_char name"
  unfolding list_all_iff
proof
  fix c assume "c \<in> set name"
  from js_split_chars [OF this, of "CHR ''.''"] show "host_char c"
    using assms is_label_chars by (auto simp: list_all_iff host_char_def)
qed

lemma matches_host_chars:
  assumes "matches_host s"
  shows "list_all host_char s"
  unfolding list_all_iff
proof
  fix c assume "c \<in> set s"
  from js_split_chars [OF this, of "CHR '':''"] show "host_char c"
    using assms labels_chars digits_chars
    by (auto simp: matches_host_def list_all_iff host_char_def split: list.splits)
qed

lemma host_char_plain:
  "host_char c \<Longrightarrow> \<not> is_js_space c \<and> c \<notin> {CHR ''/'', CHR ''?'', CHR ''#'', CHR ''@''}"
  by (auto simp: host_char_def is_alnum_def in_code_range_def is_js_space_def)

lemma matches_host_nonempty: "matches_host s \<Longrightarrow> s \<noteq> []"
  by (auto simp: matches_host_def is_label_def)

lemma valid_host_matches: "isValidServerHost h \<Longrightarrow> matches_host (js_trim h)"
  by (auto simp: isValidServerHost_def split: if_splits)

lemma js_trim_ends:
  assumes "s \<noteq> []" "\<not> is_js_space (hd s)" "\<not> is_js_space (last s)"
  shows "js_trim s = s"
proof -
  have "dropWhile is_js_space s = s" using assms by (intro dropWhile_id) auto
  moreover have "dropWhile is_js_space (rev s) = rev s"
    using assms by (intro dropWhile_id) (simp add: hd_rev)
  ultimately show ?thesis by (simp add: js_trim_def)
qed

lemma js_includes_mem: "js_includes s needle \<Longrightarrow> set needle \<subseteq> set s"
proof (induction s)
  case (Cons c s)
  show ?case
  proof (cases "js_includes s needle")
    case False
    with Cons.prems have "take (length needle) (c # s) = needle" by simp
    then show ?thesis by (metis set_take_subset)
  qed (use Cons.IH in auto)
qed simp

lemma js_lastIndexOf_None: "d \<notin> set s \<Longrightarrow> js_lastIndexOf d s = None"
  by (induction s) auto

lemma js_lastIndexOf_append:
  "d \<notin> set t \<Longrightarrow> js_lastIndexOf d (s @ d # t) = Some (length s)"
  by (induction s) (auto simp: js_lastIndexOf_None)

definition valid_code :: "string \<Rightarrow> bool" where
  "valid_code code \<longleftrightarrow> length code = SHORT_CODE_LENGTH \<and> list_all (\<lambda>c. c \<in> set SHORT_CODE_ALPHABET) code"

lemma formatShortCode_chars:
  assumes "valid_code code" "c \<in> set (formatShortCode code)"
  shows "\<not> is_js_space c \<and> c \<notin> {CHR ''@'', CHR '':'', CHR ''/''}"
proof -
  from assms have "c = CHR ''-'' \<or> c \<in> set code"
    by (auto simp: formatShortCode_def dest: in_set_takeD in_set_dropD)
  then show ?thesis
    using assms(1) alphabet_codes [of c] by (auto simp: valid_code_def list_all_iff is_js_space_def)
qed

lemma formatShortCode_trim:
  assumes "valid_code code"
  shows "js_trim (formatShortCode code) = formatShortCode code"
  using formatShortCode_chars [OF assms] by (intro js_trim_id) (auto simp: list_all_iff)

lemma formatShortCode_hd:
  assumes "valid_code code"
  shows "formatShortCode code \<noteq> [] \<and> \<not> is_js_space (hd (formatShortCode code))"
proof -
  have "formatShortCode code \<noteq> []" by (simp add: formatShortCode_def)
  then show ?thesis using formatShortCode_chars [OF assms hd_in_set] by blast
qed

lemma parse_formatted:
  assumes "valid_code code"
  shows "parseShortCode (formatShortCode code) = Some \<lparr>psc_code = code, psc_host = None\<rparr>"
proof -
  have "\<not> js_includes (formatShortCode code) ''://''" "CHR ''@'' \<notin> set (formatShortCode code)"
    using formatShortCode_chars [OF assms] js_includes_mem [of "formatShortCode code" "''://''"] by auto
  then show ?thesis
    using assms code_part [of code]
    by (simp add: parseShortCode_def formatShortCode_trim [OF assms] js_lastIndexOf_None valid_code_def)
qed

lemma parse_qualified:
  assumes code: "valid_code code" and host: "isValidServerHost host" "js_trim host = host"
  shows "parseShortCode (formatQualifiedShortCode code host) =
    Some \<lparr>psc_code = code, psc_host = Some (js_toLowerCase host)\<rparr>"
proof -
  let ?f = "formatShortCode code" and ?q = "formatShortCode code @ CHR ''@'' # host"
  have m: "matches_host host" using valid_host_matches [OF host(1)] host(2) by simp
  note hc = matches_host_chars [OF m, unfolded list_all_iff, rule_format, THEN host_char_plain]
  have q: "formatQualifiedShortCode code host = ?q"
    using code code_part [of code] by (simp add: formatQualifiedShortCode_def valid_code_def)
  have "\<not> is_js_space (last ?q)"
    using hc last_in_set [OF matches_host_nonempty [OF m]] matches_host_nonempty [OF m] by auto
  then have trim: "js_trim ?q = ?q"
    using formatShortCode_hd [OF code] by (intro js_trim_ends) auto
  have noslash: "\<not> js_includes ?q ''://''"
    using js_includes_mem [of ?q "''://''"] formatShortCode_chars [OF code] hc by auto
  have at: "js_lastIndexOf CHR ''@'' ?q = Some (length ?f)"
    using hc by (intro js_lastIndexOf_append) auto
  show ?thesis
    unfolding q using code code_part [of code] host noslash
    by (simp add: parseShortCode_def trim at valid_code_def)
qed

section \<open>Lower case\<close>

lemma lower_code:
  "of_char (char_toLowerCase c) = (of_char c :: nat) \<or>
   (of_char (char_toLowerCase c) = (of_char c + 32 :: nat) \<and> in_code_range 65 90 c) \<or>
   (of_char (char_toLowerCase c) = (of_char c + 32 :: nat) \<and> in_code_range 192 222 c)"
  by (auto simp: char_toLowerCase_def in_code_range_def)

lemma lower_alnum [simp]: "is_alnum (char_toLowerCase c) = is_alnum c"
  by (auto simp: is_alnum_def char_toLowerCase_def in_code_range_def)

lemma lower_digit [simp]: "is_digit (char_toLowerCase c) = is_digit c"
  by (auto simp: is_digit_def char_toLowerCase_def in_code_range_def)

lemma lower_space [simp]: "is_js_space (char_toLowerCase c) = is_js_space c"
  by (auto simp: is_js_space_def char_toLowerCase_def in_code_range_def)

lemma lower_idem [simp]: "char_toLowerCase (char_toLowerCase c) = char_toLowerCase c"
  by (auto simp: char_toLowerCase_def in_code_range_def)

lemma lower_sep:
  assumes "of_char d \<in> {35 :: nat, 45, 46, 47, 58, 63}"
  shows "char_toLowerCase c = d \<longleftrightarrow> c = d"
proof -
  have "(of_char (char_toLowerCase c) = (of_char d :: nat)) = (of_char c = (of_char d :: nat))"
    using assms lower_code [of c] unfolding in_code_range_def by (auto simp del: of_char_eq_iff)
  then show ?thesis by simp
qed

lemma is_label_lower [simp]: "is_label (map char_toLowerCase w) = is_label w"
  by (cases "w = []") (auto simp: is_label_def list_all_iff hd_map last_map lower_sep)

lemma matches_host_lower [simp]: "matches_host (js_toLowerCase s) = matches_host s"
proof -
  have split: "js_split d (map char_toLowerCase t) = map (map char_toLowerCase) (js_split d t)"
    if "d = CHR '':'' \<or> d = CHR ''.''" for d t
    using that by (intro js_split_map lower_sep) auto
  show ?thesis
    by (auto simp: matches_host_def js_toLowerCase_def split list_all_iff split: list.splits)
qed

lemma dropWhile_map_inv: "(\<And>c. P (f c) = P c) \<Longrightarrow> dropWhile P (map f s) = map f (dropWhile P s)"
  by (induction s) auto

lemma js_trim_lower: "js_trim (js_toLowerCase s) = js_toLowerCase (js_trim s)"
  by (simp add: js_trim_def js_toLowerCase_def dropWhile_map_inv rev_map)

lemma digit_value_lower [simp]: "is_digit c \<Longrightarrow> char_toLowerCase c = c"
  by (auto simp: is_digit_def char_toLowerCase_def in_code_range_def)

lemma digits_lower: "list_all is_digit w \<Longrightarrow> map char_toLowerCase w = w"
  by (induction w) auto

lemma valid_host_lower:
  assumes "isValidServerHost h" "js_trim h = h"
  shows "isValidServerHost (js_toLowerCase h)"
proof -
  have m: "matches_host h" using valid_host_matches [OF assms(1)] assms(2) by simp
  have "js_split CHR '':'' (js_toLowerCase h) = map (map char_toLowerCase) (js_split CHR '':'' h)"
    unfolding js_toLowerCase_def by (intro js_split_map lower_sep) auto
  moreover have "matches_host (js_toLowerCase h)" "js_trim (js_toLowerCase h) = js_toLowerCase h"
    using m assms(2) by (simp_all add: js_trim_lower)
  moreover have "js_split CHR '':'' h = [name, port] \<Longrightarrow> map char_toLowerCase port = port" for name port
    using m by (simp add: matches_host_def digits_lower)
  ultimately show ?thesis
    using assms m by (auto simp: isValidServerHost_def matches_host_def [of h] split: list.splits)
qed

section \<open>White space around a host\<close>

lemma js_split_prefix:
  "d \<notin> set l \<Longrightarrow> js_split d (l @ t) = (l @ hd (js_split d t)) # tl (js_split d t)"
  by (induction l) auto

lemma js_split_suffix:
  "d \<notin> set r \<Longrightarrow> js_split d (t @ r) = butlast (js_split d t) @ [last (js_split d t) @ r]"
proof (induction t)
  case Nil
  then show ?case using js_split_prefix [of d r "[]"] by simp
next
  case (Cons c t)
  then show ?case by (cases "js_split d t") (auto split: if_splits)
qed

lemma dropWhile_all: "list_all P xs \<Longrightarrow> dropWhile P xs = []"
  by (induction xs) auto

lemma js_trim_append_space:
  assumes "list_all is_js_space r"
  shows "js_trim (s @ r) = js_trim s"
proof (cases "list_all is_js_space s")
  case True
  then have "list_all is_js_space (s @ r)" using assms by simp
  with True show ?thesis by (simp add: js_trim_def dropWhile_all)
next
  case False
  then have "dropWhile is_js_space (s @ r) = dropWhile is_js_space s @ r"
    by (induction s) auto
  moreover have "dropWhile is_js_space (rev r @ t) = dropWhile is_js_space t" for t
    using assms by (induction r rule: rev_induct) auto
  ultimately show ?thesis by (simp add: js_trim_def)
qed

lemma js_trim_idem: "js_trim (js_trim s) = js_trim s"
proof (cases "js_trim s = []")
  case False
  let ?t = "dropWhile is_js_space s"
  have "\<not> is_js_space (last (js_trim s))"
    using False hd_dropWhile [of is_js_space "rev ?t"] by (simp add: js_trim_def last_rev)
  moreover have "\<not> is_js_space (hd (js_trim s))"
  proof -
    have "?t = js_trim s @ rev (takeWhile is_js_space (rev ?t))"
      by (metis js_trim_def rev_append rev_rev_ident takeWhile_dropWhile_id)
    then have "hd ?t = hd (js_trim s)" "?t \<noteq> []" using False by (metis hd_append2, metis Nil_is_append_conv)
    then show ?thesis using hd_dropWhile [of is_js_space s] by simp
  qed
  ultimately show ?thesis using False by (intro js_trim_ends)
next
  case True
  then show ?thesis by (simp add: js_trim_id)
qed

lemma space_not_colon: "list_all is_js_space l \<Longrightarrow> CHR '':'' \<notin> set l"
  by (auto simp: list_all_iff is_js_space_def)

lemma valid_host_trim:
  assumes "isValidServerHost h"
  shows "isValidServerHost (js_trim h)" and "js_trim (js_trim h) = js_trim h"
proof -
  have m: "matches_host (js_trim h)" using valid_host_matches [OF assms] .
  show t: "js_trim (js_trim h) = js_trim h"
    using matches_host_chars [OF m] host_char_plain by (intro js_trim_id) (auto simp: list_all_iff)
  obtain l r where h: "h = l @ js_trim h @ r" "list_all is_js_space l" "list_all is_js_space r"
    using js_trim_split by blast
  have split: "js_split CHR '':'' h =
      (let ps = butlast (js_split CHR '':'' (js_trim h)) @ [last (js_split CHR '':'' (js_trim h)) @ r]
       in (l @ hd ps) # tl ps)"
    using h js_split_prefix [OF space_not_colon, of l "js_trim h @ r"]
      js_split_suffix [OF space_not_colon, of r "js_trim h"]
    by (simp add: Let_def)
  from m consider name where "js_split CHR '':'' (js_trim h) = [name]"
    | name port where "js_split CHR '':'' (js_trim h) = [name, port]"
    by (auto simp: matches_host_def split: list.splits)
  then show "isValidServerHost (js_trim h)"
  proof cases
    case 1
    then show ?thesis using m t by (simp add: isValidServerHost_def)
  next
    case 2
    with split have "js_split CHR '':'' h = [l @ name, port @ r]" by simp
    with assms 2 m t show ?thesis
      by (simp add: isValidServerHost_def decimal_Number_def js_trim_append_space [OF h(3)])
  qed
qed

lemma strip_scheme_id: "CHR ''/'' \<notin> set s \<Longrightarrow> strip_scheme s = s"
proof -
  assume "CHR ''/'' \<notin> set s"
  then have "take 3 (dropWhile is_scheme_char s) \<noteq> ''://''"
    by (metis in_set_takeD list.set_intros(1,2) set_dropWhileD)
  then show ?thesis by (simp add: strip_scheme_def Let_def)
qed

lemma lower_map_idem [simp]: "js_toLowerCase (js_toLowerCase s) = js_toLowerCase s"
  by (simp add: js_toLowerCase_def)

lemma normalized_chars:
  assumes "isValidServerHost h"
  shows "set (js_trim h) \<inter> set ''/?#'' = {}"
  using matches_host_chars [OF valid_host_matches [OF assms]] host_char_plain
  by (fastforce simp: list_all_iff)

section \<open>Properties\<close>

text \<open>
  A code shown to a person reads back: every eight-character code over the alphabet, formatted
  with its dash, parses to that code; and the form qualified with a valid server host parses to the
  same code with the host in lower case.\<close>

theorem short_code_roundtrip:
  assumes "valid_code code" and "isValidServerHost host" and "js_trim host = host"
  shows "parseShortCode (formatShortCode code) = Some \<lparr>psc_code = code, psc_host = None\<rparr> \<and>
    parseShortCode (formatQualifiedShortCode code host) =
      Some \<lparr>psc_code = code, psc_host = Some (js_toLowerCase host)\<rparr>"
  using parse_formatted parse_qualified assms by blast

theorem short_code_roundtrip_witness:
  "parseShortCode (formatQualifiedShortCode ''4F7K2QX9'' ''Sync.example.org:8787'') =
     Some \<lparr>psc_code = ''4F7K2QX9'', psc_host = Some (js_toLowerCase ''Sync.example.org:8787'')\<rparr>"
proof -
  have "valid_code ''4F7K2QX9''"
    by (simp add: valid_code_def SHORT_CODE_LENGTH_def SHORT_CODE_ALPHABET_def)
  moreover have "isValidServerHost ''Sync.example.org:8787''" "js_trim ''Sync.example.org:8787'' = ''Sync.example.org:8787''"
    by (simp_all add: isValidServerHost_def js_trim_def is_js_space_def matches_host_def is_label_def
        is_alnum_def is_digit_def in_code_range_def decimal_Number_def digit_value_def)
  ultimately show ?thesis using short_code_roundtrip by blast
qed

text \<open>
  Whatever was typed, a parsed code is exactly eight characters of the alphabet and already in
  normal form (normalising again, as the server does on redeeming, leaves it unchanged), it was not
  read out of something with a URL scheme in it, and a host it names is a valid server host in lower
  case.\<close>

theorem parseShortCode_sound:
  assumes "parseShortCode raw = Some p"
  shows "valid_code (psc_code p) \<and> normalizeShortCode (psc_code p) = psc_code p \<and>
    \<not> js_includes (js_trim raw) ''://'' \<and>
    (case psc_host p of None \<Rightarrow> True | Some h \<Rightarrow> isValidServerHost h \<and> js_toLowerCase h = h)"
proof -
  have "isValidServerHost (js_toLowerCase (js_trim h))" if "isValidServerHost (js_trim h)" for h
  proof (rule valid_host_lower [OF that])
    show "js_trim (js_trim h) = js_trim h" by (rule js_trim_idem)
  qed
  then show ?thesis
    using assms
    by (auto simp: parseShortCode_def Let_def valid_code_def normalizeShortCode_idem
        split: if_splits option.splits)
qed

theorem parseShortCode_sound_witness:
  "parseShortCode ''  4f7k 2qxo '' = Some \<lparr>psc_code = ''4F7K2QX0'', psc_host = None\<rparr> \<and>
   valid_code ''4F7K2QX0''"
proof -
  have *: "parseShortCode ''  4f7k 2qxo '' = Some \<lparr>psc_code = ''4F7K2QX0'', psc_host = None\<rparr>"
    by code_simp
  then show ?thesis using parseShortCode_sound [OF *] by simp
qed

text \<open>
  A server address that was accepted is a valid host in lower case without path, query or
  fragment, and feeding it back gives the same host with the white space around it gone.\<close>

theorem normalizeServerHost_stable:
  assumes "normalizeServerHost raw = Some h"
  shows "isValidServerHost h \<and> js_toLowerCase h = h \<and> set h \<inter> set ''/?#'' = {} \<and>
    normalizeServerHost h = Some (js_trim h)"
proof -
  have v: "isValidServerHost h" and l: "js_toLowerCase h = h"
    using assms by (auto simp: normalizeServerHost_def Let_def split: if_splits)
  note t = valid_host_trim [OF v] and n = normalized_chars [OF v]
  have "takeWhile (\<lambda>c. c \<notin> set ''/?#'') (js_trim h) = js_trim h"
    using n by (auto simp: takeWhile_eq_all_conv)
  moreover have "js_toLowerCase (js_trim h) = js_trim h"
    using js_trim_lower [of h] l by simp
  moreover have "strip_scheme (js_trim h) = js_trim h"
    using n by (intro strip_scheme_id) auto
  ultimately have "normalizeServerHost h = Some (js_trim h)"
    using t unfolding normalizeServerHost_def Let_def by (simp only: if_True)
  moreover have "set h \<inter> set ''/?#'' = {}"
    using n js_trim_chars [of "CHR ''/''" h] js_trim_chars [of "CHR ''?''" h]
      js_trim_chars [of "CHR ''#''" h] by (auto simp: is_js_space_def)
  ultimately show ?thesis using v l by blast
qed

theorem normalizeServerHost_stable_witness:
  "normalizeServerHost ''https://Sync.example.org/health'' = Some ''sync.example.org'' \<and>
   normalizeServerHost ''sync.example.org'' = Some (js_trim ''sync.example.org'')"
proof -
  have *: "normalizeServerHost ''https://Sync.example.org/health'' = Some ''sync.example.org''"
    by code_simp
  then show ?thesis using normalizeServerHost_stable [OF *] by simp
qed

text \<open>
  Two behaviours the comments of the file do not announce: the white space in front of a path is
  kept in the accepted host, and the IPv6 loopback address, although \<open>isLocalHost\<close> lists it, is
  never recognised, because the text is split at its colons first.
\<close>

lemma normalizeServerHost_keeps_space:
  "normalizeServerHost ''a.org /x'' = Some ''a.org ''"
  by code_simp

lemma ipv6_loopback_not_local: "\<not> isLocalHost ''::1''"
  by (simp add: isLocalHost_def js_toLowerCase_def js_endsWith_def)

end
