(* ===== verification/Device_Identity.thy ===== *)
theory Device_Identity
  imports Js_Prelude
begin

text \<open>
  packages/identity/src/identity.ts: a device's key pair and id, the challenge a peer signs, the
  six-digit short authentication string, and the byte encodings. SHA-256 and Ed25519 come from the
  packages \<open>@noble/hashes\<close> and \<open>@noble/curves\<close> and are parameters (\<open>sha256\<close>,
  \<open>getPublicKey\<close>, \<open>ed_sign\<close>, \<open>ed_verify\<close>, the last one with \<open>None\<close> for a throw on
  a malformed argument). \<open>TextEncoder\<close>, \<open>btoa\<close> and \<open>atob\<close> are written out.
\<close>

unbundle bit_operations_syntax

section \<open>Encodings\<close>

definition hex_digit :: "nat \<Rightarrow> char" where
  "hex_digit n = char_of (if n < 10 then 48 + n else 87 + n)"

definition toHex :: "bytes \<Rightarrow> string" where
  "toHex bs = concat (map (\<lambda>byte. [hex_digit (unat byte div 16), hex_digit (unat byte mod 16)]) bs)"

definition is_hex_ci :: "char \<Rightarrow> bool" where
  "is_hex_ci c = (in_code_range 97 102 c \<or> in_code_range 65 70 c \<or> in_code_range 48 57 c)"

definition hex_value :: "char \<Rightarrow> nat" where
  "hex_value c =
     (if in_code_range 97 102 c then of_char c - 87
      else if in_code_range 65 70 c then of_char c - 55 else of_char c - 48)"

fun hex_pairs :: "string \<Rightarrow> bytes" where
  "hex_pairs (a # b # rest) = word_of_nat (hex_value a * 16 + hex_value b) # hex_pairs rest"
| "hex_pairs _ = []"

definition fromHex :: "string \<Rightarrow> bytes result" where
  "fromHex value =
     res_bind (assert_contract (list_all is_hex_ci value \<and> length value mod 2 = 0)
       ''expected an even-length hex string'')
       (\<lambda>_. Inr (hex_pairs value))"

text \<open>\<open>btoa\<close> and the forgiving \<open>atob\<close>, on byte strings.\<close>

definition b64_char :: "nat \<Rightarrow> char" where
  "b64_char n = char_of
     (if n < 26 then 65 + n else if n < 52 then 71 + n else if n < 62 then n - 4
      else if n = 62 then 43 else 47)"

definition b64_value :: "char \<Rightarrow> nat option" where
  "b64_value c =
     (if in_code_range 65 90 c then Some (of_char c - 65)
      else if in_code_range 97 122 c then Some (of_char c - 71)
      else if in_code_range 48 57 c then Some (of_char c + 4)
      else if c = CHR ''+'' then Some 62
      else if c = CHR ''/'' then Some 63 else None)"

fun btoa :: "nat list \<Rightarrow> string" where
  "btoa [] = []"
| "btoa [a] = [b64_char (a div 4), b64_char (a mod 4 * 16), CHR ''='', CHR ''='']"
| "btoa [a, b] = [b64_char (a div 4), b64_char (a mod 4 * 16 + b div 16), b64_char (b mod 16 * 4), CHR ''='']"
| "btoa (a # b # c # rest) =
     b64_char (a div 4) # b64_char (a mod 4 * 16 + b div 16) #
     b64_char (b mod 16 * 4 + c div 64) # b64_char (c mod 64) # btoa rest"

fun b64_decode :: "nat list \<Rightarrow> nat list" where
  "b64_decode (p # q # r # s # rest) =
     (p * 4 + q div 16) # (q mod 16 * 16 + r div 4) # (r mod 4 * 64 + s) # b64_decode rest"
| "b64_decode [p, q, r] = [p * 4 + q div 16, q mod 16 * 16 + r div 4]"
| "b64_decode [p, q] = [p * 4 + q div 16]"
| "b64_decode _ = []"

definition is_ascii_space :: "char \<Rightarrow> bool" where
  "is_ascii_space c = (of_char c \<in> {9, 10, 12, 13, 32 :: nat})"

definition strip_padding :: "string \<Rightarrow> string" where
  "strip_padding s =
     (if length s mod 4 = 0 \<and> s \<noteq> [] \<and> last s = CHR ''=''
      then (let t = butlast s in if t \<noteq> [] \<and> last t = CHR ''='' then butlast t else t)
      else s)"

fun b64_values :: "string \<Rightarrow> nat list option" where
  "b64_values [] = Some []"
| "b64_values (c # s) =
     (case b64_value c of
        None \<Rightarrow> None
      | Some v \<Rightarrow> (case b64_values s of None \<Rightarrow> None | Some vs \<Rightarrow> Some (v # vs)))"

definition atob :: "string \<Rightarrow> nat list option" where
  "atob value =
     (let s = strip_padding (filter (\<lambda>c. \<not> is_ascii_space c) value)
      in if length s mod 4 = 1 then None
         else case b64_values s of None \<Rightarrow> None | Some vs \<Rightarrow> Some (b64_decode vs))"

definition toBase64 :: "bytes \<Rightarrow> string" where
  "toBase64 bs = btoa (map unat bs)"

definition fromBase64 :: "string \<Rightarrow> bytes option" where
  "fromBase64 value = (case atob value of None \<Rightarrow> None | Some binary \<Rightarrow> Some (map word_of_nat binary))"

text \<open>\<open>TextEncoder.encode\<close> on characters below code 256.\<close>

definition utf8_char :: "char \<Rightarrow> bytes" where
  "utf8_char c =
     (let n = of_char c in
      if n < (128 :: nat) then [word_of_nat n]
      else [word_of_nat (192 + n div 64), word_of_nat (128 + n mod 64)])"

definition utf8 :: "string \<Rightarrow> bytes" where
  "utf8 value = concat (map utf8_char value)"

section \<open>Keys, ids and challenges\<close>

record DeviceKeyPair =
  kp_deviceId :: DeviceId
  kp_publicKey :: bytes
  kp_privateKey :: bytes

datatype DeviceTrust = Paired | Revoked

record PairedDevice =
  pd_deviceId :: DeviceId
  pd_publicKey :: bytes
  pd_name :: string
  pd_trust :: DeviceTrust
  pd_pairedAt :: Date
  pd_lastSeenAt :: "Date option"

record PublicIdentity =
  pi_deviceId :: DeviceId
  pi_publicKey :: bytes
  pi_name :: string

definition deviceIdFor :: "(bytes \<Rightarrow> bytes) \<Rightarrow> bytes \<Rightarrow> DeviceId" where
  "deviceIdFor sha256 publicKey = brand (toHex (sha256 publicKey))"

definition keyPairFromPrivateKey ::
  "(bytes \<Rightarrow> bytes) \<Rightarrow> (bytes \<Rightarrow> bytes) \<Rightarrow> bytes \<Rightarrow> DeviceKeyPair result" where
  "keyPairFromPrivateKey sha256 getPublicKey privateKey =
     res_bind (assert_contract (length privateKey = 32) ''an ed25519 private key is 32 bytes'')
       (\<lambda>_. let publicKey = getPublicKey privateKey in
         Inr \<lparr>kp_deviceId = deviceIdFor sha256 publicKey, kp_publicKey = publicKey,
              kp_privateKey = privateKey\<rparr>)"

definition verify :: "(bytes \<Rightarrow> bytes \<Rightarrow> bytes \<Rightarrow> bool option) \<Rightarrow> bytes \<Rightarrow> bytes \<Rightarrow> bytes \<Rightarrow> bool" where
  "verify ed_verify publicKey message signature =
     (case ed_verify signature message publicKey of Some b \<Rightarrow> b | None \<Rightarrow> False)"

definition NEWLINE :: char where
  "NEWLINE = CHR 0x0A"

definition challenge_text :: "bytes \<Rightarrow> DeviceId \<Rightarrow> DeviceId \<Rightarrow> string" where
  "challenge_text nonce challengerDeviceId responderDeviceId =
     ''passvault/auth/v1'' @ [NEWLINE] @ challengerDeviceId @ [NEWLINE] @ responderDeviceId @ [NEWLINE] @ toHex nonce"

definition authChallengeBytes :: "bytes \<Rightarrow> DeviceId \<Rightarrow> DeviceId \<Rightarrow> bytes" where
  "authChallengeBytes nonce challengerDeviceId responderDeviceId =
     utf8 (challenge_text nonce challengerDeviceId responderDeviceId)"

section \<open>The short authentication string\<close>

fun compare_loop :: "bytes \<Rightarrow> bytes \<Rightarrow> int" where
  "compare_loop (l # a) (r # b) = (if l \<noteq> r then uint l - uint r else compare_loop a b)"
| "compare_loop a b = int (length a) - int (length b)"

definition compareBytes :: "bytes \<Rightarrow> bytes \<Rightarrow> int" where
  "compareBytes a b = compare_loop a b"

definition sas_input :: "bytes \<Rightarrow> bytes \<Rightarrow> bytes" where
  "sas_input a b =
     (let (first, second) = (if compareBytes a b \<le> 0 then (a, b) else (b, a))
      in utf8 ''passvault/sas/v1'' @ first @ second)"

definition byte_at :: "bytes \<Rightarrow> nat \<Rightarrow> 32 word" where
  "byte_at digest i = (if i < length digest then ucast (digest ! i) else 0)"

definition padStart :: "nat \<Rightarrow> char \<Rightarrow> string \<Rightarrow> string" where
  "padStart n c s = replicate (n - length s) c @ s"

definition shortAuthenticationString :: "(bytes \<Rightarrow> bytes) \<Rightarrow> bytes \<Rightarrow> bytes \<Rightarrow> string" where
  "shortAuthenticationString sha256 a b =
     (let digest = sha256 (sas_input a b);
          value = push_bit 16 (byte_at digest 0) OR push_bit 8 (byte_at digest 1) OR byte_at digest 2
      in padStart 6 CHR ''0'' (decimal_string (unat value mod 1000000)))"

section \<open>Round trips of the encodings\<close>

lemma unat_byte_less: "unat (b :: byte) < 256"
  using unsigned_less [of b, where 'a = nat] by simp

lemma hex_value_digit:
  assumes "n < 16"
  shows "hex_value (hex_digit n) = n" "is_hex_ci (hex_digit n)" "hex_digit n \<noteq> NEWLINE"
proof -
  have "of_char (hex_digit n) = (if n < 10 then 48 + n else 87 + n)"
    using assms by (simp add: hex_digit_def)
  then show "hex_value (hex_digit n) = n" "is_hex_ci (hex_digit n)" "hex_digit n \<noteq> NEWLINE"
    using assms by (auto simp: hex_value_def is_hex_ci_def in_code_range_def NEWLINE_def split: if_splits)
qed

lemma toHex_Cons: "toHex (b # bs) = hex_digit (unat b div 16) # hex_digit (unat b mod 16) # toHex bs"
  by (simp add: toHex_def)

lemma hex_pairs_toHex: "hex_pairs (toHex bs) = bs"
proof (induction bs)
  case (Cons b bs)
  have "unat b div 16 < 16" "unat b mod 16 < 16" using unat_byte_less [of b] by auto
  with Cons show ?case by (simp add: toHex_Cons hex_value_digit)
qed (simp add: toHex_def)

lemma toHex_chars:
  "c \<in> set (toHex bs) \<Longrightarrow> is_hex_ci c \<and> c \<noteq> NEWLINE"
proof (induction bs)
  case (Cons b bs)
  have "unat b div 16 < 16" "unat b mod 16 < 16" using unat_byte_less [of b] by auto
  with Cons show ?case by (auto simp: toHex_Cons hex_value_digit)
qed (simp add: toHex_def)

lemma length_toHex [simp]: "length (toHex bs) = 2 * length bs"
  by (induction bs) (simp_all add: toHex_def)

lemma fromHex_toHex: "fromHex (toHex bs) = Inr bs"
  using toHex_chars [of _ bs] by (auto simp: fromHex_def list_all_iff hex_pairs_toHex assert_contract_def)

lemma toHex_inject [simp]: "toHex a = toHex b \<longleftrightarrow> a = b"
  by (metis hex_pairs_toHex)

lemma b64_value_char:
  assumes "n < 64"
  shows "b64_value (b64_char n) = Some n" "\<not> is_ascii_space (b64_char n)" "b64_char n \<noteq> CHR ''=''"
proof -
  have code: "of_char (b64_char n) =
      (if n < 26 then 65 + n else if n < 52 then 71 + n else if n < 62 then n - 4
       else if n = 62 then 43 else 47)"
    using assms by (simp add: b64_char_def)
  have "n = 62 \<or> n = 63 \<or> n < 62" using assms by auto
  then show "b64_value (b64_char n) = Some n"
  proof (elim disjE)
    assume "n < 62"
    then show ?thesis using code by (auto simp: b64_value_def in_code_range_def)
  next
    assume "n = 62"
    with code have "of_char (b64_char n) = (of_char CHR ''+'' :: nat)" by simp
    then have "b64_char n = CHR ''+''" by (simp only: of_char_eq_iff)
    moreover note \<open>n = 62\<close>
    ultimately show ?thesis by (simp add: b64_value_def in_code_range_def)
  next
    assume "n = 63"
    with code have "of_char (b64_char n) = (of_char CHR ''/'' :: nat)" by simp
    then have "b64_char n = CHR ''/''" by (simp only: of_char_eq_iff)
    moreover note \<open>n = 63\<close>
    ultimately show ?thesis by (simp add: b64_value_def in_code_range_def)
  qed
  show "\<not> is_ascii_space (b64_char n)"
    using code assms by (auto simp: is_ascii_space_def)
  have "of_char (b64_char n) \<noteq> (61 :: nat)" using code assms by auto
  then show "b64_char n \<noteq> CHR ''=''" by auto
qed

fun sextets :: "nat list \<Rightarrow> nat list" where
  "sextets [] = []"
| "sextets [a] = [a div 4, a mod 4 * 16]"
| "sextets [a, b] = [a div 4, a mod 4 * 16 + b div 16, b mod 16 * 4]"
| "sextets (a # b # c # rest) =
     a div 4 # (a mod 4 * 16 + b div 16) # (b mod 16 * 4 + c div 64) # c mod 64 # sextets rest"

fun pad_count :: "nat list \<Rightarrow> nat" where
  "pad_count [] = 0"
| "pad_count [a] = 2"
| "pad_count [a, b] = 1"
| "pad_count (a # b # c # rest) = pad_count rest"

lemma btoa_sextets: "btoa bs = map b64_char (sextets bs) @ replicate (pad_count bs) CHR ''=''"
  by (induction bs rule: btoa.induct) (simp_all add: numeral_2_eq_2)

text \<open>The arithmetic of regrouping 8-bit units as 6-bit ones.\<close>

lemma sextet_bounds:
  fixes a b :: nat
  assumes "b < 256"
  shows "a mod 4 * 16 + b div 16 < 64" "a mod 16 * 4 + b div 64 < 64"
proof -
  have "a mod 4 < 4" "a mod 16 < 16" "b div 16 < 16" "b div 64 < 4" using assms by auto
  then show "a mod 4 * 16 + b div 16 < 64" "a mod 16 * 4 + b div 64 < 64" by linarith+
qed

lemma sextet_joins:
  fixes a b c :: nat
  assumes "b < 256" "c < 256"
  shows "a div 4 * 4 + (a mod 4 * 16 + b div 16) div 16 = a"
    "(a mod 4 * 16 + b div 16) mod 16 * 16 + (b mod 16 * 4 + c div 64) div 4 = b"
    "(b mod 16 * 4 + c div 64) mod 4 * 64 + c mod 64 = c"
proof -
  have "b div 16 < 16" "c div 64 < 4" using assms by auto
  then have *: "(a mod 4 * 16 + b div 16) div 16 = a mod 4" "(a mod 4 * 16 + b div 16) mod 16 = b div 16"
    "(b mod 16 * 4 + c div 64) div 4 = b mod 16" "(b mod 16 * 4 + c div 64) mod 4 = c div 64"
    by simp_all
  show "a div 4 * 4 + (a mod 4 * 16 + b div 16) div 16 = a"
    "(a mod 4 * 16 + b div 16) mod 16 * 16 + (b mod 16 * 4 + c div 64) div 4 = b"
    "(b mod 16 * 4 + c div 64) mod 4 * 64 + c mod 64 = c"
    unfolding * by (rule div_mult_mod_eq)+
qed

lemma sextets_less: "list_all (\<lambda>b. b < 256) bs \<Longrightarrow> list_all (\<lambda>n. n < 64) (sextets bs)"
  by (induction bs rule: sextets.induct) (auto simp: sextet_bounds sextet_bounds [of 0, simplified])

lemma sextets_length: "(length (sextets bs) + pad_count bs) mod 4 = 0" "pad_count bs \<le> 2"
  by (induction bs rule: sextets.induct) (auto simp: mod_Suc)

lemma decode_sextets: "list_all (\<lambda>b. b < 256) bs \<Longrightarrow> b64_decode (sextets bs) = bs"
proof (induction bs rule: sextets.induct)
  case (4 a b c rest)
  then have bc: "b < 256" "c < 256" by simp_all
  show ?case
    unfolding sextets.simps b64_decode.simps sextet_joins [OF bc] using 4 by simp
qed (simp_all add: sextet_joins [where c = 0, simplified]
      sextet_joins [where b = 0 and c = 0, simplified])

lemma b64_values_chars: "list_all (\<lambda>n. n < 64) ns \<Longrightarrow> b64_values (map b64_char ns) = Some ns"
  by (induction ns) (auto simp: b64_value_char)

lemma strip_padding_chars:
  assumes "list_all (\<lambda>n. n < 64) ns" "(length ns + k) mod 4 = 0" "k \<le> 2" "ns = [] \<longrightarrow> k = 0"
  shows "strip_padding (map b64_char ns @ replicate k CHR ''='') = map b64_char ns"
proof -
  have last: "ns \<noteq> [] \<Longrightarrow> last (map b64_char ns) \<noteq> CHR ''=''"
    using assms(1) b64_value_char(3) [of "last ns"] by (auto simp: last_map list_all_iff)
  consider "k = 0" | "k = 1" | "k = 2" using assms(3) by linarith
  then show ?thesis
    using assms last by cases (auto simp: strip_padding_def Let_def numeral_2_eq_2 butlast_append)
qed

lemma pad_count_Nil: "sextets bs = [] \<longrightarrow> pad_count bs = 0"
  by (cases bs rule: sextets.cases) auto

lemma atob_btoa:
  assumes "list_all (\<lambda>b. b < 256) bs"
  shows "atob (btoa bs) = Some bs"
proof -
  note less = sextets_less [OF assms] and len = sextets_length [of bs]
  have "filter (\<lambda>c. \<not> is_ascii_space c) (btoa bs) = btoa bs"
    using less b64_value_char(2)
    by (auto simp: btoa_sextets filter_id_conv list_all_iff is_ascii_space_def)
  then have strip: "strip_padding (filter (\<lambda>c. \<not> is_ascii_space c) (btoa bs)) = map b64_char (sextets bs)"
    using strip_padding_chars [OF less len pad_count_Nil] by (simp add: btoa_sextets)
  have "length (sextets bs) mod 4 \<noteq> 1" using len by presburger
  then show ?thesis
    using b64_values_chars [OF less] decode_sextets [OF assms] by (simp add: atob_def strip)
qed

lemma fromBase64_toBase64: "fromBase64 (toBase64 bs) = Some bs"
proof -
  have "atob (btoa (map unat bs)) = Some (map unat bs)"
    by (rule atob_btoa) (auto simp: list_all_iff unat_byte_less)
  then show ?thesis by (simp add: fromBase64_def toBase64_def comp_def)
qed

section \<open>What is hashed and signed is unambiguous\<close>

lemma unat_word_of_nat_byte: "n < 256 \<Longrightarrow> unat (word_of_nat n :: byte) = n"
  by (simp add: unat_of_nat)

lemma utf8_char_codes:
  "map unat (utf8_char c) =
     (let n = of_char c in if n < (128 :: nat) then [n] else [192 + n div 64, 128 + n mod 64])"
proof -
  have n: "of_char c < (256 :: nat)" by simp
  have "of_char c div 64 < (4 :: nat)" using n by (intro less_mult_imp_div_less) simp
  then have "192 + of_char c div 64 < (256 :: nat)" by linarith
  moreover have "of_char c mod 64 < (64 :: nat)" by simp
  then have "128 + of_char c mod 64 < (256 :: nat)" by linarith
  ultimately show ?thesis
    unfolding utf8_char_def Let_def
    by (simp only: if_distrib [of "map unat"] list.map unat_word_of_nat_byte n)
qed

lemma utf8_char_Cons: "\<exists>h t. utf8_char c = h # t \<and> (unat h < 128 \<longleftrightarrow> t = []) \<and> length t \<le> 1"
  using utf8_char_codes [of c] by (cases "utf8_char c") (auto simp: Let_def split: if_splits)

definition code_units :: "nat \<Rightarrow> nat list" where
  "code_units n = (if n < 128 then [n] else [192 + n div 64, 128 + n mod 64])"

lemma code_units_inject: "code_units m = code_units n \<Longrightarrow> m = n"
proof -
  assume eq: "code_units m = code_units n"
  show "m = n"
  proof (cases "m < 128")
    case True
    with eq show ?thesis by (simp add: code_units_def split: if_splits)
  next
    case False
    with eq have "m div 64 = n div 64" "m mod 64 = n mod 64"
      by (simp_all add: code_units_def split: if_splits)
    then show ?thesis by (metis div_mult_mod_eq)
  qed
qed

lemma utf8_char_inject: "utf8_char c = utf8_char d \<Longrightarrow> c = d"
proof -
  assume eq: "utf8_char c = utf8_char d"
  have "code_units (of_char c) = code_units (of_char d)"
    using utf8_char_codes [of c] utf8_char_codes [of d] eq by (simp only: code_units_def Let_def)
  then have "(of_char c :: nat) = of_char d" by (rule code_units_inject)
  then show ?thesis by simp
qed

lemma utf8_inject [simp]: "utf8 s = utf8 t \<longleftrightarrow> s = t"
proof
  assume "utf8 s = utf8 t"
  then show "s = t"
  proof (induction s arbitrary: t)
    case Nil
    show ?case
    proof (cases t)
      case (Cons d t')
      with Nil utf8_char_Cons [of d] show ?thesis by (auto simp: utf8_def)
    qed simp
  next
    case (Cons c s)
    then obtain d t' where t: "t = d # t'"
      using utf8_char_Cons [of c] by (cases t) (auto simp: utf8_def)
    obtain h l h' l' where c: "utf8_char c = h # l" "unat h < 128 \<longleftrightarrow> l = []" "length l \<le> 1"
      and d: "utf8_char d = h' # l'" "unat h' < 128 \<longleftrightarrow> l' = []" "length l' \<le> 1"
      using utf8_char_Cons by meson
    from Cons.prems t c d have eq: "h = h'" "l @ utf8 s = l' @ utf8 t'" by (auto simp: utf8_def)
    have "length l = length l'"
      using c(2,3) d(2,3) eq(1) by (cases l; cases l') auto
    with eq have "l = l'" "utf8 s = utf8 t'" by simp_all
    then show ?case using c d eq(1) utf8_char_inject [of c d] Cons.IH t by simp
  qed
qed simp

lemma append_sep_eq:
  "x \<notin> set a \<Longrightarrow> x \<notin> set b \<Longrightarrow> a @ x # r = b @ x # r' \<longleftrightarrow> a = b \<and> r = r'"
proof (induction a arbitrary: b)
  case Nil
  then show ?case by (cases b) auto
next
  case (Cons y a)
  then show ?case by (cases b) auto
qed

section \<open>Comparing keys\<close>

lemma compare_loop_antisym: "compare_loop a b = - compare_loop b a"
  by (induction a b rule: compare_loop.induct) auto

lemma compare_loop_zero: "compare_loop a b = 0 \<Longrightarrow> a = b"
  by (induction a b rule: compare_loop.induct) (auto simp: word_uint_eq_iff split: if_splits)

lemma sas_input_cases: "sas_input a b = utf8 ''passvault/sas/v1'' @ a @ b \<or> sas_input a b = utf8 ''passvault/sas/v1'' @ b @ a"
  by (simp add: sas_input_def)

lemma sas_input_commute: "sas_input a b = sas_input b a"
  using compare_loop_antisym [of a b] compare_loop_zero [of a b]
  by (auto simp: sas_input_def compareBytes_def)

lemma length_decimal_string: "n < 10 ^ Suc k \<Longrightarrow> length (decimal_string n) \<le> Suc k"
proof (induction n arbitrary: k rule: decimal_string.induct)
  case (1 n)
  then show ?case
  proof (cases "n < 10")
    case False
    with 1 obtain j where k: "k = Suc j" by (cases k) auto
    have "n div 10 < 10 ^ Suc j" using 1(2) k by (intro less_mult_imp_div_less) simp
    from 1(1) [OF False this] False k show ?thesis by (subst decimal_string.simps) simp
  qed (simp add: decimal_string.simps)
qed

lemma digit_char: "n < 10 \<Longrightarrow> in_code_range 48 57 (char_of (48 + n :: nat))"
  by (simp add: in_code_range_def)

lemma decimal_string_digits: "c \<in> set (decimal_string n) \<Longrightarrow> in_code_range 48 57 c"
proof (induction n rule: decimal_string.induct)
  case (1 n)
  then show ?case
    using digit_char [of n] digit_char [of "n mod 10"]
    by (subst (asm) (2) decimal_string.simps) (auto split: if_splits)
qed

section \<open>Properties\<close>

text \<open>
  Keys, nonces and signatures survive their text encodings: for every byte string,
  \<open>fromHex\<close> undoes \<open>toHex\<close> and \<open>fromBase64\<close> undoes \<open>toBase64\<close>, whatever its length and
  so whatever padding is needed.\<close>

theorem byte_encodings_roundtrip:
  "fromHex (toHex bs) = Inr bs \<and> fromBase64 (toBase64 bs) = Some bs"
  by (simp add: fromHex_toHex fromBase64_toBase64)

text \<open>
  The pairing number is the same on both devices whichever computes it, and it is always six
  decimal digits. What is hashed for it determines the pair of keys: for keys of 32 bytes two
  comparisons hash the same input only when they were made over the same two keys, so a key
  substituted in the middle changes the input on at least one side.\<close>

theorem sas_binds_both_keys:
  "shortAuthenticationString sha256 a b = shortAuthenticationString sha256 b a \<and>
   length (shortAuthenticationString sha256 a b) = 6 \<and>
   list_all (in_code_range 48 57) (shortAuthenticationString sha256 a b) \<and>
   (length a = 32 \<and> length b = 32 \<and> length c = 32 \<and> length d = 32 \<longrightarrow>
      (sas_input a b = sas_input c d \<longleftrightarrow> {a, b} = {c, d}))"
proof -
  have "length (decimal_string (n mod 1000000)) \<le> Suc 5" for n
    by (rule length_decimal_string) simp
  then have "length (shortAuthenticationString sha256 a b) = 6"
    unfolding shortAuthenticationString_def Let_def padStart_def by simp
  moreover have "list_all (in_code_range 48 57) (shortAuthenticationString sha256 a b)"
    by (auto simp: shortAuthenticationString_def Let_def padStart_def list_all_iff
        in_code_range_def [of _ _ "CHR ''0''"] dest: decimal_string_digits)
  moreover have "sas_input a b = sas_input c d \<longleftrightarrow> {a, b} = {c, d}"
    if "length a = 32" "length b = 32" "length c = 32" "length d = 32"
  proof
    assume "sas_input a b = sas_input c d"
    then show "{a, b} = {c, d}"
      using sas_input_cases [of a b] sas_input_cases [of c d] that by auto
  qed (auto simp: doubleton_eq_iff sas_input_commute)
  ultimately show ?thesis
    by (simp add: shortAuthenticationString_def sas_input_commute [of a b])
qed

theorem sas_binds_both_keys_witness:
  "sas_input (replicate 32 1) (replicate 32 2) \<noteq> sas_input (replicate 32 1) (replicate 32 3)"
proof -
  have "replicate 32 2 \<noteq> (replicate 32 3 :: bytes)" "replicate 32 1 \<noteq> (replicate 32 3 :: bytes)"
    by (simp_all add: replicate_eq_replicate)
  then have "{replicate 32 1, replicate 32 2} \<noteq> {replicate 32 1, replicate 32 3 :: bytes}"
    by (auto simp: doubleton_eq_iff)
  then show ?thesis
    using sas_binds_both_keys [of id "replicate 32 1" "replicate 32 2" "replicate 32 1" "replicate 32 3"]
    by simp
qed

text \<open>
  A signature answers one challenge only. For device ids without a line break (hashes in hex
  are), the bytes signed determine the nonce and both ids, so a recorded signature cannot be the
  answer to a nonce, a challenger or a responder other than its own.\<close>

theorem challenge_unambiguous:
  assumes "NEWLINE \<notin> set c1" "NEWLINE \<notin> set c2" "NEWLINE \<notin> set r1" "NEWLINE \<notin> set r2"
  shows "authChallengeBytes n1 c1 r1 = authChallengeBytes n2 c2 r2 \<longleftrightarrow> n1 = n2 \<and> c1 = c2 \<and> r1 = r2"
  using assms by (auto simp: authChallengeBytes_def challenge_text_def append_sep_eq)

theorem challenge_unambiguous_witness:
  "authChallengeBytes [1, 2] (toHex [3]) (toHex [4]) \<noteq> authChallengeBytes [1, 3] (toHex [3]) (toHex [4])"
proof -
  have "NEWLINE \<notin> set (toHex bs)" for bs using toHex_chars by blast
  from challenge_unambiguous [OF this this this this, of "[1, 2]" "[3]" "[4]" "[1, 3]" "[3]" "[4]"]
  show ?thesis by simp
qed

end
