(* ===== verification/Pairing_Trust.thy ===== *)
theory Pairing_Trust
  imports Device_Identity
begin

text \<open>
  packages/identity/src/pairing.ts and authenticator.ts, with the two implementations of the
  \<open>TrustStore\<close> interface: the in-memory one (\<open>trustStoreFromMap\<close>) and the one over the
  \<open>devices\<close> table (packages/storage-sql/src/sqliteTrustStore.ts).

  The interface is a record of functions over the store's state, as in the source; the locale
  \<open>trust_store\<close> states what a client may rely on, the authenticator is verified once inside it,
  and both implementations interpret it. A table is the list of its rows in the order they were
  inserted; the ISO text of a date column stands for the date, which it determines.
\<close>

section \<open>The interface\<close>

record 's TrustStore =
  ts_pair :: "PairedDevice \<Rightarrow> 's \<Rightarrow> 's"
  ts_get :: "DeviceId \<Rightarrow> 's \<Rightarrow> PairedDevice option"
  ts_list :: "'s \<Rightarrow> PairedDevice list"
  ts_revoke :: "DeviceId \<Rightarrow> 's \<Rightarrow> 's"
  ts_markSeen :: "DeviceId \<Rightarrow> Date \<Rightarrow> 's \<Rightarrow> 's"

section \<open>The store over a Map\<close>

type_synonym device_map = "(DeviceId \<times> PairedDevice) list"

definition map_pair :: "PairedDevice \<Rightarrow> device_map \<Rightarrow> device_map" where
  "map_pair device devices = AList.update (pd_deviceId device) (device\<lparr>pd_trust := Paired\<rparr>) devices"

definition map_revoke :: "DeviceId \<Rightarrow> device_map \<Rightarrow> device_map" where
  "map_revoke deviceId devices =
     (case map_of devices deviceId of
        None \<Rightarrow> devices
      | Some existing \<Rightarrow> AList.update deviceId (existing\<lparr>pd_trust := Revoked\<rparr>) devices)"

definition map_markSeen :: "DeviceId \<Rightarrow> Date \<Rightarrow> device_map \<Rightarrow> device_map" where
  "map_markSeen deviceId at devices =
     (case map_of devices deviceId of
        None \<Rightarrow> devices
      | Some existing \<Rightarrow> AList.update deviceId (existing\<lparr>pd_lastSeenAt := Some at\<rparr>) devices)"

definition trustStoreFromMap :: "device_map TrustStore" where
  "trustStoreFromMap =
     \<lparr>ts_pair = map_pair, ts_get = (\<lambda>deviceId devices. map_of devices deviceId),
      ts_list = map snd, ts_revoke = map_revoke, ts_markSeen = map_markSeen\<rparr>"

section \<open>The store over the devices table\<close>

record DeviceRow =
  dr_id :: string
  dr_public_key :: bytes
  dr_name :: string
  dr_trust :: string
  dr_paired_at :: Date
  dr_last_seen_at :: "Date option"

type_synonym devices_table = "DeviceRow list"

definition toPairedDevice :: "DeviceRow \<Rightarrow> PairedDevice" where
  "toPairedDevice row =
     \<lparr>pd_deviceId = dr_id row, pd_publicKey = dr_public_key row, pd_name = dr_name row,
      pd_trust = (if dr_trust row = ''revoked'' then Revoked else Paired),
      pd_pairedAt = dr_paired_at row, pd_lastSeenAt = dr_last_seen_at row\<rparr>"

text \<open>\<open>INSERT ... ON CONFLICT(id) DO UPDATE\<close>: \<open>last_seen_at\<close> is not among the updated columns.\<close>

definition sql_pair :: "PairedDevice \<Rightarrow> devices_table \<Rightarrow> devices_table" where
  "sql_pair device rows =
     (if pd_deviceId device \<in> dr_id ` set rows
      then map (\<lambda>r. if dr_id r = pd_deviceId device
                    then r\<lparr>dr_public_key := pd_publicKey device, dr_name := pd_name device,
                           dr_trust := ''paired'', dr_paired_at := pd_pairedAt device\<rparr>
                    else r) rows
      else rows @ [\<lparr>dr_id = pd_deviceId device, dr_public_key = pd_publicKey device,
                     dr_name = pd_name device, dr_trust = ''paired'',
                     dr_paired_at = pd_pairedAt device, dr_last_seen_at = None\<rparr>])"

definition sql_get :: "DeviceId \<Rightarrow> devices_table \<Rightarrow> PairedDevice option" where
  "sql_get deviceId rows = map_option toPairedDevice (find (\<lambda>r. dr_id r = deviceId) rows)"

definition sql_list :: "devices_table \<Rightarrow> PairedDevice list" where
  "sql_list rows = map toPairedDevice (rev (sort_key dr_paired_at rows))"

definition sql_revoke :: "DeviceId \<Rightarrow> devices_table \<Rightarrow> devices_table" where
  "sql_revoke deviceId rows =
     map (\<lambda>r. if dr_id r = deviceId then r\<lparr>dr_trust := ''revoked''\<rparr> else r) rows"

definition sql_markSeen :: "DeviceId \<Rightarrow> Date \<Rightarrow> devices_table \<Rightarrow> devices_table" where
  "sql_markSeen deviceId at rows =
     map (\<lambda>r. if dr_id r = deviceId then r\<lparr>dr_last_seen_at := Some at\<rparr> else r) rows"

definition createSqliteTrustStore :: "devices_table TrustStore" where
  "createSqliteTrustStore =
     \<lparr>ts_pair = sql_pair, ts_get = sql_get, ts_list = sql_list, ts_revoke = sql_revoke,
      ts_markSeen = sql_markSeen\<rparr>"

section \<open>Trust decisions\<close>

datatype TrustDecision = Trusted PairedDevice | UnknownDevice | RevokedDevice | KeyMismatch

fun equal_loop :: "bytes \<Rightarrow> bytes \<Rightarrow> byte \<Rightarrow> byte" where
  "equal_loop (x # a) (y # b) difference = equal_loop a b (difference OR (x XOR y))"
| "equal_loop _ _ difference = difference"

definition equalBytes :: "bytes \<Rightarrow> bytes \<Rightarrow> bool" where
  "equalBytes a b = (if length a \<noteq> length b then False else equal_loop a b 0 = 0)"

definition evaluateTrust ::
  "(bytes \<Rightarrow> bytes) \<Rightarrow> 's TrustStore \<Rightarrow> 's \<Rightarrow> PublicIdentity \<Rightarrow> TrustDecision result" where
  "evaluateTrust sha256 store s claimed =
     res_bind (assert_contract (deviceIdFor sha256 (pi_publicKey claimed) = pi_deviceId claimed)
       ''device id must be the hash of the presented public key'')
     (\<lambda>_. Inr (case ts_get store (pi_deviceId claimed) s of
        None \<Rightarrow> UnknownDevice
      | Some known \<Rightarrow>
          if pd_trust known = Revoked then RevokedDevice
          else if \<not> equalBytes (pd_publicKey known) (pi_publicKey claimed) then KeyMismatch
          else Trusted known))"

section \<open>The authenticator\<close>

datatype AuthOutcome = Accept string | Reject string

record AuthenticatorOptions =
  ao_keyPair :: DeviceKeyPair
  ao_deviceName :: string
  ao_pairingMode :: bool
  ao_confirmPairing :: "(DeviceId \<Rightarrow> bytes \<Rightarrow> string \<Rightarrow> bool) option"
  ao_now :: Date

record VerifyInput =
  vi_deviceId :: DeviceId
  vi_publicKey :: bytes
  vi_nonce :: bytes
  vi_signature :: bytes
  vi_claimedName :: string

definition peer_challenge :: "AuthenticatorOptions \<Rightarrow> VerifyInput \<Rightarrow> bytes" where
  "peer_challenge options i =
     authChallengeBytes (vi_nonce i) (kp_deviceId (ao_keyPair options)) (vi_deviceId i)"

definition confirmed :: "AuthenticatorOptions \<Rightarrow> VerifyInput \<Rightarrow> bool" where
  "confirmed options i =
     (case ao_confirmPairing options of
        None \<Rightarrow> True
      | Some confirm \<Rightarrow> confirm (vi_deviceId i) (vi_publicKey i) (vi_claimedName i))"

definition verifyPeer ::
  "(bytes \<Rightarrow> bytes) \<Rightarrow> (bytes \<Rightarrow> bytes \<Rightarrow> bytes \<Rightarrow> bool option) \<Rightarrow> AuthenticatorOptions \<Rightarrow>
   's TrustStore \<Rightarrow> VerifyInput \<Rightarrow> 's \<Rightarrow> (AuthOutcome \<times> 's) result" where
  "verifyPeer sha256 ed_verify options store i s =
     (if deviceIdFor sha256 (vi_publicKey i) \<noteq> vi_deviceId i
      then Inr (Reject ''device id does not match the presented public key'', s)
      else if \<not> verify ed_verify (vi_publicKey i) (peer_challenge options i) (vi_signature i)
      then Inr (Reject ''signature did not verify against the presented key'', s)
      else res_bind (evaluateTrust sha256 store s
             \<lparr>pi_deviceId = vi_deviceId i, pi_publicKey = vi_publicKey i, pi_name = vi_claimedName i\<rparr>)
        (\<lambda>decision. case decision of
           Trusted device \<Rightarrow>
             Inr (Accept (pd_name device), ts_markSeen store (vi_deviceId i) (ao_now options) s)
         | UnknownDevice \<Rightarrow>
             if \<not> ao_pairingMode options then Inr (Reject ''device is not paired with this one'', s)
             else if \<not> confirmed options i
             then Inr (Reject ''the pairing numbers were not confirmed on this device'', s)
             else Inr (Accept (vi_claimedName i),
                    ts_pair store \<lparr>pd_deviceId = vi_deviceId i, pd_publicKey = vi_publicKey i,
                      pd_name = vi_claimedName i, pd_trust = Paired, pd_pairedAt = ao_now options,
                      pd_lastSeenAt = None\<rparr> s)
         | RevokedDevice \<Rightarrow> Inr (Reject ''device has been revoked'', s)
         | KeyMismatch \<Rightarrow>
             Inr (Reject ''device key has changed since pairing; pair again to accept the new key'', s)))"

definition signChallenge :: "(bytes \<Rightarrow> bytes \<Rightarrow> bytes) \<Rightarrow> AuthenticatorOptions \<Rightarrow> bytes \<Rightarrow> DeviceId \<Rightarrow> DeviceId \<Rightarrow> bytes" where
  "signChallenge ed_sign options nonce challengerDeviceId responderDeviceId =
     ed_sign (authChallengeBytes nonce challengerDeviceId responderDeviceId) (kp_privateKey (ao_keyPair options))"

section \<open>Runs of the authenticator\<close>

text \<open>The stores a device can reach from \<open>s\<close> by answering peers, in any mode and any order.\<close>

inductive auth_run ::
  "(bytes \<Rightarrow> bytes) \<Rightarrow> (bytes \<Rightarrow> bytes \<Rightarrow> bytes \<Rightarrow> bool option) \<Rightarrow> 's TrustStore \<Rightarrow> 's \<Rightarrow> 's \<Rightarrow> bool"
  for sha256 ed_verify store s where
  run_start: "auth_run sha256 ed_verify store s s"
| run_verify: "auth_run sha256 ed_verify store s t \<Longrightarrow>
    verifyPeer sha256 ed_verify options store i t = Inr (outcome, u) \<Longrightarrow>
    auth_run sha256 ed_verify store s u"

section \<open>The contract of a trust store\<close>

text \<open>Everything of a device but when it was last seen.\<close>

definition pinned :: "PairedDevice \<Rightarrow> PairedDevice" where
  "pinned d = d\<lparr>pd_lastSeenAt := None\<rparr>"

lemma pinned_fields [simp]:
  "pd_deviceId (pinned d) = pd_deviceId d" "pd_publicKey (pinned d) = pd_publicKey d"
  "pd_name (pinned d) = pd_name d" "pd_trust (pinned d) = pd_trust d"
  "pd_pairedAt (pinned d) = pd_pairedAt d" "pd_lastSeenAt (pinned d) = None"
  by (simp_all add: pinned_def)

lemma pinned_trust [simp]: "pinned (d\<lparr>pd_trust := t\<rparr>) = (pinned d)\<lparr>pd_trust := t\<rparr>"
  by (simp add: pinned_def)

lemma pinned_seen [simp]: "pinned (d\<lparr>pd_lastSeenAt := t\<rparr>) = pinned d"
  by (simp add: pinned_def)

lemma pinned_eqD:
  assumes "pinned d = pinned e"
  shows "pd_trust d = pd_trust e" "pd_publicKey d = pd_publicKey e" "pd_name d = pd_name e"
  using assms by (metis pinned_fields(4), metis pinned_fields(2), metis pinned_fields(3))

text \<open>
  The abstract store: a finite map from device ids to devices, and its operations. The two
  implementations disagree on when a device that is paired again was last seen, so that is a
  parameter: from what was stored under the id and the device given.
\<close>

type_synonym trust_view = "DeviceId \<Rightarrow> PairedDevice option"

type_synonym seen_rule = "PairedDevice option \<Rightarrow> PairedDevice \<Rightarrow> Date option"

definition seen_as_given :: seen_rule where
  "seen_as_given stored device = pd_lastSeenAt device"

definition seen_as_before :: seen_rule where
  "seen_as_before stored device = Option.bind stored pd_lastSeenAt"

datatype trust_op = OpPair PairedDevice | OpRevoke DeviceId | OpMarkSeen DeviceId Date

fun spec_op :: "seen_rule \<Rightarrow> trust_op \<Rightarrow> trust_view \<Rightarrow> trust_view" where
  "spec_op seen (OpPair d) v =
     v(pd_deviceId d \<mapsto> d\<lparr>pd_trust := Paired, pd_lastSeenAt := seen (v (pd_deviceId d)) d\<rparr>)"
| "spec_op seen (OpRevoke i) v = v(i := map_option (\<lambda>d. d\<lparr>pd_trust := Revoked\<rparr>) (v i))"
| "spec_op seen (OpMarkSeen i at) v = v(i := map_option (\<lambda>d. d\<lparr>pd_lastSeenAt := Some at\<rparr>) (v i))"

fun apply_op :: "'s TrustStore \<Rightarrow> trust_op \<Rightarrow> 's \<Rightarrow> 's" where
  "apply_op store (OpPair d) s = ts_pair store d s"
| "apply_op store (OpRevoke i) s = ts_revoke store i s"
| "apply_op store (OpMarkSeen i at) s = ts_markSeen store i at s"

definition view :: "'s TrustStore \<Rightarrow> 's \<Rightarrow> trust_view" where
  "view store s = (\<lambda>i. ts_get store i s)"

text \<open>But for when they were last seen, the devices do not depend on the rule.\<close>

lemma map_option_pinned:
  "map_option pinned (map_option (\<lambda>d. d\<lparr>pd_trust := t\<rparr>) x) =
    map_option (\<lambda>d. d\<lparr>pd_trust := t\<rparr>) (map_option pinned x)"
  "map_option pinned (map_option (\<lambda>d. d\<lparr>pd_lastSeenAt := a\<rparr>) x) = map_option pinned x"
  by (cases x; simp)+

lemma spec_op_pinned:
  assumes "map_option pinned \<circ> v = map_option pinned \<circ> w"
  shows "map_option pinned \<circ> spec_op seen op v = map_option pinned \<circ> spec_op seen' op w"
proof
  fix i
  have eq: "map_option pinned (v j) = map_option pinned (w j)" for j using fun_cong [OF assms, of j] by simp
  show "(map_option pinned \<circ> spec_op seen op v) i = (map_option pinned \<circ> spec_op seen' op w) i"
    by (cases op) (simp_all add: eq map_option_pinned del: option.map_comp)
qed

lemma spec_run_pinned:
  "map_option pinned \<circ> v = map_option pinned \<circ> w \<Longrightarrow>
    map_option pinned \<circ> fold (spec_op seen) ops v = map_option pinned \<circ> fold (spec_op seen') ops w"
proof (induction ops arbitrary: v w)
  case (Cons op ops)
  then show ?case using Cons.IH [OF spec_op_pinned [OF Cons.prems]] by simp
qed simp

lemma xor_eq_zero: "(x XOR y = 0) = (x = (y :: 'a::len word))"
  by (auto simp: bit_eq_iff bit_simps)

lemma equal_loop_zero: "equal_loop a b d = 0 \<longleftrightarrow> d = 0 \<and> (\<forall>i < min (length a) (length b). a ! i = b ! i)"
proof (induction a b d rule: equal_loop.induct)
  case (1 x a y b d)
  have "d OR (x XOR y) = 0 \<longleftrightarrow> d = 0 \<and> x = y"
    by (auto simp: or_eq_0_iff xor_eq_zero)
  with 1 show ?case by (auto simp: All_less_Suc2)
qed auto

lemma equalBytes_iff [simp]: "equalBytes a b \<longleftrightarrow> a = b"
  by (auto simp: equalBytes_def equal_loop_zero list_eq_iff_nth_eq)

locale trust_store =
  fixes store :: "'s TrustStore" and seen :: seen_rule
  assumes view_op: "view store (apply_op store op s) = spec_op seen op (view store s)"
    and list_get: "ts_get store i s = Some d \<Longrightarrow> d \<in> set (ts_list store s)"
begin

lemma refines_spec: "view store (fold (apply_op store) ops s) = fold (spec_op seen) ops (view store s)"
  by (induction ops arbitrary: s) (simp_all add: view_op)

lemma get_pair: "view store (ts_pair store d s) =
    (view store s)(pd_deviceId d \<mapsto> d\<lparr>pd_trust := Paired, pd_lastSeenAt := seen (view store s (pd_deviceId d)) d\<rparr>)"
  using view_op [of "OpPair d" s] by simp

lemma get_markSeen: "view store (ts_markSeen store j at s) =
    (view store s)(j := map_option (\<lambda>d. d\<lparr>pd_lastSeenAt := Some at\<rparr>) (view store s j))"
  using view_op [of "OpMarkSeen j at" s] by simp

lemma verifyPeer_returns: "\<exists>outcome t. verifyPeer sha256 ed_verify options store i s = Inr (outcome, t)"
  by (auto simp: verifyPeer_def evaluateTrust_def split: option.split)

lemma reject_unchanged:
  "verifyPeer sha256 ed_verify options store i s = Inr (Reject r, t) \<Longrightarrow> t = s"
  by (auto simp: verifyPeer_def evaluateTrust_def split: if_splits option.splits)

lemma accept_proof:
  assumes "verifyPeer sha256 ed_verify options store i s = Inr (Accept n, t)"
  shows "vi_deviceId i = deviceIdFor sha256 (vi_publicKey i)"
    and "ed_verify (vi_signature i) (peer_challenge options i) (vi_publicKey i) = Some True"
  using assms by (auto simp: verifyPeer_def verify_def split: if_splits option.splits)

lemma accept_cases:
  assumes "verifyPeer sha256 ed_verify options store i s = Inr (Accept n, t)"
  obtains d where "view store s (vi_deviceId i) = Some d" "pd_trust d = Paired"
      "pd_publicKey d = vi_publicKey i" "n = pd_name d"
      "view store t = (view store s)(vi_deviceId i \<mapsto> d\<lparr>pd_lastSeenAt := Some (ao_now options)\<rparr>)"
    | at where "view store s (vi_deviceId i) = None" "ao_pairingMode options" "confirmed options i"
      "n = vi_claimedName i"
      "view store t = (view store s)(vi_deviceId i \<mapsto>
         \<lparr>pd_deviceId = vi_deviceId i, pd_publicKey = vi_publicKey i, pd_name = vi_claimedName i,
          pd_trust = Paired, pd_pairedAt = ao_now options, pd_lastSeenAt = at\<rparr>)"
proof (cases "ts_get store (vi_deviceId i) s")
  case None
  with assms have "ao_pairingMode options" "confirmed options i" "n = vi_claimedName i"
    and t: "t = ts_pair store \<lparr>pd_deviceId = vi_deviceId i, pd_publicKey = vi_publicKey i,
       pd_name = vi_claimedName i, pd_trust = Paired, pd_pairedAt = ao_now options, pd_lastSeenAt = None\<rparr> s"
    by (auto simp: verifyPeer_def evaluateTrust_def split: if_splits)
  moreover have "view store s (vi_deviceId i) = None" using None by (simp add: view_def)
  ultimately show thesis by (intro that(2)) (simp_all add: t get_pair)
next
  case (Some d)
  with assms have "pd_trust d = Paired" "pd_publicKey d = vi_publicKey i" "n = pd_name d"
    and t: "t = ts_markSeen store (vi_deviceId i) (ao_now options) s"
    by (auto simp: verifyPeer_def evaluateTrust_def split: if_splits) (metis DeviceTrust.exhaust)
  moreover have "view store t = (view store s)(vi_deviceId i \<mapsto> d\<lparr>pd_lastSeenAt := Some (ao_now options)\<rparr>)"
    using Some by (simp add: t get_markSeen) (simp add: view_def)
  ultimately show thesis using Some that(1) [of d] by (simp add: view_def)
qed

lemma accepted_is_pinned:
  assumes "verifyPeer sha256 ed_verify options store i s = Inr (Accept n, t)"
  shows "\<exists>d. view store t (vi_deviceId i) = Some d \<and> pd_trust d = Paired \<and> pd_publicKey d = vi_publicKey i"
  using assms by (rule accept_cases) auto

lemma known_device_kept:
  assumes "verifyPeer sha256 ed_verify options store i s = Inr (outcome, t)" "view store s j = Some d"
  shows "\<exists>e. view store t j = Some e \<and> pinned e = pinned d"
proof (cases outcome)
  case (Accept n)
  with assms(1) have "verifyPeer sha256 ed_verify options store i s = Inr (Accept n, t)" by simp
  then show ?thesis by (rule accept_cases) (use assms(2) in auto)
next
  case (Reject r)
  then show ?thesis using assms reject_unchanged by blast
qed

lemma run_keeps_known:
  "auth_run sha256 ed_verify store s t \<Longrightarrow> view store s j = Some d \<Longrightarrow>
    \<exists>e. view store t j = Some e \<and> pinned e = pinned d"
proof (induction rule: auth_run.induct)
  case run_start
  then show ?case by blast
next
  case (run_verify t options i outcome u)
  then show ?case using known_device_kept by metis
qed

lemma revoked_never_accepted:
  assumes "auth_run sha256 ed_verify store (ts_revoke store j s) t"
    and "view store s j \<noteq> None" "vi_deviceId i = j"
  shows "\<exists>r. verifyPeer sha256 ed_verify options store i t = Inr (Reject r, t)"
proof -
  obtain d where "view store s j = Some d" using assms(2) by auto
  then have "view store (ts_revoke store j s) j = Some (d\<lparr>pd_trust := Revoked\<rparr>)"
    using view_op [of "OpRevoke j" s] by simp
  then obtain e where e: "view store t j = Some e" "pinned e = pinned (d\<lparr>pd_trust := Revoked\<rparr>)"
    using run_keeps_known [OF assms(1)] by blast
  have "pd_trust e = Revoked" using pinned_eqD(1) [OF e(2)] by simp
  with e(1) assms(3) show ?thesis by (simp add: verifyPeer_def evaluateTrust_def view_def)
qed

end

section \<open>Both stores keep the contract\<close>

lemma find_map_id:
  assumes "\<And>r. dr_id (f r) = dr_id r"
  shows "find (\<lambda>r. dr_id r = i) (map f rows) = map_option f (find (\<lambda>r. dr_id r = i) rows)"
  using assms by (induction rows) auto

lemma find_append_id:
  "find P (rows @ [r]) = (case find P rows of None \<Rightarrow> if P r then Some r else None | Some x \<Rightarrow> Some x)"
  by (induction rows) auto

lemma find_id_eq: "find (\<lambda>r. dr_id r = i) rows = Some r \<Longrightarrow> dr_id r = i"
  by (auto simp: find_Some_iff)

lemma find_id_None: "i \<notin> dr_id ` set rows \<Longrightarrow> find (\<lambda>r. dr_id r = i) rows = None"
  by (auto simp: find_None_iff)

lemma find_id_present:
  assumes "i \<in> dr_id ` set rows"
  shows "\<exists>r. find (\<lambda>r. dr_id r = i) rows = Some r"
proof (cases "find (\<lambda>r. dr_id r = i) rows")
  case None
  with assms show ?thesis by (auto simp: find_None_iff)
qed simp

lemmas sql_lookup_simps = sql_get_def find_map_id find_append_id toPairedDevice_def

lemma sql_get_pair:
  "sql_get i (sql_pair d s) =
     (if i = pd_deviceId d
      then Some (d\<lparr>pd_trust := Paired, pd_lastSeenAt := seen_as_before (sql_get i s) d\<rparr>)
      else sql_get i s)"
proof (cases "find (\<lambda>r. dr_id r = i) s")
  case None
  show ?thesis
  proof (cases "i = pd_deviceId d")
    case True
    with None have "pd_deviceId d \<notin> dr_id ` set s" using find_id_present [of i s] by auto
    with None True show ?thesis by (cases d) (simp add: sql_pair_def sql_lookup_simps seen_as_before_def)
  next
    case False
    with None show ?thesis by (auto simp: sql_pair_def sql_lookup_simps)
  qed
next
  case (Some r)
  then have mem: "i \<in> dr_id ` set s" "dr_id r = i" by (auto simp: find_Some_iff)
  show ?thesis
  proof (cases "i = pd_deviceId d")
    case True
    with Some mem show ?thesis by (cases d) (simp add: sql_pair_def sql_lookup_simps seen_as_before_def)
  next
    case False
    with Some mem show ?thesis by (simp add: sql_pair_def sql_lookup_simps)
  qed
qed

lemma sql_get_revoke:
  "sql_get i (sql_revoke j s) =
     (if i = j then map_option (\<lambda>d. d\<lparr>pd_trust := Revoked\<rparr>) (sql_get i s) else sql_get i s)"
  by (cases "find (\<lambda>r. dr_id r = i) s")
    (auto simp: sql_revoke_def sql_lookup_simps dest: find_id_eq)

lemma sql_get_markSeen:
  "sql_get i (sql_markSeen j at s) =
     (if i = j then map_option (\<lambda>d. d\<lparr>pd_lastSeenAt := Some at\<rparr>) (sql_get i s) else sql_get i s)"
  by (cases "find (\<lambda>r. dr_id r = i) s")
    (auto simp: sql_markSeen_def sql_lookup_simps dest: find_id_eq)

interpretation map_store: trust_store trustStoreFromMap seen_as_given
proof
  fix op s
  show "view trustStoreFromMap (apply_op trustStoreFromMap op s) =
      spec_op seen_as_given op (view trustStoreFromMap s)"
    by (cases op) (auto simp: trustStoreFromMap_def view_def map_pair_def map_revoke_def
        map_markSeen_def seen_as_given_def fun_eq_iff split: option.split)
next
  fix i s d
  assume "ts_get trustStoreFromMap i s = Some d"
  then show "d \<in> set (ts_list trustStoreFromMap s)"
    by (force simp: trustStoreFromMap_def dest: map_of_SomeD)
qed

interpretation sql_store: trust_store createSqliteTrustStore seen_as_before
proof
  fix op s
  show "view createSqliteTrustStore (apply_op createSqliteTrustStore op s) =
      spec_op seen_as_before op (view createSqliteTrustStore s)"
    by (cases op) (simp_all add: createSqliteTrustStore_def view_def fun_eq_iff sql_get_pair
        sql_get_revoke sql_get_markSeen)
next
  fix i s d
  assume "ts_get createSqliteTrustStore i s = Some d"
  then show "d \<in> set (ts_list createSqliteTrustStore s)"
    by (force simp: createSqliteTrustStore_def sql_get_def sql_list_def find_Some_iff)
qed

section \<open>Pairing offers\<close>

text \<open>
  \<open>encodePairingOffer\<close> writes its fields with \<open>URLSearchParams\<close> and \<open>decodePairingOffer\<close>
  reads them with \<open>URL\<close>. Both are run-time services outside the repository: \<open>toString_params\<close> is
  \<open>URLSearchParams.prototype.toString\<close> on a list of pairs and \<open>parse_URL\<close> gives the protocol and the
  search parameters of a URL, or \<open>None\<close> for the exception.
\<close>

definition PAIRING_SCHEME :: string where "PAIRING_SCHEME = ''passvault''"
definition PAIRING_VERSION :: nat where "PAIRING_VERSION = 1"

record PairingOffer =
  po_version :: nat
  po_deviceId :: DeviceId
  po_publicKey :: bytes
  po_name :: string
  po_roomId :: string
  po_inviteToken :: string
  po_signalUrl :: string

type_synonym url_params = "(string \<times> string) list"

definition offer_params :: "PairingOffer \<Rightarrow> url_params" where
  "offer_params offer =
     [(''v'', decimal_string PAIRING_VERSION), (''k'', toBase64 (po_publicKey offer)),
      (''n'', po_name offer), (''r'', po_roomId offer), (''t'', po_inviteToken offer),
      (''s'', po_signalUrl offer)]"

definition encodePairingOffer :: "(url_params \<Rightarrow> string) \<Rightarrow> PairingOffer \<Rightarrow> string" where
  "encodePairingOffer toString_params offer =
     PAIRING_SCHEME @ ''://pair?'' @ toString_params (offer_params offer)"

text \<open>\<open>Number.parseInt(s, 10)\<close>: leading white space and a sign are skipped, then the longest run
  of digits counts; \<open>None\<close> is \<open>NaN\<close>.\<close>

definition js_parseInt :: "string \<Rightarrow> int option" where
  "js_parseInt s =
     (let t = dropWhile is_js_space s;
          (neg, u) = (case t of c # r \<Rightarrow> if c = CHR ''-'' then (True, r)
                        else if c = CHR ''+'' then (False, r) else (False, t) | [] \<Rightarrow> (False, t));
          ds = takeWhile (in_code_range 48 57) u;
          n = foldl (\<lambda>acc c. acc * 10 + (int (of_char c) - 48)) 0 ds
      in if ds = [] then None else Some (if neg then - n else n))"

datatype PairingParse = OfferParsed PairingOffer | OfferRefused string

definition decodePairingOffer ::
  "(bytes \<Rightarrow> bytes) \<Rightarrow> (string \<Rightarrow> (string \<times> url_params) option) \<Rightarrow> string \<Rightarrow> PairingParse" where
  "decodePairingOffer sha256 parse_URL raw =
     (case parse_URL (js_trim raw) of
        None \<Rightarrow> OfferRefused ''That does not look like a pairing code.''
      | Some (protocol, params) \<Rightarrow>
          if protocol \<noteq> PAIRING_SCHEME @ '':''
          then OfferRefused ''That pairing code is for a different application.''
          else if js_parseInt (case map_of params ''v'' of None \<Rightarrow> '''' | Some v \<Rightarrow> v) \<noteq> Some (int PAIRING_VERSION)
          then OfferRefused (''Unsupported pairing code version '' @
                 (case map_of params ''v'' of None \<Rightarrow> ''?'' | Some v \<Rightarrow> v) @ ''.'')
          else (case (map_of params ''k'', map_of params ''n'', map_of params ''r'',
                      map_of params ''t'', map_of params ''s'') of
             (Some encodedKey, Some name, Some roomId, Some inviteToken, Some signalUrl) \<Rightarrow>
               (case fromBase64 encodedKey of
                  None \<Rightarrow> OfferRefused ''That pairing code has an unreadable key.''
                | Some publicKey \<Rightarrow>
                    if length publicKey \<noteq> 32 then OfferRefused ''That pairing code has an invalid key.''
                    else OfferParsed \<lparr>po_version = PAIRING_VERSION,
                           po_deviceId = deviceIdFor sha256 publicKey, po_publicKey = publicKey,
                           po_name = name, po_roomId = roomId, po_inviteToken = inviteToken,
                           po_signalUrl = signalUrl\<rparr>)
           | _ \<Rightarrow> OfferRefused ''That pairing code is incomplete.''))"

section \<open>Properties\<close>

text \<open>
  C13: Only a proven identity gets in. When a device backed by the \<open>devices\<close> table accepts a peer,
  the peer's id is the hash of the key it presented, the signature over this session's challenge
  verified under that key, and the device is now pinned with exactly that key; it was either pinned
  before as paired with that key, or it was unknown, this device was in pairing mode and the numbers
  were confirmed. A rejected peer leaves the table as it was.\<close>

theorem verifyPeer_accepts_only_proven:
  assumes "verifyPeer sha256 ed_verify options createSqliteTrustStore i s = Inr (outcome, t)"
  shows "case outcome of
      Accept n \<Rightarrow>
        vi_deviceId i = deviceIdFor sha256 (vi_publicKey i) \<and>
        ed_verify (vi_signature i) (peer_challenge options i) (vi_publicKey i) = Some True \<and>
        (\<exists>d. sql_get (vi_deviceId i) t = Some d \<and> pd_trust d = Paired \<and> pd_publicKey d = vi_publicKey i) \<and>
        ((\<exists>d. sql_get (vi_deviceId i) s = Some d \<and> pd_trust d = Paired \<and> pd_publicKey d = vi_publicKey i) \<or>
         (sql_get (vi_deviceId i) s = None \<and> ao_pairingMode options \<and> confirmed options i))
    | Reject r \<Rightarrow> t = s"
proof (cases outcome)
  case (Accept n)
  with assms have *: "verifyPeer sha256 ed_verify options createSqliteTrustStore i s = Inr (Accept n, t)"
    by simp
  have get: "ts_get createSqliteTrustStore = sql_get" by (simp add: createSqliteTrustStore_def)
  have "(\<exists>d. sql_get (vi_deviceId i) s = Some d \<and> pd_trust d = Paired \<and> pd_publicKey d = vi_publicKey i) \<or>
         (sql_get (vi_deviceId i) s = None \<and> ao_pairingMode options \<and> confirmed options i)"
    by (rule sql_store.accept_cases [OF *]) (auto simp: view_def get)
  moreover have "\<exists>d. sql_get (vi_deviceId i) t = Some d \<and> pd_trust d = Paired \<and> pd_publicKey d = vi_publicKey i"
    using sql_store.accepted_is_pinned [OF *] by (auto simp: view_def get)
  ultimately show ?thesis using Accept sql_store.accept_proof [OF *] by simp
next
  case (Reject r)
  then show ?thesis using assms sql_store.reject_unchanged by fastforce
qed

definition sample_options :: AuthenticatorOptions where
  "sample_options = \<lparr>ao_keyPair = \<lparr>kp_deviceId = ''me'', kp_publicKey = [9], kp_privateKey = [8]\<rparr>,
     ao_deviceName = ''laptop'', ao_pairingMode = True, ao_confirmPairing = None, ao_now = 5\<rparr>"

definition sample_input :: VerifyInput where
  "sample_input = \<lparr>vi_deviceId = ''01'', vi_publicKey = [1], vi_nonce = [7], vi_signature = [2],
     vi_claimedName = ''phone''\<rparr>"

text \<open>A signature scheme to evaluate with: the second argument is ignored.\<close>

definition sample_verify :: "bytes \<Rightarrow> bytes \<Rightarrow> bytes \<Rightarrow> bool option" where
  "sample_verify sig msg key = Some (sig = [2] \<and> key = [1])"

theorem verifyPeer_accepts_only_proven_witness:
  "\<exists>t d. verifyPeer id sample_verify sample_options createSqliteTrustStore sample_input [] =
       Inr (Accept ''phone'', t) \<and>
     sql_get ''01'' t = Some d \<and> pd_trust d = Paired \<and> pd_publicKey d = [1]"
proof -
  have id: "deviceIdFor id [1] = ''01''"
    by code_simp
  obtain t where *: "verifyPeer id sample_verify sample_options createSqliteTrustStore sample_input [] =
      Inr (Accept ''phone'', t)"
    using id by (simp add: verifyPeer_def sample_input_def sample_options_def sample_verify_def verify_def
        evaluateTrust_def createSqliteTrustStore_def sql_get_def confirmed_def)
  then show ?thesis
    using verifyPeer_accepts_only_proven [OF *] by (auto simp: sample_input_def)
qed

text \<open>
  C14: Revocation sticks. After a known device is revoked in the \<open>devices\<close> table, no sequence of
  authentication attempts by any peers, in pairing mode or not and whatever is confirmed, makes this
  device accept it again: every later attempt under that id is rejected and changes nothing.\<close>

theorem revoked_device_stays_out:
  assumes "sql_get j s \<noteq> None"
    and "auth_run sha256 ed_verify createSqliteTrustStore (sql_revoke j s) t"
    and "vi_deviceId i = j"
  shows "\<exists>r. verifyPeer sha256 ed_verify options createSqliteTrustStore i t = Inr (Reject r, t)"
proof -
  have "ts_revoke createSqliteTrustStore = sql_revoke" "view createSqliteTrustStore s j \<noteq> None"
    using assms(1) by (simp_all add: createSqliteTrustStore_def view_def)
  then show ?thesis using sql_store.revoked_never_accepted assms(2,3) by metis
qed

theorem revoked_device_stays_out_witness:
  "\<exists>r. verifyPeer id sample_verify sample_options createSqliteTrustStore sample_input
     (sql_revoke ''01'' [\<lparr>dr_id = ''01'', dr_public_key = [1], dr_name = ''phone'', dr_trust = ''paired'',
        dr_paired_at = 3, dr_last_seen_at = None\<rparr>]) =
     Inr (Reject r, sql_revoke ''01'' [\<lparr>dr_id = ''01'', dr_public_key = [1], dr_name = ''phone'', dr_trust = ''paired'',
        dr_paired_at = 3, dr_last_seen_at = None\<rparr>])"
  by (rule revoked_device_stays_out [OF _ run_start, of "''01''"])
    (simp_all add: sql_get_def sample_input_def)


text \<open>The disagreement, on a device that was seen and is paired again as the services do, with no date.\<close>

lemma stores_disagree_on_last_seen:
  fixes at :: Date
  assumes "pd_lastSeenAt d = None"
  defines "ops \<equiv> [OpPair d, OpMarkSeen (pd_deviceId d) at, OpPair d]"
  shows "map_option pd_lastSeenAt (ts_get trustStoreFromMap (pd_deviceId d)
      (fold (apply_op trustStoreFromMap) ops [])) = Some None"
    and "map_option pd_lastSeenAt (ts_get createSqliteTrustStore (pd_deviceId d)
      (fold (apply_op createSqliteTrustStore) ops [])) = Some (Some at)"
  using fun_cong [OF map_store.refines_spec [of ops "[]"], of "pd_deviceId d"]
    fun_cong [OF sql_store.refines_spec [of ops "[]"], of "pd_deviceId d"] assms(1)
  unfolding ops_def view_def by (simp_all add: seen_as_given_def seen_as_before_def)

text \<open>
  A pairing offer reads back. When the run-time's URL parser recovers the parameters that its
  serialiser wrote (and trimming leaves the link alone), decoding an encoded offer with a 32-byte key
  gives the same key, name, room, token and server, with the device id recomputed from the key.\<close>

theorem pairing_offer_roundtrip:
  assumes "parse_URL (js_trim (encodePairingOffer toString_params offer)) =
      Some (''passvault:'', offer_params offer)"
    and "length (po_publicKey offer) = 32"
  shows "decodePairingOffer sha256 parse_URL (encodePairingOffer toString_params offer) =
    OfferParsed (offer\<lparr>po_version := PAIRING_VERSION, po_deviceId := deviceIdFor sha256 (po_publicKey offer)\<rparr>)"
proof -
  have "js_parseInt (decimal_string PAIRING_VERSION) = Some (int PAIRING_VERSION)"
    by code_simp
  then show ?thesis
    using assms by (cases offer)
      (simp add: decodePairingOffer_def offer_params_def PAIRING_SCHEME_def fromBase64_toBase64)
qed

definition sample_offer :: PairingOffer where
  "sample_offer = \<lparr>po_version = 1, po_deviceId = '''', po_publicKey = replicate 32 7, po_name = ''laptop'',
     po_roomId = ''r'', po_inviteToken = ''t'', po_signalUrl = ''wss://s/signal''\<rparr>"

theorem pairing_offer_roundtrip_witness:
  "decodePairingOffer id (\<lambda>_. Some (''passvault:'', offer_params sample_offer))
     (encodePairingOffer (\<lambda>_. ''q'') sample_offer) =
   OfferParsed (sample_offer\<lparr>po_version := PAIRING_VERSION, po_deviceId := deviceIdFor id (po_publicKey sample_offer)\<rparr>)"
  by (rule pairing_offer_roundtrip) (simp_all add: sample_offer_def)

end
