(* ===== verification/Blob_Files.thy ===== *)
theory Blob_Files
  imports Js_Prelude
begin

text \<open>
  The content-addressed blob store: the \<open>BlobStore\<close> interface (packages/core/src/ports.ts) as a
  record of functions, and its implementation over files (packages/storage-node/src/blobStore.ts).

  A path below the root directory is the list of its segments and a disk is the map from paths to
  contents; directories are not represented, since every one that is used has been created before.
  SHA-256 is the parameter \<open>sha256\<close> giving the hex digest. What the operating system decides is
  read from a tape in the state: for each write, the random name of the temporary file and whether
  opening (or making the directory), writing or renaming fails. What an operation does to the disk is the list
  of its calls, so that the states in which the process can die are those between and inside its own calls.
\<close>

section \<open>The interface\<close>

record 's BlobStore =
  bl_has :: "Sha256Hex \<Rightarrow> 's \<Rightarrow> bool"
  bl_put :: "bytes \<Rightarrow> ('s, Sha256Hex) action"
  bl_get :: "Sha256Hex \<Rightarrow> 's \<Rightarrow> bytes result"
  bl_sizeOf :: "Sha256Hex \<Rightarrow> 's \<Rightarrow> nat option"
  bl_delete :: "Sha256Hex \<Rightarrow> ('s, unit) action"

section \<open>Files\<close>

type_synonym path = "string list"
type_synonym files = "(path \<times> bytes) list"

datatype io_outcome = IoOk | OpenFails | WriteFails nat | RenameFails

record disk =
  dk_files :: files
  dk_tape :: "(string \<times> io_outcome) list"

definition next_io :: "disk \<Rightarrow> string \<times> io_outcome" where
  "next_io d = (case dk_tape d of [] \<Rightarrow> ('''', IoOk) | io # _ \<Rightarrow> io)"

text \<open>
  The calls that change the disk. Opening for writing truncates; a write that stops has written a prefix, so
  inside a write every prefix is on the disk at some moment; renaming replaces the target.
\<close>

datatype disk_call = OpenTemp path | WriteTo path bytes | RenameTo path path | RemoveFile path

fun do_call :: "disk_call \<Rightarrow> files \<Rightarrow> files" where
  "do_call (OpenTemp p) fs = AList.update p [] fs"
| "do_call (WriteTo p bs) fs = AList.update p bs fs"
| "do_call (RenameTo p q) fs =
     (case map_of fs p of None \<Rightarrow> fs | Some content \<Rightarrow> AList.update q content (AList.delete p fs))"
| "do_call (RemoveFile p) fs = AList.delete p fs"

fun inside_call :: "disk_call \<Rightarrow> files \<Rightarrow> files list" where
  "inside_call (WriteTo p bs) fs = map (\<lambda>n. AList.update p (take n bs) fs) [0 ..< length bs]"
| "inside_call c fs = []"

text \<open>All the disks on which a process that makes these calls can leave the next one to start.\<close>

fun moments :: "disk_call list \<Rightarrow> files \<Rightarrow> files list" where
  "moments [] fs = [fs]"
| "moments (c # cs) fs = fs # inside_call c fs @ moments cs (do_call c fs)"

lemma moments_snoc:
  "moments (cs @ [c]) fs =
     moments cs fs @ inside_call c (fold do_call cs fs) @ [do_call c (fold do_call cs fs)]"
  by (induction cs arbitrary: fs) simp_all

lemma last_call:
  "m \<in> set (moments (cs @ [c]) fs) \<Longrightarrow> inside_call c (fold do_call cs fs) = [] \<Longrightarrow>
     m \<in> set (moments cs fs) \<or> m = fold do_call (cs @ [c]) fs"
  by (auto simp: moments_snoc)

lemma temp_moment_other:
  "m \<in> set (moments [OpenTemp t, WriteTo t content] fs) \<Longrightarrow> q \<noteq> t \<Longrightarrow> map_of m q = map_of fs q"
  by auto

lemma last_moment: "fold do_call cs fs \<in> set (moments cs fs)"
  by (induction cs arbitrary: fs) auto

definition shardOf :: "Sha256Hex \<Rightarrow> string" where
  "shardOf hash = take 2 hash"

definition blob_path :: "Sha256Hex \<Rightarrow> path" where
  "blob_path hash = [''blobs'', shardOf hash, hash @ ''.kdbx'']"

definition pathFor :: "Sha256Hex \<Rightarrow> path result" where
  "pathFor hash =
     res_bind (assert_contract (is_hex64 hash) ''blob key must be a sha256 hex digest'')
       (\<lambda>_. Inr (blob_path hash))"

definition temp_path :: "string \<Rightarrow> path" where
  "temp_path uuid = [''tmp'', uuid @ ''.part'']"

definition file_sizeOf :: "Sha256Hex \<Rightarrow> disk \<Rightarrow> nat option" where
  "file_sizeOf hash d =
     (case pathFor hash of
        Inl _ \<Rightarrow> None
      | Inr p \<Rightarrow> (case map_of (dk_files d) p of None \<Rightarrow> None | Some content \<Rightarrow> Some (length content)))"

definition file_has :: "Sha256Hex \<Rightarrow> disk \<Rightarrow> bool" where
  "file_has hash d = (file_sizeOf hash d \<noteq> None)"

definition file_get :: "Sha256Hex \<Rightarrow> disk \<Rightarrow> bytes result" where
  "file_get hash d =
     res_bind (pathFor hash) (\<lambda>p.
       case map_of (dk_files d) p of
         None \<Rightarrow> Inl (ThrownError ''ENOENT'')
       | Some content \<Rightarrow> Inr content)"

text \<open>The calls that \<open>put\<close> makes from \<open>open\<close> on, and the error it throws, if any.\<close>

definition put_calls :: "io_outcome \<Rightarrow> path \<Rightarrow> path \<Rightarrow> bytes \<Rightarrow> disk_call list \<times> js_error option" where
  "put_calls outcome tempPath finalPath bs =
     (case outcome of
        OpenFails \<Rightarrow> ([], Some (ThrownError ''open failed''))
      | WriteFails n \<Rightarrow> ([OpenTemp tempPath, WriteTo tempPath (take n bs)], Some (ThrownError ''write failed''))
      | RenameFails \<Rightarrow>
          ([OpenTemp tempPath, WriteTo tempPath bs, RemoveFile tempPath], Some (ThrownError ''rename failed''))
      | IoOk \<Rightarrow> ([OpenTemp tempPath, WriteTo tempPath bs, RenameTo tempPath finalPath], None))"

text \<open>What \<open>put\<close> answers, the calls it makes on the way and the tape it leaves.\<close>

definition put_run ::
  "(bytes \<Rightarrow> string) \<Rightarrow> bytes \<Rightarrow> disk \<Rightarrow> Sha256Hex result \<times> disk_call list \<times> (string \<times> io_outcome) list" where
  "put_run sha256 bs d =
     (case asSha256Hex (sha256 bs) of
        Inl e \<Rightarrow> (Inl e, [], dk_tape d)
      | Inr hash \<Rightarrow>
          if file_has hash d then (Inr hash, [], dk_tape d)
          else case pathFor hash of
                 Inl e \<Rightarrow> (Inl e, [], dk_tape d)
               | Inr finalPath \<Rightarrow>
                   let (uuid, outcome) = next_io d;
                       (calls, error) = put_calls outcome (temp_path uuid) finalPath bs
                   in (case error of None \<Rightarrow> Inr hash | Some e \<Rightarrow> Inl e, calls, tl (dk_tape d)))"

definition file_put :: "(bytes \<Rightarrow> string) \<Rightarrow> bytes \<Rightarrow> (disk, Sha256Hex) action" where
  "file_put sha256 bs d =
     (let (r, calls, tape) = put_run sha256 bs d
      in (r, d\<lparr>dk_files := fold do_call calls (dk_files d), dk_tape := tape\<rparr>))"

definition file_delete :: "Sha256Hex \<Rightarrow> (disk, unit) action" where
  "file_delete hash =
     act_bind (act_lift (pathFor hash)) (\<lambda>p d. (Inr (), d\<lparr>dk_files := AList.delete p (dk_files d)\<rparr>))"

definition file_verify :: "(bytes \<Rightarrow> string) \<Rightarrow> Sha256Hex \<Rightarrow> disk \<Rightarrow> bool" where
  "file_verify sha256 hash d =
     (case res_bind (file_get hash d) (\<lambda>content. asSha256Hex (sha256 content)) of
        Inl _ \<Rightarrow> False
      | Inr actual \<Rightarrow> actual = hash)"

definition sweepTemp :: "disk \<Rightarrow> disk" where
  "sweepTemp d = d\<lparr>dk_files := filter (\<lambda>(p, _). p = [] \<or> hd p \<noteq> ''tmp'') (dk_files d)\<rparr>"

definition FileBlobStore :: "(bytes \<Rightarrow> string) \<Rightarrow> disk BlobStore" where
  "FileBlobStore sha256 =
     \<lparr>bl_has = file_has, bl_put = file_put sha256, bl_get = file_get, bl_sizeOf = file_sizeOf,
      bl_delete = file_delete\<rparr>"

section \<open>Sound blobs\<close>

text \<open>Every file at a blob's path has the contents its name promises.\<close>

definition blobs_ok :: "(bytes \<Rightarrow> string) \<Rightarrow> files \<Rightarrow> bool" where
  "blobs_ok sha256 fs \<longleftrightarrow> (\<forall>h c. map_of fs (blob_path h) = Some c \<longrightarrow> sha256 c = h)"

lemma blob_path_inject [simp]: "blob_path h = blob_path k \<longleftrightarrow> h = k"
  by (auto simp: blob_path_def)

lemma blob_temp_path [simp]: "blob_path h \<noteq> temp_path u" "temp_path u \<noteq> blob_path h"
  by (simp_all add: blob_path_def temp_path_def)

lemma pathFor_simps [simp]:
  "is_hex64 h \<Longrightarrow> pathFor h = Inr (blob_path h)"
  "pathFor h = Inr p \<longleftrightarrow> is_hex64 h \<and> p = blob_path h"
  by (auto simp: pathFor_def res_bind_eq_Inr)

lemma file_has_iff: "file_has h d \<longleftrightarrow> (\<exists>c. is_hex64 h \<and> map_of (dk_files d) (blob_path h) = Some c)"
  by (auto simp: file_has_def file_sizeOf_def split: sum.splits option.splits)

lemma file_get_iff: "file_get h d = Inr c \<longleftrightarrow> is_hex64 h \<and> map_of (dk_files d) (blob_path h) = Some c"
  by (auto simp: file_get_def res_bind_eq_Inr split: option.splits)

lemma asSha256Hex_ok [simp]: "is_hex64 v \<Longrightarrow> asSha256Hex v = Inr v"
  by (simp add: asSha256Hex_def)

lemma fold_put_calls:
  "fold do_call (fst (put_calls outcome t f bs)) fs =
     (case outcome of
        OpenFails \<Rightarrow> fs | WriteFails n \<Rightarrow> AList.update t (take n bs) fs
      | RenameFails \<Rightarrow> AList.delete t fs | IoOk \<Rightarrow> AList.update f bs (AList.delete t fs))"
  by (cases outcome) (simp_all add: put_calls_def AList.update_last delete_update_same)

lemma put_run_cases:
  obtains r where "put_run sha256 bs d = (r, [], dk_tape d)" "case r of Inl _ \<Rightarrow> True | Inr h \<Rightarrow> h = sha256 bs \<and> file_has h d"
    | "is_hex64 (sha256 bs)" "\<not> file_has (sha256 bs) d"
      "put_run sha256 bs d =
        (case snd (put_calls (snd (next_io d)) (temp_path (fst (next_io d))) (blob_path (sha256 bs)) bs) of
           None \<Rightarrow> Inr (sha256 bs) | Some e \<Rightarrow> Inl e,
         fst (put_calls (snd (next_io d)) (temp_path (fst (next_io d))) (blob_path (sha256 bs)) bs), tl (dk_tape d))"
proof (cases "is_hex64 (sha256 bs)")
  case False
  then have "asSha256Hex (sha256 bs) = Inl (ContractViolation ''sha256 hash must be 64 lowercase hex characters'')"
    by (simp add: asSha256Hex_def)
  with that(1) show ?thesis by (simp add: put_run_def)
next
  case True
  then show ?thesis
    using that by (cases "file_has (sha256 bs) d") (simp_all add: put_run_def split_beta)
qed

lemma file_put_cases:
  obtains e d' where "file_put sha256 bs d = (Inl e, d')" "dk_files d' = dk_files d"
    | "file_has (sha256 bs) d" "file_put sha256 bs d = (Inr (sha256 bs), d)"
    | n d' u where "\<not> file_has (sha256 bs) d" "file_put sha256 bs d = (Inl (ThrownError ''write failed''), d')"
        "dk_files d' = AList.update (temp_path u) (take n bs) (dk_files d)"
    | d' u where "\<not> file_has (sha256 bs) d" "file_put sha256 bs d = (Inl (ThrownError ''rename failed''), d')"
        "dk_files d' = AList.delete (temp_path u) (dk_files d)"
    | d' u where "\<not> file_has (sha256 bs) d" "is_hex64 (sha256 bs)" "file_put sha256 bs d = (Inr (sha256 bs), d')"
        "dk_files d' = AList.update (blob_path (sha256 bs)) bs (AList.delete (temp_path u) (dk_files d))"
proof (cases rule: put_run_cases [of sha256 bs d])
  case (1 r)
  then show ?thesis using that(1,2) by (cases r) (simp_all add: file_put_def)
next
  case 2
  then show ?thesis
    using that(1,3-5)
    by (cases "snd (next_io d)") (simp_all add: file_put_def fold_put_calls, simp_all add: put_calls_def)
qed

lemma blobs_ok_Nil [simp]: "blobs_ok sha256 []"
  by (simp add: blobs_ok_def)

lemma blobs_ok_update_temp: "blobs_ok sha256 (AList.update (temp_path u) c fs) = blobs_ok sha256 fs"
  by (simp add: blobs_ok_def)

lemma blobs_ok_delete_temp: "blobs_ok sha256 (AList.delete (temp_path u) fs) = blobs_ok sha256 fs"
  by (simp add: blobs_ok_def)

lemma blobs_ok_update_blob:
  "blobs_ok sha256 fs \<Longrightarrow> sha256 c = h \<Longrightarrow> blobs_ok sha256 (AList.update (blob_path h) c fs)"
  by (auto simp: blobs_ok_def)

lemmas blobs_ok_updates = blobs_ok_update_temp blobs_ok_delete_temp blobs_ok_update_blob

section \<open>The contract of a blob store\<close>

locale blob_store =
  fixes blobs :: "'b BlobStore" and sha256 :: "bytes \<Rightarrow> string" and blob_inv :: "'b \<Rightarrow> bool"
  assumes put_inv: "blob_inv s \<Longrightarrow> bl_put blobs bs s = (r, t) \<Longrightarrow> blob_inv t"
    and put_key: "bl_put blobs bs s = (Inr h, t) \<Longrightarrow> h = sha256 bs \<and> bl_has blobs h t"
    and put_keeps: "bl_put blobs bs s = (r, t) \<Longrightarrow> bl_has blobs k s \<Longrightarrow>
      bl_has blobs k t \<and> bl_get blobs k t = bl_get blobs k s"
    and has_get: "bl_has blobs k s \<longleftrightarrow> (\<exists>c. bl_get blobs k s = Inr c)"
    and get_content: "blob_inv s \<Longrightarrow> bl_get blobs k s = Inr c \<Longrightarrow> sha256 c = k"
begin

lemma put_then_get:
  assumes "blob_inv s" "bl_put blobs bs s = (Inr h, t)"
  shows "\<exists>c. bl_get blobs h t = Inr c \<and> sha256 c = sha256 bs"
  using assms put_key put_inv has_get get_content by metis

lemma puts_keep:
  "bl_put blobs a s = (r, t) \<Longrightarrow> bl_put blobs b t = (q, u) \<Longrightarrow> bl_has blobs k s \<Longrightarrow> bl_has blobs k u"
  using put_keeps by blast

end

interpretation file_store: blob_store "FileBlobStore sha256" sha256 "\<lambda>d. blobs_ok sha256 (dk_files d)"
  for sha256 :: "bytes \<Rightarrow> string"
proof
  fix s t :: disk and bs r
  assume inv: "blobs_ok sha256 (dk_files s)" and put: "bl_put (FileBlobStore sha256) bs s = (r, t)"
  show "blobs_ok sha256 (dk_files t)"
    by (rule file_put_cases [of sha256 bs s])
      (use inv put in \<open>auto simp: FileBlobStore_def blobs_ok_updates\<close>)
next
  fix s t :: disk and bs h
  assume put: "bl_put (FileBlobStore sha256) bs s = (Inr h, t)"
  show "h = sha256 bs \<and> bl_has (FileBlobStore sha256) h t"
    by (rule file_put_cases [of sha256 bs s])
      (use put in \<open>auto simp: FileBlobStore_def file_has_iff\<close>)
next
  fix s t :: disk and bs r k
  assume put: "bl_put (FileBlobStore sha256) bs s = (r, t)" and k: "bl_has (FileBlobStore sha256) k s"
  have "map_of (dk_files t) (blob_path k) = map_of (dk_files s) (blob_path k)"
    by (rule file_put_cases [of sha256 bs s])
      (use put k in \<open>auto simp: FileBlobStore_def file_has_iff\<close>)
  then show "bl_has (FileBlobStore sha256) k t \<and>
      bl_get (FileBlobStore sha256) k t = bl_get (FileBlobStore sha256) k s"
    using k by (simp add: FileBlobStore_def file_has_iff file_get_def)
next
  fix k s
  show "bl_has (FileBlobStore sha256) k s \<longleftrightarrow> (\<exists>c. bl_get (FileBlobStore sha256) k s = Inr c)"
    by (simp add: FileBlobStore_def file_has_iff file_get_iff)
next
  fix s :: disk and k c
  assume "blobs_ok sha256 (dk_files s)" "bl_get (FileBlobStore sha256) k s = Inr c"
  then show "sha256 c = k" by (simp add: FileBlobStore_def file_get_iff blobs_ok_def)
qed

section \<open>Properties\<close>

lemma temp_moments:
  assumes "blobs_ok sha256 fs" "m \<in> set (moments [OpenTemp (temp_path u), WriteTo (temp_path u) c] fs)"
  shows "blobs_ok sha256 m" and "map_of m (blob_path k) = map_of fs (blob_path k)"
  using assms by (auto simp: blobs_ok_updates)

lemma put_calls_moments:
  assumes ok: "blobs_ok sha256 fs" and h: "sha256 bs = h"
    and m: "m \<in> set (moments (fst (put_calls outcome (temp_path u) (blob_path h) bs)) fs)"
  shows "blobs_ok sha256 m \<and> map_of m (blob_path h) \<in> {map_of fs (blob_path h), Some bs} \<and>
    (\<forall>k. k \<noteq> h \<longrightarrow> map_of m (blob_path k) = map_of fs (blob_path k))"
proof -
  let ?done = "AList.update (blob_path h) bs (AList.delete (temp_path u) fs)"
  consider c where "m \<in> set (moments [OpenTemp (temp_path u), WriteTo (temp_path u) c] fs)"
    | "m = AList.delete (temp_path u) fs" | "m = ?done"
  proof (cases outcome)
    case OpenFails
    then show ?thesis using m that(1) by (simp add: put_calls_def)
  next
    case (WriteFails n)
    then show ?thesis using that(1) m by (simp only: put_calls_def io_outcome.case fst_conv)
  next
    case RenameFails
    with m have "m \<in> set (moments ([OpenTemp (temp_path u), WriteTo (temp_path u) bs] @ [RemoveFile (temp_path u)]) fs)"
      by (simp only: put_calls_def io_outcome.case fst_conv append.simps)
    from last_call [OF this] show ?thesis
      using that(1,2) RenameFails fold_put_calls [of RenameFails "temp_path u" "blob_path h" bs fs]
      by (auto simp only: put_calls_def io_outcome.case fst_conv append.simps inside_call.simps)
  next
    case IoOk
    with m have "m \<in> set (moments ([OpenTemp (temp_path u), WriteTo (temp_path u) bs] @ [RenameTo (temp_path u) (blob_path h)]) fs)"
      by (simp only: put_calls_def io_outcome.case fst_conv append.simps)
    from last_call [OF this] show ?thesis
      using that(1,3) fold_put_calls [of IoOk "temp_path u" "blob_path h" bs fs]
      by (auto simp only: put_calls_def io_outcome.case fst_conv append.simps inside_call.simps)
  qed
  then show ?thesis
  proof cases
    case (1 c)
    show ?thesis using temp_moments(1) [OF ok 1] temp_moments(2) [OF ok 1] by blast
  qed (use ok h in \<open>simp_all add: blobs_ok_updates\<close>)
qed

text \<open>
  C33: Writing a blob is crash safe. Whether the calls of a \<open>put\<close> succeed or fail, at every moment between
  and inside them at which the process can stop, with the temporary file missing, empty, partly or fully
  written, renamed into place or removed, every file in the blob directory has the contents its name is the
  hash of, the blob being written is either as before or complete, and every other blob is as before; the
  disk \<open>put\<close> leaves is the last of these moments.\<close>

theorem put_crash_safe:
  assumes "blobs_ok sha256 (dk_files d)" and "put_run sha256 bs d = (r, calls, tape)"
  shows "(\<forall>m \<in> set (moments calls (dk_files d)). blobs_ok sha256 m \<and>
      map_of m (blob_path (sha256 bs)) \<in> {map_of (dk_files d) (blob_path (sha256 bs)), Some bs} \<and>
      (\<forall>k. k \<noteq> sha256 bs \<longrightarrow> map_of m (blob_path k) = map_of (dk_files d) (blob_path k))) \<and>
    fst (file_put sha256 bs d) = r \<and> dk_files (snd (file_put sha256 bs d)) \<in> set (moments calls (dk_files d))"
proof -
  have end_state: "fst (file_put sha256 bs d) = r \<and> dk_files (snd (file_put sha256 bs d)) \<in> set (moments calls (dk_files d))"
    using last_moment assms(2) by (simp add: file_put_def)
  show ?thesis
  proof (cases rule: put_run_cases [of sha256 bs d])
    case (1 r')
    then have "calls = []" using assms(2) by simp
    then show ?thesis using end_state assms(1) by simp
  next
    case 2
    then have "calls = fst (put_calls (snd (next_io d)) (temp_path (fst (next_io d))) (blob_path (sha256 bs)) bs)"
      using assms(2) by simp
    then show ?thesis using end_state put_calls_moments [OF assms(1) refl] by blast
  qed
qed

text \<open>The process stops when one of two bytes is written.\<close>

theorem put_crash_safe_witness:
  "blobs_ok (\<lambda>b. if b = [1, 2] then replicate 64 CHR ''a'' else []) (AList.update (temp_path ''u'') [1] [])"
proof -
  let ?sha = "\<lambda>b :: bytes. if b = [1, 2] then replicate 64 CHR ''a'' else []"
  let ?d = "\<lparr>dk_files = [], dk_tape = [(''u'', IoOk)]\<rparr>"
  have hex: "is_hex64 (replicate 64 CHR ''a'')"
    by (simp add: is_hex64_def is_lower_hex_def in_code_range_def list_all_iff)
  have run: "put_run ?sha [1, 2] ?d = (Inr (replicate 64 CHR ''a''),
      [OpenTemp (temp_path ''u''), WriteTo (temp_path ''u'') [1, 2],
       RenameTo (temp_path ''u'') (blob_path (replicate 64 CHR ''a''))], [])"
    using hex by (simp add: put_run_def file_has_iff next_io_def put_calls_def)
  have "blobs_ok ?sha (dk_files ?d)" by simp
  from put_crash_safe [OF this run, THEN conjunct1, THEN bspec, of "AList.update (temp_path ''u'') [1] []"]
  show ?thesis by (force simp: numeral_2_eq_2)
qed

text \<open>
  The file store keeps the content-addressed contract. From a disk whose blobs are sound, a
  \<open>put\<close> that succeeds answers with the hash of the bytes and leaves a readable blob under it whose
  contents have that hash; whether it succeeds or fails, every blob readable before is readable after
  with the same contents, the disk stays sound, and an explicit scrub of any readable blob confirms it.\<close>

theorem put_get_contract:
  assumes "blobs_ok sha256 (dk_files d)" and "file_put sha256 bs d = (r, d')"
  shows "blobs_ok sha256 (dk_files d') \<and>
    (\<forall>h. r = Inr h \<longrightarrow> h = sha256 bs \<and> (\<exists>c. file_get h d' = Inr c \<and> sha256 c = h)) \<and>
    (\<forall>k c. file_get k d = Inr c \<longrightarrow> file_get k d' = Inr c \<and> file_verify sha256 k d')"
proof -
  have put: "bl_put (FileBlobStore sha256) bs d = (r, d')"
    using assms(2) by (simp add: FileBlobStore_def)
  have ok: "blobs_ok sha256 (dk_files d')"
    using file_store.put_inv [OF assms(1) put] .
  moreover have "h = sha256 bs \<and> (\<exists>c. file_get h d' = Inr c \<and> sha256 c = h)" if "r = Inr h" for h
    using file_store.put_key [of sha256 bs d h d'] file_store.put_then_get [of sha256 d bs h d'] assms(1) put that
    by (auto simp: FileBlobStore_def)
  moreover have "file_get k d' = Inr c \<and> file_verify sha256 k d'" if "file_get k d = Inr c" for k c
  proof -
    have "file_has k d" using that by (simp add: file_has_iff file_get_iff)
    then have get: "file_get k d' = Inr c"
      using file_store.put_keeps [OF put, of k] that by (simp add: FileBlobStore_def)
    then have "sha256 c = k" "is_hex64 k"
      using ok by (auto simp: file_get_iff blobs_ok_def)
    then show ?thesis using get by (simp add: file_verify_def)
  qed
  ultimately show ?thesis by blast
qed

theorem put_get_contract_witness:
  "file_get (replicate 64 CHR ''a'') (snd (file_put (\<lambda>_. replicate 64 CHR ''a'') [1, 2] \<lparr>dk_files = [], dk_tape = []\<rparr>)) =
     Inr [1, 2]"
proof -
  let ?sha = "\<lambda>_ :: bytes. replicate 64 CHR ''a''" and ?d = "\<lparr>dk_files = [], dk_tape = []\<rparr>"
  have hex: "is_hex64 (replicate 64 CHR ''a'')"
    by (simp add: is_hex64_def is_lower_hex_def in_code_range_def list_all_iff)
  obtain d' where put: "file_put ?sha [1, 2] ?d = (Inr (replicate 64 CHR ''a''), d')"
      "map_of (dk_files d') (blob_path (replicate 64 CHR ''a'')) = Some [1, 2]"
    using hex by (simp add: file_put_def put_run_def put_calls_def file_has_iff next_io_def)
  have "blobs_ok ?sha (dk_files ?d)" by (simp add: blobs_ok_def)
  from put_get_contract [OF this put(1)] put hex show ?thesis by (auto simp: file_get_iff)
qed

text \<open>
  Clearing the temporary files at startup touches no blob.
\<close>

lemma sweepTemp_blobs: "map_of (dk_files (sweepTemp d)) (blob_path h) = map_of (dk_files d) (blob_path h)"
proof -
  have "map_of (filter (\<lambda>(p, _). p = [] \<or> hd p \<noteq> ''tmp'') fs) (blob_path h) = map_of fs (blob_path h)" for fs :: files
    by (induction fs) (auto simp: blob_path_def)
  then show ?thesis by (simp add: sweepTemp_def)
qed

end
