(* ===== verification/Metadata_Tables.thy ===== *)
theory Metadata_Tables
  imports Revision_Model Dag_Ancestry
begin

text \<open>
  The metadata store over SQLite (packages/storage-sql/src/sqliteMetadataStore.ts and schema.ts).

  A table is the list of its rows, in insertion order; columns hold the values the code puts there
  (the ISO text of a date stands for the date, a string union for its constructor, the JSON text of a
  conflict decision for the decision, NULL is \<open>None\<close>). Each statement is the list operation that
  its SQL means: an \<open>INSERT ... ON CONFLICT(id) DO UPDATE\<close> changes exactly the columns it names, and
  the \<open>REFERENCES vaults(id)\<close> constraints, which the drivers switch on, make an insert for an unknown
  vault throw. (On the phone they are off after the first export, see \<open>Mobile_Storage\<close>; there an insert for
  an unknown vault would go through, which no caller attempts.) SQL leaves the order of an unordered \<open>SELECT\<close> open; here it is insertion order, and
  the properties speak of such results as sets.
\<close>

section \<open>Tables\<close>

record VaultRow =
  vr_id :: string
  vr_name :: string
  vr_kdbx_path :: "string option"
  vr_head_revision_id :: "string option"
  vr_created_at :: Date

record RevisionRow =
  rr_id :: string
  rr_vault_id :: string
  rr_hash :: string
  rr_size_bytes :: int
  rr_created_at :: Date
  rr_origin_device_id :: "string option"
  rr_operation :: RevisionOperation
  rr_message :: "string option"

record PeerHeadRow =
  ph_device_id :: string
  ph_vault_id :: string
  ph_head_revision_id :: string
  ph_seen_at :: Date

record EventRow =
  ev_at :: Date
  ev_kind :: string
  ev_payload :: string

record metadata_db =
  db_vaults :: "VaultRow list"
  db_revisions :: "RevisionRow list"
  db_parents :: "(RevisionId \<times> RevisionId) list"
  db_head_events :: "HeadRevisionEvent list"
  db_bookmarks :: "Bookmark list"
  db_conflicts :: "Conflict list"
  db_transfers :: "PendingTransfer list"
  db_peer_heads :: "PeerHeadRow list"
  db_events :: "EventRow list"

definition empty_db :: metadata_db where
  "empty_db = \<lparr>db_vaults = [], db_revisions = [], db_parents = [], db_head_events = [],
     db_bookmarks = [], db_conflicts = [], db_transfers = [], db_peer_heads = [], db_events = []\<rparr>"

definition FOREIGN_KEY_ERROR :: js_error where
  "FOREIGN_KEY_ERROR = ThrownError ''FOREIGN KEY constraint failed''"

text \<open>An upsert on a key: change the row that has it, or append a new one.\<close>

definition upsert :: "('r \<Rightarrow> bool) \<Rightarrow> ('r \<Rightarrow> 'r) \<Rightarrow> 'r \<Rightarrow> 'r list \<Rightarrow> 'r list" where
  "upsert same change new rows =
     (if list_ex same rows then map (\<lambda>r. if same r then change r else r) rows else rows @ [new])"

section \<open>Transactions\<close>

text \<open>
  \<open>transaction\<close> runs a body between \<open>BEGIN\<close> and \<open>COMMIT\<close>, and rolls back when it throws. (One that
  starts while another is open joins it; the calls modelled here run one at a time.)
\<close>

definition transaction :: "('s, 'a) action \<Rightarrow> ('s, 'a) action" where
  "transaction body = (\<lambda>s. case body s of (Inr x, t) \<Rightarrow> (Inr x, t) | (Inl e, _) \<Rightarrow> (Inl e, s))"

section \<open>Vaults\<close>

definition toVault :: "VaultRow \<Rightarrow> Vault" where
  "toVault row =
     \<lparr>vault_id = vr_id row, vault_name = vr_name row, vault_headRevisionId = vr_head_revision_id row,
      vault_kdbxPath = vr_kdbx_path row, vault_createdAt = vr_created_at row\<rparr>"

definition getVault :: "VaultId \<Rightarrow> metadata_db \<Rightarrow> Vault option" where
  "getVault vaultId db = map_option toVault (find (\<lambda>r. vr_id r = vaultId) (db_vaults db))"

definition listVaults :: "metadata_db \<Rightarrow> Vault list" where
  "listVaults db = map toVault (sort_key vr_created_at (db_vaults db))"

definition vault_row :: "Vault \<Rightarrow> VaultRow" where
  "vault_row vault =
     \<lparr>vr_id = vault_id vault, vr_name = vault_name vault, vr_kdbx_path = vault_kdbxPath vault,
      vr_head_revision_id = vault_headRevisionId vault, vr_created_at = vault_createdAt vault\<rparr>"

definition saveVault :: "Vault \<Rightarrow> (metadata_db, unit) action" where
  "saveVault vault db =
     (Inr (), db\<lparr>db_vaults :=
        upsert (\<lambda>r. vr_id r = vault_id vault)
          (\<lambda>r. r\<lparr>vr_name := vault_name vault, vr_kdbx_path := vault_kdbxPath vault,
                 vr_head_revision_id := vault_headRevisionId vault\<rparr>)
          (vault_row vault) (db_vaults db)\<rparr>)"

definition has_vault :: "VaultId \<Rightarrow> metadata_db \<Rightarrow> bool" where
  "has_vault vaultId db = list_ex (\<lambda>r. vr_id r = vaultId) (db_vaults db)"

section \<open>Revisions\<close>

definition parentsOf :: "RevisionId \<Rightarrow> metadata_db \<Rightarrow> RevisionId list" where
  "parentsOf revisionId db = map snd (filter (\<lambda>(r, _). r = revisionId) (db_parents db))"

definition toRevision :: "RevisionRow \<Rightarrow> RevisionId list \<Rightarrow> Revision" where
  "toRevision row parentIds =
     \<lparr>rev_id = rr_id row, rev_vaultId = rr_vault_id row, rev_hash = rr_hash row,
      rev_sizeBytes = rr_size_bytes row, rev_createdAt = rr_created_at row,
      rev_originDeviceId = rr_origin_device_id row, rev_parentIds = parentIds,
      rev_operation = rr_operation row, rev_message = rr_message row\<rparr>"

definition getRevision :: "RevisionId \<Rightarrow> metadata_db \<Rightarrow> Revision option" where
  "getRevision revisionId db =
     (case find (\<lambda>r. rr_id r = revisionId) (db_revisions db) of
        None \<Rightarrow> None
      | Some row \<Rightarrow> Some (toRevision row (parentsOf revisionId db)))"

definition hasRevision :: "RevisionId \<Rightarrow> metadata_db \<Rightarrow> bool" where
  "hasRevision revisionId db = list_ex (\<lambda>r. rr_id r = revisionId) (db_revisions db)"

definition listRevisions :: "VaultId \<Rightarrow> metadata_db \<Rightarrow> Revision list" where
  "listRevisions vaultId db =
     map (\<lambda>row. toRevision row (parentsOf (rr_id row) db))
       (rev (sort_key rr_created_at (filter (\<lambda>r. rr_vault_id r = vaultId) (db_revisions db))))"

fun check_parents_stored :: "Revision \<Rightarrow> RevisionId list \<Rightarrow> metadata_db \<Rightarrow> unit result" where
  "check_parents_stored revision [] db = Inr ()"
| "check_parents_stored revision (parentId # ps) db =
     res_bind (assert_contract (hasRevision parentId db)
       (''cannot store revision '' @ rev_id revision @ '': parent '' @ parentId @ '' is not stored yet''))
       (\<lambda>_. check_parents_stored revision ps db)"

definition revision_row :: "Revision \<Rightarrow> RevisionRow" where
  "revision_row revision =
     \<lparr>rr_id = rev_id revision, rr_vault_id = rev_vaultId revision, rr_hash = rev_hash revision,
      rr_size_bytes = rev_sizeBytes revision, rr_created_at = rev_createdAt revision,
      rr_origin_device_id = rev_originDeviceId revision, rr_operation = rev_operation revision,
      rr_message = rev_message revision\<rparr>"

definition insert_revision_row :: "Revision \<Rightarrow> (metadata_db, unit) action" where
  "insert_revision_row revision db =
     (if hasRevision (rev_id revision) db then (Inr (), db)
      else if \<not> has_vault (rev_vaultId revision) db then (Inl FOREIGN_KEY_ERROR, db)
      else (Inr (), db\<lparr>db_revisions := db_revisions db @ [revision_row revision]\<rparr>))"

definition insert_parents :: "Revision \<Rightarrow> (metadata_db, unit) action" where
  "insert_parents revision db =
     (Inr (), db\<lparr>db_parents := foldl (\<lambda>ps parentId. set_add ps (rev_id revision, parentId))
        (db_parents db) (rev_parentIds revision)\<rparr>)"

definition saveRevision :: "Revision \<Rightarrow> (metadata_db, unit) action" where
  "saveRevision revision =
     act_bind (\<lambda>db. (check_parents_stored revision (rev_parentIds revision) db, db))
       (\<lambda>_. act_bind (insert_revision_row revision) (\<lambda>_. insert_parents revision))"

section \<open>The graph\<close>

text \<open>The rows of the outer join of a vault's revisions with their parents.\<close>

definition graph_rows :: "VaultId \<Rightarrow> metadata_db \<Rightarrow> (RevisionId \<times> RevisionId option) list" where
  "graph_rows vaultId db =
     concat (map (\<lambda>r. case parentsOf (rr_id r) db of
                        [] \<Rightarrow> [(rr_id r, None)]
                      | ps \<Rightarrow> map (\<lambda>p. (rr_id r, Some p)) ps)
              (filter (\<lambda>r. rr_vault_id r = vaultId) (db_revisions db)))"

fun group_rows ::
  "(RevisionId \<times> RevisionId option) list \<Rightarrow> (RevisionId \<times> RevisionId list) list \<Rightarrow>
   (RevisionId \<times> RevisionId list) list" where
  "group_rows [] parentsById = parentsById"
| "group_rows ((i, parent) # rows) parentsById =
     (let parents = (case map_of parentsById i of None \<Rightarrow> [] | Some ps \<Rightarrow> ps);
          parents' = (case parent of None \<Rightarrow> parents | Some p \<Rightarrow> parents @ [p])
      in group_rows rows (AList.update i parents' parentsById))"

definition loadGraph :: "VaultId \<Rightarrow> metadata_db \<Rightarrow> RevisionGraph" where
  "loadGraph vaultId db =
     buildGraph (map (\<lambda>(i, ps). \<lparr>node_id = i, node_parentIds = ps\<rparr>)
       (group_rows (graph_rows vaultId db) []))"

text \<open>The recursive common table expression: a queue of rows, each new row added once.\<close>

definition cte_new :: "(RevisionId \<times> RevisionId) list \<Rightarrow> RevisionId \<Rightarrow> RevisionId list \<Rightarrow> RevisionId list" where
  "cte_new edges i seen = remdups (filter (\<lambda>p. p \<notin> set seen) (map snd (filter (\<lambda>(r, _). r = i) edges)))"

function cte_loop :: "(RevisionId \<times> RevisionId) list \<Rightarrow> RevisionId list \<Rightarrow> RevisionId list \<Rightarrow> RevisionId list" where
  "cte_loop edges [] seen = seen"
| "cte_loop edges (i # queue) seen =
     (let new = cte_new edges i seen in cte_loop edges (queue @ new) (seen @ new))"
  by pat_completeness auto

lemma cte_new_set: "set (cte_new edges i seen) = {p. (i, p) \<in> set edges} - set seen"
  by (force simp: cte_new_def)

termination cte_loop
proof (relation "measures [\<lambda>(edges, _, seen). card (snd ` set edges - set seen), \<lambda>(_, queue, _). length queue]")
  fix edges :: "(RevisionId \<times> RevisionId) list" and i queue seen new
  assume new: "new = cte_new edges i seen"
  show "((edges, queue @ new, seen @ new), edges, i # queue, seen) \<in>
      measures [\<lambda>(edges, _, seen). card (snd ` set edges - set seen), \<lambda>(_, queue, _). length queue]"
  proof (cases "new = []")
    case False
    then obtain p where p: "p \<in> set new" by (cases new) auto
    then have "p \<in> snd ` set edges - set seen" "p \<notin> snd ` set edges - set (seen @ new)"
      using new by (force simp: cte_new_set)+
    then have "snd ` set edges - set (seen @ new) \<subset> snd ` set edges - set seen" by auto
    then have "card (snd ` set edges - set (seen @ new)) < card (snd ` set edges - set seen)"
      by (intro psubset_card_mono) auto
    then show ?thesis by simp
  qed simp
qed simp

definition ancestorIdsOf :: "RevisionId \<Rightarrow> metadata_db \<Rightarrow> RevisionId list" where
  "ancestorIdsOf revisionId db = cte_loop (db_parents db) [revisionId] [revisionId]"

section \<open>Head events, bookmarks, conflicts, transfers, peers and events\<close>

definition appendHeadEvent :: "HeadRevisionEvent \<Rightarrow> (metadata_db, unit) action" where
  "appendHeadEvent event db =
     (if has_vault (he_vaultId event) db
      then (Inr (), db\<lparr>db_head_events := db_head_events db @ [event]\<rparr>)
      else (Inl FOREIGN_KEY_ERROR, db))"

definition lastHeadEvent :: "VaultId \<Rightarrow> metadata_db \<Rightarrow> HeadRevisionEvent option" where
  "lastHeadEvent vaultId db = find (\<lambda>e. he_vaultId e = vaultId) (rev (db_head_events db))"

definition saveBookmark :: "Bookmark \<Rightarrow> (metadata_db, unit) action" where
  "saveBookmark bookmark db =
     (if \<not> list_ex (\<lambda>b. bm_id b = bm_id bookmark) (db_bookmarks db) \<and> \<not> has_vault (bm_vaultId bookmark) db
      then (Inl FOREIGN_KEY_ERROR, db)
      else (Inr (), db\<lparr>db_bookmarks := upsert (\<lambda>b. bm_id b = bm_id bookmark)
             (\<lambda>b. b\<lparr>bm_message := bm_message bookmark\<rparr>) bookmark (db_bookmarks db)\<rparr>))"

definition listBookmarks :: "VaultId \<Rightarrow> metadata_db \<Rightarrow> Bookmark list" where
  "listBookmarks vaultId db =
     rev (sort_key bm_createdAt (filter (\<lambda>b. bm_vaultId b = vaultId) (db_bookmarks db)))"

definition saveConflict :: "Conflict \<Rightarrow> (metadata_db, unit) action" where
  "saveConflict conflict db =
     (if \<not> list_ex (\<lambda>c. cf_id c = cf_id conflict) (db_conflicts db) \<and> \<not> has_vault (cf_vaultId conflict) db
      then (Inl FOREIGN_KEY_ERROR, db)
      else (Inr (), db\<lparr>db_conflicts := upsert (\<lambda>c. cf_id c = cf_id conflict)
             (\<lambda>c. c\<lparr>cf_status := cf_status conflict, cf_decision := cf_decision conflict,
                    cf_resolvedAt := cf_resolvedAt conflict\<rparr>) conflict (db_conflicts db)\<rparr>))"

definition listOpenConflicts :: "VaultId \<Rightarrow> metadata_db \<Rightarrow> Conflict list" where
  "listOpenConflicts vaultId db =
     rev (sort_key cf_createdAt
       (filter (\<lambda>c. cf_vaultId c = vaultId \<and> cf_status c = OpenStatus) (db_conflicts db)))"

definition saveTransfer :: "PendingTransfer \<Rightarrow> (metadata_db, unit) action" where
  "saveTransfer transfer db =
     (if \<not> list_ex (\<lambda>t. tr_id t = tr_id transfer) (db_transfers db) \<and> \<not> has_vault (tr_vaultId transfer) db
      then (Inl FOREIGN_KEY_ERROR, db)
      else (Inr (), db\<lparr>db_transfers := upsert (\<lambda>t. tr_id t = tr_id transfer)
             (\<lambda>t. t\<lparr>tr_receivedBytes := tr_receivedBytes transfer, tr_status := tr_status transfer\<rparr>)
             transfer (db_transfers db)\<rparr>))"

definition listPendingTransfers :: "VaultId \<Rightarrow> metadata_db \<Rightarrow> PendingTransfer list" where
  "listPendingTransfers vaultId db =
     filter (\<lambda>t. tr_vaultId t = vaultId \<and> (tr_status t = Requested \<or> tr_status t = Transferring))
       (db_transfers db)"

definition recordPeerHead :: "DeviceId \<Rightarrow> VaultId \<Rightarrow> RevisionId \<Rightarrow> Date \<Rightarrow> (metadata_db, unit) action" where
  "recordPeerHead deviceId vaultId headRevisionId seenAt db =
     (let same = (\<lambda>p. ph_device_id p = deviceId \<and> ph_vault_id p = vaultId) in
      if \<not> list_ex same (db_peer_heads db) \<and> \<not> has_vault vaultId db then (Inl FOREIGN_KEY_ERROR, db)
      else (Inr (), db\<lparr>db_peer_heads := upsert same
             (\<lambda>p. p\<lparr>ph_head_revision_id := headRevisionId, ph_seen_at := seenAt\<rparr>)
             \<lparr>ph_device_id = deviceId, ph_vault_id = vaultId, ph_head_revision_id = headRevisionId,
              ph_seen_at = seenAt\<rparr> (db_peer_heads db)\<rparr>))"

definition getPeerHead :: "DeviceId \<Rightarrow> VaultId \<Rightarrow> metadata_db \<Rightarrow> RevisionId option" where
  "getPeerHead deviceId vaultId db =
     map_option ph_head_revision_id
       (find (\<lambda>p. ph_device_id p = deviceId \<and> ph_vault_id p = vaultId) (db_peer_heads db))"

definition appendEvent :: "EventRow \<Rightarrow> (metadata_db, unit) action" where
  "appendEvent event db = (Inr (), db\<lparr>db_events := db_events db @ [event]\<rparr>)"

definition listEvents :: "nat \<Rightarrow> metadata_db \<Rightarrow> EventRow list" where
  "listEvents limit db = take limit (rev (db_events db))"

end
