(* ===== verification/Metadata_Store.thy ===== *)
theory Metadata_Store
  imports Metadata_Tables Dag_Topology
begin

text \<open>
  What the metadata store promises. The \<open>MetadataStore\<close> interface (packages/core/src/ports.ts) as a
  record of the functions its clients use, the invariant \<open>db_ok\<close> of the tables (unique keys, no
  dangling edge, no revision without a vault, no cycle), the locale \<open>metadata_store\<close> with the
  laws, and the interpretation that discharges them for the SQLite store.
\<close>

section \<open>The interface\<close>

record 'm MetadataStore =
  ms_getVault :: "VaultId \<Rightarrow> 'm \<Rightarrow> Vault option"
  ms_saveVault :: "Vault \<Rightarrow> ('m, unit) action"
  ms_getRevision :: "RevisionId \<Rightarrow> 'm \<Rightarrow> Revision option"
  ms_hasRevision :: "RevisionId \<Rightarrow> 'm \<Rightarrow> bool"
  ms_listRevisions :: "VaultId \<Rightarrow> 'm \<Rightarrow> Revision list"
  ms_saveRevision :: "Revision \<Rightarrow> ('m, unit) action"
  ms_loadGraph :: "VaultId \<Rightarrow> 'm \<Rightarrow> RevisionGraph"
  ms_appendHeadEvent :: "HeadRevisionEvent \<Rightarrow> ('m, unit) action"
  ms_lastHeadEvent :: "VaultId \<Rightarrow> 'm \<Rightarrow> HeadRevisionEvent option"
  ms_recordPeerHead :: "DeviceId \<Rightarrow> VaultId \<Rightarrow> RevisionId \<Rightarrow> Date \<Rightarrow> ('m, unit) action"

definition SqliteMetadataStore :: "metadata_db MetadataStore" where
  "SqliteMetadataStore =
     \<lparr>ms_getVault = getVault, ms_saveVault = saveVault, ms_getRevision = getRevision,
      ms_hasRevision = hasRevision, ms_listRevisions = listRevisions, ms_saveRevision = saveRevision,
      ms_loadGraph = loadGraph, ms_appendHeadEvent = appendHeadEvent,
      ms_lastHeadEvent = lastHeadEvent, ms_recordPeerHead = recordPeerHead\<rparr>"

section \<open>The invariant of the tables\<close>

definition db_ok :: "metadata_db \<Rightarrow> bool" where
  "db_ok db \<longleftrightarrow>
     distinct (map vr_id (db_vaults db)) \<and> distinct (map rr_id (db_revisions db)) \<and>
     distinct (db_parents db) \<and>
     (\<forall>(r, p) \<in> set (db_parents db). hasRevision r db \<and> hasRevision p db) \<and>
     (\<forall>r \<in> set (db_revisions db). has_vault (rr_vault_id r) db) \<and>
     acyclic (set (db_parents db))"

lemma db_ok_empty [simp]: "db_ok empty_db"
  by (simp add: db_ok_def empty_db_def wf_acyclic)

section \<open>Lookups\<close>

lemma find_upsert:
  assumes "\<And>r. key (change r) = key r" "key new = k"
  shows "find (\<lambda>r. key r = i) (upsert (\<lambda>r. key r = k) change new rows) =
    (if i = k then Some (case find (\<lambda>r. key r = k) rows of None \<Rightarrow> new | Some r \<Rightarrow> change r)
     else find (\<lambda>r. key r = i) rows)"
proof -
  have map: "find (\<lambda>r. key r = j) (map (\<lambda>r. if key r = k then change r else r) rs) =
      map_option (\<lambda>r. if key r = k then change r else r) (find (\<lambda>r. key r = j) rs)" for rs j
    using assms(1) by (induction rs) auto
  have app: "find P (rs @ [r]) = (case find P rs of None \<Rightarrow> if P r then Some r else None | Some x \<Rightarrow> Some x)"
    for P :: "'a \<Rightarrow> bool" and rs r
    by (induction rs) auto
  show ?thesis
  proof (cases "find (\<lambda>r. key r = k) rows")
    case None
    then have "\<not> list_ex (\<lambda>r. key r = k) rows" by (auto simp: find_None_iff list_ex_iff)
    then show ?thesis using None assms(2) by (auto simp: upsert_def app split: option.split)
  next
    case (Some r)
    then have ex: "list_ex (\<lambda>r. key r = k) rows" and kr: "key r = k"
      by (auto simp: find_Some_iff list_ex_iff)
    show ?thesis
    proof (cases "i = k")
      case True
      then show ?thesis using Some ex kr by (simp add: upsert_def map)
    next
      case False
      show ?thesis
      proof (cases "find (\<lambda>r. key r = i) rows")
        case (Some x)
        then have "key x = i" by (auto simp: find_Some_iff)
        then show ?thesis using Some False ex by (simp add: upsert_def map)
      qed (use False ex in \<open>simp add: upsert_def map\<close>)
    qed
  qed
qed

lemma keys_upsert:
  assumes "\<And>r. key (change r) = key r" "key new = k"
  shows "map key (upsert (\<lambda>r. key r = k) change new rows) =
    (if k \<in> key ` set rows then map key rows else map key rows @ [k])"
  using assms by (auto simp: upsert_def list_ex_iff intro: rev_image_eqI)

lemma list_ex_find: "list_ex P xs \<longleftrightarrow> find P xs \<noteq> None"
  by (auto simp: list_ex_iff find_None_iff)

lemma toVault_vault_row [simp]: "toVault (vault_row v) = v"
  by (simp add: toVault_def vault_row_def)

lemma toVault_updated:
  "vr_id r = vault_id v \<Longrightarrow>
   toVault (r\<lparr>vr_name := vault_name v, vr_kdbx_path := vault_kdbxPath v,
             vr_head_revision_id := vault_headRevisionId v\<rparr>) = v\<lparr>vault_createdAt := vr_created_at r\<rparr>"
  by (cases v) (simp add: toVault_def)

lemma getVault_saveVault:
  "getVault i (snd (saveVault v db)) =
     (if i = vault_id v
      then Some (v\<lparr>vault_createdAt := (case getVault i db of None \<Rightarrow> vault_createdAt v | Some w \<Rightarrow> vault_createdAt w)\<rparr>)
      else getVault i db)"
proof -
  have *: "find (\<lambda>r. vr_id r = i) (upsert (\<lambda>r. vr_id r = vault_id v)
          (\<lambda>r. r\<lparr>vr_name := vault_name v, vr_kdbx_path := vault_kdbxPath v,
                 vr_head_revision_id := vault_headRevisionId v\<rparr>)
          (vault_row v) (db_vaults db)) =
      (if i = vault_id v then Some (case find (\<lambda>r. vr_id r = vault_id v) (db_vaults db) of
           None \<Rightarrow> vault_row v
         | Some r \<Rightarrow> r\<lparr>vr_name := vault_name v, vr_kdbx_path := vault_kdbxPath v,
                 vr_head_revision_id := vault_headRevisionId v\<rparr>)
       else find (\<lambda>r. vr_id r = i) (db_vaults db))"
    by (rule find_upsert) (simp_all add: vault_row_def)
  show ?thesis
  proof (cases "find (\<lambda>r. vr_id r = vault_id v) (db_vaults db)")
    case None
    then show ?thesis by (simp add: getVault_def saveVault_def *)
  next
    case (Some r)
    then have "vr_id r = vault_id v" by (auto simp: find_Some_iff)
    then show ?thesis using Some by (simp add: getVault_def saveVault_def * toVault_updated)
      (simp add: toVault_def)
  qed
qed

lemma has_vault_iff: "has_vault i db \<longleftrightarrow> getVault i db \<noteq> None"
  by (simp add: has_vault_def getVault_def list_ex_find)

lemma has_vault_saveVault: "has_vault i (snd (saveVault v db)) \<longleftrightarrow> i = vault_id v \<or> has_vault i db"
  by (auto simp: has_vault_iff getVault_saveVault)

lemma hasRevision_iff: "hasRevision i db \<longleftrightarrow> (\<exists>r. getRevision i db = Some r)"
  by (auto simp: hasRevision_def getRevision_def list_ex_find split: option.splits)

lemma hasRevision_row: "hasRevision i db \<longleftrightarrow> i \<in> rr_id ` set (db_revisions db)"
  by (auto simp: hasRevision_def list_ex_iff)

lemma find_unique:
  "distinct (map key rows) \<Longrightarrow> r \<in> set rows \<Longrightarrow> find (\<lambda>x. key x = key r) rows = Some r"
  by (induction rows) auto

lemma getRevision_rows:
  assumes "db_ok db"
  shows "getRevision i db = Some r \<longleftrightarrow>
    (\<exists>row \<in> set (db_revisions db). rr_id row = i \<and> r = toRevision row (parentsOf i db))"
proof
  assume "getRevision i db = Some r"
  then show "\<exists>row \<in> set (db_revisions db). rr_id row = i \<and> r = toRevision row (parentsOf i db)"
    by (auto simp: getRevision_def find_Some_iff split: option.splits)
next
  assume "\<exists>row \<in> set (db_revisions db). rr_id row = i \<and> r = toRevision row (parentsOf i db)"
  then show "getRevision i db = Some r"
    using assms find_unique [of rr_id "db_revisions db"] by (auto simp: getRevision_def db_ok_def)
qed

lemma toRevision_fields [simp]:
  "rev_id (toRevision row ps) = rr_id row" "rev_vaultId (toRevision row ps) = rr_vault_id row"
  "rev_parentIds (toRevision row ps) = ps" "rev_hash (toRevision row ps) = rr_hash row"
  "rev_sizeBytes (toRevision row ps) = rr_size_bytes row"
  by (simp_all add: toRevision_def)

lemma toRevision_row [simp]: "toRevision (revision_row r) ps = r\<lparr>rev_parentIds := ps\<rparr>"
  by (simp add: toRevision_def revision_row_def)

lemma getRevision_id: "getRevision i db = Some r \<Longrightarrow> rev_id r = i"
  by (auto simp: getRevision_def find_Some_iff split: option.splits)

lemma getVault_id: "getVault i db = Some v \<Longrightarrow> vault_id v = i"
  by (auto simp: getVault_def find_Some_iff toVault_def)

lemma set_parentsOf: "set (parentsOf i db) = {p. (i, p) \<in> set (db_parents db)}"
  by (force simp: parentsOf_def)

section \<open>Storing a revision\<close>

lemma check_parents_stored_Inr [simp]:
  "check_parents_stored r ps db = Inr u \<longleftrightarrow> (\<forall>p \<in> set ps. hasRevision p db)"
  by (induction ps) (auto simp: res_bind_eq_Inr)

definition add_parents :: "RevisionId \<Rightarrow> RevisionId list \<Rightarrow> (RevisionId \<times> RevisionId) list \<Rightarrow> (RevisionId \<times> RevisionId) list" where
  "add_parents i ps es = foldl (\<lambda>es p. set_add es (i, p)) es ps"

lemma add_parents_set: "set (add_parents i ps es) = set es \<union> Pair i ` set ps"
  unfolding add_parents_def by (induction ps arbitrary: es) auto

lemma add_parents_distinct: "distinct es \<Longrightarrow> distinct (add_parents i ps es)"
  unfolding add_parents_def by (induction ps arbitrary: es) auto

lemma saveRevision_cases:
  assumes "saveRevision r db = (res, db')"
  obtains e where "res = Inl e" "db' = db"
      "(\<exists>p \<in> set (rev_parentIds r). \<not> hasRevision p db) \<or>
       \<not> hasRevision (rev_id r) db \<and> \<not> has_vault (rev_vaultId r) db"
    | "res = Inr ()" "\<forall>p \<in> set (rev_parentIds r). hasRevision p db" "hasRevision (rev_id r) db"
      "db' = db\<lparr>db_parents := add_parents (rev_id r) (rev_parentIds r) (db_parents db)\<rparr>"
    | "res = Inr ()" "\<forall>p \<in> set (rev_parentIds r). hasRevision p db" "\<not> hasRevision (rev_id r) db"
      "has_vault (rev_vaultId r) db"
      "db' = db\<lparr>db_revisions := db_revisions db @ [revision_row r],
                db_parents := add_parents (rev_id r) (rev_parentIds r) (db_parents db)\<rparr>"
proof (cases "check_parents_stored r (rev_parentIds r) db")
  case (Inl e)
  then have "\<exists>p \<in> set (rev_parentIds r). \<not> hasRevision p db"
    using check_parents_stored_Inr [of r "rev_parentIds r" db] by (metis old.sum.distinct(1) old.unit.exhaust)
  moreover have "res = Inl e" "db' = db" using Inl assms by (simp_all add: saveRevision_def act_bind_simp)
  ultimately show ?thesis using that(1) by blast
next
  case (Inr u)
  then have "\<forall>p \<in> set (rev_parentIds r). hasRevision p db" by simp
  note ps = this
  have run: "saveRevision r db = act_bind (insert_revision_row r) (\<lambda>_. insert_parents r) db"
    by (simp add: saveRevision_def act_bind_simp Inr)
  consider (old) "hasRevision (rev_id r) db" | (fk) "\<not> hasRevision (rev_id r) db" "\<not> has_vault (rev_vaultId r) db"
    | (new) "\<not> hasRevision (rev_id r) db" "has_vault (rev_vaultId r) db" by blast
  then show ?thesis
  proof cases
    case old
    with assms run ps show ?thesis
      by (intro that(2)) (simp_all add: act_bind_simp insert_revision_row_def insert_parents_def add_parents_def)
  next
    case fk
    with assms run show ?thesis
      by (intro that(1) [of FOREIGN_KEY_ERROR]) (auto simp: act_bind_simp insert_revision_row_def)
  next
    case new
    with assms run ps show ?thesis
      by (intro that(3)) (simp_all add: act_bind_simp insert_revision_row_def insert_parents_def add_parents_def)
  qed
qed

lemma parentsOf_add:
  "i \<noteq> j \<Longrightarrow> parentsOf j (db\<lparr>db_revisions := rs, db_parents := add_parents i ps (db_parents db)\<rparr>) = parentsOf j db"
proof -
  assume "i \<noteq> j"
  then have "filter (\<lambda>(r, _). r = j) (add_parents i ps es) = filter (\<lambda>(r, _). r = j) es" for es
    unfolding add_parents_def by (induction ps arbitrary: es) (auto simp: set_add_def)
  then show ?thesis by (simp add: parentsOf_def)
qed

lemma acyclic_new_node:
  assumes "acyclic es" "i \<notin> fst ` es \<union> snd ` es" "i \<notin> ps"
  shows "acyclic (es \<union> Pair i ` ps)"
proof -
  have into: "(x, y) \<in> (es \<union> Pair i ` ps)\<^sup>+ \<Longrightarrow> y \<noteq> i" for x y
  proof -
    assume "(x, y) \<in> (es \<union> Pair i ` ps)\<^sup>+"
    then obtain z where "(z, y) \<in> es \<union> Pair i ` ps" by (meson tranclD2)
    then show "y \<noteq> i" using assms(2,3) by force
  qed
  have "(x, y) \<in> (es \<union> Pair i ` ps)\<^sup>+ \<Longrightarrow> x \<noteq> i \<Longrightarrow> (x, y) \<in> es\<^sup>+" for x y
  proof (induction rule: trancl_induct)
    case (base y)
    then show ?case by auto
  next
    case (step y z)
    then have "y \<noteq> i" using into by blast
    with step show ?case by (auto intro: trancl_into_trancl)
  qed
  then show ?thesis using assms(1) into unfolding acyclic_def by blast
qed

lemma db_ok_saveRevision:
  assumes ok: "db_ok db" and new: "\<not> hasRevision (rev_id r) db" and save: "saveRevision r db = (res, db')"
  shows "db_ok db'"
proof (cases rule: saveRevision_cases [OF save])
  case 3
  have i: "rev_id r \<notin> fst ` set (db_parents db) \<union> snd ` set (db_parents db)"
    "rev_id r \<notin> set (rev_parentIds r)"
    using ok new 3(2) by (auto simp: db_ok_def)
  have ac: "acyclic (set (db_parents db) \<union> Pair (rev_id r) ` set (rev_parentIds r))"
    using ok by (intro acyclic_new_node i) (simp add: db_ok_def)
  have has: "hasRevision j db' \<longleftrightarrow> j = rev_id r \<or> hasRevision j db" "has_vault v db' = has_vault v db" for j v
    by (auto simp: 3(5) hasRevision_row revision_row_def has_vault_def)
  have "rev_id r \<notin> rr_id ` set (db_revisions db)" using new by (simp add: hasRevision_row)
  then show ?thesis
    using ok 3 ac has
    by (auto simp: db_ok_def add_parents_set add_parents_distinct revision_row_def)
qed (use ok new in auto)

lemma getRevision_saveRevision:
  assumes ok: "db_ok db" and new: "\<not> hasRevision (rev_id r) db" and save: "saveRevision r db = (Inr (), db')"
  shows "\<exists>ps. set ps = set (rev_parentIds r) \<and> getRevision (rev_id r) db' = Some (r\<lparr>rev_parentIds := ps\<rparr>)"
    and "j \<noteq> rev_id r \<Longrightarrow> getRevision j db' = getRevision j db"
proof -
  from save new have db': "db' = db\<lparr>db_revisions := db_revisions db @ [revision_row r],
                db_parents := add_parents (rev_id r) (rev_parentIds r) (db_parents db)\<rparr>"
    by (cases rule: saveRevision_cases) auto
  have app: "find P (rs @ [x]) = (case find P rs of None \<Rightarrow> if P x then Some x else None | Some y \<Rightarrow> Some y)"
    for P :: "RevisionRow \<Rightarrow> bool" and rs x
    by (induction rs) auto
  have none: "find (\<lambda>x. rr_id x = rev_id r) (db_revisions db) = None"
    using new by (force simp: hasRevision_row find_None_iff)
  have "(rev_id r, p) \<notin> set (db_parents db)" for p using ok new by (auto simp: db_ok_def)
  then have "set (parentsOf (rev_id r) db') = set (rev_parentIds r)"
    by (auto simp: db' set_parentsOf add_parents_set)
  moreover have "getRevision (rev_id r) db' = Some (r\<lparr>rev_parentIds := parentsOf (rev_id r) db'\<rparr>)"
    by (simp add: getRevision_def db' app none) (simp add: revision_row_def toRevision_def)
  ultimately show "\<exists>ps. set ps = set (rev_parentIds r) \<and> getRevision (rev_id r) db' = Some (r\<lparr>rev_parentIds := ps\<rparr>)"
    by blast
  show "getRevision j db' = getRevision j db" if "j \<noteq> rev_id r"
    using that
    by (auto simp: getRevision_def db' app parentsOf_add revision_row_def split: option.split)
qed

section \<open>The graph of a vault\<close>

lemma update_nonmem: "k \<notin> fst ` set m \<Longrightarrow> AList.update k v m = m @ [(k, v)]"
  by (induction m) auto

lemma group_rows_Some:
  "group_rows (map (\<lambda>p. (i, Some p)) ps @ rows) m =
     (if ps = [] then group_rows rows m
      else group_rows rows (AList.update i ((case map_of m i of None \<Rightarrow> [] | Some qs \<Rightarrow> qs) @ ps) m))"
proof (induction ps arbitrary: m)
  case (Cons p ps)
  have "AList.update i b (AList.update i a m) = AList.update i b m" for a b
    by (induction m) auto
  with Cons show ?case by (simp add: Let_def)
qed simp

lemma group_rows_graph:
  "distinct ids \<Longrightarrow> set ids \<inter> fst ` set m = {} \<Longrightarrow>
   group_rows (concat (map (\<lambda>i. case f i of [] \<Rightarrow> [(i, None)] | ps \<Rightarrow> map (\<lambda>p. (i, Some p)) ps) ids)) m =
     m @ map (\<lambda>i. (i, f i)) ids"
proof (induction ids arbitrary: m)
  case step: (Cons i ids)
  have none: "map_of m i = None" and upd: "AList.update i v m = m @ [(i, v)]" for v
    using step.prems by (auto simp: map_of_eq_None_iff update_nonmem)
  show ?case
  proof (cases "f i")
    case Nil
    then show ?thesis using step none upd by (simp add: Let_def)
  next
    case (Cons p ps)
    then have ne: "f i \<noteq> []" by simp
    have entry: "(case f i of [] \<Rightarrow> [(i, None)] | ps \<Rightarrow> map (\<lambda>p. (i, Some p)) ps) = map (\<lambda>p. (i, Some p)) (f i)"
      using ne by (cases "f i") auto
    have "group_rows (map (\<lambda>p. (i, Some p)) (f i) @ rows) m = group_rows rows (m @ [(i, f i)])" for rows
      using ne by (simp add: group_rows_Some none upd)
    then show ?thesis using step by (simp add: entry)
  qed
qed simp

lemma loadGraph_nodes:
  assumes "db_ok db"
  shows "loadGraph v db = buildGraph (map (\<lambda>i. \<lparr>node_id = i, node_parentIds = parentsOf i db\<rparr>)
    (map rr_id (filter (\<lambda>r. rr_vault_id r = v) (db_revisions db))))"
proof -
  have "distinct (map rr_id (filter (\<lambda>r. rr_vault_id r = v) (db_revisions db)))"
    using assms by (simp add: db_ok_def distinct_map_filter)
  then have "group_rows (graph_rows v db) [] =
      map (\<lambda>i. (i, parentsOf i db)) (map rr_id (filter (\<lambda>r. rr_vault_id r = v) (db_revisions db)))"
    using group_rows_graph [of "map rr_id (filter (\<lambda>r. rr_vault_id r = v) (db_revisions db))" "[]" "\<lambda>i. parentsOf i db"]
    by (simp add: graph_rows_def comp_def)
  then show ?thesis by (simp add: loadGraph_def comp_def)
qed

lemma graph_get_loadGraph:
  assumes "db_ok db"
  shows "graph_get (loadGraph v db) i =
    (case getRevision i db of
       None \<Rightarrow> None
     | Some r \<Rightarrow> if rev_vaultId r = v then Some \<lparr>node_id = i, node_parentIds = rev_parentIds r\<rparr> else None)"
proof -
  let ?ids = "map rr_id (filter (\<lambda>r. rr_vault_id r = v) (db_revisions db))"
  have d: "distinct ?ids" using assms by (simp add: db_ok_def distinct_map_filter)
  have "find (\<lambda>n. node_id n = i) (map (\<lambda>i. \<lparr>node_id = i, node_parentIds = parentsOf i db\<rparr>) ids) =
      (if i \<in> set ids then Some \<lparr>node_id = i, node_parentIds = parentsOf i db\<rparr> else None)" for ids
    by (induction ids) auto
  from this [of "rev ?ids"] have get: "graph_get (loadGraph v db) i =
      (if i \<in> set ?ids then Some \<lparr>node_id = i, node_parentIds = parentsOf i db\<rparr> else None)"
    unfolding loadGraph_nodes [OF assms] graph_get_buildGraph by (simp only: rev_map set_map set_rev)
  show ?thesis
  proof (cases "getRevision i db")
    case None
    then have "i \<notin> set ?ids" using hasRevision_iff [of i db] by (auto simp: hasRevision_row)
    then show ?thesis using None by (simp add: get)
  next
    case (Some r)
    then obtain row where row: "row \<in> set (db_revisions db)" "rr_id row = i" "r = toRevision row (parentsOf i db)"
      using getRevision_rows [OF assms] by blast
    have same: "rr_vault_id s = rr_vault_id row" if "s \<in> set (db_revisions db)" "rr_id s = i" for s
    proof -
      have "distinct (map rr_id (db_revisions db))" using assms by (simp add: db_ok_def)
      from find_unique [OF this that(1)] find_unique [OF this row(1)] that(2) row(2) show ?thesis by simp
    qed
    have "i \<in> set ?ids \<longleftrightarrow> rr_vault_id row = v"
    proof
      assume "i \<in> set ?ids"
      then obtain s where "s \<in> set (db_revisions db)" "rr_id s = i" "rr_vault_id s = v" by auto
      then show "rr_vault_id row = v" using same by metis
    next
      assume "rr_vault_id row = v"
      then show "i \<in> set ?ids" using row(1,2) by force
    qed
    then show ?thesis using Some row by (simp add: get)
  qed
qed

lemma edge_loadGraph:
  assumes "db_ok db"
  shows "edge (loadGraph v db) = {(i, p). (i, p) \<in> set (db_parents db) \<and> (\<exists>r. getRevision i db = Some r \<and> rev_vaultId r = v)}"
proof -
  have "rev_parentIds r = parentsOf i db" if "getRevision i db = Some r" for i r
    using that by (auto simp: getRevision_def split: option.splits)
  then show ?thesis
    by (auto simp: edge_iff graph_get_loadGraph [OF assms] set_parentsOf split: option.splits if_splits)
qed

lemma acyclic_loadGraph: "db_ok db \<Longrightarrow> acyclic (edge (loadGraph v db))"
  by (rule acyclic_subset [of "set (db_parents db)"]) (auto simp: edge_loadGraph db_ok_def)

lemma set_listRevisions:
  assumes "db_ok db"
  shows "set (listRevisions v db) = {r. \<exists>i. getRevision i db = Some r \<and> rev_vaultId r = v}"
  by (auto simp: listRevisions_def getRevision_rows [OF assms])

lemma distinct_listRevisions:
  assumes "db_ok db"
  shows "distinct (map rev_id (listRevisions v db))"
proof -
  let ?rows = "filter (\<lambda>r. rr_vault_id r = v) (db_revisions db)"
  have "distinct (map rr_id ?rows)" using assms by (simp add: db_ok_def distinct_map_filter)
  then have "distinct ?rows" "inj_on rr_id (set ?rows)" by (simp_all add: distinct_map)
  then have "distinct (map rr_id (rev (sort_key rr_created_at ?rows)))"
    by (simp add: distinct_map)
  then show ?thesis by (simp add: listRevisions_def comp_def)
qed

section \<open>The recursive query\<close>

lemma cte_loop_reach:
  assumes "set queue \<subseteq> set seen" "\<And>x. x \<in> set seen - set queue \<Longrightarrow> set edges `` {x} \<subseteq> set seen"
  shows "set (cte_loop edges queue seen) = (set edges)\<^sup>* `` set seen"
  using assms
proof (induction edges queue seen rule: cte_loop.induct)
  case (1 edges seen)
  then have "set edges `` set seen \<subseteq> set seen" by auto
  then show ?case by (simp add: Image_closed_trancl)
next
  case (2 edges i queue seen)
  let ?new = "cte_new edges i seen"
  have new: "set ?new = set edges `` {i} - set seen" by (auto simp: cte_new_set)
  have i: "i \<in> set seen" using 2(2) by auto
  have "set (cte_loop edges (queue @ ?new) (seen @ ?new)) = (set edges)\<^sup>* `` set (seen @ ?new)"
  proof (rule 2(1) [OF refl])
    show "set (queue @ ?new) \<subseteq> set (seen @ ?new)" using 2(2) by auto
    fix x assume "x \<in> set (seen @ ?new) - set (queue @ ?new)"
    then show "set edges `` {x} \<subseteq> set (seen @ ?new)" using 2(3) [of x] new by auto
  qed
  also have "\<dots> = (set edges)\<^sup>* `` set seen"
  proof -
    have "set ?new \<subseteq> (set edges)\<^sup>* `` set seen" using new i by auto
    then have "(set edges)\<^sup>* `` set ?new \<subseteq> (set edges)\<^sup>* `` set seen" by (auto intro: rtrancl_trans)
    then show ?thesis by auto
  qed
  finally show ?case by (simp add: Let_def)
qed

lemma set_ancestorIdsOf: "set (ancestorIdsOf i db) = (set (db_parents db))\<^sup>* `` {i}"
  unfolding ancestorIdsOf_def by (subst cte_loop_reach) auto

section \<open>The contract of a metadata store\<close>

locale metadata_store =
  fixes md :: "'m MetadataStore" and md_inv :: "'m \<Rightarrow> bool"
  assumes has_rev: "ms_hasRevision md i m \<longleftrightarrow> (\<exists>r. ms_getRevision md i m = Some r)"
    and get_rev_id: "ms_getRevision md i m = Some r \<Longrightarrow> rev_id r = i"
    and get_vault_id: "ms_getVault md i m = Some vt \<Longrightarrow> vault_id vt = i"
    and parents_stored: "md_inv m \<Longrightarrow> ms_getRevision md i m = Some r \<Longrightarrow> p \<in> set (rev_parentIds r) \<Longrightarrow>
      ms_hasRevision md p m"
    and revision_vault: "md_inv m \<Longrightarrow> ms_getRevision md i m = Some r \<Longrightarrow> ms_getVault md (rev_vaultId r) m \<noteq> None"
    and save_vault: "md_inv m \<Longrightarrow> ms_saveVault md vt m = (res, m') \<Longrightarrow>
      res = Inr () \<and> md_inv m' \<and> (\<forall>i. ms_getRevision md i m' = ms_getRevision md i m) \<and>
      (\<exists>c. ms_getVault md (vault_id vt) m' = Some (vt\<lparr>vault_createdAt := c\<rparr>)) \<and>
      (\<forall>i. i \<noteq> vault_id vt \<longrightarrow> ms_getVault md i m' = ms_getVault md i m)"
    and save_revision: "md_inv m \<Longrightarrow> ms_saveRevision md r m = (res, m') \<Longrightarrow> \<not> ms_hasRevision md (rev_id r) m \<Longrightarrow>
      md_inv m' \<and> (\<forall>i. ms_getVault md i m' = ms_getVault md i m) \<and>
      (res = Inr () \<longleftrightarrow> (\<forall>p \<in> set (rev_parentIds r). ms_hasRevision md p m) \<and>
         ms_getVault md (rev_vaultId r) m \<noteq> None) \<and>
      (res \<noteq> Inr () \<longrightarrow> m' = m) \<and>
      (res = Inr () \<longrightarrow>
        (\<exists>ps. set ps = set (rev_parentIds r) \<and>
           ms_getRevision md (rev_id r) m' = Some (r\<lparr>rev_parentIds := ps\<rparr>)) \<and>
        (\<forall>j. j \<noteq> rev_id r \<longrightarrow> ms_getRevision md j m' = ms_getRevision md j m))"
    and head_event: "md_inv m \<Longrightarrow> ms_appendHeadEvent md e m = (res, m') \<Longrightarrow>
      md_inv m' \<and> (\<forall>i. ms_getVault md i m' = ms_getVault md i m) \<and>
      (\<forall>i. ms_getRevision md i m' = ms_getRevision md i m) \<and>
      (res = Inr () \<longleftrightarrow> ms_getVault md (he_vaultId e) m \<noteq> None) \<and>
      (res = Inr () \<longrightarrow> ms_lastHeadEvent md (he_vaultId e) m' = Some e)"
    and peer_head: "md_inv m \<Longrightarrow> ms_recordPeerHead md d v h t m = (res, m') \<Longrightarrow>
      md_inv m' \<and> (\<forall>i. ms_getVault md i m' = ms_getVault md i m) \<and>
      (\<forall>i. ms_getRevision md i m' = ms_getRevision md i m)"
    and graph_of: "md_inv m \<Longrightarrow> graph_get (ms_loadGraph md v m) i =
      (case ms_getRevision md i m of
         None \<Rightarrow> None
       | Some r \<Rightarrow> if rev_vaultId r = v then Some \<lparr>node_id = i, node_parentIds = rev_parentIds r\<rparr> else None)"
    and acyclic_graph: "md_inv m \<Longrightarrow> acyclic (edge (ms_loadGraph md v m))"
    and listed: "md_inv m \<Longrightarrow> set (ms_listRevisions md v m) =
      {r. \<exists>i. ms_getRevision md i m = Some r \<and> rev_vaultId r = v}"
    and listed_once: "md_inv m \<Longrightarrow> distinct (map rev_id (ms_listRevisions md v m))"

lemma db_ok_saveVault: "db_ok db \<Longrightarrow> db_ok (snd (saveVault v db))"
proof -
  assume ok: "db_ok db"
  have keys: "map vr_id (upsert (\<lambda>r. vr_id r = vault_id v)
          (\<lambda>r. r\<lparr>vr_name := vault_name v, vr_kdbx_path := vault_kdbxPath v,
                 vr_head_revision_id := vault_headRevisionId v\<rparr>)
          (vault_row v) (db_vaults db)) =
      (if vault_id v \<in> vr_id ` set (db_vaults db) then map vr_id (db_vaults db)
       else map vr_id (db_vaults db) @ [vault_id v])"
    by (rule keys_upsert) (simp_all add: vault_row_def)
  have "has_vault i db \<longrightarrow> has_vault i (snd (saveVault v db))" for i
    by (simp add: has_vault_saveVault)
  then show ?thesis
    using ok keys by (auto simp: db_ok_def saveVault_def hasRevision_def)
qed

lemma getRevision_cong:
  "db_revisions db' = db_revisions db \<Longrightarrow> db_parents db' = db_parents db \<Longrightarrow> getRevision i db' = getRevision i db"
  by (simp add: getRevision_def parentsOf_def split: option.split)

lemma db_ok_cong:
  "db_vaults db' = db_vaults db \<Longrightarrow> db_revisions db' = db_revisions db \<Longrightarrow> db_parents db' = db_parents db \<Longrightarrow>
   db_ok db' = db_ok db"
  by (simp add: db_ok_def hasRevision_def has_vault_def)

lemma getVault_cong: "db_vaults db' = db_vaults db \<Longrightarrow> getVault i db' = getVault i db"
  by (simp add: getVault_def)

lemma saveRevision_frame:
  "saveRevision r db = (res, db') \<Longrightarrow> getVault i db' = getVault i db"
  by (erule saveRevision_cases) (simp_all add: getVault_def)

interpretation sqlite_md: metadata_store SqliteMetadataStore db_ok
proof (unfold_locales, unfold SqliteMetadataStore_def MetadataStore.simps)
  fix m m' :: metadata_db and v res
  assume ok: "db_ok m" and save: "saveVault v m = (res, m')"
  then have m': "m' = snd (saveVault v m)" "res = Inr ()" by (simp_all add: saveVault_def)
  have "getRevision i m' = getRevision i m" for i
    using save by (intro getRevision_cong) (auto simp: saveVault_def)
  then show "res = Inr () \<and> db_ok m' \<and> (\<forall>i. getRevision i m' = getRevision i m) \<and>
      (\<exists>c. getVault (vault_id v) m' = Some (v\<lparr>vault_createdAt := c\<rparr>)) \<and>
      (\<forall>i. i \<noteq> vault_id v \<longrightarrow> getVault i m' = getVault i m)"
    using ok m' by (auto simp: db_ok_saveVault getVault_saveVault)
next
  fix m m' :: metadata_db and r res
  assume ok: "db_ok m" and save: "saveRevision r m = (res, m')" and new: "\<not> hasRevision (rev_id r) m"
  have "res = Inr () \<longleftrightarrow> (\<forall>p \<in> set (rev_parentIds r). hasRevision p m) \<and> getVault (rev_vaultId r) m \<noteq> None"
    by (cases rule: saveRevision_cases [OF save]) (use new has_vault_iff in auto)
  moreover have "res \<noteq> Inr () \<longrightarrow> m' = m"
    by (cases rule: saveRevision_cases [OF save]) auto
  ultimately show "db_ok m' \<and> (\<forall>i. getVault i m' = getVault i m) \<and>
      (res = Inr () \<longleftrightarrow> (\<forall>p \<in> set (rev_parentIds r). hasRevision p m) \<and> getVault (rev_vaultId r) m \<noteq> None) \<and>
      (res \<noteq> Inr () \<longrightarrow> m' = m) \<and>
      (res = Inr () \<longrightarrow>
        (\<exists>ps. set ps = set (rev_parentIds r) \<and> getRevision (rev_id r) m' = Some (r\<lparr>rev_parentIds := ps\<rparr>)) \<and>
        (\<forall>j. j \<noteq> rev_id r \<longrightarrow> getRevision j m' = getRevision j m))"
    using db_ok_saveRevision [OF ok new save] saveRevision_frame [OF save]
      getRevision_saveRevision [OF ok new] save by blast
next
  fix m m' :: metadata_db and e res
  assume "db_ok m" "appendHeadEvent e m = (res, m')"
  then show "db_ok m' \<and> (\<forall>i. getVault i m' = getVault i m) \<and> (\<forall>i. getRevision i m' = getRevision i m) \<and>
      (res = Inr () \<longleftrightarrow> getVault (he_vaultId e) m \<noteq> None) \<and>
      (res = Inr () \<longrightarrow> lastHeadEvent (he_vaultId e) m' = Some e)"
    by (auto simp: appendHeadEvent_def lastHeadEvent_def has_vault_iff
        intro: getRevision_cong getVault_cong db_ok_cong [THEN iffD2] split: if_splits)
next
  fix m m' :: metadata_db and d v h t res
  assume "db_ok m" "recordPeerHead d v h t m = (res, m')"
  then show "db_ok m' \<and> (\<forall>i. getVault i m' = getVault i m) \<and> (\<forall>i. getRevision i m' = getRevision i m)"
    by (auto simp: recordPeerHead_def Let_def
        intro: getRevision_cong getVault_cong db_ok_cong [THEN iffD2] split: if_splits)
next
  fix m :: metadata_db and i r p
  assume ok: "db_ok m" and get: "getRevision i m = Some r" and p: "p \<in> set (rev_parentIds r)"
  then have "(i, p) \<in> set (db_parents m)" using getRevision_rows [OF ok] by (auto simp: set_parentsOf)
  then show "hasRevision p m" using ok by (auto simp: db_ok_def)
next
  fix m :: metadata_db and i r
  assume ok: "db_ok m" and get: "getRevision i m = Some r"
  then show "getVault (rev_vaultId r) m \<noteq> None"
    using getRevision_rows [OF ok] by (auto simp: db_ok_def has_vault_iff)
qed (use hasRevision_iff getRevision_id getVault_id graph_get_loadGraph acyclic_loadGraph set_listRevisions
    distinct_listRevisions in \<open>blast+\<close>)

section \<open>Histories a store can hold\<close>

text \<open>
  The databases reached from the empty one by the store's writes in any order, each revision being
  saved under an id that is new, as its callers do.
\<close>

inductive db_reach :: "metadata_db \<Rightarrow> bool" where
  reach_empty: "db_reach empty_db"
| reach_vault: "db_reach db \<Longrightarrow> saveVault vault db = (res, db') \<Longrightarrow> db_reach db'"
| reach_revision: "db_reach db \<Longrightarrow> \<not> hasRevision (rev_id revision) db \<Longrightarrow>
    saveRevision revision db = (res, db') \<Longrightarrow> db_reach db'"
| reach_head: "db_reach db \<Longrightarrow> appendHeadEvent event db = (res, db') \<Longrightarrow> db_reach db'"
| reach_bookmark: "db_reach db \<Longrightarrow> saveBookmark bookmark db = (res, db') \<Longrightarrow> db_reach db'"
| reach_conflict: "db_reach db \<Longrightarrow> saveConflict conflict db = (res, db') \<Longrightarrow> db_reach db'"
| reach_transfer: "db_reach db \<Longrightarrow> saveTransfer transfer db = (res, db') \<Longrightarrow> db_reach db'"
| reach_peer: "db_reach db \<Longrightarrow> recordPeerHead d v h t db = (res, db') \<Longrightarrow> db_reach db'"
| reach_event: "db_reach db \<Longrightarrow> appendEvent entry db = (res, db') \<Longrightarrow> db_reach db'"

inductive_simps reach_empty_simps: "db_reach empty_db"

lemmas db_write_defs = appendHeadEvent_def saveBookmark_def saveConflict_def saveTransfer_def
  recordPeerHead_def appendEvent_def Let_def

lemma db_reach_ok: "db_reach db \<Longrightarrow> db_ok db"
proof (induction rule: db_reach.induct)
  case (reach_vault db vault res db')
  then show ?case using db_ok_saveVault [of db vault] by simp
next
  case (reach_revision db revision res db')
  then show ?case using db_ok_saveRevision by blast
qed (auto simp: db_write_defs intro: db_ok_cong [THEN iffD2] split: if_splits)

lemma rtrancl_restrict:
  assumes "\<And>x y. x \<in> A \<Longrightarrow> (x, y) \<in> R \<Longrightarrow> y \<in> A"
  shows "x \<in> A \<Longrightarrow> (x, y) \<in> R\<^sup>* \<longleftrightarrow> (x, y) \<in> {(a, b). (a, b) \<in> R \<and> a \<in> A}\<^sup>*"
proof -
  assume x: "x \<in> A"
  have "(x, y) \<in> R\<^sup>* \<Longrightarrow> y \<in> A \<and> (x, y) \<in> {(a, b). (a, b) \<in> R \<and> a \<in> A}\<^sup>*"
    by (induction rule: rtrancl_induct) (use x assms in \<open>auto intro: rtrancl_into_rtrancl\<close>)
  moreover have "{(a, b). (a, b) \<in> R \<and> a \<in> A} \<subseteq> R" by auto
  ultimately show ?thesis by (meson rtrancl_mono subsetD)
qed

definition own_parents :: "VaultId \<Rightarrow> metadata_db \<Rightarrow> bool" where
  "own_parents v db \<longleftrightarrow> (\<forall>(i, p) \<in> set (db_parents db).
     \<forall>r. getRevision i db = Some r \<longrightarrow> rev_vaultId r = v \<longrightarrow>
       (\<exists>q. getRevision p db = Some q \<and> rev_vaultId q = v))"

section \<open>Properties\<close>

text \<open>
  C34: Every database the store can reach is a history: keys are unique, every parent of a stored
  revision is stored, every revision has its vault, and there is no cycle, so the graph loaded for any
  vault is a DAG and ordering any set of its revisions parents first never throws.\<close>

theorem stored_history_is_a_dag:
  assumes "db_reach db"
  shows "db_ok db \<and> acyclic (edge (loadGraph v db)) \<and>
    (\<exists>order. topologicalOrder (loadGraph v db) ids = Inr order)"
  using db_reach_ok [OF assms] acyclic_loadGraph topologicalOrder_acyclic by blast

definition stored_revision :: "RevisionId \<Rightarrow> RevisionId list \<Rightarrow> Revision" where
  "stored_revision i ps = \<lparr>rev_id = i, rev_vaultId = ''v'', rev_hash = ''h'', rev_sizeBytes = 1,
     rev_createdAt = 0, rev_originDeviceId = None, rev_parentIds = ps, rev_operation = Received,
     rev_message = None\<rparr>"

definition stored_vault :: Vault where
  "stored_vault = \<lparr>vault_id = ''v'', vault_name = ''home'', vault_headRevisionId = None,
     vault_kdbxPath = None, vault_createdAt = 0\<rparr>"

definition sample_db :: metadata_db where
  "sample_db = snd (saveRevision (stored_revision ''b'' [''a''])
     (snd (saveRevision (stored_revision ''a'' []) (snd (saveVault stored_vault empty_db)))))"

lemmas store_eval = sample_db_def stored_revision_def stored_vault_def empty_db_def saveRevision_def
  saveVault_def act_bind_simp insert_revision_row_def insert_parents_def hasRevision_def has_vault_def
  upsert_def vault_row_def revision_row_def set_add_def

lemma sample_db_eq:
  "sample_db = empty_db\<lparr>db_vaults := [vault_row stored_vault],
     db_revisions := [revision_row (stored_revision ''a'' []), revision_row (stored_revision ''b'' [''a''])],
     db_parents := [(''b'', ''a'')]\<rparr>"
  by (simp add: store_eval)

lemma sample_db_reach: "db_reach sample_db"
  unfolding sample_db_def
proof (rule reach_revision)
  let ?db = "snd (saveRevision (stored_revision ''a'' []) (snd (saveVault stored_vault empty_db)))"
  show "db_reach ?db"
    by (rule reach_revision [of "snd (saveVault stored_vault empty_db)" "stored_revision ''a'' []"],
        rule reach_vault [OF reach_empty, of stored_vault])
      (simp_all add: store_eval)
  show "\<not> hasRevision (rev_id (stored_revision ''b'' [''a''])) ?db"
    by (simp add: store_eval)
qed (rule surjective_pairing)

theorem stored_history_is_a_dag_witness:
  "db_ok sample_db \<and> (\<exists>order. topologicalOrder (loadGraph ''v'' sample_db) [''b'', ''a''] = Inr order)"
  using stored_history_is_a_dag [OF sample_db_reach] by blast

text \<open>
  C35: The two ways of asking for ancestry agree within a vault. On a reachable database, for a revision of
  a vault, the in-memory walk of the vault's loaded graph finds only ancestors that the recursive SQL query
  over the parents table returns too; and the two return exactly the same when every parent of the vault's
  revisions belongs to that vault. (That condition is needed: \<open>saveRevision\<close> accepts a parent of another
  vault, which the query follows and the graph does not hold.)\<close>

theorem sql_ancestry_agrees:
  assumes "db_reach db" and "getRevision i db = Some r" and "rev_vaultId r = v"
  shows "set (ancestorsOf (loadGraph v db) i) \<subseteq> set (ancestorIdsOf i db) \<and>
    (own_parents v db \<longrightarrow> set (ancestorIdsOf i db) = set (ancestorsOf (loadGraph v db) i))"
proof (intro conjI impI)
  note ok = db_reach_ok [OF assms(1)]
  let ?A = "{j. \<exists>r. getRevision j db = Some r \<and> rev_vaultId r = v}"
  have edge: "edge (loadGraph v db) = {(a, b). (a, b) \<in> set (db_parents db) \<and> a \<in> ?A}"
    by (auto simp: edge_loadGraph [OF ok])
  have "(edge (loadGraph v db))\<^sup>* \<subseteq> (set (db_parents db))\<^sup>*"
    unfolding edge by (rule rtrancl_mono) auto
  then show "set (ancestorsOf (loadGraph v db) i) \<subseteq> set (ancestorIdsOf i db)"
    by (auto simp: set_ancestorIdsOf set_ancestorsOf)
  assume own: "own_parents v db"
  have "y \<in> ?A" if "x \<in> ?A" "(x, y) \<in> set (db_parents db)" for x y
    using that own by (auto simp: own_parents_def)
  then have "(i, y) \<in> (set (db_parents db))\<^sup>* \<longleftrightarrow> (i, y) \<in> (edge (loadGraph v db))\<^sup>*" for y
    unfolding edge using assms(2,3) by (intro rtrancl_restrict) auto
  then show "set (ancestorIdsOf i db) = set (ancestorsOf (loadGraph v db) i)"
    by (auto simp: set_ancestorIdsOf set_ancestorsOf)
qed

theorem sql_ancestry_agrees_witness:
  "set (ancestorIdsOf ''b'' sample_db) = set (ancestorsOf (loadGraph ''v'' sample_db) ''b'')"
proof (rule sql_ancestry_agrees [OF sample_db_reach, THEN conjunct2, THEN mp])
  show "own_parents ''v'' sample_db"
    by (simp add: own_parents_def sample_db_eq getRevision_def revision_row_def stored_revision_def)
  show "getRevision ''b'' sample_db = Some (stored_revision ''b'' [''a''])"
    by (simp add: sample_db_eq getRevision_def revision_row_def stored_revision_def parentsOf_def toRevision_def)
  show "rev_vaultId (stored_revision ''b'' [''a'']) = ''v''" by (simp add: stored_revision_def)
qed

text \<open>
  Two limits of what \<open>saveRevision\<close> enforces. It accepts a parent stored in another vault, which the
  graph of the vault then lacks; and saving an id again under other parents leaves the row alone but
  adds the edges, so that without the callers' check a cycle can be stored.
\<close>

definition resaved_db :: metadata_db where
  "resaved_db = snd (saveRevision (stored_revision ''a'' [''b'']) sample_db)"

lemma saveRevision_again_makes_cycle:
  "fst (saveRevision (stored_revision ''a'' [''b'']) sample_db) = Inr ()"
  "graph_get (loadGraph ''v'' resaved_db) ''a'' = Some \<lparr>node_id = ''a'', node_parentIds = [''b'']\<rparr>"
  "graph_get (loadGraph ''v'' resaved_db) ''b'' = Some \<lparr>node_id = ''b'', node_parentIds = [''a'']\<rparr>"
  by code_simp+

definition two_vaults_db :: metadata_db where
  "two_vaults_db = snd (saveRevision ((stored_revision ''c'' [''a''])\<lparr>rev_vaultId := ''w''\<rparr>)
     (snd (saveVault (stored_vault\<lparr>vault_id := ''w''\<rparr>) sample_db)))"

lemma saveRevision_foreign_parent:
  "graph_get (loadGraph ''w'' two_vaults_db) ''c'' = Some \<lparr>node_id = ''c'', node_parentIds = [''a'']\<rparr>"
  "\<not> graph_has (loadGraph ''w'' two_vaults_db) ''a''"
  by code_simp+

end
