(* ===== verification/Sync_Engine.thy ===== *)
theory Sync_Engine
  imports Metadata_Store Blob_Files Wire_Protocol
begin

text \<open>
  The synchronization engine (packages/sync/src/engine.ts) over the ports it is given: a metadata
  store, a blob store, a hash, an interpreter for the encrypted contents and this device's id.

  The engine's state is the state of its two stores. The clock and the id generator are arguments:
  an operation takes the time and the ids it would have drawn. The interpreter, which opens the
  encrypted vaults, is a pair of functions of the dependencies.
\<close>

section \<open>Dependencies and state\<close>

type_synonym material = "RevisionId \<times> bytes"

datatype InterpretationResult =
    MergeSucceeded bytes "RevisionId list"
  | MergeFailed string
  | NeedsCredentials string
  | Unsupported string

datatype 'd DiffResult =
    DiffReady 'd
  | DiffFailed string
  | DiffNeedsCredentials string

record ('m, 'b, 'c, 'd) EngineDeps =
  dep_metadata :: "'m MetadataStore"
  dep_blobs :: "'b BlobStore"
  dep_sha256 :: "bytes \<Rightarrow> Sha256Hex"
  dep_merge :: "VaultId \<Rightarrow> material \<Rightarrow> material list \<Rightarrow> 'c \<Rightarrow> InterpretationResult"
  dep_diff :: "VaultId \<Rightarrow> material \<Rightarrow> material list \<Rightarrow> 'c \<Rightarrow> 'd DiffResult"
  dep_deviceId :: DeviceId

record ('m, 'b) engine =
  en_md :: 'm
  en_bl :: 'b

definition on_md :: "('m, 'a) action \<Rightarrow> (('m, 'b) engine, 'a) action" where
  "on_md a s = (case a (en_md s) of (r, m) \<Rightarrow> (r, s\<lparr>en_md := m\<rparr>))"

definition on_bl :: "('b, 'a) action \<Rightarrow> (('m, 'b) engine, 'a) action" where
  "on_bl a s = (case a (en_bl s) of (r, b) \<Rightarrow> (r, s\<lparr>en_bl := b\<rparr>))"

section \<open>Results\<close>

datatype LocalChangeResult = Unchanged RevisionId | Recorded Revision

datatype IngestResult = Stored Revision | AlreadyPresent RevisionId | Rejected string

datatype MergeOutcome = MergeDone Revision | MergeFailure string | MergeNeedsCredentials string

datatype 'd DiffOutcome = DiffOutcomeReady 'd | DiffOutcomeFailed string | DiffOutcomeNeedsCredentials string

section \<open>Helpers\<close>

definition seed ::
  "RevisionId \<Rightarrow> VaultId \<Rightarrow> Sha256Hex \<Rightarrow> nat \<Rightarrow> Date \<Rightarrow> string option \<Rightarrow> RevisionSeed" where
  "seed revisionId vaultId hash sizeBytes at message =
     \<lparr>seed_id = revisionId, seed_vaultId = vaultId, seed_hash = hash, seed_sizeBytes = int sizeBytes,
      seed_at = at, seed_message = message\<rparr>"

definition requireVault :: "('m, 'b, 'c, 'd) EngineDeps \<Rightarrow> VaultId \<Rightarrow> ('m, 'b) engine \<Rightarrow> Vault result" where
  "requireVault deps vaultId s =
     (case ms_getVault (dep_metadata deps) vaultId (en_md s) of
        None \<Rightarrow> Inl (ContractViolation (''unknown vault '' @ vaultId))
      | Some vault \<Rightarrow> Inr vault)"

definition requireRevision :: "('m, 'b, 'c, 'd) EngineDeps \<Rightarrow> RevisionId \<Rightarrow> ('m, 'b) engine \<Rightarrow> Revision result" where
  "requireRevision deps revisionId s =
     (case ms_getRevision (dep_metadata deps) revisionId (en_md s) of
        None \<Rightarrow> Inl (ContractViolation (''unknown revision '' @ revisionId))
      | Some revision \<Rightarrow> Inr revision)"

text \<open>Read from the current state, then go on.\<close>

definition act_read :: "('s \<Rightarrow> 'a result) \<Rightarrow> ('s, 'a) action" where
  "act_read f s = (f s, s)"

section \<open>Operations\<close>

definition importVault ::
  "('m, 'b, 'c, 'd) EngineDeps \<Rightarrow> string \<Rightarrow> bytes \<Rightarrow> string option \<Rightarrow> Date \<Rightarrow> VaultId \<Rightarrow> RevisionId \<Rightarrow>
   (('m, 'b) engine, Vault \<times> Revision) action" where
  "importVault deps name bs kdbxPath now vaultId revisionId =
     act_bind (on_bl (bl_put (dep_blobs deps) bs)) (\<lambda>hash.
     act_bind (act_lift (importedRevision (seed revisionId vaultId hash (length bs) now (Some name))
         (Some (dep_deviceId deps)))) (\<lambda>revision.
     let vault = \<lparr>vault_id = vaultId, vault_name = name, vault_headRevisionId = None,
                  vault_kdbxPath = kdbxPath, vault_createdAt = now\<rparr>;
         withHead = vault\<lparr>vault_headRevisionId := Some (rev_id revision)\<rparr>
     in on_md (transaction
       (act_bind (ms_saveVault (dep_metadata deps) vault) (\<lambda>_.
        act_bind (ms_saveRevision (dep_metadata deps) revision) (\<lambda>_.
        act_bind (ms_saveVault (dep_metadata deps) withHead) (\<lambda>_.
        act_bind (ms_appendHeadEvent (dep_metadata deps)
          \<lparr>he_vaultId = vaultId, he_previousRevisionId = None, he_nextRevisionId = rev_id revision,
           he_createdAt = now, he_reason = Promote\<rparr>) (\<lambda>_.
        act_return (withHead, revision)))))))))"

definition head_matches :: "('m, 'b, 'c, 'd) EngineDeps \<Rightarrow> Vault \<Rightarrow> Sha256Hex \<Rightarrow> 'm \<Rightarrow> RevisionId option" where
  "head_matches deps vault hash m =
     (case vault_headRevisionId vault of
        None \<Rightarrow> None
      | Some headId \<Rightarrow>
          (case ms_getRevision (dep_metadata deps) headId m of
             None \<Rightarrow> None
           | Some head \<Rightarrow> if rev_hash head = hash then Some (rev_id head) else None))"

definition recordLocalChange ::
  "('m, 'b, 'c, 'd) EngineDeps \<Rightarrow> VaultId \<Rightarrow> bytes \<Rightarrow> Date \<Rightarrow> RevisionId \<Rightarrow>
   (('m, 'b) engine, LocalChangeResult) action" where
  "recordLocalChange deps vaultId bs now revisionId =
     act_bind (act_read (requireVault deps vaultId)) (\<lambda>vault.
     let hash = dep_sha256 deps bs in
     act_bind (act_read (\<lambda>s. Inr (head_matches deps vault hash (en_md s)))) (\<lambda>same.
     case same of
       Some headId \<Rightarrow> act_return (Unchanged headId)
     | None \<Rightarrow>
         act_bind (on_bl (bl_put (dep_blobs deps) bs)) (\<lambda>_.
         act_bind (act_lift (localChangeRevision (seed revisionId vaultId hash (length bs) now None)
             (vault_headRevisionId vault) (Some (dep_deviceId deps)))) (\<lambda>revision.
         on_md (transaction
           (act_bind (ms_saveRevision (dep_metadata deps) revision) (\<lambda>_.
            act_bind (ms_saveVault (dep_metadata deps)
              (vault\<lparr>vault_headRevisionId := Some (rev_id revision)\<rparr>)) (\<lambda>_.
            act_bind (ms_appendHeadEvent (dep_metadata deps)
              \<lparr>he_vaultId = vaultId, he_previousRevisionId = vault_headRevisionId vault,
               he_nextRevisionId = rev_id revision, he_createdAt = now, he_reason = Promote\<rparr>) (\<lambda>_.
            act_return (Recorded revision))))))))))"

record IngestInput =
  in_vaultId :: VaultId
  in_revisionId :: RevisionId
  in_declaredParentIds :: "RevisionId list"
  in_declaredHash :: Sha256Hex
  in_bytes :: bytes
  in_fromDeviceId :: DeviceId
  in_message :: "string option"

fun missing_parent :: "('m, 'b, 'c, 'd) EngineDeps \<Rightarrow> RevisionId list \<Rightarrow> 'm \<Rightarrow> RevisionId option" where
  "missing_parent deps [] m = None"
| "missing_parent deps (parentId # ps) m =
     (if ms_hasRevision (dep_metadata deps) parentId m then missing_parent deps ps m else Some parentId)"

definition ingestReceivedRevision ::
  "('m, 'b, 'c, 'd) EngineDeps \<Rightarrow> IngestInput \<Rightarrow> Date \<Rightarrow> (('m, 'b) engine, IngestResult) action" where
  "ingestReceivedRevision deps i now s =
     (if ms_hasRevision (dep_metadata deps) (in_revisionId i) (en_md s)
      then (Inr (AlreadyPresent (in_revisionId i)), s)
      else if dep_sha256 deps (in_bytes i) \<noteq> in_declaredHash i
      then (Inr (Rejected ''received bytes do not match the declared hash''), s)
      else case missing_parent deps (in_declaredParentIds i) (en_md s) of
        Some parentId \<Rightarrow>
          (Inr (Rejected (''parent '' @ parentId @ '' must be received before '' @ in_revisionId i)), s)
      | None \<Rightarrow>
          act_bind (on_bl (bl_put (dep_blobs deps) (in_bytes i))) (\<lambda>_.
          act_bind (act_lift (receivedRevision
            (seed (in_revisionId i) (in_vaultId i) (dep_sha256 deps (in_bytes i)) (length (in_bytes i))
               now (in_message i))
            (in_declaredParentIds i) (in_fromDeviceId i))) (\<lambda>revision.
          act_bind (on_md (ms_saveRevision (dep_metadata deps) revision)) (\<lambda>_.
          act_return (Stored revision)))) s)"

definition divergenceWithPeer ::
  "('m, 'b, 'c, 'd) EngineDeps \<Rightarrow> VaultId \<Rightarrow> RevisionNode list \<Rightarrow> RevisionId \<Rightarrow> ('m, 'b) engine \<Rightarrow> Divergence result" where
  "divergenceWithPeer deps vaultId remoteNodes remoteHead s =
     res_bind (validateRemoteGraph remoteNodes) (\<lambda>_.
     res_bind (requireVault deps vaultId s) (\<lambda>vault.
       case vault_headRevisionId vault of
         None \<Rightarrow> Inl (ContractViolation ''cannot compare a vault with no head'')
       | Some head \<Rightarrow>
           let combined = unionGraphs (ms_loadGraph (dep_metadata deps) vaultId (en_md s)) (buildGraph remoteNodes)
           in Inr (classifyDivergence combined head remoteHead)))"

fun load_revisions :: "('m, 'b, 'c, 'd) EngineDeps \<Rightarrow> RevisionId list \<Rightarrow> ('m, 'b) engine \<Rightarrow> Revision list result" where
  "load_revisions deps [] s = Inr []"
| "load_revisions deps (i # ids) s =
     res_bind (requireRevision deps i s) (\<lambda>r. res_bind (load_revisions deps ids s) (\<lambda>rs. Inr (r # rs)))"

definition material_of :: "('m, 'b, 'c, 'd) EngineDeps \<Rightarrow> Revision \<Rightarrow> ('m, 'b) engine \<Rightarrow> material result" where
  "material_of deps r s =
     res_bind (bl_get (dep_blobs deps) (rev_hash r) (en_bl s)) (\<lambda>bs. Inr (rev_id r, bs))"

fun load_materials :: "('m, 'b, 'c, 'd) EngineDeps \<Rightarrow> Revision list \<Rightarrow> ('m, 'b) engine \<Rightarrow> material list result" where
  "load_materials deps [] s = Inr []"
| "load_materials deps (r # rs) s =
     res_bind (material_of deps r s) (\<lambda>x. res_bind (load_materials deps rs s) (\<lambda>xs. Inr (x # xs)))"

definition merge_inputs ::
  "('m, 'b, 'c, 'd) EngineDeps \<Rightarrow> RevisionId \<Rightarrow> RevisionId list \<Rightarrow> ('m, 'b) engine \<Rightarrow>
   (Revision \<times> Revision list \<times> material \<times> material list) result" where
  "merge_inputs deps baseRevisionId incomingRevisionIds s =
     res_bind (requireRevision deps baseRevisionId s) (\<lambda>base.
     res_bind (load_revisions deps incomingRevisionIds s) (\<lambda>incoming.
     res_bind (material_of deps base s) (\<lambda>local.
     res_bind (load_materials deps incoming s) (\<lambda>materials.
       Inr (base, incoming, local, materials)))))"

definition merge ::
  "('m, 'b, 'c, 'd) EngineDeps \<Rightarrow> VaultId \<Rightarrow> RevisionId \<Rightarrow> RevisionId list \<Rightarrow> 'c \<Rightarrow> string option \<Rightarrow> Date \<Rightarrow>
   RevisionId \<Rightarrow> (('m, 'b) engine, MergeOutcome) action" where
  "merge deps vaultId baseRevisionId incomingRevisionIds credentials message now revisionId =
     act_bind (act_read (merge_inputs deps baseRevisionId incomingRevisionIds))
       (\<lambda>(base, incoming, local, materials).
     case dep_merge deps vaultId local materials credentials of
       NeedsCredentials reason \<Rightarrow> act_return (MergeNeedsCredentials reason)
     | MergeFailed reason \<Rightarrow> act_return (MergeFailure reason)
     | Unsupported reason \<Rightarrow> act_return (MergeFailure reason)
     | MergeSucceeded bs _ \<Rightarrow>
         act_bind (on_bl (bl_put (dep_blobs deps) bs)) (\<lambda>hash.
         act_bind (act_lift (mergedRevision
           (seed revisionId vaultId hash (length bs) now
              (Some (case message of Some msg \<Rightarrow> msg
                | None \<Rightarrow> ''Merged '' @ decimal_string (length incoming + 1) @ '' revisions'')))
           (rev_id base) (map rev_id incoming) (Some (dep_deviceId deps)))) (\<lambda>revision.
         act_bind (on_md (ms_saveRevision (dep_metadata deps) revision)) (\<lambda>_.
         act_return (MergeDone revision)))))"

definition previewDiff ::
  "('m, 'b, 'c, 'd) EngineDeps \<Rightarrow> VaultId \<Rightarrow> RevisionId \<Rightarrow> RevisionId list \<Rightarrow> 'c \<Rightarrow> ('m, 'b) engine \<Rightarrow>
   'd DiffOutcome result" where
  "previewDiff deps vaultId baseRevisionId incomingRevisionIds credentials s =
     res_bind (merge_inputs deps baseRevisionId incomingRevisionIds s) (\<lambda>(base, incoming, local, materials).
       case dep_diff deps vaultId local materials credentials of
         DiffNeedsCredentials reason \<Rightarrow> Inr (DiffOutcomeNeedsCredentials reason)
       | DiffFailed reason \<Rightarrow> Inr (DiffOutcomeFailed reason)
       | DiffReady diff \<Rightarrow> Inr (DiffOutcomeReady diff))"

definition save_head_move ::
  "('m, 'b, 'c, 'd) EngineDeps \<Rightarrow> Vault \<times> HeadRevisionEvent \<Rightarrow> (('m, 'b) engine, Vault) action" where
  "save_head_move deps = (\<lambda>(next, event).
     on_md (transaction
       (act_bind (ms_saveVault (dep_metadata deps) next) (\<lambda>_.
        act_bind (ms_appendHeadEvent (dep_metadata deps) event) (\<lambda>_.
        act_return next)))))"

definition promote :: "('m, 'b, 'c, 'd) EngineDeps \<Rightarrow> VaultId \<Rightarrow> RevisionId \<Rightarrow> Date \<Rightarrow> (('m, 'b) engine, Vault) action" where
  "promote deps vaultId revisionId now =
     act_bind (act_read (requireVault deps vaultId)) (\<lambda>vault.
     act_bind (act_read (requireRevision deps revisionId)) (\<lambda>revision.
     act_bind (act_lift (promoteRevision vault revision now)) (save_head_move deps)))"

definition fastForward :: "('m, 'b, 'c, 'd) EngineDeps \<Rightarrow> VaultId \<Rightarrow> RevisionId \<Rightarrow> Date \<Rightarrow> (('m, 'b) engine, Vault) action" where
  "fastForward deps vaultId revisionId now =
     act_bind (act_read (requireVault deps vaultId)) (\<lambda>vault.
     act_bind (act_read (requireRevision deps revisionId)) (\<lambda>revision.
     act_bind (act_lift (fastForwardRevision vault revision now)) (save_head_move deps)))"

definition bytesOf :: "('m, 'b, 'c, 'd) EngineDeps \<Rightarrow> RevisionId \<Rightarrow> ('m, 'b) engine \<Rightarrow> bytes result" where
  "bytesOf deps revisionId s =
     res_bind (requireRevision deps revisionId s) (\<lambda>r. bl_get (dep_blobs deps) (rev_hash r) (en_bl s))"

definition adoptVault :: "('m, 'b, 'c, 'd) EngineDeps \<Rightarrow> VaultId \<Rightarrow> string \<Rightarrow> Date \<Rightarrow> (('m, 'b) engine, Vault) action" where
  "adoptVault deps vaultId name now s =
     (case ms_getVault (dep_metadata deps) vaultId (en_md s) of
        Some existing \<Rightarrow> (Inr existing, s)
      | None \<Rightarrow>
          let vault = \<lparr>vault_id = vaultId, vault_name = name, vault_headRevisionId = None,
                       vault_kdbxPath = None, vault_createdAt = now\<rparr>
          in act_bind (on_md (ms_saveVault (dep_metadata deps) vault)) (\<lambda>_. act_return vault) s)"

definition bindVaultToFile :: "('m, 'b, 'c, 'd) EngineDeps \<Rightarrow> VaultId \<Rightarrow> string \<Rightarrow> (('m, 'b) engine, Vault) action" where
  "bindVaultToFile deps vaultId kdbxPath =
     act_bind (act_read (requireVault deps vaultId)) (\<lambda>vault.
     let bound = vault\<lparr>vault_kdbxPath := Some kdbxPath\<rparr>
     in act_bind (on_md (ms_saveVault (dep_metadata deps) bound)) (\<lambda>_. act_return bound))"

definition historySummary :: "('m, 'b, 'c, 'd) EngineDeps \<Rightarrow> VaultId \<Rightarrow> ('m, 'b) engine \<Rightarrow> HistorySummaryEntry list" where
  "historySummary deps vaultId s =
     map (\<lambda>r. \<lparr>hs_revisionId = rev_id r, hs_hash = rev_hash r, hs_sizeBytes = rev_sizeBytes r,
               hs_parentIds = rev_parentIds r\<rparr>)
       (ms_listRevisions (dep_metadata deps) vaultId (en_md s))"

definition revisionCount :: "('m, 'b, 'c, 'd) EngineDeps \<Rightarrow> VaultId \<Rightarrow> ('m, 'b) engine \<Rightarrow> nat" where
  "revisionCount deps vaultId s = length (ms_listRevisions (dep_metadata deps) vaultId (en_md s))"

definition engine_recordPeerHead ::
  "('m, 'b, 'c, 'd) EngineDeps \<Rightarrow> DeviceId \<Rightarrow> VaultId \<Rightarrow> RevisionId \<Rightarrow> Date \<Rightarrow> (('m, 'b) engine, unit) action" where
  "engine_recordPeerHead deps deviceId vaultId headRevisionId now =
     on_md (ms_recordPeerHead (dep_metadata deps) deviceId vaultId headRevisionId now)"

end
