(* ===== verification/Engine_Invariants.thy ===== *)
theory Engine_Invariants
  imports Sync_Engine
begin

text \<open>
  The invariant of the engine's two stores together, proved once from their contracts in the locale
  \<open>sync_engine\<close> (which extends both port locales) and used through the interpretation for the
  desktop's ports, the SQLite tables and the file store.

  The invariant: both stores keep their own; every stored revision has its bytes in the blob store
  (metadata never points at bytes that were not written); and the head of a vault is a stored
  revision of that vault.
\<close>

section \<open>Runs of the engine\<close>

text \<open>
  One operation, in any order, with any arguments. The ids that the generator draws for new revisions
  are new, which is what a random UUID is for.
\<close>

inductive engine_step ::
  "('m, 'b, 'c, 'd) EngineDeps \<Rightarrow> ('m, 'b) engine \<Rightarrow> ('m, 'b) engine \<Rightarrow> bool"
  for deps where
  step_import: "\<not> ms_hasRevision (dep_metadata deps) revisionId (en_md s) \<Longrightarrow>
    importVault deps name bs path now vaultId revisionId s = (r, t) \<Longrightarrow> engine_step deps s t"
| step_local: "\<not> ms_hasRevision (dep_metadata deps) revisionId (en_md s) \<Longrightarrow>
    recordLocalChange deps vaultId bs now revisionId s = (r', t) \<Longrightarrow> engine_step deps s t"
| step_ingest: "ingestReceivedRevision deps i now s = (r'', t) \<Longrightarrow> engine_step deps s t"
| step_merge: "\<not> ms_hasRevision (dep_metadata deps) revisionId (en_md s) \<Longrightarrow>
    merge deps vaultId base incoming credentials msg now revisionId s = (r3, t) \<Longrightarrow> engine_step deps s t"
| step_promote: "promote deps vaultId revisionId now s = (r4, t) \<Longrightarrow> engine_step deps s t"
| step_fast_forward: "fastForward deps vaultId revisionId now s = (r4, t) \<Longrightarrow> engine_step deps s t"
| step_adopt: "adoptVault deps vaultId name now s = (r4, t) \<Longrightarrow> engine_step deps s t"
| step_bind: "bindVaultToFile deps vaultId file s = (r4, t) \<Longrightarrow> engine_step deps s t"
| step_peer_head: "engine_recordPeerHead deps d vaultId h now s = (r5, t) \<Longrightarrow> engine_step deps s t"

inductive engine_run :: "('m, 'b, 'c, 'd) EngineDeps \<Rightarrow> ('m, 'b) engine \<Rightarrow> ('m, 'b) engine \<Rightarrow> bool"
  for deps s where
  run_none: "engine_run deps s s"
| run_step: "engine_run deps s t \<Longrightarrow> engine_step deps t u \<Longrightarrow> engine_run deps s u"

section \<open>Weakest preconditions of the engine's combinators\<close>

lemma wp_on_md [simp]: "wp (on_md a) Q s = wp a (\<lambda>r m. Q r (s\<lparr>en_md := m\<rparr>)) (en_md s)"
  by (simp add: wp_def on_md_def split: prod.split)

lemma wp_on_bl [simp]: "wp (on_bl a) Q s = wp a (\<lambda>r b. Q r (s\<lparr>en_bl := b\<rparr>)) (en_bl s)"
  by (simp add: wp_def on_bl_def split: prod.split)

lemma wp_transaction [simp]:
  "wp (transaction body) Q s = wp body (\<lambda>r t. case r of Inl e \<Rightarrow> Q (Inl e) s | Inr x \<Rightarrow> Q (Inr x) t) s"
  by (simp add: wp_def transaction_def split: prod.split sum.split)

lemma wp_read [simp]: "wp (act_read f) Q s = Q (f s) s"
  by (simp add: wp_def act_read_def)

lemma requireVault_Inr [simp]:
  "requireVault deps i s = Inr v \<longleftrightarrow> ms_getVault (dep_metadata deps) i (en_md s) = Some v"
  by (simp add: requireVault_def split: option.split)

lemma requireRevision_Inr [simp]:
  "requireRevision deps i s = Inr r \<longleftrightarrow> ms_getRevision (dep_metadata deps) i (en_md s) = Some r"
  by (simp add: requireRevision_def split: option.split)

lemma missing_parent_None:
  "missing_parent deps ps m = None \<longleftrightarrow> (\<forall>p \<in> set ps. ms_hasRevision (dep_metadata deps) p m)"
  by (induction ps) auto

lemma base_revision_fields:
  "base_revision sd ps opn org = Inr r \<Longrightarrow>
   rev_id r = seed_id sd \<and> rev_vaultId r = seed_vaultId sd \<and> rev_hash r = seed_hash sd \<and> rev_parentIds r = ps"
  by (auto simp: base_revision_def res_bind_eq_Inr)

lemma seed_fields [simp]:
  "seed_id (seed i v h n t msg) = i" "seed_vaultId (seed i v h n t msg) = v" "seed_hash (seed i v h n t msg) = h"
  by (simp_all add: seed_def)

section \<open>The invariant\<close>

definition heads_ok :: "'m MetadataStore \<Rightarrow> 'm \<Rightarrow> bool" where
  "heads_ok md m \<longleftrightarrow> (\<forall>v vt h. ms_getVault md v m = Some vt \<longrightarrow> vault_headRevisionId vt = Some h \<longrightarrow>
     (\<exists>r. ms_getRevision md h m = Some r \<and> rev_vaultId r = v))"

definition blobs_present :: "'m MetadataStore \<Rightarrow> 'b BlobStore \<Rightarrow> 'm \<Rightarrow> 'b \<Rightarrow> bool" where
  "blobs_present md bl m b \<longleftrightarrow> (\<forall>i r. ms_getRevision md i m = Some r \<longrightarrow> bl_has bl (rev_hash r) b)"

definition received_revision_of :: "IngestInput \<Rightarrow> Date \<Rightarrow> Revision" where
  "received_revision_of i now =
     \<lparr>rev_id = in_revisionId i, rev_vaultId = in_vaultId i, rev_hash = in_declaredHash i,
      rev_sizeBytes = int (length (in_bytes i)), rev_createdAt = now,
      rev_originDeviceId = Some (in_fromDeviceId i), rev_parentIds = in_declaredParentIds i,
      rev_operation = Received, rev_message = in_message i\<rparr>"

locale sync_engine =
  metadata_store "dep_metadata deps" md_inv + blob_store "dep_blobs deps" "dep_sha256 deps" blob_inv
  for deps :: "('m, 'b, 'c, 'd) EngineDeps" and md_inv :: "'m \<Rightarrow> bool" and blob_inv :: "'b \<Rightarrow> bool"
begin

abbreviation md where "md \<equiv> dep_metadata deps"
abbreviation bl where "bl \<equiv> dep_blobs deps"

definition stores_ok :: "'m \<Rightarrow> 'b \<Rightarrow> bool" where
  "stores_ok m b \<longleftrightarrow> md_inv m \<and> blob_inv b \<and> heads_ok md m \<and> blobs_present md bl m b"

lemma stores_put:
  assumes "stores_ok m b" "bl_put bl bs b = (r, b')"
  shows "stores_ok m b'"
  using assms put_inv put_keeps by (fastforce simp: stores_ok_def blobs_present_def)

lemma stores_save_vault:
  assumes "stores_ok m b" "ms_saveVault md vt m = (res, m')"
    and "\<And>h. vault_headRevisionId vt = Some h \<Longrightarrow>
      \<exists>r. ms_getRevision md h m = Some r \<and> rev_vaultId r = vault_id vt"
  shows "stores_ok m' b \<and> res = Inr () \<and> (\<forall>i. ms_getRevision md i m' = ms_getRevision md i m)"
proof -
  have sv: "res = Inr ()" "md_inv m'" "\<And>i. ms_getRevision md i m' = ms_getRevision md i m"
    "\<exists>c. ms_getVault md (vault_id vt) m' = Some (vt\<lparr>vault_createdAt := c\<rparr>)"
    "\<And>i. i \<noteq> vault_id vt \<Longrightarrow> ms_getVault md i m' = ms_getVault md i m"
    using save_vault [OF _ assms(2)] assms(1) by (auto simp: stores_ok_def)
  have "heads_ok md m'"
    unfolding heads_ok_def
  proof (intro allI impI)
    fix v wt h assume get: "ms_getVault md v m' = Some wt" "vault_headRevisionId wt = Some h"
    show "\<exists>r. ms_getRevision md h m' = Some r \<and> rev_vaultId r = v"
    proof (cases "v = vault_id vt")
      case True
      with get sv(4) have "vault_headRevisionId vt = Some h" by auto
      then show ?thesis using assms(3) True sv(3) by simp
    next
      case False
      then show ?thesis using get sv assms(1) by (auto simp: stores_ok_def heads_ok_def)
    qed
  qed
  then show ?thesis using sv assms(1) by (auto simp: stores_ok_def blobs_present_def)
qed

lemma stores_save_revision:
  assumes "stores_ok m b" "ms_saveRevision md r m = (res, m')"
    and new: "\<not> ms_hasRevision md (rev_id r) m" and blob: "bl_has bl (rev_hash r) b"
  shows "stores_ok m' b"
    and "(\<forall>i. ms_getVault md i m' = ms_getVault md i m)"
    and "res = Inr () \<Longrightarrow> \<exists>ps. ms_getRevision md (rev_id r) m' = Some (r\<lparr>rev_parentIds := ps\<rparr>)"
proof -
  note sr = save_revision [OF _ assms(2) new]
  have inv: "md_inv m" using assms(1) by (simp add: stores_ok_def)
  show vaults: "\<forall>i. ms_getVault md i m' = ms_getVault md i m" using sr [OF inv] by blast
  show "res = Inr () \<Longrightarrow> \<exists>ps. ms_getRevision md (rev_id r) m' = Some (r\<lparr>rev_parentIds := ps\<rparr>)"
    using sr [OF inv] by blast
  have stored: "res = Inr () \<longrightarrow>
        (\<exists>ps. set ps = set (rev_parentIds r) \<and>
           ms_getRevision md (rev_id r) m' = Some (r\<lparr>rev_parentIds := ps\<rparr>)) \<and>
        (\<forall>j. j \<noteq> rev_id r \<longrightarrow> ms_getRevision md j m' = ms_getRevision md j m)"
    using sr [OF inv] by (elim conjE)
  show "stores_ok m' b"
  proof (cases "res = Inr ()")
    case True
    note both = mp [OF stored True]
    from conjunct1 [OF both] obtain ps
      where get: "ms_getRevision md (rev_id r) m' = Some (r\<lparr>rev_parentIds := ps\<rparr>)" by (elim exE conjE)
    note other = conjunct2 [OF both, rule_format]
    have none: "ms_getRevision md (rev_id r) m = None"
      using new has_rev [of "rev_id r" m] by (cases "ms_getRevision md (rev_id r) m") auto
    have "heads_ok md m'"
      unfolding heads_ok_def
    proof (intro allI impI)
      fix v vt h assume "ms_getVault md v m' = Some vt" "vault_headRevisionId vt = Some h"
      then have "ms_getVault md v m = Some vt" "vault_headRevisionId vt = Some h" using vaults by simp_all
      then obtain q where q: "ms_getRevision md h m = Some q" "rev_vaultId q = v"
        using assms(1) unfolding stores_ok_def heads_ok_def by blast
      then have "h \<noteq> rev_id r" using none by auto
      then show "\<exists>r. ms_getRevision md h m' = Some r \<and> rev_vaultId r = v" using q other by auto
    qed
    moreover have "blobs_present md bl m' b"
      unfolding blobs_present_def
    proof (intro allI impI)
      fix i q assume q: "ms_getRevision md i m' = Some q"
      show "bl_has bl (rev_hash q) b"
      proof (cases "i = rev_id r")
        case True
        then show ?thesis using q get blob by auto
      next
        case False
        then show ?thesis using q other assms(1) by (auto simp: stores_ok_def blobs_present_def)
      qed
    qed
    ultimately show ?thesis using sr [OF inv] assms(1) by (simp add: stores_ok_def)
  next
    case False
    then show ?thesis using sr [OF inv] assms(1) by auto
  qed
qed

lemma stores_head_event:
  assumes "stores_ok m b" "ms_appendHeadEvent md e m = (res, m')"
  shows "stores_ok m' b"
  using assms head_event [OF _ assms(2)] by (auto simp: stores_ok_def heads_ok_def blobs_present_def)

lemma stores_peer_head:
  assumes "stores_ok m b" "ms_recordPeerHead md d v h t m = (res, m')"
  shows "stores_ok m' b"
  using assms peer_head [OF _ assms(2)] by (auto simp: stores_ok_def heads_ok_def blobs_present_def)

definition engine_ok :: "('m, 'b) engine \<Rightarrow> bool" where
  "engine_ok s \<longleftrightarrow> stores_ok (en_md s) (en_bl s)"

text \<open>Rules for the calls an operation makes.\<close>

lemma wp_put:
  assumes "stores_ok m b"
    and "\<And>b'. stores_ok m b' \<Longrightarrow> bl_has bl (dep_sha256 deps bs) b' \<Longrightarrow> Q (Inr (dep_sha256 deps bs)) b'"
    and "\<And>e b'. stores_ok m b' \<Longrightarrow> Q (Inl e) b'"
  shows "wp (bl_put bl bs) Q b"
proof (rule wpI)
  fix r b' assume put: "bl_put bl bs b = (r, b')"
  have ok: "stores_ok m b'" using stores_put [OF assms(1) put] .
  show "Q r b'"
  proof (cases r)
    case (Inr h)
    then have "h = dep_sha256 deps bs" "bl_has bl h b'" using put_key put by auto
    then show ?thesis using assms(2) ok Inr by simp
  qed (use assms(3) ok in simp)
qed

lemma wp_save_vault:
  assumes "stores_ok m b"
    and "\<And>h. vault_headRevisionId vt = Some h \<Longrightarrow>
      \<exists>r. ms_getRevision md h m = Some r \<and> rev_vaultId r = vault_id vt"
    and "\<And>m'. stores_ok m' b \<Longrightarrow> (\<And>i. ms_getRevision md i m' = ms_getRevision md i m) \<Longrightarrow> Q (Inr ()) m'"
  shows "wp (ms_saveVault md vt) Q m"
  by (rule wpI) (use stores_save_vault [OF assms(1) _ assms(2)] assms(3) in metis)

lemma wp_save_revision:
  assumes "stores_ok m b" "\<not> ms_hasRevision md (rev_id r) m" "bl_has bl (rev_hash r) b"
    and "\<And>m' ps. stores_ok m' b \<Longrightarrow> ms_getRevision md (rev_id r) m' = Some (r\<lparr>rev_parentIds := ps\<rparr>) \<Longrightarrow> Q (Inr ()) m'"
    and "\<And>e m'. stores_ok m' b \<Longrightarrow> Q (Inl e) m'"
  shows "wp (ms_saveRevision md r) Q m"
proof (rule wpI)
  fix res m' assume save: "ms_saveRevision md r m = (res, m')"
  note sr = stores_save_revision [OF assms(1) save assms(2,3)]
  show "Q res m'"
  proof (cases res)
    case (Inr u)
    then obtain ps where "ms_getRevision md (rev_id r) m' = Some (r\<lparr>rev_parentIds := ps\<rparr>)"
      using sr(3) by auto
    then show ?thesis using assms(4) sr(1) Inr by simp
  qed (use assms(5) sr(1) in simp)
qed

lemma wp_head_event:
  assumes "stores_ok m b" "\<And>res m'. stores_ok m' b \<Longrightarrow> Q res m'"
  shows "wp (ms_appendHeadEvent md e) Q m"
  by (rule wpI) (use stores_head_event [OF assms(1)] assms(2) in blast)

lemmas engine_simps = engine_ok_def base_revision_fields

lemma wp_txn:
  assumes "stores_ok m b" "wp body (\<lambda>_ m'. stores_ok m' b) m"
  shows "wp (transaction body) (\<lambda>_ m'. stores_ok m' b) m"
  unfolding wp_transaction by (rule wp_mono [OF assms(2)]) (simp add: assms(1) split: sum.split)

lemma new_head_ok:
  assumes "stores_ok m b" "\<not> ms_hasRevision md (rev_id r) m" "bl_has bl (rev_hash r) b"
    and "vault_id vt = rev_vaultId r" "vault_headRevisionId vt = Some (rev_id r)"
  shows "wp (act_bind (ms_saveRevision md r) (\<lambda>_. act_bind (ms_saveVault md vt) (\<lambda>_.
      act_bind (ms_appendHeadEvent md ev) (\<lambda>_. act_return x)))) (\<lambda>_ m'. stores_ok m' b) m"
  unfolding wp_bind wp_return
proof (rule wp_save_revision [OF assms(1-3)], goal_cases)
  case (1 m1 ps)
  show ?case
    unfolding sum.case
  proof (rule wp_save_vault [OF 1(1)], goal_cases)
    case (1 h)
    then show ?case using \<open>ms_getRevision md (rev_id r) m1 = _\<close> assms(4,5) by auto
  next
    case (2 m2)
    show ?case
      unfolding sum.case
      by (rule wp_head_event [OF 2(1)]) (simp split: sum.split)
  qed
qed simp

lemma import_ok:
  assumes "engine_ok s" "\<not> ms_hasRevision md revisionId (en_md s)"
  shows "wp (importVault deps name bs path now vaultId revisionId) (\<lambda>_. engine_ok) s"
  unfolding importVault_def Let_def wp_bind [of "on_bl _"] wp_on_bl
proof (rule wp_put [of "en_md s"], goal_cases)
  case (2 b')
  show ?case
  proof (cases "importedRevision (seed revisionId vaultId (dep_sha256 deps bs) (length bs) now (Some name))
      (Some (dep_deviceId deps))")
    case (Inr r)
    then have r: "rev_id r = revisionId" "rev_vaultId r = vaultId" "rev_hash r = dep_sha256 deps bs"
      by (auto simp: importedRevision_def dest!: base_revision_fields)
    let ?vt = "\<lparr>vault_id = vaultId, vault_name = name, vault_headRevisionId = None,
                 vault_kdbxPath = path, vault_createdAt = now\<rparr>"
    have txn: "wp (transaction (act_bind (ms_saveVault md vt) (\<lambda>_. act_bind (ms_saveRevision md r) (\<lambda>_.
        act_bind (ms_saveVault md (vt\<lparr>vault_headRevisionId := Some (rev_id r)\<rparr>)) (\<lambda>_.
        act_bind (ms_appendHeadEvent md ev) (\<lambda>_. act_return x)))))) (\<lambda>_ m'. stores_ok m' b') (en_md s)"
      if "vault_id vt = vaultId" "vault_headRevisionId vt = None" for vt ev x
    proof (rule wp_txn [OF 2(1)], subst wp_bind, rule wp_save_vault [OF 2(1)], goal_cases)
      case (2 m1)
      have "\<not> ms_hasRevision md (rev_id r) m1" using assms(2) 2(2) has_rev r by simp
      then show ?case
        unfolding sum.case
        by (intro new_head_ok [OF 2(1)]) (use \<open>bl_has bl _ b'\<close> r that in simp_all)
    qed (use that in simp)
    show ?thesis using txn [of ?vt] Inr by (simp add: engine_ok_def del: wp_transaction)
  qed (use 2 in \<open>simp add: engine_ok_def\<close>)
qed (use assms in \<open>simp_all add: engine_ok_def\<close>)

lemma local_ok:
  assumes "engine_ok s" "\<not> ms_hasRevision md revisionId (en_md s)"
  shows "wp (recordLocalChange deps vaultId bs now revisionId) (\<lambda>_. engine_ok) s"
proof (cases "ms_getVault md vaultId (en_md s)")
  case None
  then show ?thesis using assms by (simp add: recordLocalChange_def requireVault_def)
next
  case (Some vt)
  have id: "vault_id vt = vaultId" using get_vault_id Some .
  have req: "requireVault deps vaultId s = Inr vt" using Some by simp
  show ?thesis
  proof (cases "head_matches deps vt (dep_sha256 deps bs) (en_md s)")
    case None
    show ?thesis
      unfolding recordLocalChange_def Let_def wp_bind [of "act_read _"] wp_read req sum.case None option.case
        wp_bind [of "on_bl _"] wp_on_bl
    proof (rule wp_put [of "en_md s"], goal_cases)
      case (2 b')
      show ?case
      proof (cases "localChangeRevision (seed revisionId vaultId (dep_sha256 deps bs) (length bs) now None)
          (vault_headRevisionId vt) (Some (dep_deviceId deps))")
        case (Inr r)
        then have r: "rev_id r = revisionId" "rev_vaultId r = vaultId" "rev_hash r = dep_sha256 deps bs"
          by (auto simp: localChangeRevision_def dest!: base_revision_fields)
        have "wp (transaction (act_bind (ms_saveRevision md r) (\<lambda>_.
            act_bind (ms_saveVault md (vt\<lparr>vault_headRevisionId := Some (rev_id r)\<rparr>)) (\<lambda>_.
            act_bind (ms_appendHeadEvent md ev) (\<lambda>_. act_return x))))) (\<lambda>_ m'. stores_ok m' b') (en_md s)" for ev x
          by (rule wp_txn [OF 2(1)], rule new_head_ok [OF 2(1)]) (use assms(2) r 2 id in simp_all)
        then show ?thesis using Inr by (simp add: engine_ok_def del: wp_transaction)
      qed (use 2 in \<open>simp add: engine_ok_def\<close>)
    qed (use assms in \<open>simp_all add: engine_ok_def\<close>)
  next
    case (Some h)
    then show ?thesis using assms(1) by (simp add: recordLocalChange_def req Let_def)
  qed
qed

lemma stored_revision_ok:
  assumes "engine_ok s" "\<not> ms_hasRevision md i (en_md s)"
    and "\<And>r. rv (dep_sha256 deps bs) = Inr r \<Longrightarrow> rev_id r = i \<and> rev_hash r = dep_sha256 deps bs"
  shows "wp (act_bind (on_bl (bl_put bl bs)) (\<lambda>h. act_bind (act_lift (rv h)) (\<lambda>r.
      act_bind (on_md (ms_saveRevision md r)) (\<lambda>_. act_return (f r))))) (\<lambda>_. engine_ok) s"
  unfolding wp_bind [of "on_bl _"] wp_on_bl
proof (rule wp_put [of "en_md s"], goal_cases)
  case (2 b')
  show ?case
  proof (cases "rv (dep_sha256 deps bs)")
    case (Inr r)
    have "wp (ms_saveRevision md r) (\<lambda>_ m'. stores_ok m' b') (en_md s)"
      by (rule wp_save_revision [OF 2(1)]) (use assms(2,3) Inr 2 in auto)
    then have base: "wp (ms_saveRevision md r) (\<lambda>_ m'. stores_ok m' b') (en_md (s\<lparr>en_bl := b'\<rparr>))"
      by simp
    show ?thesis
      unfolding wp_bind wp_lift Inr sum.case wp_on_md wp_return
      by (rule wp_mono [OF base]) (simp add: engine_ok_def split: sum.split)
  qed (use 2 in \<open>simp add: engine_ok_def\<close>)
qed (use assms in \<open>simp_all add: engine_ok_def\<close>)

lemma ingest_ok:
  assumes "engine_ok s"
  shows "wp (ingestReceivedRevision deps i now) (\<lambda>_. engine_ok) s"
proof -
  let ?rv = "receivedRevision (seed (in_revisionId i) (in_vaultId i) (dep_sha256 deps (in_bytes i))
      (length (in_bytes i)) now (in_message i)) (in_declaredParentIds i) (in_fromDeviceId i)"
  have "wp (act_bind (on_bl (bl_put bl (in_bytes i))) (\<lambda>_. act_bind (act_lift ?rv) (\<lambda>r.
      act_bind (on_md (ms_saveRevision md r)) (\<lambda>_. act_return (Stored r))))) (\<lambda>_. engine_ok) s"
    if "\<not> ms_hasRevision md (in_revisionId i) (en_md s)"
    by (rule stored_revision_ok [OF assms that, of "\<lambda>_. ?rv"])
      (auto simp: receivedRevision_def res_bind_eq_Inr dest!: base_revision_fields)
  note run = this
  show ?thesis
  proof (cases "ms_hasRevision md (in_revisionId i) (en_md s) \<or> dep_sha256 deps (in_bytes i) \<noteq> in_declaredHash i \<or>
      missing_parent deps (in_declaredParentIds i) (en_md s) \<noteq> None")
    case True
    then show ?thesis using assms by (auto simp: wp_def ingestReceivedRevision_def)
  next
    case False
    then have "ingestReceivedRevision deps i now s = act_bind (on_bl (bl_put bl (in_bytes i))) (\<lambda>_.
        act_bind (act_lift ?rv) (\<lambda>r. act_bind (on_md (ms_saveRevision md r)) (\<lambda>_. act_return (Stored r)))) s"
      by (simp add: ingestReceivedRevision_def)
    then show ?thesis using run False unfolding wp_def by simp
  qed
qed

lemma merge_ok:
  assumes "engine_ok s" "\<not> ms_hasRevision md revisionId (en_md s)"
  shows "wp (merge deps vaultId base incoming credentials msg now revisionId) (\<lambda>_. engine_ok) s"
proof (cases "merge_inputs deps base incoming s")
  case (Inl e)
  then show ?thesis using assms(1) by (simp add: merge_def)
next
  case (Inr inputs)
  obtain br inc loc mats where inputs: "inputs = (br, inc, loc, mats)" by (cases inputs)
  have "wp (act_bind (on_bl (bl_put bl bs)) (\<lambda>h. act_bind (act_lift (mergedRevision
      (seed revisionId vaultId h (length bs) now m) (rev_id br) (map rev_id inc) (Some (dep_deviceId deps)))) (\<lambda>r.
      act_bind (on_md (ms_saveRevision md r)) (\<lambda>_. act_return (MergeDone r))))) (\<lambda>_. engine_ok) s" for bs m
    by (rule stored_revision_ok [OF assms, of "\<lambda>h. mergedRevision (seed revisionId vaultId h (length bs) now m)
          (rev_id br) (map rev_id inc) (Some (dep_deviceId deps))"])
      (auto simp: mergedRevision_def res_bind_eq_Inr Let_def dest!: base_revision_fields)
  then show ?thesis
    using assms(1) unfolding merge_def wp_bind [of "act_read _"] wp_read Inr inputs sum.case prod.case
    by (cases "dep_merge deps vaultId loc mats credentials") (simp_all del: wp_bind)
qed

lemma head_move_ok:
  assumes "engine_ok s"
    and "\<And>next ev. mv = Inr (next, ev) \<Longrightarrow> \<exists>h r. vault_headRevisionId next = Some h \<and>
      ms_getRevision md h (en_md s) = Some r \<and> rev_vaultId r = vault_id next"
  shows "wp (act_bind (act_lift mv) (save_head_move deps)) (\<lambda>_. engine_ok) s"
proof (cases mv)
  case (Inl e)
  then show ?thesis using assms(1) by simp
next
  case (Inr p)
  obtain nxt ev where p: "p = (nxt, ev)" by (cases p)
  have ok: "stores_ok (en_md s) (en_bl s)" using assms(1) by (simp add: engine_ok_def)
  have "wp (transaction (act_bind (ms_saveVault md nxt) (\<lambda>_. act_bind (ms_appendHeadEvent md ev)
      (\<lambda>_. act_return nxt)))) (\<lambda>_ m'. stores_ok m' (en_bl s)) (en_md s)"
    by (rule wp_txn [OF ok], subst wp_bind, rule wp_save_vault [OF ok])
      (use assms(2) Inr p in \<open>auto intro!: wp_head_event split: sum.split\<close>)
  then show ?thesis using Inr p by (simp add: save_head_move_def engine_ok_def del: wp_transaction)
qed

lemma head_move_fields:
  "promoteRevision v r now = Inr (nxt, ev) \<Longrightarrow>
     vault_headRevisionId nxt = Some (rev_id r) \<and> vault_id nxt = vault_id v \<and> rev_vaultId r = vault_id v"
  "fastForwardRevision v r now = Inr (nxt, ev) \<Longrightarrow>
     vault_headRevisionId nxt = Some (rev_id r) \<and> vault_id nxt = vault_id v \<and> rev_vaultId r = vault_id v"
  by (auto simp: promoteRevision_def fastForwardRevision_def moveHead_def res_bind_eq_Inr)

lemma promote_ok:
  assumes "engine_ok s"
  shows "wp (promote deps vaultId revisionId now) (\<lambda>_. engine_ok) s"
    and "wp (fastForward deps vaultId revisionId now) (\<lambda>_. engine_ok) s"
proof -
  have req: "requireVault deps vaultId s = Inr v \<Longrightarrow> requireRevision deps revisionId s = Inr r \<Longrightarrow>
      vault_id v = vaultId \<and> rev_id r = revisionId \<and> ms_getRevision md revisionId (en_md s) = Some r" for v r
    using get_vault_id get_rev_id by auto
  have move: "wp (act_bind (act_lift mv) (save_head_move deps)) (\<lambda>_. engine_ok) s"
    if "mv = promoteRevision v r now \<or> mv = fastForwardRevision v r now"
      "vault_id v = vaultId \<and> rev_id r = revisionId \<and> ms_getRevision md revisionId (en_md s) = Some r" for mv v r
    by (rule head_move_ok [OF assms])
      (use that head_move_fields in \<open>metis\<close>)
  consider e where "requireVault deps vaultId s = Inl e"
    | v e where "requireVault deps vaultId s = Inr v" "requireRevision deps revisionId s = Inl e"
    | v r where "requireVault deps vaultId s = Inr v" "requireRevision deps revisionId s = Inr r"
    by (metis obj_sumE)
  note cases = this
  show "wp (promote deps vaultId revisionId now) (\<lambda>_. engine_ok) s"
    unfolding promote_def wp_bind [of "act_read _"] wp_read
    using cases by cases (simp_all only: sum.case assms move [OF disjI1 [OF refl] req])
  show "wp (fastForward deps vaultId revisionId now) (\<lambda>_. engine_ok) s"
    unfolding fastForward_def wp_bind [of "act_read _"] wp_read
    using cases by cases (simp_all only: sum.case assms move [OF disjI2 [OF refl] req])
qed

lemma adopt_ok:
  assumes "engine_ok s"
  shows "wp (adoptVault deps vaultId name now) (\<lambda>_. engine_ok) s"
proof (cases "ms_getVault md vaultId (en_md s)")
  case None
  let ?vt = "\<lparr>vault_id = vaultId, vault_name = name, vault_headRevisionId = None,
                       vault_kdbxPath = None, vault_createdAt = now\<rparr>"
  have "wp (act_bind (on_md (ms_saveVault md ?vt)) (\<lambda>_. act_return ?vt)) (\<lambda>_. engine_ok) s"
    unfolding wp_bind wp_on_md
    by (rule wp_save_vault [of _ "en_bl s"]) (use assms in \<open>simp_all add: engine_ok_def\<close>)
  then show ?thesis using None by (simp add: wp_def adoptVault_def Let_def)
qed (use assms in \<open>simp add: wp_def adoptVault_def\<close>)

lemma bind_ok:
  assumes "engine_ok s"
  shows "wp (bindVaultToFile deps vaultId file) (\<lambda>_. engine_ok) s"
proof (cases "requireVault deps vaultId s")
  case (Inr v)
  then have v: "ms_getVault md vaultId (en_md s) = Some v" "vault_id v = vaultId"
    using get_vault_id by auto
  let ?vt = "v\<lparr>vault_kdbxPath := Some file\<rparr>"
  have "wp (act_bind (on_md (ms_saveVault md ?vt)) (\<lambda>_. act_return ?vt)) (\<lambda>_. engine_ok) s"
    unfolding wp_bind wp_on_md
    by (rule wp_save_vault [of _ "en_bl s"])
      (use assms v in \<open>auto simp: engine_ok_def stores_ok_def heads_ok_def\<close>)
  then show ?thesis
    unfolding bindVaultToFile_def Let_def wp_bind [of "act_read _"] wp_read Inr sum.case by simp
qed (use assms in \<open>simp add: bindVaultToFile_def\<close>)

lemma peer_head_ok:
  assumes "engine_ok s"
  shows "wp (engine_recordPeerHead deps d v h now) (\<lambda>_. engine_ok) s"
  unfolding engine_recordPeerHead_def wp_on_md
  by (rule wpI) (use assms stores_peer_head in \<open>auto simp: engine_ok_def\<close>)

lemma engine_step_ok: "engine_step deps s t \<Longrightarrow> engine_ok s \<Longrightarrow> engine_ok t"
  by (induction rule: engine_step.induct)
    (auto dest: wpD [OF import_ok] wpD [OF local_ok] wpD [OF ingest_ok] wpD [OF merge_ok]
      wpD [OF promote_ok(1)] wpD [OF promote_ok(2)] wpD [OF adopt_ok] wpD [OF bind_ok] wpD [OF peer_head_ok])

lemma engine_run_ok: "engine_run deps s t \<Longrightarrow> engine_ok s \<Longrightarrow> engine_ok t"
  by (induction rule: engine_run.induct) (auto dest: engine_step_ok)

lemma received_ok:
  assumes "\<not> ms_hasRevision md (in_revisionId i) m" "\<forall>p \<in> set (in_declaredParentIds i). ms_hasRevision md p m"
  shows "receivedRevision (seed (in_revisionId i) (in_vaultId i) h (length (in_bytes i)) now (in_message i))
      (in_declaredParentIds i) (in_fromDeviceId i) =
    Inr \<lparr>rev_id = in_revisionId i, rev_vaultId = in_vaultId i, rev_hash = h,
         rev_sizeBytes = int (length (in_bytes i)), rev_createdAt = now,
         rev_originDeviceId = Some (in_fromDeviceId i), rev_parentIds = in_declaredParentIds i,
         rev_operation = Received, rev_message = in_message i\<rparr>"
  using assms by (auto simp: receivedRevision_def base_revision_def seed_def)

definition ingestible :: "IngestInput \<Rightarrow> 'm \<Rightarrow> bool" where
  "ingestible i m \<longleftrightarrow> \<not> ms_hasRevision md (in_revisionId i) m \<and> dep_sha256 deps (in_bytes i) = in_declaredHash i \<and>
     (\<forall>p \<in> set (in_declaredParentIds i). ms_hasRevision md p m)"

lemma ingest_refused:
  assumes "\<not> ingestible i (en_md s)"
  shows "\<exists>r. ingestReceivedRevision deps i now s = (Inr r, s) \<and> (\<forall>rev. r \<noteq> Stored rev)"
  using assms missing_parent_None [of deps "in_declaredParentIds i" "en_md s"]
  by (auto simp: ingestible_def ingestReceivedRevision_def split: option.split)

lemma ingest_runs:
  assumes "ingestible i (en_md s)" "bl_put bl (in_bytes i) (en_bl s) = (pr, b')"
    and "ms_saveRevision md \<lparr>rev_id = in_revisionId i, rev_vaultId = in_vaultId i, rev_hash = in_declaredHash i,
         rev_sizeBytes = int (length (in_bytes i)), rev_createdAt = now,
         rev_originDeviceId = Some (in_fromDeviceId i), rev_parentIds = in_declaredParentIds i,
         rev_operation = Received, rev_message = in_message i\<rparr> (en_md s) = (sr, m')"
  shows "ingestReceivedRevision deps i now s =
    (case pr of Inl e \<Rightarrow> (Inl e, s\<lparr>en_bl := b'\<rparr>)
     | Inr h \<Rightarrow> (case sr of Inl e \<Rightarrow> (Inl e, s\<lparr>en_bl := b', en_md := m'\<rparr>)
         | Inr u \<Rightarrow> (Inr (Stored \<lparr>rev_id = in_revisionId i, rev_vaultId = in_vaultId i, rev_hash = in_declaredHash i,
             rev_sizeBytes = int (length (in_bytes i)), rev_createdAt = now,
             rev_originDeviceId = Some (in_fromDeviceId i), rev_parentIds = in_declaredParentIds i,
             rev_operation = Received, rev_message = in_message i\<rparr>), s\<lparr>en_bl := b', en_md := m'\<rparr>)))"
proof -
  have parents: "missing_parent deps (in_declaredParentIds i) (en_md s) = None"
    using assms(1) by (simp add: ingestible_def missing_parent_None)
  have rv: "receivedRevision (seed (in_revisionId i) (in_vaultId i) (in_declaredHash i) (length (in_bytes i)) now (in_message i))
      (in_declaredParentIds i) (in_fromDeviceId i) = Inr \<lparr>rev_id = in_revisionId i, rev_vaultId = in_vaultId i,
         rev_hash = in_declaredHash i, rev_sizeBytes = int (length (in_bytes i)), rev_createdAt = now,
         rev_originDeviceId = Some (in_fromDeviceId i), rev_parentIds = in_declaredParentIds i,
         rev_operation = Received, rev_message = in_message i\<rparr>"
    by (rule received_ok) (use assms(1) in \<open>auto simp: ingestible_def\<close>)
  show ?thesis
    using assms parents rv
    by (simp add: ingestReceivedRevision_def ingestible_def act_bind_simp on_bl_def on_md_def split: sum.split)
qed

lemma ingest_accepted:
  assumes ok: "engine_ok s" and ing: "ingestible i (en_md s)" and run: "ingestReceivedRevision deps i now s = (Inr r, t)"
  obtains ps where "r = Stored (received_revision_of i now)" "set ps = set (in_declaredParentIds i)"
    "ms_getRevision md (in_revisionId i) (en_md t) = Some ((received_revision_of i now)\<lparr>rev_parentIds := ps\<rparr>)"
    "\<And>j. j \<noteq> in_revisionId i \<Longrightarrow> ms_getRevision md j (en_md t) = ms_getRevision md j (en_md s)"
    "\<And>v. ms_getVault md v (en_md t) = ms_getVault md v (en_md s)"
    "\<exists>c. bl_get bl (in_declaredHash i) (en_bl t) = Inr c \<and> dep_sha256 deps c = in_declaredHash i"
proof -
  let ?r = "received_revision_of i now"
  obtain pr b' where put: "bl_put bl (in_bytes i) (en_bl s) = (pr, b')" by fastforce
  obtain sr m' where save: "ms_saveRevision md ?r (en_md s) = (sr, m')" by fastforce
  note eq = ingest_runs [OF ing put save [unfolded received_revision_of_def], folded received_revision_of_def]
  obtain h where pr: "pr = Inr h" and sr: "sr = Inr ()" and r: "r = Stored ?r"
    and t: "t = s\<lparr>en_bl := b', en_md := m'\<rparr>"
    using run eq by (auto split: sum.splits)
  have inv: "md_inv (en_md s)" "blob_inv (en_bl s)" using ok by (simp_all add: engine_ok_def stores_ok_def)
  have id: "rev_id ?r = in_revisionId i" "rev_parentIds ?r = in_declaredParentIds i"
    by (simp_all add: received_revision_of_def)
  have new: "\<not> ms_hasRevision md (rev_id ?r) (en_md s)" using ing id by (simp add: ingestible_def)
  note sv = save_revision [OF inv(1) save new]
  note stored = mp [OF conjunct2 [OF conjunct2 [OF conjunct2 [OF conjunct2 [OF sv]]]] sr]
  from conjunct1 [OF stored] obtain ps where ps: "set ps = set (in_declaredParentIds i)"
    "ms_getRevision md (in_revisionId i) m' = Some (?r\<lparr>rev_parentIds := ps\<rparr>)"
    unfolding id by (elim exE conjE)
  have "\<exists>c. bl_get bl h b' = Inr c \<and> dep_sha256 deps c = dep_sha256 deps (in_bytes i)" "h = dep_sha256 deps (in_bytes i)"
    using put_then_get [OF inv(2) put [unfolded pr]] put_key [OF put [unfolded pr]] by auto
  then have "\<exists>c. bl_get bl (in_declaredHash i) (en_bl t) = Inr c \<and> dep_sha256 deps c = in_declaredHash i"
    using ing t by (simp add: ingestible_def)
  moreover have "ms_getRevision md j (en_md t) = ms_getRevision md j (en_md s)" if "j \<noteq> in_revisionId i" for j
    using conjunct2 [OF stored] that id t by simp
  moreover have "ms_getVault md v (en_md t) = ms_getVault md v (en_md s)" for v
    using conjunct1 [OF conjunct2 [OF sv]] t by simp
  ultimately show thesis using that [OF r ps(1)] ps(2) t by simp
qed

lemma summary_accepted:
  assumes "engine_ok s"
  shows "validateRemoteGraph (map (\<lambda>e. \<lparr>node_id = hs_revisionId e, node_parentIds = hs_parentIds e\<rparr>)
    (historySummary deps v s)) = Inr ()"
proof -
  have inv: "md_inv (en_md s)" using assms by (simp add: engine_ok_def stores_ok_def)
  let ?ns = "map (\<lambda>e. \<lparr>node_id = hs_revisionId e, node_parentIds = hs_parentIds e\<rparr>) (historySummary deps v s)"
  have ns: "?ns = map (\<lambda>r. \<lparr>node_id = rev_id r, node_parentIds = rev_parentIds r\<rparr>) (ms_listRevisions md v (en_md s))"
    by (simp add: historySummary_def)
  have "edge (buildGraph ?ns) \<subseteq> edge (ms_loadGraph md v (en_md s))"
  proof clarify
    fix x p assume "(x, p) \<in> edge (buildGraph ?ns)"
    then obtain node where n: "graph_get (buildGraph ?ns) x = Some node" "p \<in> set (node_parentIds node)"
      by (auto simp: edge_iff)
    then have "node \<in> set ?ns" "node_id node = x" using graph_get_buildGraph_Some [OF n(1)] by auto
    then obtain r i where r: "ms_getRevision md i (en_md s) = Some r" "rev_vaultId r = v"
      "node = \<lparr>node_id = rev_id r, node_parentIds = rev_parentIds r\<rparr>"
      unfolding ns using listed [OF inv] by auto
    then have "i = x" using get_rev_id \<open>node_id node = x\<close> by fastforce
    then show "(x, p) \<in> edge (ms_loadGraph md v (en_md s))"
      using r n(2) graph_of [OF inv] by (simp add: edge_iff)
  qed
  then have "acyclic (edge (buildGraph ?ns))" using acyclic_graph [OF inv] acyclic_subset by blast
  moreover have "distinct (map node_id ?ns)"
    using listed_once [OF inv] by (simp add: ns comp_def)
  ultimately show ?thesis by (simp add: validateRemoteGraph_iff)
qed

end

section \<open>The desktop's ports\<close>

type_synonym ('c, 'd) desktop = "(metadata_db, disk, 'c, 'd) EngineDeps"

definition desktop_deps ::
  "(bytes \<Rightarrow> Sha256Hex) \<Rightarrow> (VaultId \<Rightarrow> material \<Rightarrow> material list \<Rightarrow> 'c \<Rightarrow> InterpretationResult) \<Rightarrow>
   (VaultId \<Rightarrow> material \<Rightarrow> material list \<Rightarrow> 'c \<Rightarrow> 'd DiffResult) \<Rightarrow> DeviceId \<Rightarrow> ('c, 'd) desktop" where
  "desktop_deps sha256 mergef difff deviceId =
     \<lparr>dep_metadata = SqliteMetadataStore, dep_blobs = FileBlobStore sha256, dep_sha256 = sha256,
      dep_merge = mergef, dep_diff = difff, dep_deviceId = deviceId\<rparr>"

lemma desktop_deps_simps [simp]:
  "dep_metadata (desktop_deps sha256 mergef difff deviceId) = SqliteMetadataStore"
  "dep_blobs (desktop_deps sha256 mergef difff deviceId) = FileBlobStore sha256"
  "dep_sha256 (desktop_deps sha256 mergef difff deviceId) = sha256"
  by (simp_all add: desktop_deps_def)

interpretation desktop: sync_engine "desktop_deps sha256 mergef difff deviceId" db_ok
    "\<lambda>d. blobs_ok sha256 (dk_files d)"
  for sha256 mergef difff deviceId
  unfolding sync_engine_def desktop_deps_simps
  using sqlite_md.metadata_store_axioms file_store.blob_store_axioms by blast

lemma md_simps [simp]:
  "ms_getVault SqliteMetadataStore = getVault" "ms_getRevision SqliteMetadataStore = getRevision"
  "ms_hasRevision SqliteMetadataStore = hasRevision"
  by (simp_all add: SqliteMetadataStore_def)

lemma bl_simps [simp]:
  "bl_get (FileBlobStore sha256) = file_get" "bl_has (FileBlobStore sha256) = file_has"
  "bl_put (FileBlobStore sha256) = file_put sha256"
  by (simp_all add: FileBlobStore_def)

text \<open>A new installation: no rows, no blobs, any outcomes of its future writes.\<close>

definition fresh_install :: "(string \<times> io_outcome) list \<Rightarrow> (metadata_db, disk) engine" where
  "fresh_install tape = \<lparr>en_md = empty_db, en_bl = \<lparr>dk_files = [], dk_tape = tape\<rparr>\<rparr>"

lemma empty_db_reads [simp]: "getVault v empty_db = None" "getRevision i empty_db = None"
  by (simp_all add: getVault_def getRevision_def empty_db_def)

abbreviation desktop_ok where
  "desktop_ok sha256 mergef difff deviceId \<equiv>
     sync_engine.engine_ok (desktop_deps sha256 mergef difff deviceId) db_ok (\<lambda>d. blobs_ok sha256 (dk_files d))"

lemmas desktop_ok_defs = desktop.engine_ok_def desktop.stores_ok_def

lemma fresh_install_ok: "desktop_ok sha256 mergef difff deviceId (fresh_install tape)"
  by (simp add: desktop_ok_defs fresh_install_def heads_ok_def blobs_present_def)

lemma desktop_ok_sound:
  assumes "desktop_ok sha256 mergef difff deviceId s"
  shows "db_ok (en_md s)" and "blobs_ok sha256 (dk_files (en_bl s))"
    and "getRevision i (en_md s) = Some r \<Longrightarrow> \<exists>c. file_get (rev_hash r) (en_bl s) = Inr c \<and> sha256 c = rev_hash r"
    and "getVault v (en_md s) = Some vt \<Longrightarrow> vault_headRevisionId vt = Some h \<Longrightarrow>
      \<exists>r. getRevision h (en_md s) = Some r \<and> rev_vaultId r = v"
proof -
  show "db_ok (en_md s)" and inv: "blobs_ok sha256 (dk_files (en_bl s))"
    using assms by (simp_all add: desktop_ok_defs)
  show "\<exists>c. file_get (rev_hash r) (en_bl s) = Inr c \<and> sha256 c = rev_hash r" if "getRevision i (en_md s) = Some r"
  proof -
    have "file_has (rev_hash r) (en_bl s)" using assms that by (simp add: desktop_ok_defs blobs_present_def)
    then show ?thesis using inv by (auto simp: file_has_iff file_get_iff blobs_ok_def)
  qed
  show "\<exists>r. getRevision h (en_md s) = Some r \<and> rev_vaultId r = v"
    if "getVault v (en_md s) = Some vt" "vault_headRevisionId vt = Some h"
    using assms that by (simp add: desktop_ok_defs heads_ok_def)
qed

section \<open>Properties\<close>

text \<open>
  C1: Whatever sequence of imports, local changes, received revisions, merges, promotions,
  fast-forwards, adoptions and file bindings a desktop installation goes through, also when writes of
  blobs fail on the way: its tables satisfy their invariant, the bytes of every stored revision are in
  the blob store under its hash and still hash to it, and the head of every vault is a stored revision
  of that very vault.\<close>

theorem engine_history_sound:
  assumes "engine_run (desktop_deps sha256 mergef difff deviceId) (fresh_install tape) s"
  shows "db_ok (en_md s) \<and>
    (\<forall>i r. getRevision i (en_md s) = Some r \<longrightarrow>
       (\<exists>c. bytesOf (desktop_deps sha256 mergef difff deviceId) i s = Inr c \<and> sha256 c = rev_hash r)) \<and>
    (\<forall>v vt h. getVault v (en_md s) = Some vt \<longrightarrow> vault_headRevisionId vt = Some h \<longrightarrow>
       (\<exists>r. getRevision h (en_md s) = Some r \<and> rev_vaultId r = v))"
proof -
  have ok: "desktop_ok sha256 mergef difff deviceId s"
    using desktop.engine_run_ok [OF assms fresh_install_ok] .
  have "\<exists>c. bytesOf (desktop_deps sha256 mergef difff deviceId) i s = Inr c \<and> sha256 c = rev_hash r"
    if "getRevision i (en_md s) = Some r" for i r
    using desktop_ok_sound(3) [OF ok that] that by (simp add: bytesOf_def requireRevision_def)
  then show ?thesis using desktop_ok_sound [OF ok] by blast
qed

definition sample_sha :: "bytes \<Rightarrow> string" where
  "sample_sha b = (if b = [1] then replicate 64 CHR ''a'' else replicate 64 CHR ''b'')"

definition sample_deps :: "(unit, unit) desktop" where
  "sample_deps = desktop_deps sample_sha (\<lambda>_ _ _ _. MergeFailed '''') (\<lambda>_ _ _ _. DiffReady ()) ''dev''"

definition imported_state :: "(metadata_db, disk) engine" where
  "imported_state = snd (importVault sample_deps ''home'' [1] None 7 ''v'' ''r0'' (fresh_install []))"

lemma imported_run: "engine_run sample_deps (fresh_install []) imported_state"
proof (rule run_step [OF run_none])
  have "\<not> hasRevision ''r0'' empty_db" by (simp add: hasRevision_def empty_db_def)
  then show "engine_step sample_deps (fresh_install []) imported_state"
    unfolding imported_state_def
    by (intro step_import [of _ "''r0''" _ "''home''" "[1]" None 7 "''v''", OF _ surjective_pairing])
      (simp add: sample_deps_def fresh_install_def)
qed

lemma imported_reads:
  "getRevision ''r0'' (en_md imported_state) = Some \<lparr>rev_id = ''r0'', rev_vaultId = ''v'',
     rev_hash = replicate 64 CHR ''a'', rev_sizeBytes = 1, rev_createdAt = 7, rev_originDeviceId = Some ''dev'',
     rev_parentIds = [], rev_operation = Imported, rev_message = Some ''home''\<rparr>"
  by code_simp

theorem engine_history_sound_witness:
  "\<exists>c. bytesOf sample_deps ''r0'' imported_state = Inr c \<and> sample_sha c = replicate 64 CHR ''a''"
  using engine_history_sound [OF imported_run [unfolded sample_deps_def]] imported_reads
  by (fastforce simp: sample_deps_def)

text \<open>
  C3: Receiving a revision. On a sound desktop state, bytes from a peer are stored exactly when the
  revision is new, the bytes hash to the declared hash and every declared parent is already stored
  (given that the blob write and the vault's row do not fail); otherwise the answer says so and nothing
  changes. What is stored is the declared revision with the sender's id, hash and parents, readable
  back by its hash; no other revision and no vault, so no head, is touched.\<close>

theorem ingest_received_exact:
  assumes "engine_run (desktop_deps sha256 mergef difff deviceId) (fresh_install tape) s"
    and "ingestReceivedRevision (desktop_deps sha256 mergef difff deviceId) i now s = (Inr r, t)"
  shows "if \<not> hasRevision (in_revisionId i) (en_md s) \<and> sha256 (in_bytes i) = in_declaredHash i \<and>
           (\<forall>p \<in> set (in_declaredParentIds i). hasRevision p (en_md s))
         then r = Stored (received_revision_of i now) \<and>
           (\<exists>ps. set ps = set (in_declaredParentIds i) \<and>
              getRevision (in_revisionId i) (en_md t) = Some ((received_revision_of i now)\<lparr>rev_parentIds := ps\<rparr>)) \<and>
           (\<exists>c. file_get (in_declaredHash i) (en_bl t) = Inr c \<and> sha256 c = in_declaredHash i) \<and>
           (\<forall>j. j \<noteq> in_revisionId i \<longrightarrow> getRevision j (en_md t) = getRevision j (en_md s)) \<and>
           (\<forall>v. getVault v (en_md t) = getVault v (en_md s))
         else t = s \<and> (\<forall>rev. r \<noteq> Stored rev)"
proof -
  let ?ing = "sync_engine.ingestible (desktop_deps sha256 mergef difff deviceId) i (en_md s)"
  have ok: "desktop_ok sha256 mergef difff deviceId s"
    using desktop.engine_run_ok [OF assms(1) fresh_install_ok] .
  have ing: "?ing \<longleftrightarrow> \<not> hasRevision (in_revisionId i) (en_md s) \<and> sha256 (in_bytes i) = in_declaredHash i \<and>
      (\<forall>p \<in> set (in_declaredParentIds i). hasRevision p (en_md s))"
    by (simp add: desktop.ingestible_def)
  show ?thesis
  proof (cases ?ing)
    case True
    show ?thesis
      by (rule desktop.ingest_accepted [OF ok True assms(2)]) (use True in \<open>auto simp: ing\<close>)
  next
    case False
    from desktop.ingest_refused [OF this, of now] assms(2) False show ?thesis by (auto simp: ing)
  qed
qed

definition sample_ingest :: IngestInput where
  "sample_ingest = \<lparr>in_vaultId = ''v'', in_revisionId = ''r1'', in_declaredParentIds = [''r0''],
     in_declaredHash = replicate 64 CHR ''b'', in_bytes = [2], in_fromDeviceId = ''peer'', in_message = None\<rparr>"

theorem ingest_received_exact_witness:
  "\<exists>t. ingestReceivedRevision sample_deps sample_ingest 9 imported_state =
      (Inr (Stored (received_revision_of sample_ingest 9)), t) \<and>
    getVault ''v'' (en_md t) = getVault ''v'' (en_md imported_state)"
proof -
  have "case ingestReceivedRevision sample_deps sample_ingest 9 imported_state of
      (Inr (Stored r), t) \<Rightarrow> r = received_revision_of sample_ingest 9 | _ \<Rightarrow> False"
    by code_simp
  then obtain t where *: "ingestReceivedRevision sample_deps sample_ingest 9 imported_state =
      (Inr (Stored (received_revision_of sample_ingest 9)), t)"
    by (auto split: prod.splits sum.splits IngestResult.splits)
  from ingest_received_exact [OF imported_run [unfolded sample_deps_def] * [unfolded sample_deps_def]] *
  show ?thesis by (auto split: if_splits)
qed

text \<open>
  What one device sends another accepts. The history summary that a desktop installation builds
  for any of its vaults passes the validation of a peer's history (no repeated id, no cycle), so an
  honest peer's summary is never refused.\<close>

theorem own_summary_accepted:
  assumes "engine_run (desktop_deps sha256 mergef difff deviceId) (fresh_install tape) s"
  shows "validateRemoteGraph (map (\<lambda>e. \<lparr>node_id = hs_revisionId e, node_parentIds = hs_parentIds e\<rparr>)
      (historySummary (desktop_deps sha256 mergef difff deviceId) v s)) = Inr ()"
  using desktop.summary_accepted desktop.engine_run_ok [OF assms fresh_install_ok] by blast

theorem own_summary_accepted_witness:
  "validateRemoteGraph (map (\<lambda>e. \<lparr>node_id = hs_revisionId e, node_parentIds = hs_parentIds e\<rparr>)
      (historySummary sample_deps ''v'' imported_state)) = Inr ()"
  using own_summary_accepted [OF imported_run [unfolded sample_deps_def]] by (simp add: sample_deps_def)

end
