(* ===== verification/Control_Inbox.thy ===== *)
theory Control_Inbox
  imports Wire_Protocol
begin

text \<open>
  The inbox of the control channel (packages/sync/src/controlInbox.ts).

  A handler is registered for a message type; its body belongs to the session, so the inbox only
  records which types have one, and says with \<open>RunHandler\<close> that it runs. A waiter is the pair of
  callbacks of one pending \<open>expect\<close>: it is a number, its rejecter is known together with the type
  it waits for. What the callbacks of an operation do is the list of effects it returns, in order.
\<close>

section \<open>State\<close>

datatype SessionCode = ProtocolCode ProtocolErrorCode | Timeout | Closed

record SessionError =
  se_code :: SessionCode
  se_message :: string

datatype inbox_effect =
    RunHandler ProtocolMessage
  | Settle nat ProtocolMessage
  | RejectWait nat SessionError

record ControlInbox =
  ib_handlers :: "string list"
  ib_queued :: "(string \<times> ProtocolMessage list) list"
  ib_waiters :: "(string \<times> nat list) list"
  ib_failure :: "SessionError option"
  ib_rejecters :: "(nat \<times> string) list"

definition new_ControlInbox :: ControlInbox where
  "new_ControlInbox = \<lparr>ib_handlers = [], ib_queued = [], ib_waiters = [], ib_failure = None, ib_rejecters = []\<rparr>"

definition queue_of :: "ControlInbox \<Rightarrow> string \<Rightarrow> ProtocolMessage list" where
  "queue_of this t = (case map_of (ib_queued this) t of None \<Rightarrow> [] | Some ms \<Rightarrow> ms)"

definition waiters_of :: "ControlInbox \<Rightarrow> string \<Rightarrow> nat list" where
  "waiters_of this t = (case map_of (ib_waiters this) t of None \<Rightarrow> [] | Some ws \<Rightarrow> ws)"

section \<open>Operations\<close>

definition set_queue :: "string \<Rightarrow> ProtocolMessage list \<Rightarrow> ControlInbox \<Rightarrow> ControlInbox" where
  "set_queue t ms this = this\<lparr>ib_queued := AList.update t ms (ib_queued this)\<rparr>"

definition set_waiters :: "string \<Rightarrow> nat list \<Rightarrow> ControlInbox \<Rightarrow> ControlInbox" where
  "set_waiters t ws this = this\<lparr>ib_waiters := AList.update t ws (ib_waiters this)\<rparr>"

text \<open>\<open>cleanup\<close> of a pending \<open>expect\<close>: its rejecter goes, and its waiter if it is still listed.\<close>

definition cleanup_wait :: "nat \<Rightarrow> string \<Rightarrow> ControlInbox \<Rightarrow> ControlInbox" where
  "cleanup_wait w t this =
     (let this' = this\<lparr>ib_rejecters := removeAll (w, t) (ib_rejecters this)\<rparr>
      in if w \<in> set (waiters_of this' t) then set_waiters t (remove1 w (waiters_of this' t)) this' else this')"

definition fail_inbox :: "SessionError \<Rightarrow> ControlInbox \<Rightarrow> inbox_effect list \<times> ControlInbox" where
  "fail_inbox error this =
     (let this1 = this\<lparr>ib_failure := (case ib_failure this of None \<Rightarrow> Some error | Some e \<Rightarrow> Some e)\<rparr>;
          this2 = fold (\<lambda>(w, t). cleanup_wait w t) (ib_rejecters this) this1
      in (map (\<lambda>(w, t). RejectWait w error) (ib_rejecters this), this2\<lparr>ib_rejecters := []\<rparr>))"

definition route_message :: "ProtocolMessage \<Rightarrow> ControlInbox \<Rightarrow> inbox_effect list \<times> ControlInbox" where
  "route_message message this =
     (let t = message_type message in
      if t \<in> set (ib_handlers this) then ([RunHandler message], this)
      else case waiters_of this t of
        w # ws \<Rightarrow> ([Settle w message], cleanup_wait w t (set_waiters t ws this))
      | [] \<Rightarrow> ([], set_queue t (queue_of this t @ [message]) this))"

definition accept_control :: "json option \<Rightarrow> ControlInbox \<Rightarrow> inbox_effect list \<times> ControlInbox" where
  "accept_control raw this =
     (case parseMessage raw of
        Refused code reason \<Rightarrow> fail_inbox \<lparr>se_code = ProtocolCode code, se_message = reason\<rparr> this
      | Parsed message \<Rightarrow>
          (case message of
             ErrorMessage code msg \<Rightarrow>
               fail_inbox \<lparr>se_code = ProtocolCode code, se_message = ''peer reported: '' @ msg\<rparr> this
           | _ \<Rightarrow> route_message message this))"

text \<open>Registering a handler runs it on what was queued for it.\<close>

definition on_message :: "string \<Rightarrow> ControlInbox \<Rightarrow> inbox_effect list \<times> ControlInbox" where
  "on_message t this =
     (map RunHandler (queue_of this t),
      this\<lparr>ib_handlers := set_add (ib_handlers this) t, ib_queued := AList.delete t (ib_queued this)\<rparr>)"

datatype expectation = Refuse SessionError | Ready ProtocolMessage | Wait

definition expect_message :: "string \<Rightarrow> nat \<Rightarrow> ControlInbox \<Rightarrow> expectation \<times> ControlInbox" where
  "expect_message t w this =
     (case ib_failure this of
        Some e \<Rightarrow> (Refuse e, this)
      | None \<Rightarrow>
          if t \<in> set (ib_handlers this)
          then (Refuse \<lparr>se_code = ProtocolCode Internal,
                  se_message = ''cannot expect '' @ t @ '': a handler is already registered for it''\<rparr>, this)
          else case queue_of this t of
            ready # rest \<Rightarrow> (Ready ready, set_queue t rest this)
          | [] \<Rightarrow> (Wait, set_waiters t (waiters_of this t @ [w])
                     (this\<lparr>ib_rejecters := ib_rejecters this @ [(w, t)]\<rparr>)))"

text \<open>The timer of a pending \<open>expect\<close>.\<close>

definition timeout_wait :: "nat \<Rightarrow> string \<Rightarrow> ControlInbox \<Rightarrow> inbox_effect list \<times> ControlInbox" where
  "timeout_wait w t this =
     (if (w, t) \<in> set (ib_rejecters this)
      then ([RejectWait w \<lparr>se_code = Timeout, se_message = ''timed out waiting for '' @ t\<rparr>], cleanup_wait w t this)
      else ([], this))"

section \<open>Reading the state after an operation\<close>

lemma queue_of_set [simp]:
  "queue_of (set_queue t ms this) t' = (if t' = t then ms else queue_of this t')"
  "queue_of (set_waiters t ws this) t' = queue_of this t'"
  by (simp_all add: queue_of_def set_queue_def set_waiters_def)

lemma waiters_of_set [simp]:
  "waiters_of (set_waiters t ws this) t' = (if t' = t then ws else waiters_of this t')"
  "waiters_of (set_queue t ms this) t' = waiters_of this t'"
  by (simp_all add: waiters_of_def set_queue_def set_waiters_def)

lemma set_queue_fields [simp]:
  "ib_handlers (set_queue t ms this) = ib_handlers this" "ib_failure (set_queue t ms this) = ib_failure this"
  "ib_rejecters (set_queue t ms this) = ib_rejecters this"
  by (simp_all add: set_queue_def)

lemma set_waiters_fields [simp]:
  "ib_handlers (set_waiters t ws this) = ib_handlers this" "ib_failure (set_waiters t ws this) = ib_failure this"
  "ib_rejecters (set_waiters t ws this) = ib_rejecters this"
  by (simp_all add: set_waiters_def)

lemma of_rejecters [simp]:
  "queue_of (this\<lparr>ib_rejecters := rs\<rparr>) = queue_of this" "waiters_of (this\<lparr>ib_rejecters := rs\<rparr>) = waiters_of this"
  "queue_of (this\<lparr>ib_failure := f\<rparr>) = queue_of this" "waiters_of (this\<lparr>ib_failure := f\<rparr>) = waiters_of this"
  by (auto simp: queue_of_def waiters_of_def)

lemma cleanup_wait_fields [simp]:
  "queue_of (cleanup_wait w t this) = queue_of this"
  "ib_handlers (cleanup_wait w t this) = ib_handlers this"
  "ib_failure (cleanup_wait w t this) = ib_failure this"
  "ib_rejecters (cleanup_wait w t this) = removeAll (w, t) (ib_rejecters this)"
  by (auto simp: cleanup_wait_def Let_def)

lemma waiters_cleanup [simp]:
  "waiters_of (cleanup_wait w t this) t' = (if t' = t then remove1 w (waiters_of this t) else waiters_of this t')"
  by (auto simp: cleanup_wait_def Let_def remove1_idem)

lemma cleanup_all_fields [simp]:
  "queue_of (fold (\<lambda>(w, t). cleanup_wait w t) rs this) = queue_of this"
  "ib_handlers (fold (\<lambda>(w, t). cleanup_wait w t) rs this) = ib_handlers this"
  "ib_failure (fold (\<lambda>(w, t). cleanup_wait w t) rs this) = ib_failure this"
  by (induction rs arbitrary: this) (auto split: prod.splits)

section \<open>Runs\<close>

text \<open>
  Everything that can happen to an inbox: a payload arrives, a wait begins or times out, a handler is
  registered, the session fails it. A run records the operations and the messages handed out by them,
  to a handler, to a wait that was pending or to one that began with the message queued. The number
  of a new wait is not the number of a pending one: the two are different closures.
\<close>

datatype inbox_op =
    Accept "json option"
  | Expect string nat
  | TimerFires nat string
  | Attach string
  | Fail SessionError

fun handed_out :: "inbox_effect \<Rightarrow> ProtocolMessage list" where
  "handed_out (RunHandler m) = [m]"
| "handed_out (Settle _ m) = [m]"
| "handed_out (RejectWait _ _) = []"

fun inbox_do :: "inbox_op \<Rightarrow> ControlInbox \<Rightarrow> ProtocolMessage list \<times> ControlInbox" where
  "inbox_do (Accept raw) this = (let (es, this') = accept_control raw this in (concat (map handed_out es), this'))"
| "inbox_do (Expect t w) this =
     (case expect_message t w this of (Ready m, this') \<Rightarrow> ([m], this') | (_, this') \<Rightarrow> ([], this'))"
| "inbox_do (TimerFires w t) this = (let (es, this') = timeout_wait w t this in (concat (map handed_out es), this'))"
| "inbox_do (Attach t) this = (let (es, this') = on_message t this in (concat (map handed_out es), this'))"
| "inbox_do (Fail e) this = (let (es, this') = fail_inbox e this in (concat (map handed_out es), this'))"

fun new_wait :: "inbox_op \<Rightarrow> ControlInbox \<Rightarrow> bool" where
  "new_wait (Expect _ w) this = (w \<notin> fst ` set (ib_rejecters this))"
| "new_wait _ _ = True"

inductive inbox_run :: "inbox_op list \<Rightarrow> ProtocolMessage list \<Rightarrow> ControlInbox \<Rightarrow> bool" where
  inbox_start: "inbox_run [] [] new_ControlInbox"
| inbox_next: "inbox_run ops out this \<Longrightarrow> new_wait op this \<Longrightarrow> inbox_do op this = (ms, this') \<Longrightarrow>
    inbox_run (ops @ [op]) (out @ ms) this'"

inductive_cases inbox_run_snocE: "inbox_run (ops @ [op]) out this"

fun arrived :: "string \<Rightarrow> inbox_op \<Rightarrow> ProtocolMessage list" where
  "arrived t (Accept raw) =
     (case parseMessage raw of
        Parsed m \<Rightarrow> (case m of ErrorMessage _ _ \<Rightarrow> [] | _ \<Rightarrow> if message_type m = t then [m] else [])
      | Refused _ _ \<Rightarrow> [])"
| "arrived t _ = []"

section \<open>The invariant\<close>

definition inbox_ok :: "ControlInbox \<Rightarrow> bool" where
  "inbox_ok this \<longleftrightarrow>
     (\<forall>t. waiters_of this t \<noteq> [] \<or> t \<in> set (ib_handlers this) \<longrightarrow> queue_of this t = []) \<and>
     (\<forall>w t. (w, t) \<in> set (ib_rejecters this) \<longleftrightarrow> w \<in> set (waiters_of this t)) \<and>
     (\<forall>t. distinct (waiters_of this t)) \<and>
     (\<forall>t. list_all (\<lambda>m. message_type m = t) (queue_of this t)) \<and>
     (ib_failure this \<noteq> None \<longrightarrow> ib_rejecters this = [])"

lemma inbox_ok_new: "inbox_ok new_ControlInbox"
  by (simp add: inbox_ok_def new_ControlInbox_def queue_of_def waiters_of_def)

lemma waiters_cleanup_all:
  assumes "distinct (waiters_of this t)"
  shows "set (waiters_of (fold (\<lambda>(w, t). cleanup_wait w t) rs this) t) =
      set (waiters_of this t) - {w. (w, t) \<in> set rs} \<and>
    distinct (waiters_of (fold (\<lambda>(w, t). cleanup_wait w t) rs this) t)"
  using assms
proof (induction rs arbitrary: this)
  case (Cons r rs)
  obtain w u where r: "r = (w, u)" by (cases r)
  have "distinct (waiters_of (cleanup_wait w u this) t)" using Cons.prems by (auto simp: distinct_remove1)
  from Cons.IH [OF this] Cons.prems show ?case by (auto simp: r set_remove1_eq split: if_splits)
qed simp

lemma inbox_ok_fail:
  assumes "inbox_ok this" "fail_inbox e this = (es, this')"
  shows "inbox_ok this'" and "\<And>t. waiters_of this' t = []" and "queue_of this' = queue_of this"
    and "concat (map handed_out es) = []" and "ib_failure this' \<noteq> None" and "ib_handlers this' = ib_handlers this"
proof -
  have es: "es = map (\<lambda>(w, t). RejectWait w e) (ib_rejecters this)" using assms(2) by (auto simp: fail_inbox_def Let_def)
  show "concat (map handed_out es) = []" by (auto simp: es split: prod.splits)
  show q: "queue_of this' = queue_of this" and f: "ib_failure this' \<noteq> None" and h: "ib_handlers this' = ib_handlers this"
    using assms(2) by (auto simp: fail_inbox_def Let_def split: option.split)
  have none: "waiters_of this' t = []" for t
  proof -
    have "set (waiters_of this' t) = set (waiters_of this t) - {w. (w, t) \<in> set (ib_rejecters this)}"
      using assms(1) assms(2) waiters_cleanup_all [of "this\<lparr>ib_failure := f\<rparr>" t "ib_rejecters this" for f]
      by (auto simp: fail_inbox_def Let_def inbox_ok_def)
    also have "\<dots> = {}" using assms(1) by (auto simp: inbox_ok_def)
    finally show ?thesis by simp
  qed
  then show "\<And>t. waiters_of this' t = []" .
  have "ib_rejecters this' = []" using assms(2) by (auto simp: fail_inbox_def Let_def)
  then show "inbox_ok this'" using assms(1) none q h by (auto simp: inbox_ok_def)
qed

lemma inbox_ok_cleanup:
  assumes "inbox_ok this"
  shows "inbox_ok (cleanup_wait w t this)"
  using assms by (auto simp: inbox_ok_def set_remove1_eq)

lemma inbox_ok_cong:
  assumes "inbox_ok a" "waiters_of b = waiters_of a" "queue_of b = queue_of a"
    "ib_handlers b = ib_handlers a" "ib_rejecters b = ib_rejecters a" "ib_failure b = ib_failure a"
  shows "inbox_ok b"
  using assms(1) by (simp add: inbox_ok_def assms(2-))

lemma settle_is_cleanup:
  assumes "waiters_of this t = w # ws" and "distinct (w # ws)"
  shows "waiters_of (cleanup_wait w t (set_waiters t ws this)) = waiters_of (cleanup_wait w t this)"
    "queue_of (cleanup_wait w t (set_waiters t ws this)) = queue_of (cleanup_wait w t this)"
    "ib_rejecters (cleanup_wait w t (set_waiters t ws this)) = ib_rejecters (cleanup_wait w t this)"
  using assms by (auto simp: remove1_idem)

lemma route_message_ok:
  assumes "inbox_ok this" "route_message m this = (es, this')"
  shows "inbox_ok this'" and "concat (map handed_out es) @ queue_of this' t =
    queue_of this t @ (if message_type m = t then [m] else []) \<or>
    message_type m \<noteq> t \<and> concat (map handed_out es) = [m] \<and> queue_of this' t = queue_of this t"
proof -
  let ?t = "message_type m"
  show "inbox_ok this'"
  proof (cases "?t \<in> set (ib_handlers this)")
    case False
    show ?thesis
    proof (cases "waiters_of this ?t")
      case Nil
      then show ?thesis using assms False by (auto simp: route_message_def Let_def inbox_ok_def split: if_splits)
    next
      case (Cons w ws)
      have dist: "distinct (w # ws)" using assms(1) by (simp add: inbox_ok_def flip: Cons)
      have this': "this' = cleanup_wait w ?t (set_waiters ?t ws this)"
        using assms(2) False Cons by (auto simp: route_message_def Let_def)
      show ?thesis
        unfolding this'
        by (rule inbox_ok_cong [OF inbox_ok_cleanup [OF assms(1), of w ?t] settle_is_cleanup(1,2) [OF Cons dist]])
          simp_all
    qed
  qed (use assms in \<open>auto simp: route_message_def Let_def\<close>)
  show "concat (map handed_out es) @ queue_of this' t =
    queue_of this t @ (if message_type m = t then [m] else []) \<or>
    message_type m \<noteq> t \<and> concat (map handed_out es) = [m] \<and> queue_of this' t = queue_of this t"
  proof -
    have empty: "waiters_of this ?t \<noteq> [] \<or> ?t \<in> set (ib_handlers this) \<Longrightarrow> queue_of this ?t = []"
      using assms(1) by (simp add: inbox_ok_def)
    show ?thesis
      using assms(2) empty by (auto simp: route_message_def Let_def split: if_splits list.splits)
  qed
qed

lemma filter_own_queue:
  "inbox_ok this \<Longrightarrow> filter (\<lambda>m. message_type m = t) (queue_of this u) = (if t = u then queue_of this u else [])"
  by (auto simp: inbox_ok_def list_all_iff filter_id_conv filter_empty_conv)

lemma handed_out_handlers [simp]:
  "concat (map handed_out (map RunHandler ms)) = ms" "concat (map (handed_out \<circ> RunHandler) ms) = ms"
  by (induction ms) auto

lemma accept_ok:
  assumes "inbox_ok this" "accept_control raw this = (es, this')"
  shows "inbox_ok this'" and "filter (\<lambda>m. message_type m = t) (concat (map handed_out es)) @ queue_of this' t =
    queue_of this t @ arrived t (Accept raw)"
proof -
  have routed: "filter (\<lambda>m. message_type m = t) (concat (map handed_out es)) @ queue_of this' t =
      queue_of this t @ (if message_type m = t then [m] else [])"
    if "route_message m this = (es, this')" for m
  proof -
    have "set (concat (map handed_out es)) \<subseteq> {m}"
      using that by (auto simp: route_message_def Let_def split: if_splits list.splits)
    then have own: "filter (\<lambda>x. message_type x = t) (concat (map handed_out es)) =
        (if message_type m = t then concat (map handed_out es) else [])"
      by (auto simp: filter_id_conv filter_empty_conv)
    have "message_type m \<noteq> t \<Longrightarrow> queue_of this' t = queue_of this t"
      using that by (auto simp: route_message_def Let_def split: if_splits list.splits)
    then show ?thesis using route_message_ok(2) [OF assms(1) that, of t] own by (auto split: if_splits)
  qed
  consider e where "fail_inbox e this = (es, this')" "arrived t (Accept raw) = []"
    | m where "route_message m this = (es, this')" "arrived t (Accept raw) = (if message_type m = t then [m] else [])"
  proof (cases "parseMessage raw")
    case (Parsed m)
    show ?thesis
    proof (cases "\<exists>code msg. m = ErrorMessage code msg")
      case True
      then show ?thesis using that(1) assms(2) Parsed by (auto simp: accept_control_def)
    next
      case False
      then have "route_message m this = (es, this') \<and>
          arrived t (Accept raw) = (if message_type m = t then [m] else [])"
        using assms(2) Parsed by (cases m) (simp_all add: accept_control_def)
      then show ?thesis using that(2) by blast
    qed
  next
    case (Refused code reason)
    then show ?thesis using that(1) assms(2) by (simp add: accept_control_def)
  qed
  then show "inbox_ok this'" and "filter (\<lambda>m. message_type m = t) (concat (map handed_out es)) @ queue_of this' t =
    queue_of this t @ arrived t (Accept raw)"
    using inbox_ok_fail [OF assms(1)] route_message_ok(1) [OF assms(1)] routed by (cases; simp; fail)+
qed

lemma inbox_ok_queue:
  "inbox_ok this \<Longrightarrow>
   (waiters_of this t = [] \<and> t \<notin> set (ib_handlers this) \<or> queue_of this t = []) \<and> list_all (\<lambda>m. message_type m = t) (queue_of this t)"
  unfolding inbox_ok_def by blast

lemma expect_ok:
  assumes "inbox_ok this" "w \<notin> fst ` set (ib_rejecters this)" "expect_message t w this = (x, this')"
  shows "inbox_ok this'"
    and "\<And>u. queue_of this u = (case x of Ready m \<Rightarrow> if u = t then [m] else [] | _ \<Rightarrow> []) @ queue_of this' u"
    and "x = Ready m \<Longrightarrow> message_type m = t"
proof -
  have fresh: "w \<notin> set (waiters_of this u)" for u
  proof
    assume "w \<in> set (waiters_of this u)"
    then have "(w, u) \<in> set (ib_rejecters this)" using assms(1) unfolding inbox_ok_def by blast
    then show False using assms(2) by (metis fst_conv image_eqI)
  qed
  note cases = assms(3) [unfolded expect_message_def]
  show "\<And>u. queue_of this u = (case x of Ready m \<Rightarrow> if u = t then [m] else [] | _ \<Rightarrow> []) @ queue_of this' u"
    using cases by (auto split: option.splits if_splits list.splits)
  show "x = Ready m \<Longrightarrow> message_type m = t"
  proof -
    assume "x = Ready m"
    then have "m \<in> set (queue_of this t)" using cases by (auto split: option.splits if_splits list.splits)
    then show "message_type m = t" using assms(1) by (auto simp: inbox_ok_def list_all_iff)
  qed
  show "inbox_ok this'"
  proof (cases "ib_failure this = None \<and> t \<notin> set (ib_handlers this)")
    case False
    then show ?thesis using cases assms(1) by (auto split: option.splits if_splits)
  next
    case True
    show ?thesis
    proof (cases "queue_of this t")
      case Nil
      then have "this' = set_waiters t (waiters_of this t @ [w]) (this\<lparr>ib_rejecters := ib_rejecters this @ [(w, t)]\<rparr>)"
        using cases True by auto
      then show ?thesis using assms(1) fresh Nil True by (auto simp: inbox_ok_def)
    next
      case (Cons m ms)
      then have this': "this' = set_queue t ms this" using cases True by auto
      have "waiters_of this t = []" "list_all (\<lambda>m. message_type m = t) (m # ms)"
        using inbox_ok_queue [OF assms(1), of t] Cons by auto
      then have "queue_of this' u = [] \<or> waiters_of this' u = [] \<and> u \<notin> set (ib_handlers this')" for u
        using inbox_ok_queue [OF assms(1), of u] True by (auto simp: this')
      moreover have "list_all (\<lambda>m. message_type m = u) (queue_of this' u)" for u
        using \<open>list_all _ (m # ms)\<close> inbox_ok_queue [OF assms(1), of u] by (auto simp: this')
      moreover have "\<And>u. waiters_of this' u = waiters_of this u" "ib_rejecters this' = ib_rejecters this"
        "ib_failure this' = ib_failure this" by (simp_all add: this')
      ultimately show ?thesis using assms(1) unfolding inbox_ok_def by metis
    qed
  qed
qed

lemma attach_ok:
  assumes "inbox_ok this" "on_message t this = (es, this')"
  shows "inbox_ok this'" "queue_of this' u = (if u = t then [] else queue_of this u)" "es = map RunHandler (queue_of this t)"
proof -
  have q: "queue_of this' u = (if u = t then [] else queue_of this u)" for u
    using assms(2) by (auto simp: on_message_def queue_of_def)
  then show "queue_of this' u = (if u = t then [] else queue_of this u)" .
  have "waiters_of this' = waiters_of this" using assms(2) by (auto simp: on_message_def waiters_of_def)
  then show "inbox_ok this'" using assms q by (auto simp: inbox_ok_def on_message_def)
  show "es = map RunHandler (queue_of this t)" using assms(2) by (auto simp: on_message_def)
qed

lemma inbox_do_ok:
  assumes "inbox_ok this" "new_wait op this" "inbox_do op this = (ms, this')"
  shows "inbox_ok this'" and "filter (\<lambda>m. message_type m = t) ms @ queue_of this' t = queue_of this t @ arrived t op"
proof -
  have "inbox_ok this' \<and> filter (\<lambda>m. message_type m = t) ms @ queue_of this' t = queue_of this t @ arrived t op"
  proof (cases op)
    case (Accept raw)
    then show ?thesis using assms accept_ok [OF assms(1)] by (auto simp: Let_def simp del: arrived.simps split: prod.splits)
  next
    case (Expect u w)
    obtain x that' where x: "expect_message u w this = (x, that')" by fastforce
    note ex = expect_ok [OF assms(1) _ x]
    have fresh: "w \<notin> fst ` set (ib_rejecters this)" using assms(2) Expect by simp
    have "this' = that'" and ms: "ms = (case x of Ready m \<Rightarrow> [m] | _ \<Rightarrow> [])"
      using assms(3) Expect x by (auto split: expectation.splits)
    then show ?thesis using ex [OF fresh] Expect by (auto split: expectation.splits)
  next
    case (TimerFires w u)
    then show ?thesis
      using assms inbox_ok_cleanup [OF assms(1)] by (auto simp: timeout_wait_def Let_def split: if_splits)
  next
    case (Attach u)
    then have "ms = queue_of this u" "on_message u this = (map RunHandler (queue_of this u), this')"
      using assms(3) by (auto simp: on_message_def)
    then show ?thesis
      using attach_ok(1,2) [OF assms(1)] filter_own_queue [OF assms(1), of t u] Attach by auto
  next
    case (Fail e)
    then show ?thesis using assms inbox_ok_fail(1,3,4) [OF assms(1)] by (auto simp: Let_def split: prod.splits)
  qed
  then show "inbox_ok this'" and "filter (\<lambda>m. message_type m = t) ms @ queue_of this' t = queue_of this t @ arrived t op"
    by simp_all
qed

lemma inbox_run_ok: "inbox_run ops out this \<Longrightarrow> inbox_ok this"
  by (induction rule: inbox_run.induct) (auto intro: inbox_ok_new inbox_do_ok)

section \<open>Properties\<close>

text \<open>
  No message is lost, repeated or overtaken. In every run of the inbox, for every message type, what
  was handed out to handlers and waits so far followed by what is still queued is exactly the sequence
  of well-formed messages of that type that arrived, whatever waits began, timed out or were rejected
  and whenever a handler was attached.\<close>

theorem inbox_delivers_in_order:
  assumes "inbox_run ops out this"
  shows "filter (\<lambda>m. message_type m = t) out @ queue_of this t = concat (map (arrived t) ops)"
  using assms
proof (induction rule: inbox_run.induct)
  case inbox_start
  then show ?case by (simp add: queue_of_def new_ControlInbox_def)
next
  case (inbox_next ops out this op ms this')
  then show ?case using inbox_do_ok(2) [OF inbox_run_ok [OF inbox_next(1)] inbox_next(2,3), of t] by simp
qed

definition sample_ack :: "json option" where
  "sample_ack = Some (encodeMessage (Auth ''sig''))"

theorem inbox_delivers_in_order_witness:
  "filter (\<lambda>m. message_type m = ''auth'') [Auth ''sig''] @
     queue_of (snd (inbox_do (Accept sample_ack) (snd (inbox_do (Expect ''auth'' 0) new_ControlInbox)))) ''auth'' =
   [Auth ''sig'']"
proof -
  let ?s1 = "snd (inbox_do (Expect ''auth'' 0) new_ControlInbox)"
  have "new_wait (Expect ''auth'' 0) new_ControlInbox" by (simp add: new_ControlInbox_def)
  moreover have "fst (inbox_do (Expect ''auth'' 0) new_ControlInbox) = []"
    "fst (inbox_do (Accept sample_ack) ?s1) = [Auth ''sig'']" by code_simp+
  ultimately have run: "inbox_run (([] @ [Expect ''auth'' 0]) @ [Accept sample_ack]) (([] @ []) @ [Auth ''sig''])
      (snd (inbox_do (Accept sample_ack) ?s1))"
    by (intro inbox_next [OF inbox_next [OF inbox_start]]) (simp_all add: prod_eq_iff del: inbox_do.simps)
  have "concat (map (arrived ''auth'') (([] @ [Expect ''auth'' 0]) @ [Accept sample_ack])) = [Auth ''sig'']"
    by code_simp
  then show ?thesis using inbox_delivers_in_order [OF run, of "''auth''"] by (simp del: inbox_do.simps)
qed

lemma inbox_do_state:
  "snd (inbox_do (Accept raw) this) = snd (accept_control raw this)"
  "snd (inbox_do (Expect t w) this) = snd (expect_message t w this)"
  "snd (inbox_do (TimerFires w t) this) = snd (timeout_wait w t this)"
  "snd (inbox_do (Attach t) this) = snd (on_message t this)"
  "snd (inbox_do (Fail e) this) = snd (fail_inbox e this)"
  by (simp_all add: Let_def split: prod.split expectation.split)

definition failed_with :: "SessionError \<Rightarrow> ControlInbox \<Rightarrow> bool" where
  "failed_with e this \<longleftrightarrow> ib_failure this = Some e \<and> ib_rejecters this = [] \<and> (\<forall>t. waiters_of this t = [])"

lemma failed_step:
  assumes "failed_with e this"
  shows "failed_with e (snd (inbox_do op this))"
proof -
  have routed: "failed_with e (snd (route_message m this))" for m
    using assms by (auto simp: failed_with_def route_message_def Let_def)
  have failed: "failed_with e (snd (fail_inbox e' this))" for e'
    using assms by (auto simp: failed_with_def fail_inbox_def Let_def)
  show ?thesis
  proof (cases op)
    case (Accept raw)
    show ?thesis
      unfolding Accept inbox_do_state
      by (simp add: accept_control_def routed failed split: ParseOutcome.split ProtocolMessage.split)
  next
    case (Attach t)
    then show ?thesis using assms by (auto simp: inbox_do_state failed_with_def on_message_def waiters_of_def simp del: inbox_do.simps)
  qed (use assms failed in \<open>auto simp: inbox_do_state expect_message_def timeout_wait_def failed_with_def simp del: inbox_do.simps\<close>)
qed

lemma failed_steps: "failed_with e this \<Longrightarrow> failed_with e (fold (\<lambda>op s. snd (inbox_do op s)) ops this)"
  by (induction ops arbitrary: this) (simp_all add: failed_step del: inbox_do.simps)

text \<open>
  A failed inbox holds no one. Whatever happened before, failing an inbox rejects every wait that is
  pending, and from then on, whatever arrives, begins or times out, no wait is ever pending again and
  every \<open>expect\<close> is refused at once with the first failure.\<close>

theorem failed_inbox_holds_no_one:
  assumes "inbox_run ops out this" and "fail_inbox e this = (es, failed)"
  shows "(\<forall>t. \<forall>w \<in> set (waiters_of this t). RejectWait w e \<in> set es) \<and>
    (\<exists>first. \<forall>later. let s = fold (\<lambda>op s. snd (inbox_do op s)) later failed in
       (\<forall>t. waiters_of s t = []) \<and> (\<forall>t w. expect_message t w s = (Refuse first, s)))"
proof -
  note ok = inbox_run_ok [OF assms(1)]
  note fl = inbox_ok_fail [OF ok assms(2)]
  have "RejectWait w e \<in> set es" if "w \<in> set (waiters_of this t)" for w t
  proof -
    have "(w, t) \<in> set (ib_rejecters this)" using ok that by (simp add: inbox_ok_def)
    then show ?thesis using assms(2) by (force simp: fail_inbox_def Let_def)
  qed
  moreover obtain first where first: "ib_failure failed = Some first" using fl(5) by auto
  have "failed_with first failed" using assms(2) first fl(2) by (auto simp: failed_with_def fail_inbox_def Let_def)
  note steps = failed_steps [OF this]
  have "let s = fold (\<lambda>op s. snd (inbox_do op s)) later failed in
       (\<forall>t. waiters_of s t = []) \<and> (\<forall>t w. expect_message t w s = (Refuse first, s))" for later
    using steps [of later] by (simp add: Let_def failed_with_def expect_message_def del: inbox_do.simps)
  ultimately show ?thesis by blast
qed

theorem failed_inbox_holds_no_one_witness:
  "RejectWait 0 \<lparr>se_code = Closed, se_message = ''x''\<rparr> \<in>
     set (fst (fail_inbox \<lparr>se_code = Closed, se_message = ''x''\<rparr> (snd (inbox_do (Expect ''auth'' 0) new_ControlInbox))))"
proof -
  let ?s1 = "snd (inbox_do (Expect ''auth'' 0) new_ControlInbox)"
  have "new_wait (Expect ''auth'' 0) new_ControlInbox" by (simp add: new_ControlInbox_def)
  then have run: "inbox_run ([] @ [Expect ''auth'' 0]) ([] @ fst (inbox_do (Expect ''auth'' 0) new_ControlInbox)) ?s1"
    by (intro inbox_next [OF inbox_start]) simp_all
  have "0 \<in> set (waiters_of ?s1 ''auth'')" by code_simp
  then show ?thesis using failed_inbox_holds_no_one [OF run surjective_pairing] by blast
qed

end
