(* ===== verification/Sync_Session.thy ===== *)
theory Sync_Session
  imports Engine_Invariants Control_Inbox Chunk_Framing Pairing_Trust
begin

text \<open>
  One synchronization session over a connected link (packages/sync/src/session.ts).

  The session is a state machine driven by what happens to it: a control payload or a bulk frame
  arrives, the channel closes, a timer fires, or one of its own continuations runs. \<open>session_step\<close>
  takes one such input to the next state; a run is any sequence of them, so the theorems hold under
  every interleaving of the peer's messages with the session's own work. The phase says at which
  \<open>await\<close> of \<open>run()\<close> the session stands; between two of them the code runs in one step, the engine
  and authenticator calls it awaits included. Serving is one step per revision announced, chunk
  sent and ack consumed, an ingest is one step.

  The inbox knows the single wait that \<open>run()\<close> can have pending as number 0.
\<close>

section \<open>Parameters and state\<close>

definition MAX_ORPHAN_FRAMES :: nat where "MAX_ORPHAN_FRAMES = 64"

definition EMPTY_VAULT_ID :: VaultId where
  "EMPTY_VAULT_ID = CHR 0x00 # ''none''"

text \<open>\<open>SessionDeps\<close>: the engine's ports, the authenticator with its keys, store and drawn nonce, the vault and the options.\<close>

record ('m, 'b, 'c, 'd, 's) SessionDeps =
  sd_engine :: "('m, 'b, 'c, 'd) EngineDeps"
  sd_sha256 :: "bytes \<Rightarrow> bytes"
  sd_sign :: "bytes \<Rightarrow> bytes \<Rightarrow> bytes"
  sd_verify :: "bytes \<Rightarrow> bytes \<Rightarrow> bytes \<Rightarrow> bool option"
  sd_auth :: AuthenticatorOptions
  sd_store :: "'s TrustStore"
  sd_nonce :: bytes
  sd_vaultId :: "VaultId option"
  sd_chunkBytes :: nat
  sd_highWaterBytes :: nat

datatype SessionEvent =
    HandshakeDone DeviceId string
  | Authenticated DeviceId
  | AdoptedVault VaultId string
  | RequestedRevisions "RevisionId list"
  | Sending RevisionId int
  | SentRevision RevisionId
  | ReceivedRevision RevisionId
  | RejectedRevision RevisionId string

datatype session_output =
    SendControl ProtocolMessage
  | SendBulk bytes
  | Emit SessionEvent
  | Uncaught js_error

record InboundHeader =
  ih_header :: RevisionHeaderMessage
  ih_fromDeviceId :: DeviceId

record SessionResult =
  sr_vaultId :: "VaultId option"
  sr_remoteId :: DeviceId
  sr_remoteName :: string
  sr_received :: "RevisionId list"
  sr_sent :: "RevisionId list"
  sr_missing :: "RevisionId list"
  sr_divergence :: Divergence
  sr_remoteHead :: "RevisionId option"

text \<open>Where \<open>run()\<close> and \<open>serve()\<close> stand.\<close>

datatype session_throw = ThrowSession SessionError | ThrowJs js_error

datatype phase =
    NotStarted
  | AwaitHello
  | AwaitAuth HelloMessage bytes
  | AwaitSummary DeviceId string "Vault option"
  | AwaitHistory DeviceId string "RevisionId option"
  | AwaitWants DeviceId string "RevisionId option" RevisionGraph
  | Exchanging DeviceId string "RevisionId option" RevisionGraph
  | AwaitComplete DeviceId string "RevisionId option" RevisionGraph
  | AwaitIngests nat DeviceId string "RevisionId option" RevisionGraph
  | Returned SessionResult
  | Threw session_throw

datatype serving =
    NotServing
  | ServeNext "RevisionId list" nat
  | ServeChunks RevisionId bytes nat nat "RevisionId list" nat
  | ServeAwaitAck RevisionId "RevisionId list" nat
  | ServeDone

datatype draining = NotDraining | Draining | Drained

record ('m, 'b, 's) SyncSession =
  ss_phase :: phase
  ss_inbox :: ControlInbox
  ss_assemblers :: "(nat \<times> InboundHeader \<times> ChunkAssembler) list"
  ss_orphanFrames :: "ChunkFrame list"
  ss_ackWaiters :: "RevisionId list"
  ss_ackOutcome :: "(bool \<times> string option) option"
  ss_expected :: "RevisionId list"
  ss_received :: "RevisionId list"
  ss_sent :: "RevisionId list"
  ss_inboundWork :: "(InboundHeader \<times> bytes) list"
  ss_peerCompleted :: bool
  ss_remoteDeviceId :: "DeviceId option"
  ss_drain :: draining
  ss_serving :: serving
  ss_vaultId :: "VaultId option"
  ss_engine :: "('m, 'b) engine"
  ss_trust :: 's
  ss_out :: "session_output list"

definition new_SyncSession ::
  "('m, 'b) engine \<Rightarrow> 's \<Rightarrow> ('m, 'b, 's) SyncSession" where
  "new_SyncSession en trust =
     \<lparr>ss_phase = NotStarted, ss_inbox = new_ControlInbox, ss_assemblers = [], ss_orphanFrames = [],
      ss_ackWaiters = [], ss_ackOutcome = None, ss_expected = [], ss_received = [], ss_sent = [],
      ss_inboundWork = [], ss_peerCompleted = False, ss_remoteDeviceId = None, ss_drain = NotDraining,
      ss_serving = NotServing, ss_vaultId = None, ss_engine = en, ss_trust = trust, ss_out = []\<rparr>"

section \<open>Plumbing\<close>

definition encodeBase64 :: "bytes \<Rightarrow> string" where
  "encodeBase64 bs = btoa (map unat bs)"

definition decodeBase64 :: "string \<Rightarrow> bytes option" where
  "decodeBase64 value = (case atob value of None \<Rightarrow> None | Some binary \<Rightarrow> Some (map word_of_nat binary))"

definition put_out :: "session_output \<Rightarrow> ('m, 'b, 's) SyncSession \<Rightarrow> ('m, 'b, 's) SyncSession" where
  "put_out x s = s\<lparr>ss_out := ss_out s @ [x]\<rparr>"

definition send :: "ProtocolMessage \<Rightarrow> ('m, 'b, 's) SyncSession \<Rightarrow> ('m, 'b, 's) SyncSession" where
  "send message = put_out (SendControl message)"

definition emit :: "SessionEvent \<Rightarrow> ('m, 'b, 's) SyncSession \<Rightarrow> ('m, 'b, 's) SyncSession" where
  "emit event = put_out (Emit event)"

definition throw :: "session_throw \<Rightarrow> ('m, 'b, 's) SyncSession \<Rightarrow> ('m, 'b, 's) SyncSession" where
  "throw e s = s\<lparr>ss_phase := Threw e\<rparr>"

definition session_error :: "SessionCode \<Rightarrow> string \<Rightarrow> session_throw" where
  "session_error code msg = ThrowSession \<lparr>se_code = code, se_message = msg\<rparr>"

text \<open>Failing the inbox rejects the wait of \<open>run()\<close> when there is one.\<close>

definition fail_session :: "SessionError \<Rightarrow> ('m, 'b, 's) SyncSession \<Rightarrow> ('m, 'b, 's) SyncSession" where
  "fail_session e s =
     (let (es, ib) = fail_inbox e (ss_inbox s)
      in (if es = [] then id else throw (ThrowSession e)) (s\<lparr>ss_inbox := ib\<rparr>))"

text \<open>\<open>notifyProgress?.()\<close>\<close>

definition notifyProgress :: "('m, 'b, 's) SyncSession \<Rightarrow> ('m, 'b, 's) SyncSession" where
  "notifyProgress s =
     (if ss_drain s = Draining \<and> (ss_expected s = [] \<or> ss_peerCompleted s) then s\<lparr>ss_drain := Drained\<rparr> else s)"

definition drainInbound :: "('m, 'b, 's) SyncSession \<Rightarrow> ('m, 'b, 's) SyncSession" where
  "drainInbound s = s\<lparr>ss_drain := (if ss_expected s = [] then Drained else Draining)\<rparr>"

definition expected_delete :: "RevisionId \<Rightarrow> ('m, 'b, 's) SyncSession \<Rightarrow> ('m, 'b, 's) SyncSession" where
  "expected_delete revisionId s = s\<lparr>ss_expected := removeAll revisionId (ss_expected s)\<rparr>"

section \<open>Inbound revisions\<close>

definition reject :: "RevisionId \<Rightarrow> string \<Rightarrow> ('m, 'b, 's) SyncSession \<Rightarrow> ('m, 'b, 's) SyncSession" where
  "reject revisionId reason s =
     notifyProgress (emit (RejectedRevision revisionId reason)
       (expected_delete revisionId (send (RevisionAck revisionId False (Some reason)) s)))"

definition queueIngest :: "InboundHeader \<Rightarrow> bytes \<Rightarrow> ('m, 'b, 's) SyncSession \<Rightarrow> ('m, 'b, 's) SyncSession" where
  "queueIngest header bs s = s\<lparr>ss_inboundWork := ss_inboundWork s @ [(header, bs)]\<rparr>"

definition onFrame :: "ChunkFrame \<Rightarrow> ('m, 'b, 's) SyncSession \<Rightarrow> ('m, 'b, 's) SyncSession" where
  "onFrame frame s =
     (case map_of (ss_assemblers s) (fr_transferSeq frame) of
        None \<Rightarrow>
          if length (ss_orphanFrames s) < MAX_ORPHAN_FRAMES
          then s\<lparr>ss_orphanFrames := ss_orphanFrames s @ [frame]\<rparr> else s
      | Some (header, assembler) \<Rightarrow>
          (case accept_chunk assembler frame of
             (False, _) \<Rightarrow>
               reject (rh_revisionId (ih_header header)) ''chunk exceeded the declared size''
                 (s\<lparr>ss_assemblers := AList.delete (fr_transferSeq frame) (ss_assemblers s)\<rparr>)
           | (True, assembler') \<Rightarrow>
               if isComplete assembler'
               then (let s' = s\<lparr>ss_assemblers := AList.delete (fr_transferSeq frame) (ss_assemblers s)\<rparr>
                     in case assemble assembler' of
                          Inl e \<Rightarrow> put_out (Uncaught e) s'
                        | Inr bs \<Rightarrow> queueIngest header bs s')
               else s\<lparr>ss_assemblers := AList.update (fr_transferSeq frame) (header, assembler') (ss_assemblers s)\<rparr>))"

text \<open>The loop of \<open>onHeader\<close> over the orphans, from the last index down.\<close>

fun drain_orphans :: "nat \<Rightarrow> nat \<Rightarrow> ('m, 'b, 's) SyncSession \<Rightarrow> ('m, 'b, 's) SyncSession" where
  "drain_orphans transferSeq 0 s = s"
| "drain_orphans transferSeq (Suc index) s =
     (if index < length (ss_orphanFrames s) \<and> fr_transferSeq (ss_orphanFrames s ! index) = transferSeq
      then drain_orphans transferSeq index
             (onFrame (ss_orphanFrames s ! index)
                (s\<lparr>ss_orphanFrames := take index (ss_orphanFrames s) @ drop (Suc index) (ss_orphanFrames s)\<rparr>))
      else drain_orphans transferSeq index s)"

definition onHeader :: "InboundHeader \<Rightarrow> ('m, 'b, 's) SyncSession \<Rightarrow> ('m, 'b, 's) SyncSession" where
  "onHeader header s =
     (let h = ih_header header; transferSeq = nat (rh_transferSeq h)
      in case new_ChunkAssembler (nat (rh_totalChunks h)) (nat (rh_sizeBytes h)) of
           Inl e \<Rightarrow> put_out (Uncaught e) s
         | Inr assembler \<Rightarrow>
             drain_orphans transferSeq (length (ss_orphanFrames s))
               (s\<lparr>ss_assemblers := AList.update transferSeq (header, assembler) (ss_assemblers s)\<rparr>))"

definition ingest_input :: "InboundHeader \<Rightarrow> bytes \<Rightarrow> IngestInput" where
  "ingest_input header bs =
     (let h = ih_header header
      in \<lparr>in_vaultId = rh_vaultId h, in_revisionId = rh_revisionId h, in_declaredParentIds = rh_parentIds h,
          in_declaredHash = rh_hash h, in_bytes = bs, in_fromDeviceId = ih_fromDeviceId header,
          in_message = rh_message h\<rparr>)"

definition took_in :: "RevisionId \<Rightarrow> ('m, 'b, 's) SyncSession \<Rightarrow> ('m, 'b, 's) SyncSession" where
  "took_in revisionId s =
     (let s' = expected_delete revisionId (send (RevisionAck revisionId True None) s)
      in notifyProgress (emit (ReceivedRevision revisionId) (s'\<lparr>ss_received := ss_received s' @ [revisionId]\<rparr>)))"

definition count_ingest :: "('m, 'b, 's) SyncSession \<Rightarrow> ('m, 'b, 's) SyncSession" where
  "count_ingest s =
     (case ss_phase s of
        AwaitIngests n d name head g \<Rightarrow> s\<lparr>ss_phase := AwaitIngests (n - 1) d name head g\<rparr>
      | _ \<Rightarrow> s)"

text \<open>The next queued ingest runs to its end.\<close>

definition run_ingest :: "('m, 'b, 'c, 'd, 's) SessionDeps \<Rightarrow> Date \<Rightarrow> ('m, 'b, 's) SyncSession \<Rightarrow> ('m, 'b, 's) SyncSession" where
  "run_ingest deps now s =
     (case ss_inboundWork s of
        [] \<Rightarrow> s
      | (header, bs) # rest \<Rightarrow>
          (let revisionId = rh_revisionId (ih_header header);
               (r, en) = ingestReceivedRevision (sd_engine deps) (ingest_input header bs) now (ss_engine s);
               s' = count_ingest (s\<lparr>ss_inboundWork := rest, ss_engine := en\<rparr>)
           in case r of
                Inl e \<Rightarrow> reject revisionId (error_message e) s'
              | Inr (Rejected reason) \<Rightarrow> reject revisionId reason s'
              | Inr _ \<Rightarrow> took_in revisionId s'))"

section \<open>Handlers of the control channel\<close>

definition handle_control :: "ProtocolMessage \<Rightarrow> ('m, 'b, 's) SyncSession \<Rightarrow> ('m, 'b, 's) SyncSession" where
  "handle_control message s =
     (case message of
        RevisionHeader h \<Rightarrow>
          (case ss_remoteDeviceId s of
             None \<Rightarrow> fail_session \<lparr>se_code = ProtocolCode MalformedMessage,
                       se_message = ''revision-header arrived before hello''\<rparr> s
           | Some fromDeviceId \<Rightarrow> onHeader \<lparr>ih_header = h, ih_fromDeviceId = fromDeviceId\<rparr> s)
      | RevisionAck revisionId accepted reason \<Rightarrow>
          (if revisionId \<in> set (ss_ackWaiters s)
           then s\<lparr>ss_ackWaiters := removeAll revisionId (ss_ackWaiters s), ss_ackOutcome := Some (accepted, reason)\<rparr>
           else s)
      | SyncComplete _ \<Rightarrow> notifyProgress (s\<lparr>ss_peerCompleted := True\<rparr>)
      | TransferCancel transferSeq reason \<Rightarrow>
          (let s' = s\<lparr>ss_assemblers := AList.delete (nat transferSeq) (ss_assemblers s)\<rparr>
           in case map_of (ss_assemblers s) (nat transferSeq) of
                None \<Rightarrow> s'
              | Some (header, _) \<Rightarrow>
                  notifyProgress (emit (RejectedRevision (rh_revisionId (ih_header header)) reason)
                    (expected_delete (rh_revisionId (ih_header header)) s')))
      | _ \<Rightarrow> s)"

definition attach :: "('m, 'b, 's) SyncSession \<Rightarrow> ('m, 'b, 's) SyncSession" where
  "attach s =
     s\<lparr>ss_inbox := snd (on_message ''transfer-cancel'' (snd (on_message ''sync-complete''
        (snd (on_message ''revision-ack'' (snd (on_message ''revision-header'' (ss_inbox s))))))))\<rparr>"

section \<open>The phases of run(), last one first\<close>

definition await_message ::
  "string \<Rightarrow> phase \<Rightarrow> (ProtocolMessage \<Rightarrow> ('m, 'b, 's) SyncSession \<Rightarrow> ('m, 'b, 's) SyncSession) \<Rightarrow>
   ('m, 'b, 's) SyncSession \<Rightarrow> ('m, 'b, 's) SyncSession" where
  "await_message t waiting k s =
     (let (x, ib) = expect_message t 0 (ss_inbox s); s' = s\<lparr>ss_inbox := ib\<rparr>
      in case x of
           Refuse e \<Rightarrow> throw (ThrowSession e) s'
         | Ready message \<Rightarrow> k message s'
         | Wait \<Rightarrow> s'\<lparr>ss_phase := waiting\<rparr>)"

text \<open>\<open>vaultId\<close> is unset only before the summary exchange, where nothing reads it.\<close>

definition session_vault :: "('m, 'b, 's) SyncSession \<Rightarrow> VaultId" where
  "session_vault s = (case ss_vaultId s of None \<Rightarrow> [] | Some v \<Rightarrow> v)"

definition summary_nodes :: "HistorySummaryEntry list \<Rightarrow> RevisionNode list" where
  "summary_nodes entries = map (\<lambda>e. \<lparr>node_id = hs_revisionId e, node_parentIds = hs_parentIds e\<rparr>) entries"

definition classify ::
  "('m, 'b, 'c, 'd, 's) SessionDeps \<Rightarrow> RevisionGraph \<Rightarrow> RevisionId option \<Rightarrow> ('m, 'b, 's) SyncSession \<Rightarrow> Divergence" where
  "classify deps remoteGraph remoteHead s =
     (let localHead = (case ms_getVault (dep_metadata (sd_engine deps)) (session_vault s) (en_md (ss_engine s)) of
            None \<Rightarrow> None | Some vault \<Rightarrow> vault_headRevisionId vault)
      in case (localHead, remoteHead) of
           (None, None) \<Rightarrow> Equal
         | (None, Some _) \<Rightarrow> RemoteAhead
         | (Some _, None) \<Rightarrow> LocalAhead
         | (Some l, Some r) \<Rightarrow>
             (let localNodes = summary_nodes (historySummary (sd_engine deps) (session_vault s) (ss_engine s))
              in classifyDivergence (unionGraphs (buildGraph localNodes) remoteGraph) l r))"

text \<open>From the last ingest to the result.\<close>

definition finish ::
  "('m, 'b, 'c, 'd, 's) SessionDeps \<Rightarrow> Date \<Rightarrow> DeviceId \<Rightarrow> string \<Rightarrow> RevisionId option \<Rightarrow> RevisionGraph \<Rightarrow>
   ('m, 'b, 's) SyncSession \<Rightarrow> ('m, 'b, 's) SyncSession" where
  "finish deps now remoteId remoteName head remoteGraph s =
     (let (r, en) = (case head of
            None \<Rightarrow> (Inr (), ss_engine s)
          | Some h \<Rightarrow> engine_recordPeerHead (sd_engine deps) remoteId (session_vault s) h now (ss_engine s));
          s' = s\<lparr>ss_engine := en\<rparr>
      in case r of
           Inl e \<Rightarrow> throw (ThrowJs e) s'
         | Inr _ \<Rightarrow> s'\<lparr>ss_phase := Returned
             \<lparr>sr_vaultId = ss_vaultId s', sr_remoteId = remoteId, sr_remoteName = remoteName,
              sr_received = ss_received s', sr_sent = ss_sent s', sr_missing = ss_expected s',
              sr_divergence = classify deps remoteGraph head s', sr_remoteHead = head\<rparr>\<rparr>)"

definition start_transfer ::
  "DeviceId \<Rightarrow> string \<Rightarrow> RevisionId option \<Rightarrow> RevisionGraph \<Rightarrow> ProtocolMessage \<Rightarrow>
   ('m, 'b, 's) SyncSession \<Rightarrow> ('m, 'b, 's) SyncSession" where
  "start_transfer remoteId remoteName head remoteGraph message s =
     (case message of
        WantRevisions _ revisionIds \<Rightarrow>
          drainInbound (s\<lparr>ss_serving := ServeNext revisionIds 0,
                          ss_phase := Exchanging remoteId remoteName head remoteGraph\<rparr>)
      | _ \<Rightarrow> s)"

definition computeWants ::
  "('m, 'b, 'c, 'd, 's) SessionDeps \<Rightarrow> RevisionGraph \<Rightarrow> RevisionId \<Rightarrow> ('m, 'b, 's) SyncSession \<Rightarrow> RevisionId list result" where
  "computeWants deps remoteGraph remoteHead s =
     (let held = set_of_iterable (map hs_revisionId (historySummary (sd_engine deps) (session_vault s) (ss_engine s)))
      in missingRevisions remoteGraph remoteHead (\<lambda>i. i \<in> set held))"

definition on_history ::
  "('m, 'b, 'c, 'd, 's) SessionDeps \<Rightarrow> DeviceId \<Rightarrow> string \<Rightarrow> RevisionId option \<Rightarrow> ProtocolMessage \<Rightarrow>
   ('m, 'b, 's) SyncSession \<Rightarrow> ('m, 'b, 's) SyncSession" where
  "on_history deps remoteId remoteName head message s =
     (case message of
        HistorySummary _ remoteHistory \<Rightarrow>
          (case validateRemoteGraph (summary_nodes remoteHistory) of
             Inl e \<Rightarrow> throw (ThrowJs e) s
           | Inr _ \<Rightarrow>
               (let remoteGraph = buildGraph (summary_nodes remoteHistory)
                in case (case head of None \<Rightarrow> Inr [] | Some h \<Rightarrow> computeWants deps remoteGraph h s) of
                     Inl e \<Rightarrow> throw (ThrowJs e) s
                   | Inr wanted \<Rightarrow>
                       await_message ''want-revisions'' (AwaitWants remoteId remoteName head remoteGraph)
                         (start_transfer remoteId remoteName head remoteGraph)
                         (send (WantRevisions (session_vault s) wanted)
                            (emit (RequestedRevisions wanted)
                               (s\<lparr>ss_expected := foldl set_add (ss_expected s) wanted\<rparr>)))))
      | _ \<Rightarrow> s)"

definition exchangeHistory ::
  "('m, 'b, 'c, 'd, 's) SessionDeps \<Rightarrow> DeviceId \<Rightarrow> string \<Rightarrow> RevisionId option \<Rightarrow>
   ('m, 'b, 's) SyncSession \<Rightarrow> ('m, 'b, 's) SyncSession" where
  "exchangeHistory deps remoteId remoteName head s =
     await_message ''history-summary'' (AwaitHistory remoteId remoteName head)
       (on_history deps remoteId remoteName head)
       (send (HistorySummary (session_vault s)
          (historySummary (sd_engine deps) (session_vault s) (ss_engine s))) s)"

definition quoted :: "string \<Rightarrow> string" where
  "quoted x = [CHR 0x22] @ x @ [CHR 0x22]"

definition different_vaults_error :: "Vault \<Rightarrow> VaultSummaryMessage \<Rightarrow> session_throw" where
  "different_vaults_error local summary =
     session_error (ProtocolCode UnknownVault)
       (''This device tracks '' @ quoted (vault_name local) @ '' and the peer tracks '' @ quoted (vs_vaultName summary) @
        '', which are different vaults. A vault must be shared from one device and joined on the other, not imported separately on both.'')"

definition on_vault_summary ::
  "('m, 'b, 'c, 'd, 's) SessionDeps \<Rightarrow> Date \<Rightarrow> DeviceId \<Rightarrow> string \<Rightarrow> Vault option \<Rightarrow> ProtocolMessage \<Rightarrow>
   ('m, 'b, 's) SyncSession \<Rightarrow> ('m, 'b, 's) SyncSession" where
  "on_vault_summary deps now remoteId remoteName local message s =
     (case message of
        VaultSummary summary \<Rightarrow>
          (let remoteHasVault = (vs_vaultId summary \<noteq> EMPTY_VAULT_ID)
           in case local of
                None \<Rightarrow>
                  if \<not> remoteHasVault
                  then throw (session_error (ProtocolCode UnknownVault) ''neither device is tracking a vault yet'') s
                  else (let (r, en) = adoptVault (sd_engine deps) (vs_vaultId summary) (vs_vaultName summary) now (ss_engine s);
                            s' = s\<lparr>ss_engine := en\<rparr>
                        in case r of
                             Inl e \<Rightarrow> throw (ThrowJs e) s'
                           | Inr _ \<Rightarrow>
                               exchangeHistory deps remoteId remoteName (vs_headRevisionId summary)
                                 (emit (AdoptedVault (vs_vaultId summary) (vs_vaultName summary))
                                    (s'\<lparr>ss_vaultId := Some (vs_vaultId summary)\<rparr>)))
              | Some lv \<Rightarrow>
                  if remoteHasVault \<and> vs_vaultId summary \<noteq> vault_id lv
                  then throw (different_vaults_error lv summary) s
                  else exchangeHistory deps remoteId remoteName (vs_headRevisionId summary)
                         (s\<lparr>ss_vaultId := Some (vault_id lv)\<rparr>))
      | _ \<Rightarrow> s)"

definition vault_summary_of ::
  "('m, 'b, 'c, 'd, 's) SessionDeps \<Rightarrow> Vault option \<Rightarrow> ('m, 'b, 's) SyncSession \<Rightarrow> VaultSummaryMessage" where
  "vault_summary_of deps local s =
     (case local of
        Some lv \<Rightarrow> \<lparr>vs_vaultId = vault_id lv, vs_vaultName = vault_name lv,
                    vs_headRevisionId = vault_headRevisionId lv,
                    vs_revisionCount = int (revisionCount (sd_engine deps) (vault_id lv) (ss_engine s))\<rparr>
      | None \<Rightarrow> \<lparr>vs_vaultId = EMPTY_VAULT_ID, vs_vaultName = [], vs_headRevisionId = None, vs_revisionCount = 0\<rparr>)"

definition exchangeVaultSummary ::
  "('m, 'b, 'c, 'd, 's) SessionDeps \<Rightarrow> Date \<Rightarrow> DeviceId \<Rightarrow> string \<Rightarrow>
   ('m, 'b, 's) SyncSession \<Rightarrow> ('m, 'b, 's) SyncSession" where
  "exchangeVaultSummary deps now remoteId remoteName s =
     (let local = (case sd_vaultId deps of
            None \<Rightarrow> None
          | Some v \<Rightarrow> ms_getVault (dep_metadata (sd_engine deps)) v (en_md (ss_engine s)))
      in if sd_vaultId deps \<noteq> None \<and> local = None
         then throw (session_error (ProtocolCode UnknownVault) ''local device does not track this vault'')
                (send (ErrorMessage UnknownVault ''this device does not track that vault'') s)
         else await_message ''vault-summary'' (AwaitSummary remoteId remoteName local)
                (on_vault_summary deps now remoteId remoteName local)
                (send (VaultSummary (vault_summary_of deps local s)) s))"

section \<open>The handshake\<close>

definition on_auth ::
  "('m, 'b, 'c, 'd, 's) SessionDeps \<Rightarrow> Date \<Rightarrow> HelloMessage \<Rightarrow> bytes \<Rightarrow> ProtocolMessage \<Rightarrow>
   ('m, 'b, 's) SyncSession \<Rightarrow> ('m, 'b, 's) SyncSession" where
  "on_auth deps now hello peerPublicKey message s =
     (case message of
        Auth encoded \<Rightarrow>
          (case decodeBase64 encoded of
             None \<Rightarrow> throw (session_error (ProtocolCode MalformedMessage) ''auth carried an undecodable signature'') s
           | Some signature \<Rightarrow>
               (case verifyPeer (sd_sha256 deps) (sd_verify deps) (sd_auth deps) (sd_store deps)
                       \<lparr>vi_deviceId = hello_deviceId hello, vi_publicKey = peerPublicKey, vi_nonce = sd_nonce deps,
                        vi_signature = signature, vi_claimedName = hello_deviceName hello\<rparr> (ss_trust s) of
                  Inl e \<Rightarrow> throw (ThrowJs e) s
                | Inr (Reject reason, trust) \<Rightarrow>
                    throw (session_error (ProtocolCode Unauthorized) (''peer rejected: '' @ reason))
                      (send (ErrorMessage Unauthorized reason) (s\<lparr>ss_trust := trust\<rparr>))
                | Inr (Accept deviceName, trust) \<Rightarrow>
                    exchangeVaultSummary deps now (hello_deviceId hello) deviceName
                      (emit (Authenticated (hello_deviceId hello))
                        (emit (HandshakeDone (hello_deviceId hello) deviceName)
                          (s\<lparr>ss_trust := trust, ss_remoteDeviceId := Some (hello_deviceId hello)\<rparr>)))))
      | _ \<Rightarrow> s)"

definition js_integer :: "int \<Rightarrow> string" where
  "js_integer n = (if n < 0 then ''-'' @ decimal_string (nat (- n)) else decimal_string (nat n))"

definition on_hello ::
  "('m, 'b, 'c, 'd, 's) SessionDeps \<Rightarrow> Date \<Rightarrow> ProtocolMessage \<Rightarrow>
   ('m, 'b, 's) SyncSession \<Rightarrow> ('m, 'b, 's) SyncSession" where
  "on_hello deps now message s =
     (case message of
        Hello hello \<Rightarrow>
          if hello_protocolVersion hello \<noteq> PROTOCOL_VERSION
          then throw (session_error (ProtocolCode UnsupportedVersion)
                 (''peer protocol version '' @ js_integer (hello_protocolVersion hello) @ '' is not supported''))
                 (send (ErrorMessage UnsupportedVersion
                    (''this device speaks protocol '' @ js_integer PROTOCOL_VERSION @ '', peer speaks '' @
                     js_integer (hello_protocolVersion hello))) s)
          else (case (decodeBase64 (hello_publicKey hello), decodeBase64 (hello_nonce hello)) of
                  (Some peerPublicKey, Some peerNonce) \<Rightarrow>
                    await_message ''auth'' (AwaitAuth hello peerPublicKey)
                      (on_auth deps now hello peerPublicKey)
                      (send (Auth (encodeBase64 (signChallenge (sd_sign deps) (sd_auth deps) peerNonce
                         (hello_deviceId hello) (kp_deviceId (ao_keyPair (sd_auth deps)))))) s)
                | _ \<Rightarrow> throw (session_error (ProtocolCode MalformedMessage)
                         ''hello carried an undecodable key or nonce'') s)
      | _ \<Rightarrow> s)"

definition handshake ::
  "('m, 'b, 'c, 'd, 's) SessionDeps \<Rightarrow> Date \<Rightarrow> ('m, 'b, 's) SyncSession \<Rightarrow> ('m, 'b, 's) SyncSession" where
  "handshake deps now s =
     await_message ''hello'' AwaitHello (on_hello deps now)
       (send (Hello \<lparr>hello_protocolVersion = PROTOCOL_VERSION,
          hello_deviceId = kp_deviceId (ao_keyPair (sd_auth deps)), hello_deviceName = ao_deviceName (sd_auth deps),
          hello_publicKey = encodeBase64 (kp_publicKey (ao_keyPair (sd_auth deps))),
          hello_nonce = encodeBase64 (sd_nonce deps)\<rparr>) s)"

definition run_start ::
  "('m, 'b, 'c, 'd, 's) SessionDeps \<Rightarrow> Date \<Rightarrow> ('m, 'b, 's) SyncSession \<Rightarrow> ('m, 'b, 's) SyncSession" where
  "run_start deps now s = handshake deps now ((attach s)\<lparr>ss_vaultId := sd_vaultId deps\<rparr>)"

section \<open>Serving\<close>

definition awaitAck :: "RevisionId \<Rightarrow> ('m, 'b, 's) SyncSession \<Rightarrow> ('m, 'b, 's) SyncSession" where
  "awaitAck revisionId s = s\<lparr>ss_ackWaiters := set_add (ss_ackWaiters s) revisionId, ss_ackOutcome := None\<rparr>"

definition revision_header :: "Revision \<Rightarrow> nat \<Rightarrow> int \<Rightarrow> RevisionHeaderMessage" where
  "revision_header revision transferSeq totalChunks =
     \<lparr>rh_transferSeq = int transferSeq, rh_vaultId = rev_vaultId revision, rh_revisionId = rev_id revision,
      rh_hash = rev_hash revision, rh_sizeBytes = rev_sizeBytes revision, rh_parentIds = rev_parentIds revision,
      rh_totalChunks = totalChunks, rh_message = rev_message revision\<rparr>"

definition stop_serving :: "js_error \<Rightarrow> ('m, 'b, 's) SyncSession \<Rightarrow> ('m, 'b, 's) SyncSession" where
  "stop_serving e s = throw (ThrowJs e) (s\<lparr>ss_serving := NotServing\<rparr>)"

text \<open>One iteration's announcement of the outer loop of \<open>serve\<close>.\<close>

definition serve_next ::
  "('m, 'b, 'c, 'd, 's) SessionDeps \<Rightarrow> RevisionId \<Rightarrow> RevisionId list \<Rightarrow> nat \<Rightarrow>
   ('m, 'b, 's) SyncSession \<Rightarrow> ('m, 'b, 's) SyncSession" where
  "serve_next deps revisionId rest transferSeq s =
     (case ms_getRevision (dep_metadata (sd_engine deps)) revisionId (en_md (ss_engine s)) of
        None \<Rightarrow> s\<lparr>ss_serving := ServeNext rest transferSeq\<rparr>
      | Some revision \<Rightarrow>
          (case bytesOf (sd_engine deps) revisionId (ss_engine s) of
             Inl e \<Rightarrow> stop_serving e s
           | Inr bs \<Rightarrow>
               (case chunkCountFor (int (length bs)) (int (sd_chunkBytes deps)) of
                  Inl e \<Rightarrow> stop_serving e s
                | Inr totalChunks \<Rightarrow>
                    awaitAck revisionId (emit (Sending revisionId totalChunks)
                      (send (RevisionHeader (revision_header revision (transferSeq + 1) totalChunks))
                        (s\<lparr>ss_serving := ServeChunks revisionId bs 0 (nat totalChunks) rest (transferSeq + 1)\<rparr>))))))"

definition serve_step ::
  "('m, 'b, 'c, 'd, 's) SessionDeps \<Rightarrow> nat \<Rightarrow> ('m, 'b, 's) SyncSession \<Rightarrow> ('m, 'b, 's) SyncSession" where
  "serve_step deps bufferedAmount s =
     (case ss_serving s of
        ServeNext [] _ \<Rightarrow> s\<lparr>ss_serving := ServeDone\<rparr>
      | ServeNext (revisionId # rest) transferSeq \<Rightarrow> serve_next deps revisionId rest transferSeq s
      | ServeChunks revisionId bs chunkIndex totalChunks rest transferSeq \<Rightarrow>
          if chunkIndex < totalChunks
          then if bufferedAmount > sd_highWaterBytes deps then s
               else (case encodeChunkFrame (int transferSeq) (int chunkIndex)
                            (subarray_chunk bs (sd_chunkBytes deps) chunkIndex) of
                       Inl e \<Rightarrow> stop_serving e s
                     | Inr frame \<Rightarrow>
                         put_out (SendBulk frame)
                           (s\<lparr>ss_serving := ServeChunks revisionId bs (chunkIndex + 1) totalChunks rest transferSeq\<rparr>))
          else s\<lparr>ss_serving := ServeAwaitAck revisionId rest transferSeq\<rparr>
      | ServeAwaitAck revisionId rest transferSeq \<Rightarrow>
          (case ss_ackOutcome s of
             None \<Rightarrow> s
           | Some (True, _) \<Rightarrow>
               emit (SentRevision revisionId)
                 (s\<lparr>ss_sent := ss_sent s @ [revisionId], ss_serving := ServeNext rest transferSeq\<rparr>)
           | Some (False, reason) \<Rightarrow>
               emit (RejectedRevision revisionId (case reason of None \<Rightarrow> ''peer rejected'' | Some r \<Rightarrow> r))
                 (s\<lparr>ss_serving := ServeNext rest transferSeq\<rparr>))
      | _ \<Rightarrow> s)"

section \<open>Inputs and steps\<close>

datatype session_input =
    ControlPayload "json option"
  | BulkPayload bytes
  | ControlClosed
  | ExpectTimeout
  | CompleteTimeout
  | RunIngest
  | Serve nat
  | Continue

text \<open>What resolving the pending wait of \<open>run()\<close> continues with.\<close>

definition resume ::
  "('m, 'b, 'c, 'd, 's) SessionDeps \<Rightarrow> Date \<Rightarrow> ProtocolMessage \<Rightarrow> ('m, 'b, 's) SyncSession \<Rightarrow> ('m, 'b, 's) SyncSession" where
  "resume deps now message s =
     (case ss_phase s of
        AwaitHello \<Rightarrow> on_hello deps now message s
      | AwaitAuth hello peerPublicKey \<Rightarrow> on_auth deps now hello peerPublicKey message s
      | AwaitSummary remoteId remoteName local \<Rightarrow> on_vault_summary deps now remoteId remoteName local message s
      | AwaitHistory remoteId remoteName head \<Rightarrow> on_history deps remoteId remoteName head message s
      | AwaitWants remoteId remoteName head g \<Rightarrow> start_transfer remoteId remoteName head g message s
      | _ \<Rightarrow> s)"

fun awaited_type :: "phase \<Rightarrow> string option" where
  "awaited_type AwaitHello = Some ''hello''"
| "awaited_type (AwaitAuth _ _) = Some ''auth''"
| "awaited_type (AwaitSummary _ _ _) = Some ''vault-summary''"
| "awaited_type (AwaitHistory _ _ _) = Some ''history-summary''"
| "awaited_type (AwaitWants _ _ _ _) = Some ''want-revisions''"
| "awaited_type _ = None"

definition apply_effect ::
  "('m, 'b, 'c, 'd, 's) SessionDeps \<Rightarrow> Date \<Rightarrow> inbox_effect \<Rightarrow> ('m, 'b, 's) SyncSession \<Rightarrow> ('m, 'b, 's) SyncSession" where
  "apply_effect deps now e s =
     (case e of
        RunHandler message \<Rightarrow> handle_control message s
      | Settle _ message \<Rightarrow> resume deps now message s
      | RejectWait _ error \<Rightarrow> throw (ThrowSession error) s)"

definition continue_run ::
  "('m, 'b, 'c, 'd, 's) SessionDeps \<Rightarrow> Date \<Rightarrow> ('m, 'b, 's) SyncSession \<Rightarrow> ('m, 'b, 's) SyncSession" where
  "continue_run deps now s =
     (case ss_phase s of
        Exchanging remoteId remoteName head g \<Rightarrow>
          if ss_serving s = ServeDone \<and> ss_drain s = Drained
          then (send (SyncComplete (session_vault s)) s)\<lparr>ss_phase := AwaitComplete remoteId remoteName head g\<rparr> else s
      | AwaitComplete remoteId remoteName head g \<Rightarrow>
          if ss_peerCompleted s
          then s\<lparr>ss_phase := AwaitIngests (length (ss_inboundWork s)) remoteId remoteName head g\<rparr> else s
      | AwaitIngests pending remoteId remoteName head g \<Rightarrow>
          if pending = 0 then finish deps now remoteId remoteName head g s else s
      | _ \<Rightarrow> s)"

fun session_step ::
  "('m, 'b, 'c, 'd, 's) SessionDeps \<Rightarrow> Date \<Rightarrow> session_input \<Rightarrow> ('m, 'b, 's) SyncSession \<Rightarrow> ('m, 'b, 's) SyncSession" where
  "session_step deps now (ControlPayload raw) s =
     (let (es, ib) = accept_control raw (ss_inbox s) in fold (apply_effect deps now) es (s\<lparr>ss_inbox := ib\<rparr>))"
| "session_step deps now (BulkPayload data) s =
     (case decodeChunkFrame data of None \<Rightarrow> s | Some frame \<Rightarrow> onFrame frame s)"
| "session_step deps now ControlClosed s =
     fail_session \<lparr>se_code = Closed, se_message = ''peer closed the control channel''\<rparr> s"
| "session_step deps now ExpectTimeout s =
     (case awaited_type (ss_phase s) of
        None \<Rightarrow> s
      | Some t \<Rightarrow> (let (es, ib) = timeout_wait 0 t (ss_inbox s)
                  in fold (apply_effect deps now) es (s\<lparr>ss_inbox := ib\<rparr>)))"
| "session_step deps now CompleteTimeout s =
     (case ss_phase s of
        AwaitComplete _ _ _ _ \<Rightarrow>
          if ss_peerCompleted s then s
          else throw (session_error Timeout ''timed out waiting for sync-complete from peer'') s
      | _ \<Rightarrow> s)"
| "session_step deps now RunIngest s = run_ingest deps now s"
| "session_step deps now (Serve bufferedAmount) s = serve_step deps bufferedAmount s"
| "session_step deps now Continue s = continue_run deps now s"

text \<open>
  A run: the session starts and then any inputs happen, each with the time at which it is handled.
  Before the start no handler is attached to the link, so nothing reaches the session.
\<close>

inductive session_run ::
  "('m, 'b, 'c, 'd, 's) SessionDeps \<Rightarrow> ('m, 'b) engine \<Rightarrow> 's \<Rightarrow> ('m, 'b, 's) SyncSession \<Rightarrow> bool"
  for deps en trust where
  session_start: "session_run deps en trust (run_start deps now (new_SyncSession en trust))"
| session_next: "session_run deps en trust s \<Longrightarrow> session_run deps en trust (session_step deps now i s)"

end
