(* ===== verification/Session_Safety.thy ===== *)
theory Session_Safety
  imports Sync_Session
begin

text \<open>
  What a session keeps under every sequence of inputs, a hostile peer's included. The invariant is
  stated and proved in the locale \<open>sync_session\<close>, over the contracts of the engine's stores, and
  used through the interpretation for a desktop installation.
\<close>

section \<open>What a peer has proven\<close>

definition auth_proved :: "('m, 'b, 'c, 'd, 's) SessionDeps \<Rightarrow> DeviceId \<Rightarrow> bool" where
  "auth_proved sd d \<longleftrightarrow> (\<exists>i. vi_deviceId i = d \<and> vi_nonce i = sd_nonce sd \<and>
     deviceIdFor (sd_sha256 sd) (vi_publicKey i) = d \<and>
     verify (sd_verify sd) (vi_publicKey i) (peer_challenge (sd_auth sd) i) (vi_signature i))"

lemma verifyPeer_Accept:
  assumes "verifyPeer sha256 ed_verify options store i s = Inr (Accept name, t)"
  shows "deviceIdFor sha256 (vi_publicKey i) = vi_deviceId i \<and>
    verify ed_verify (vi_publicKey i) (peer_challenge options i) (vi_signature i)"
  using assms by (auto simp: verifyPeer_def split: if_splits)

text \<open>What may be sent, and where \<open>run()\<close> may stand, before the peer is authenticated.\<close>

fun early_output :: "session_output \<Rightarrow> bool" where
  "early_output (SendControl m) = (case m of Hello _ \<Rightarrow> True | Auth _ \<Rightarrow> True | ErrorMessage _ _ \<Rightarrow> True | _ \<Rightarrow> False)"
| "early_output (SendBulk _) = False"
| "early_output (Emit _) = False"
| "early_output (Uncaught _) = False"

fun early_phase :: "phase \<Rightarrow> bool" where
  "early_phase NotStarted = True"
| "early_phase AwaitHello = True"
| "early_phase (AwaitAuth _ _) = True"
| "early_phase (Threw _) = True"
| "early_phase _ = False"

section \<open>The invariant\<close>

definition early :: "('m, 'b) engine \<Rightarrow> ('m, 'b, 's) SyncSession \<Rightarrow> bool" where
  "early en0 s \<longleftrightarrow> ss_engine s = en0 \<and> ss_assemblers s = [] \<and> ss_inboundWork s = [] \<and> ss_serving s = NotServing \<and>
     ss_expected s = [] \<and> early_phase (ss_phase s) \<and> list_all early_output (ss_out s)"

definition inv_auth :: "('m, 'b, 'c, 'd, 's) SessionDeps \<Rightarrow> ('m, 'b) engine \<Rightarrow> ('m, 'b, 's) SyncSession \<Rightarrow> bool" where
  "inv_auth sd en0 s \<longleftrightarrow> (case ss_remoteDeviceId s of None \<Rightarrow> early en0 s | Some d \<Rightarrow> auth_proved sd d)"

text \<open>An assembler is made for the header it stands beside, and the header is within the protocol's limits.\<close>

definition fits_header :: "InboundHeader \<Rightarrow> ChunkAssembler \<Rightarrow> bool" where
  "fits_header h a \<longleftrightarrow>
     asm_inv a \<and> asm_totalChunks a = nat (rh_totalChunks (ih_header h)) \<and>
     asm_expectedSizeBytes a = nat (rh_sizeBytes (ih_header h)) \<and>
     rh_totalChunks (ih_header h) \<le> maxChunks \<and> rh_sizeBytes (ih_header h) \<le> maxRevisionBytes"

lemma fits_header_sizes:
  assumes "fits_header h a"
  shows "fst ` set (asm_chunks a) \<subseteq> {..< nat (rh_totalChunks (ih_header h))}"
    and "length (asm_chunks a) \<le> nat (rh_totalChunks (ih_header h))"
    and "sum_list (map (length \<circ> snd) (asm_chunks a)) \<le> nat (rh_sizeBytes (ih_header h))"
    and "rh_totalChunks (ih_header h) \<le> 262144" and "rh_sizeBytes (ih_header h) \<le> 512 * 1024 * 1024"
proof -
  have inv: "asm_inv a" and n: "asm_totalChunks a = nat (rh_totalChunks (ih_header h))"
    and b: "asm_expectedSizeBytes a = nat (rh_sizeBytes (ih_header h))"
    using assms by (simp_all add: fits_header_def)
  show sub: "fst ` set (asm_chunks a) \<subseteq> {..< nat (rh_totalChunks (ih_header h))}"
    using inv n by (auto simp: asm_inv_def)
  then have "card (fst ` set (asm_chunks a)) \<le> nat (rh_totalChunks (ih_header h))"
    by (metis card_lessThan card_mono finite_lessThan)
  then show "length (asm_chunks a) \<le> nat (rh_totalChunks (ih_header h))" using inv by (simp add: asm_inv_keys_length)
  show "sum_list (map (length \<circ> snd) (asm_chunks a)) \<le> nat (rh_sizeBytes (ih_header h))"
    using inv b by (simp add: asm_inv_def)
  show "rh_totalChunks (ih_header h) \<le> 262144" "rh_sizeBytes (ih_header h) \<le> 512 * 1024 * 1024"
    using assms by (simp_all add: fits_header_def LIMITS_defs)
qed

definition inv_buffers :: "('m, 'b, 's) SyncSession \<Rightarrow> bool" where
  "inv_buffers s \<longleftrightarrow> length (ss_orphanFrames s) \<le> MAX_ORPHAN_FRAMES \<and>
     (\<forall>(k, h, a) \<in> set (ss_assemblers s). fits_header h a)"

definition inv_wants :: "('m, 'b, 's) SyncSession \<Rightarrow> bool" where
  "inv_wants s \<longleftrightarrow>
     (\<forall>ids i. Emit (RequestedRevisions ids) \<in> set (ss_out s) \<longrightarrow> i \<in> set ids \<longrightarrow>
        i \<in> set (ss_expected s) \<or> i \<in> set (ss_received s) \<or>
        (\<exists>reason. Emit (RejectedRevision i reason) \<in> set (ss_out s)))"

lemmas session_updates = put_out_def send_def emit_def throw_def expected_delete_def

lemma inv_auth_SomeD: "inv_auth sd en0 s \<Longrightarrow> \<not> early_phase (ss_phase s) \<Longrightarrow> \<exists>d. ss_remoteDeviceId s = Some d"
  by (auto simp: inv_auth_def early_def split: option.splits)

subsection \<open>Steps inside an authenticated session\<close>

text \<open>
  \<open>inner s s'\<close>: the engine, the peer's identity and the list of received revisions are untouched, no
  acceptance is announced, and the bookkeeping keeps its invariants. Everything but the handshake,
  the ingests and the end of a session is an inner step.
\<close>

definition inner :: "('m, 'b, 's) SyncSession \<Rightarrow> ('m, 'b, 's) SyncSession \<Rightarrow> bool" where
  "inner s s' \<longleftrightarrow> ss_engine s' = ss_engine s \<and> ss_received s' = ss_received s \<and>
     ss_remoteDeviceId s' = ss_remoteDeviceId s \<and>
     (\<forall>i r. SendControl (RevisionAck i True r) \<in> set (ss_out s') \<longrightarrow> SendControl (RevisionAck i True r) \<in> set (ss_out s)) \<and>
     (inv_wants s \<longrightarrow> inv_wants s') \<and> (inv_buffers s \<longrightarrow> inv_buffers s')"

lemma inner_refl [simp]: "inner s s"
  by (simp add: inner_def)

lemma inner_trans: "inner s t \<Longrightarrow> inner t u \<Longrightarrow> inner s u"
  by (simp add: inner_def)

lemma inner_notify [simp]: "inner s (notifyProgress s)"
  by (auto simp: inner_def notifyProgress_def inv_wants_def inv_buffers_def)

lemma inner_reject [simp]: "inner s (reject i reason s)"
proof -
  have "inner s (emit (RejectedRevision i reason) (expected_delete i (send (RevisionAck i False (Some reason)) s)))"
    by (auto simp: inner_def session_updates inv_wants_def inv_buffers_def)
  then show ?thesis unfolding reject_def by (rule inner_trans) simp
qed

lemma inner_out: "(\<And>i r. x \<noteq> SendControl (RevisionAck i True r)) \<Longrightarrow> (\<And>ids. x \<noteq> Emit (RequestedRevisions ids)) \<Longrightarrow> inner s (put_out x s)"
  unfolding inner_def put_out_def inv_wants_def inv_buffers_def by simp metis

lemma inner_uncaught [simp]: "inner s (put_out (Uncaught e) s)"
  by (rule inner_out) auto

lemma inner_assemblers:
  assumes "inv_buffers s \<Longrightarrow> \<forall>(k, h, a) \<in> set asms. fits_header h a"
  shows "inner s (s\<lparr>ss_assemblers := asms\<rparr>)"
  using assms by (auto simp: inner_def inv_wants_def inv_buffers_def)

lemma inner_delete [simp]: "inner s (s\<lparr>ss_assemblers := AList.delete k (ss_assemblers s)\<rparr>)"
  by (rule inner_assemblers) (auto simp: inv_buffers_def AList.delete_eq)

lemma inner_queue [simp]: "inner s (queueIngest h bs s)"
  by (auto simp: inner_def queueIngest_def inv_wants_def inv_buffers_def)

lemma fits_accept: "fits_header h a \<Longrightarrow> fits_header h (snd (accept_chunk a f))"
  using asm_inv_accept [of a f] accept_chunk_frame [of a f] by (simp add: fits_header_def)

lemma inner_onFrame [simp]: "inner s (onFrame f s)"
proof (cases "map_of (ss_assemblers s) (fr_transferSeq f)")
  case None
  then show ?thesis by (auto simp: onFrame_def inner_def inv_wants_def inv_buffers_def)
next
  case (Some entry)
  obtain h a where entry: "entry = (h, a)" by (cases entry)
  obtain ok a' where acc: "accept_chunk a f = (ok, a')" by (cases "accept_chunk a f")
  have bound: "inv_buffers s \<Longrightarrow> fits_header h a'"
  proof -
    assume "inv_buffers s"
    then have "fits_header h a" using map_of_SomeD [OF Some] by (auto simp: inv_buffers_def entry)
    then show "fits_header h a'" using fits_accept [of h a f] acc by simp
  qed
  have upd: "inner s (s\<lparr>ss_assemblers := AList.update k (h, a') (ss_assemblers s)\<rparr>)" for k
  proof (rule inner_assemblers)
    assume inv: "inv_buffers s"
    show "\<forall>(k, h, a) \<in> set (AList.update k (h, a') (ss_assemblers s)). fits_header h a"
      using bound [OF inv] inv by (auto simp: inv_buffers_def dest!: alist_update_mem)
  qed
  show ?thesis
    using Some entry acc upd inner_trans [OF inner_delete inner_reject] inner_trans [OF inner_delete inner_queue]
      inner_trans [OF inner_delete inner_uncaught]
    by (auto simp: onFrame_def Let_def split: sum.split bool.split)
qed

lemma inner_orphans:
  "inner s (s\<lparr>ss_orphanFrames := take n (ss_orphanFrames s) @ drop (Suc n) (ss_orphanFrames s)\<rparr>)"
  by (auto simp: inner_def inv_wants_def inv_buffers_def)

lemma inner_drain_orphans [simp]: "inner s (drain_orphans q n s)"
proof (induction q n s rule: drain_orphans.induct)
  case (2 q n s)
  show ?case
    using 2 inner_trans [OF inner_trans [OF inner_orphans inner_onFrame]] by auto
qed simp

lemma inner_onHeader:
  assumes "rh_totalChunks (ih_header h) \<le> maxChunks" "rh_sizeBytes (ih_header h) \<le> maxRevisionBytes"
  shows "inner s (onHeader h s)"
proof (cases "new_ChunkAssembler (nat (rh_totalChunks (ih_header h))) (nat (rh_sizeBytes (ih_header h)))")
  case (Inr a)
  then have "fits_header h a"
    using asm_inv_new [OF Inr] assms by (auto simp: fits_header_def new_ChunkAssembler_def res_bind_eq_Inr)
  then have "inner s (s\<lparr>ss_assemblers := AList.update k (h, a) (ss_assemblers s)\<rparr>)" for k
    by (intro inner_assemblers) (auto simp: inv_buffers_def dest!: alist_update_mem)
  then show ?thesis using Inr by (simp add: onHeader_def Let_def inner_trans [OF _ inner_drain_orphans])
qed (auto simp: onHeader_def Let_def intro: inner_out)

lemma inner_fields [simp]:
  "inner s (s\<lparr>ss_phase := p\<rparr>)" "inner s (s\<lparr>ss_inbox := ib\<rparr>)" "inner s (s\<lparr>ss_serving := sv\<rparr>)"
  "inner s (s\<lparr>ss_vaultId := v\<rparr>)" "inner s (s\<lparr>ss_drain := d\<rparr>)" "inner s (s\<lparr>ss_sent := x\<rparr>)"
  "inner s (s\<lparr>ss_ackWaiters := w\<rparr>)" "inner s (s\<lparr>ss_ackOutcome := out\<rparr>)" "inner s (s\<lparr>ss_peerCompleted := c\<rparr>)"
  "inner s (s\<lparr>ss_inboundWork := work\<rparr>)" "inner s (throw e s)"
  by (auto simp: inner_def inv_wants_def inv_buffers_def throw_def)

lemma inner_emit: "(\<And>ids. e \<noteq> RequestedRevisions ids) \<Longrightarrow> inner s (emit e s)"
  unfolding emit_def by (rule inner_out) auto

lemma inner_send: "(\<And>i r. m \<noteq> RevisionAck i True r) \<Longrightarrow> inner s (send m s)"
  unfolding send_def by (rule inner_out) auto

lemmas inner_steps = inner_fields inner_emit inner_send inner_notify inner_reject inner_delete inner_queue
  inner_onFrame inner_drain_orphans

text \<open>One update after another.\<close>

lemma inner_chain:
  "inner s t \<Longrightarrow> inner s (t\<lparr>ss_phase := p\<rparr>)" "inner s t \<Longrightarrow> inner s (t\<lparr>ss_serving := sv\<rparr>)"
  "inner s t \<Longrightarrow> inner s (t\<lparr>ss_vaultId := v\<rparr>)" "inner s t \<Longrightarrow> inner s (t\<lparr>ss_drain := d\<rparr>)"
  "inner s t \<Longrightarrow> inner s (t\<lparr>ss_ackWaiters := w\<rparr>)" "inner s t \<Longrightarrow> inner s (t\<lparr>ss_ackOutcome := out\<rparr>)"
  "inner s t \<Longrightarrow> inner s (t\<lparr>ss_inbox := ib\<rparr>)" "inner s t \<Longrightarrow> inner s (t\<lparr>ss_sent := x\<rparr>)"
  "inner s t \<Longrightarrow> inner s (t\<lparr>ss_peerCompleted := c\<rparr>)" "inner s t \<Longrightarrow> inner s (t\<lparr>ss_inboundWork := work\<rparr>)"
  "inner s t \<Longrightarrow> inner s (throw e t)" "inner s t \<Longrightarrow> inner s (notifyProgress t)"
  "inner s t \<Longrightarrow> (\<And>ids. ev \<noteq> RequestedRevisions ids) \<Longrightarrow> inner s (emit ev t)"
  "inner s t \<Longrightarrow> (\<And>i r. m \<noteq> RevisionAck i True r) \<Longrightarrow> inner s (send m t)"
  using inner_trans inner_fields inner_notify inner_emit inner_send by metis+

lemma inner_await:
  assumes "\<And>m s'. inner s s' \<Longrightarrow> inner s (k m s')"
  shows "inner s (await_message t w k s)"
  using assms by (auto simp: await_message_def Let_def intro!: inner_chain split: prod.split expectation.split)

lemma inner_fail [simp]: "inner s (fail_session e s)"
  by (auto simp: fail_session_def Let_def intro!: inner_chain split: prod.split)

lemma inner_start_transfer: "inner s t \<Longrightarrow> inner s (start_transfer d n h g m t)"
  by (auto simp: start_transfer_def drainInbound_def intro!: inner_chain split: ProtocolMessage.split)

lemma inner_requested:
  "inner s (emit (RequestedRevisions wanted) (s\<lparr>ss_expected := foldl set_add (ss_expected s) wanted\<rparr>))"
  by (auto simp: inner_def session_updates inv_wants_def inv_buffers_def foldl_set_add_set)

lemma inner_on_history: "inner s t \<Longrightarrow> inner s (on_history sd d n h m t)"
proof -
  assume st: "inner s t"
  have "inner t (await_message ''want-revisions'' w (start_transfer d n h g)
      (send (WantRevisions v wanted) (emit (RequestedRevisions wanted)
        (t\<lparr>ss_expected := foldl set_add (ss_expected t) wanted\<rparr>))))" for w g v wanted
    by (rule inner_trans [OF inner_trans [OF inner_requested inner_send] inner_await [OF inner_start_transfer]]) auto
  then have "inner s (await_message ''want-revisions'' w (start_transfer d n h g)
      (send (WantRevisions v wanted) (emit (RequestedRevisions wanted)
        (t\<lparr>ss_expected := foldl set_add (ss_expected t) wanted\<rparr>))))" for w g v wanted
    using st inner_trans by blast
  with st show ?thesis
    by (auto simp: on_history_def Let_def simp del: foldl.simps intro!: inner_chain(11)
        split: ProtocolMessage.split sum.split)
qed

lemma inner_exchangeHistory [simp]: "inner s (exchangeHistory sd d n h s)"
  unfolding exchangeHistory_def
  by (rule inner_trans [OF inner_send inner_await [OF inner_on_history]]) auto

lemma inner_handle_control:
  assumes "within_limits m" "ss_remoteDeviceId s \<noteq> None"
  shows "inner s (handle_control m s)"
proof (cases m)
  case (RevisionHeader h)
  then show ?thesis using assms by (auto simp: handle_control_def intro: inner_onHeader split: option.split)
next
  case (TransferCancel q reason)
  have cancel: "inner s (notifyProgress (emit (RejectedRevision i reason) (expected_delete i
      (s\<lparr>ss_assemblers := AList.delete (nat q) (ss_assemblers s)\<rparr>))))" for i
  proof -
    have "inner t (emit (RejectedRevision i reason) (expected_delete i t))" for t :: "('a, 'b, 'c) SyncSession"
      by (auto simp: inner_def session_updates inv_wants_def inv_buffers_def)
    then show ?thesis using inner_delete inner_notify inner_trans by metis
  qed
  then show ?thesis by (auto simp: TransferCancel handle_control_def Let_def split: option.split)
qed (auto simp: handle_control_def intro!: inner_chain)

lemma inner_serve_step [simp]: "inner s (serve_step sd b s)"
  by (auto simp: serve_step_def serve_next_def stop_serving_def awaitAck_def
      intro!: inner_chain inner_trans [OF inner_fields(3) inner_out]
      split: serving.split list.split option.split sum.split prod.split bool.split)

section \<open>The invariant of a session\<close>

locale sync_session = sync_engine "sd_engine sd" md_inv blob_inv
  for sd :: "('m, 'b, 'c, 'd, 's) SessionDeps" and md_inv :: "'m \<Rightarrow> bool" and blob_inv :: "'b \<Rightarrow> bool"
begin

text \<open>What a session may do to the stores: add revisions and vaults, never change or remove one.\<close>

definition grows :: "('m, 'b) engine \<Rightarrow> ('m, 'b) engine \<Rightarrow> bool" where
  "grows s t \<longleftrightarrow>
     (\<forall>i r. ms_getRevision md i (en_md s) = Some r \<longrightarrow> ms_getRevision md i (en_md t) = Some r) \<and>
     (\<forall>v vt. ms_getVault md v (en_md s) = Some vt \<longrightarrow> ms_getVault md v (en_md t) = Some vt)"

lemma grows_trans: "grows s t \<Longrightarrow> grows t u \<Longrightarrow> grows s u"
  by (simp add: grows_def)

lemma grows_refl [simp]: "grows s s"
  by (simp add: grows_def)

lemma grows_has: "grows s t \<Longrightarrow> ms_hasRevision md i (en_md s) \<Longrightarrow> ms_hasRevision md i (en_md t)"
  using has_rev by (auto simp: grows_def)

lemma ingest_grows:
  assumes "engine_ok s" "ingestReceivedRevision (sd_engine sd) i now s = (r, t)"
  shows "engine_ok t" and "grows s t" and "r = Inr q \<Longrightarrow> (\<And>reason. q \<noteq> Rejected reason) \<Longrightarrow>
    ms_hasRevision md (in_revisionId i) (en_md t)"
proof -
  show "engine_ok t" using wpD [OF ingest_ok [OF assms(1)] assms(2)] .
  have "grows s t \<and> (\<forall>q. r = Inr q \<longrightarrow> (\<forall>reason. q \<noteq> Rejected reason) \<longrightarrow> ms_hasRevision md (in_revisionId i) (en_md t))"
  proof (cases "ingestible i (en_md s)")
    case False
    show ?thesis
    proof (cases "ms_hasRevision md (in_revisionId i) (en_md s)")
      case True
      then show ?thesis using assms(2) by (auto simp: ingestReceivedRevision_def)
    next
      case False
      with \<open>\<not> ingestible i (en_md s)\<close> show ?thesis
        using assms(2) missing_parent_None [of "sd_engine sd" "in_declaredParentIds i" "en_md s"]
        by (auto simp: ingestible_def ingestReceivedRevision_def split: if_splits option.splits)
    qed
  next
    case True
    show ?thesis
    proof (cases r)
      case (Inr q)
      from ingest_accepted [OF assms(1) True assms(2) [unfolded Inr]] obtain ps where
        st: "ms_getRevision md (in_revisionId i) (en_md t) = Some ((received_revision_of i now)\<lparr>rev_parentIds := ps\<rparr>)"
        "\<And>j. j \<noteq> in_revisionId i \<Longrightarrow> ms_getRevision md j (en_md t) = ms_getRevision md j (en_md s)"
        "\<And>v. ms_getVault md v (en_md t) = ms_getVault md v (en_md s)" by metis
      have "ms_getRevision md (in_revisionId i) (en_md s) = None"
        using True has_rev by (auto simp: ingestible_def)
      then have "j \<noteq> in_revisionId i" if "ms_getRevision md j (en_md s) = Some x" for j x using that by auto
      then show ?thesis using st has_rev by (auto simp: grows_def)
    next
      case (Inl e)
      obtain pr b' where put: "bl_put bl (in_bytes i) (en_bl s) = (pr, b')" by fastforce
      obtain sr m' where save: "ms_saveRevision md (received_revision_of i now) (en_md s) = (sr, m')" by fastforce
      have "rev_id (received_revision_of i now) = in_revisionId i" by (simp add: received_revision_of_def)
      then have "sr \<noteq> Inr () \<Longrightarrow> m' = en_md s"
        using save_revision [OF _ save] True assms(1) by (auto simp: engine_ok_def stores_ok_def ingestible_def)
      then have "en_md t = en_md s"
        using ingest_runs [OF True put save [unfolded received_revision_of_def]] assms(2) Inl
        by (auto split: sum.splits)
      then show ?thesis using Inl by (simp add: grows_def)
    qed
  qed
  then show "grows s t" and "r = Inr q \<Longrightarrow> (\<And>reason. q \<noteq> Rejected reason) \<Longrightarrow>
    ms_hasRevision md (in_revisionId i) (en_md t)" by blast+
qed

lemma adopt_grows:
  assumes "engine_ok s" "adoptVault (sd_engine sd) v name now s = (r, t)"
  shows "engine_ok t" and "grows s t"
proof -
  show "engine_ok t" using wpD [OF adopt_ok [OF assms(1)] assms(2)] .
  show "grows s t"
  proof (cases "ms_getVault md v (en_md s)")
    case None
    let ?vt = "\<lparr>vault_id = v, vault_name = name, vault_headRevisionId = None, vault_kdbxPath = None, vault_createdAt = now\<rparr>"
    obtain sr m' where save: "ms_saveVault md ?vt (en_md s) = (sr, m')" by fastforce
    have "\<forall>i. ms_getRevision md i m' = ms_getRevision md i (en_md s)"
      "\<forall>i. i \<noteq> v \<longrightarrow> ms_getVault md i m' = ms_getVault md i (en_md s)"
      using save_vault [OF _ save] assms(1) by (auto simp: engine_ok_def stores_ok_def)
    moreover have "en_md t = m'"
      using assms(2) None save by (auto simp: adoptVault_def act_bind_simp on_md_def Let_def split: sum.splits)
    moreover have "x \<noteq> v" if "ms_getVault md x (en_md s) = Some vt" for x vt using None that by auto
    ultimately show ?thesis by (simp add: grows_def)
  qed (use assms(2) in \<open>auto simp: adoptVault_def\<close>)
qed

lemma peer_head_grows:
  assumes "engine_ok s" "engine_recordPeerHead (sd_engine sd) d v h now s = (r, t)"
  shows "engine_ok t" and "grows s t"
proof -
  show "engine_ok t" using wpD [OF peer_head_ok [OF assms(1)] assms(2)] .
  obtain sr m' where rec: "ms_recordPeerHead md d v h now (en_md s) = (sr, m')" by fastforce
  have "en_md t = m'" using assms(2) rec by (auto simp: engine_recordPeerHead_def on_md_def)
  then show "grows s t"
    using peer_head [OF _ rec] assms(1) by (auto simp: engine_ok_def stores_ok_def grows_def)
qed

definition session_ok :: "('m, 'b) engine \<Rightarrow> ('m, 'b, 's) SyncSession \<Rightarrow> bool" where
  "session_ok en0 s \<longleftrightarrow> inv_auth sd en0 s \<and> inv_buffers s \<and> inv_wants s \<and>
     engine_ok (ss_engine s) \<and> engine_run (sd_engine sd) en0 (ss_engine s) \<and> grows en0 (ss_engine s) \<and>
     (\<forall>i \<in> set (ss_received s). ms_hasRevision md i (en_md (ss_engine s))) \<and>
     (\<forall>i r. SendControl (RevisionAck i True r) \<in> set (ss_out s) \<longrightarrow> ms_hasRevision md i (en_md (ss_engine s)))"

lemma ok_inner:
  assumes "session_ok en0 s" "ss_remoteDeviceId s = Some d" "inner s t"
  shows "session_ok en0 t"
proof -
  have "ss_engine t = ss_engine s" "ss_received t = ss_received s" "ss_remoteDeviceId t = ss_remoteDeviceId s"
    and acks: "\<And>i r. SendControl (RevisionAck i True r) \<in> set (ss_out t) \<Longrightarrow> SendControl (RevisionAck i True r) \<in> set (ss_out s)"
    and keep: "inv_wants s \<Longrightarrow> inv_wants t" "inv_buffers s \<Longrightarrow> inv_buffers t"
    using assms(3) by (simp_all add: inner_def)
  then show ?thesis using assms(1,2) unfolding session_ok_def inv_auth_def by simp blast
qed

lemma ok_phase:
  "session_ok en0 s \<Longrightarrow> early_phase p \<or> ss_remoteDeviceId s \<noteq> None \<Longrightarrow> session_ok en0 (s\<lparr>ss_phase := p\<rparr>)"
  by (auto simp: session_ok_def inv_auth_def early_def inv_wants_def inv_buffers_def split: option.splits)

lemma ok_inbox [simp]: "session_ok en0 (s\<lparr>ss_inbox := ib\<rparr>) = session_ok en0 s"
  by (auto simp: session_ok_def inv_auth_def early_def inv_wants_def inv_buffers_def split: option.splits)

lemma ok_vaultId [simp]: "session_ok en0 (s\<lparr>ss_vaultId := v\<rparr>) = session_ok en0 s"
  by (auto simp: session_ok_def inv_auth_def early_def inv_wants_def inv_buffers_def split: option.splits)

lemma ok_throw: "session_ok en0 s \<Longrightarrow> session_ok en0 (throw e s)"
  unfolding throw_def by (rule ok_phase) simp_all

lemma ok_send:
  assumes "session_ok en0 s" "early_output (SendControl m)"
  shows "session_ok en0 (send m s)"
  using assms
  by (auto simp: session_ok_def inv_auth_def early_def inv_wants_def inv_buffers_def send_def put_out_def split: option.splits)

lemma ok_await:
  assumes "session_ok en0 s" "early_phase w \<or> ss_remoteDeviceId s \<noteq> None"
    and "\<And>m ib. message_type m = t \<or> True \<Longrightarrow> session_ok en0 (s\<lparr>ss_inbox := ib\<rparr>) \<Longrightarrow> session_ok en0 (k m (s\<lparr>ss_inbox := ib\<rparr>))"
  shows "session_ok en0 (await_message t w k s)"
  using assms by (auto simp: await_message_def Let_def intro!: ok_throw ok_phase split: prod.split expectation.split)

end

context sync_session
begin

lemma ok_engine:
  assumes "session_ok en0 s" "ss_remoteDeviceId s = Some d"
    and "engine_step (sd_engine sd) (ss_engine s) en" "engine_ok en" "grows (ss_engine s) en"
  shows "session_ok en0 (s\<lparr>ss_engine := en\<rparr>)"
proof -
  have "engine_run (sd_engine sd) en0 en" "grows en0 en"
    using assms(1) run_step [OF _ assms(3)] grows_trans [OF _ assms(5)] by (simp_all add: session_ok_def)
  moreover have "inv_auth sd en0 (s\<lparr>ss_engine := en\<rparr>)" "inv_wants (s\<lparr>ss_engine := en\<rparr>)" "inv_buffers (s\<lparr>ss_engine := en\<rparr>)"
    using assms(1,2) by (simp_all add: session_ok_def inv_auth_def inv_wants_def inv_buffers_def)
  ultimately show ?thesis
    using assms(1) grows_has [OF assms(5)] assms(4) unfolding session_ok_def by simp
qed

lemma ok_on_vault_summary:
  assumes "session_ok en0 s" "ss_remoteDeviceId s = Some d"
  shows "session_ok en0 (on_vault_summary sd now rid rname lv m s)"
proof -
  note inner = ok_inner [OF assms]
  have adopt: "session_ok en0 (throw (ThrowJs e) (s\<lparr>ss_engine := en\<rparr>)) \<and>
      session_ok en0 (exchangeHistory sd rid rname h (emit (AdoptedVault v name)
        (s\<lparr>ss_engine := en, ss_vaultId := vo\<rparr>)))"
    if "adoptVault (sd_engine sd) v name now (ss_engine s) = (r, en)" for r en e v name h vo
  proof -
    have ok: "session_ok en0 (s\<lparr>ss_engine := en\<rparr>)"
      using adopt_grows [OF _ that] assms step_adopt [OF that]
      by (intro ok_engine [OF assms]) (auto simp: session_ok_def)
    have "inner (s\<lparr>ss_engine := en\<rparr>) (exchangeHistory sd rid rname h (emit (AdoptedVault v name)
        ((s\<lparr>ss_engine := en\<rparr>)\<lparr>ss_vaultId := vo\<rparr>)))"
      by (rule inner_trans [OF inner_chain(13) [OF inner_fields(4)] inner_exchangeHistory]) simp
    then show ?thesis using ok ok_throw ok_inner [OF ok _] assms(2) by simp
  qed
  have local: "session_ok en0 (exchangeHistory sd rid rname h (s\<lparr>ss_vaultId := v\<rparr>))" for h v
    by (rule inner, rule inner_trans [OF inner_fields(4) inner_exchangeHistory])
  show ?thesis
    using assms(1) ok_throw adopt local
    by (auto simp: on_vault_summary_def Let_def split: ProtocolMessage.split option.split prod.split sum.split)
qed

lemma ok_exchangeVaultSummary:
  assumes "session_ok en0 s" "ss_remoteDeviceId s = Some d"
  shows "session_ok en0 (exchangeVaultSummary sd now rid rname s)"
proof -
  have send: "session_ok en0 (send m s) \<and> ss_remoteDeviceId (send m s) = Some d"
    if "\<And>i r. m \<noteq> RevisionAck i True r" for m
    using ok_inner [OF assms inner_send [OF that]] assms(2) by (simp add: send_def put_out_def)
  have wait: "session_ok en0 (await_message t (AwaitSummary rid rname lv) (on_vault_summary sd now rid rname lv)
      (send (VaultSummary vs) s))" for t lv vs
    using send [of "VaultSummary vs"]
    by (intro ok_await) (auto intro!: ok_on_vault_summary [of _ _ d] simp del: ok_inbox)
  show ?thesis
    using send [of "ErrorMessage _ _"] wait ok_throw by (simp add: exchangeVaultSummary_def Let_def)
qed

lemma ok_on_auth:
  assumes "session_ok en0 s"
  shows "session_ok en0 (on_auth sd now hello pk m s)"
proof -
  have trust: "session_ok en0 (s\<lparr>ss_trust := tr\<rparr>)" for tr
    using assms
    by (simp add: session_ok_def inv_auth_def early_def inv_wants_def inv_buffers_def split: option.splits)
  have accept: "session_ok en0 (exchangeVaultSummary sd now d name (emit (Authenticated d)
      (emit (HandshakeDone d name) (s\<lparr>ss_trust := tr, ss_remoteDeviceId := Some d\<rparr>))))"
    if "auth_proved sd d" for d name tr
  proof -
    let ?t = "s\<lparr>ss_trust := tr, ss_remoteDeviceId := Some d\<rparr>"
    have ok: "session_ok en0 ?t"
      using assms that by (simp add: session_ok_def inv_auth_def early_def inv_wants_def inv_buffers_def)
    have "inner ?t (emit (Authenticated d) (emit (HandshakeDone d name) ?t))"
      by (rule inner_chain(13) [OF inner_emit]) auto
    from ok_inner [OF ok _ this] show ?thesis
      by (intro ok_exchangeVaultSummary [of _ _ d]) (simp_all add: emit_def put_out_def)
  qed
  show ?thesis
  proof (cases m)
    case (Auth encoded)
    show ?thesis
    proof (cases "decodeBase64 encoded")
      case (Some signature)
      let ?i = "\<lparr>vi_deviceId = hello_deviceId hello, vi_publicKey = pk, vi_nonce = sd_nonce sd,
                 vi_signature = signature, vi_claimedName = hello_deviceName hello\<rparr>"
      show ?thesis
      proof (cases "verifyPeer (sd_sha256 sd) (sd_verify sd) (sd_auth sd) (sd_store sd) ?i (ss_trust s)")
        case (Inl e)
        then show ?thesis using assms Auth Some by (simp add: on_auth_def ok_throw)
      next
        case (Inr p)
        obtain outcome tr where p: "p = (outcome, tr)" by (cases p)
        show ?thesis
        proof (cases outcome)
          case (Accept name)
          have "auth_proved sd (hello_deviceId hello)"
            unfolding auth_proved_def
            using verifyPeer_Accept [OF Inr [unfolded p Accept]] by (intro exI [of _ ?i]) simp
          then show ?thesis using Auth Some Inr p Accept accept by (simp add: on_auth_def)
        next
          case (Reject reason)
          then show ?thesis using Auth Some Inr p trust by (simp add: on_auth_def ok_throw ok_send)
        qed
      qed
    qed (use assms Auth in \<open>simp add: on_auth_def ok_throw\<close>)
  qed (use assms in \<open>simp_all add: on_auth_def\<close>)
qed

lemma ok_on_hello:
  assumes "session_ok en0 s"
  shows "session_ok en0 (on_hello sd now m s)"
proof (cases m)
  case (Hello hello)
  have "session_ok en0 (await_message t (AwaitAuth hello pk) (on_auth sd now hello pk) (send (Auth x) s))" for t pk x
    by (rule ok_await [OF ok_send [OF assms]]) (auto intro: ok_on_auth simp del: ok_inbox)
  then show ?thesis
    using Hello assms by (auto simp: on_hello_def ok_throw ok_send split: option.split)
qed (use assms in \<open>simp_all add: on_hello_def\<close>)

lemma ok_run_start:
  assumes "engine_ok en0"
  shows "session_ok en0 (run_start sd now (new_SyncSession en0 trust))"
proof -
  let ?s = "(attach (new_SyncSession en0 trust))\<lparr>ss_vaultId := sd_vaultId sd\<rparr>"
  have "session_ok en0 (new_SyncSession en0 trust)"
    using assms run_none
    by (simp add: session_ok_def inv_auth_def early_def inv_wants_def inv_buffers_def new_SyncSession_def)
  then have "session_ok en0 ?s" by (simp add: attach_def)
  then show ?thesis
    unfolding run_start_def handshake_def
    by (intro ok_await [OF ok_send]) (auto intro: ok_on_hello simp del: ok_inbox ok_vaultId)
qed

lemma ok_fail_session: "session_ok en0 s \<Longrightarrow> session_ok en0 (fail_session e s)"
  by (simp add: fail_session_def ok_throw split: prod.split)

lemma ok_resume:
  assumes "session_ok en0 s"
  shows "session_ok en0 (resume sd now m s)"
proof -
  have auth: "inv_auth sd en0 s" using assms by (simp add: session_ok_def)
  have proved: "\<exists>d. ss_remoteDeviceId s = Some d" if "\<not> early_phase (ss_phase s)"
    using inv_auth_SomeD [OF auth that] .
  show ?thesis
  proof (cases "early_phase (ss_phase s)")
    case True
    then show ?thesis
      using assms by (cases "ss_phase s") (simp_all add: resume_def ok_on_hello ok_on_auth)
  next
    case False
    with proved obtain d where d: "ss_remoteDeviceId s = Some d" by auto
    show ?thesis
      using False assms ok_inner [OF assms d] ok_on_vault_summary [OF assms d]
      by (cases "ss_phase s") (simp_all add: resume_def inner_on_history inner_start_transfer)
  qed
qed

end

text \<open>Only messages within the limits reach a handler.\<close>

lemma accepted_message:
  assumes "accept_control raw ib = (es, ib')"
  shows "RunHandler m \<in> set es \<Longrightarrow> within_limits m"
proof -
  have fail: "RunHandler m \<notin> set (fst (fail_inbox e ib))" for e
    by (auto simp: fail_inbox_def Let_def)
  have route: "es = fst (route_message q ib) \<Longrightarrow> RunHandler m \<in> set es \<Longrightarrow> m = q" for q
    by (auto simp: route_message_def Let_def split: if_splits list.splits)
  assume run: "RunHandler m \<in> set es"
  show "within_limits m"
  proof (cases "parseMessage raw")
    case (Parsed q)
    have "accept_control raw ib = route_message q ib \<or> (\<exists>e. accept_control raw ib = fail_inbox e ib)"
      using Parsed by (cases q) (auto simp: accept_control_def)
    then have "es = fst (route_message q ib) \<or> (\<exists>e. es = fst (fail_inbox e ib))"
      unfolding assms by (metis fst_conv)
    then have "m = q" using route run fail by auto
    then show ?thesis using Parsed parseMessage_within_limits by simp
  next
    case (Refused code reason)
    then have "es = fst (fail_inbox \<lparr>se_code = ProtocolCode code, se_message = reason\<rparr> ib)"
      using assms by (auto simp: accept_control_def dest: arg_cong [of _ _ fst])
    then show ?thesis using fail run by auto
  qed
qed

lemma timeout_message: "timeout_wait w t ib = (es, ib') \<Longrightarrow> RunHandler m \<notin> set es"
  by (auto simp: timeout_wait_def split: if_splits)

context sync_session
begin

lemma early_handle_control:
  assumes "session_ok en0 s" "ss_remoteDeviceId s = None"
  shows "session_ok en0 (handle_control m s)"
proof -
  have "early en0 s" using assms by (simp add: session_ok_def inv_auth_def)
  then show ?thesis
    using assms ok_fail_session [OF assms(1)]
    by (cases m) (auto simp: handle_control_def Let_def notifyProgress_def early_def session_ok_def inv_auth_def
        inv_wants_def inv_buffers_def)
qed

lemma ok_handle_control:
  assumes "session_ok en0 s" "within_limits m"
  shows "session_ok en0 (handle_control m s)"
proof (cases "ss_remoteDeviceId s")
  case (Some d)
  then show ?thesis using ok_inner [OF assms(1) Some inner_handle_control [OF assms(2)]] by simp
qed (rule early_handle_control [OF assms(1)])

lemma ok_effects:
  assumes "session_ok en0 s" "\<And>m. RunHandler m \<in> set es \<Longrightarrow> within_limits m"
  shows "session_ok en0 (fold (apply_effect sd now) es s)"
  using assms
proof (induction es arbitrary: s)
  case (Cons e es)
  have "session_ok en0 (apply_effect sd now e s)"
    using Cons.prems by (cases e) (simp_all add: apply_effect_def ok_handle_control ok_resume ok_throw)
  then show ?case using Cons by simp
qed simp

lemma ok_onFrame:
  assumes "session_ok en0 s"
  shows "session_ok en0 (onFrame f s)"
proof (cases "ss_remoteDeviceId s")
  case None
  then have "early en0 s" using assms by (simp add: session_ok_def inv_auth_def)
  then show ?thesis
    using assms None by (auto simp: onFrame_def early_def session_ok_def inv_auth_def inv_wants_def inv_buffers_def)
qed (use ok_inner [OF assms _ inner_onFrame] in simp)

lemma ok_took_in:
  assumes "session_ok en0 s" "ss_remoteDeviceId s = Some d" "ms_hasRevision md i (en_md (ss_engine s))"
  shows "session_ok en0 (took_in i s)"
proof -
  let ?t = "expected_delete i (send (RevisionAck i True None) s)"
  have "session_ok en0 (?t\<lparr>ss_received := ss_received ?t @ [i]\<rparr>)"
    using assms by (auto simp: session_ok_def inv_auth_def inv_wants_def inv_buffers_def session_updates)
  moreover have "ss_remoteDeviceId (?t\<lparr>ss_received := ss_received ?t @ [i]\<rparr>) = Some d"
    using assms(2) by (simp add: session_updates)
  moreover have "inner t (notifyProgress (emit (ReceivedRevision i) t))" for t :: "('m, 'b, 's) SyncSession"
    by (rule inner_trans [OF inner_emit inner_notify]) auto
  ultimately show ?thesis unfolding took_in_def Let_def by (rule ok_inner)
qed

lemma count_ingest_simps [simp]:
  "ss_engine (count_ingest s) = ss_engine s" "ss_remoteDeviceId (count_ingest s) = ss_remoteDeviceId s"
  by (simp_all add: count_ingest_def split: phase.split)

lemma inner_count_ingest [simp]: "inner s (count_ingest s)"
  by (auto simp: count_ingest_def split: phase.split)

lemma ok_run_ingest:
  assumes "session_ok en0 s"
  shows "session_ok en0 (run_ingest sd now s)"
proof (cases "ss_inboundWork s")
  case (Cons p rest)
  obtain h bs where p: "p = (h, bs)" by (cases p)
  obtain d where d: "ss_remoteDeviceId s = Some d"
    using assms Cons by (auto simp: session_ok_def inv_auth_def early_def split: option.splits)
  let ?i = "ingest_input h bs"
  obtain r en where run: "ingestReceivedRevision (sd_engine sd) ?i now (ss_engine s) = (r, en)" by fastforce
  have eng: "engine_ok (ss_engine s)" using assms by (simp add: session_ok_def)
  note ing = ingest_grows [OF eng run]
  let ?s1 = "count_ingest (s\<lparr>ss_inboundWork := rest, ss_engine := en\<rparr>)"
  have "session_ok en0 (s\<lparr>ss_inboundWork := rest\<rparr>)"
    using ok_inner [OF assms d inner_fields(10)] .
  then have "session_ok en0 ((s\<lparr>ss_inboundWork := rest\<rparr>)\<lparr>ss_engine := en\<rparr>)"
    using d ing step_ingest [OF run] by (intro ok_engine [of _ _ d]) auto
  then have ok: "session_ok en0 ?s1"
    using ok_inner [OF _ _ inner_count_ingest, of en0 "s\<lparr>ss_inboundWork := rest, ss_engine := en\<rparr>" d] d by simp
  have "in_revisionId ?i = rh_revisionId (ih_header h)" by (simp add: ingest_input_def Let_def)
  then have has: "ms_hasRevision md (rh_revisionId (ih_header h)) (en_md (ss_engine ?s1))"
    if "r = Inr q" "\<And>reason. q \<noteq> Rejected reason" for q
    using ing(3) that by simp
  have rej: "session_ok en0 (reject (rh_revisionId (ih_header h)) reason ?s1)" for reason
    using ok_inner [OF ok _ inner_reject] d by simp
  have took: "session_ok en0 (took_in (rh_revisionId (ih_header h)) ?s1)"
    if "r = Inr q" "\<And>reason. q \<noteq> Rejected reason" for q
    using ok_took_in [OF ok _ has [OF that], of d] d by simp
  show ?thesis
    using Cons p run rej took
    by (auto simp: run_ingest_def Let_def split: sum.split IngestResult.split)
qed (use assms in \<open>simp add: run_ingest_def\<close>)

lemma ok_continue_run:
  assumes "session_ok en0 s"
  shows "session_ok en0 (continue_run sd now s)"
proof (cases "early_phase (ss_phase s)")
  case True
  then show ?thesis using assms by (cases "ss_phase s") (simp_all add: continue_run_def)
next
  case False
  then obtain d where d: "ss_remoteDeviceId s = Some d"
    using assms inv_auth_SomeD [of sd en0 s] by (auto simp: session_ok_def)
  note inner = ok_inner [OF assms d]
  have fin: "session_ok en0 (finish sd now rid rname h g s)" for rid rname h g
  proof (cases h)
    case None
    then show ?thesis using inner [OF inner_fields(1)] by (simp add: finish_def Let_def)
  next
    case (Some hd)
    obtain r en where rec: "engine_recordPeerHead (sd_engine sd) rid (session_vault s) hd now (ss_engine s) = (r, en)"
      by fastforce
    have ok: "session_ok en0 (s\<lparr>ss_engine := en\<rparr>)"
      using peer_head_grows [OF _ rec] assms step_peer_head [OF rec]
      by (intro ok_engine [OF assms d]) (auto simp: session_ok_def)
    have "session_ok en0 ((s\<lparr>ss_engine := en\<rparr>)\<lparr>ss_phase := p\<rparr>)" for p
      by (rule ok_phase [OF ok]) (simp add: d)
    then show ?thesis using Some rec ok ok_throw by (simp add: finish_def Let_def split: sum.split)
  qed
  show ?thesis
    using assms fin inner [OF inner_chain(1) [OF inner_send]] inner [OF inner_fields(1)]
    by (cases "ss_phase s") (simp_all add: continue_run_def)
qed

lemma ok_serve:
  assumes "session_ok en0 s"
  shows "session_ok en0 (serve_step sd b s)"
proof (cases "ss_remoteDeviceId s")
  case None
  then have "ss_serving s = NotServing" using assms by (simp add: session_ok_def inv_auth_def early_def)
  then show ?thesis using assms by (simp add: serve_step_def)
next
  case (Some d)
  show ?thesis by (rule ok_inner [OF assms Some inner_serve_step])
qed

lemma ok_step: "session_ok en0 s \<Longrightarrow> session_ok en0 (session_step sd now i s)"
proof (cases i)
  case (ControlPayload raw)
  assume "session_ok en0 s"
  then show ?thesis
    using ControlPayload accepted_message by (auto simp: Let_def intro!: ok_effects split: prod.split)
next
  case ExpectTimeout
  assume "session_ok en0 s"
  then show ?thesis
    using ExpectTimeout timeout_message by (auto simp: Let_def intro!: ok_effects split: prod.split option.split)
qed (auto simp: ok_onFrame ok_fail_session ok_throw ok_run_ingest ok_serve ok_continue_run split: option.split phase.split)

lemma ok_run: "session_run sd en0 trust s \<Longrightarrow> engine_ok en0 \<Longrightarrow> session_ok en0 s"
  by (induction rule: session_run.induct) (auto simp: ok_run_start ok_step simp del: session_step.simps)

end

end
