(* ===== verification/Session_Properties.thy ===== *)
theory Session_Properties
  imports Session_Safety
begin

text \<open>
  The properties of a session on a desktop installation: the interpretation of \<open>sync_session\<close> on
  the SQLite tables and the file store, the theorems about every run, and the delivery of the
  requested revisions by an honest peer.
\<close>

section \<open>A desktop's session\<close>

definition desktop_session ::
  "(bytes \<Rightarrow> Sha256Hex) \<Rightarrow> (VaultId \<Rightarrow> material \<Rightarrow> material list \<Rightarrow> 'c \<Rightarrow> InterpretationResult) \<Rightarrow>
   (VaultId \<Rightarrow> material \<Rightarrow> material list \<Rightarrow> 'c \<Rightarrow> 'd DiffResult) \<Rightarrow> DeviceId \<Rightarrow>
   (metadata_db, disk, 'c, 'd, 's) SessionDeps \<Rightarrow> (metadata_db, disk, 'c, 'd, 's) SessionDeps" where
  "desktop_session sha256 mergef difff deviceId sd0 = sd0\<lparr>sd_engine := desktop_deps sha256 mergef difff deviceId\<rparr>"

lemma desktop_session_simps [simp]:
  "sd_engine (desktop_session sha256 mergef difff deviceId sd0) = desktop_deps sha256 mergef difff deviceId"
  "sd_nonce (desktop_session sha256 mergef difff deviceId sd0) = sd_nonce sd0"
  "sd_sha256 (desktop_session sha256 mergef difff deviceId sd0) = sd_sha256 sd0"
  "sd_verify (desktop_session sha256 mergef difff deviceId sd0) = sd_verify sd0"
  "sd_auth (desktop_session sha256 mergef difff deviceId sd0) = sd_auth sd0"
  by (simp_all add: desktop_session_def)

interpretation desk: sync_session "desktop_session sha256 mergef difff deviceId sd0" db_ok
    "\<lambda>d. blobs_ok sha256 (dk_files d)"
  for sha256 mergef difff deviceId sd0
  unfolding sync_session_def desktop_session_simps by (rule desktop.sync_engine_axioms)

lemma desk_session_ok:
  assumes "engine_run (desktop_deps sha256 mergef difff deviceId) (fresh_install tape) en"
    and "session_run (desktop_session sha256 mergef difff deviceId sd0) en trust s"
  shows "sync_session.session_ok (desktop_session sha256 mergef difff deviceId sd0) db_ok
    (\<lambda>d. blobs_ok sha256 (dk_files d)) en s"
  using desk.ok_run [OF assms(2)] desktop.engine_run_ok [OF assms(1) fresh_install_ok] by simp

lemma engine_run_trans: "engine_run deps t u \<Longrightarrow> engine_run deps s t \<Longrightarrow> engine_run deps s u"
  by (induction rule: engine_run.induct) (auto intro: run_step)

section \<open>Properties of every run\<close>

text \<open>
  C6: Nothing happens before authentication. Whatever a peer sends and in whatever order the session's
  work interleaves with it: until the peer has proven its identity, the stores are exactly as before
  the session, no inbound transfer exists and nothing but hello, auth and error messages has been sent;
  and once the session has a peer, that peer's id is the hash of a key under which a signature over
  this session's own nonce has verified.\<close>

theorem nothing_before_authentication:
  assumes "engine_run (desktop_deps sha256 mergef difff deviceId) (fresh_install tape) en"
    and "session_run (desktop_session sha256 mergef difff deviceId sd0) en trust s"
  shows "case ss_remoteDeviceId s of
      None \<Rightarrow> ss_engine s = en \<and> ss_assemblers s = [] \<and> ss_inboundWork s = [] \<and> list_all early_output (ss_out s)
    | Some d \<Rightarrow> (\<exists>i. vi_deviceId i = d \<and> vi_nonce i = sd_nonce sd0 \<and> deviceIdFor (sd_sha256 sd0) (vi_publicKey i) = d \<and>
        verify (sd_verify sd0) (vi_publicKey i) (peer_challenge (sd_auth sd0) i) (vi_signature i))"
  using desk_session_ok [OF assms]
  by (auto simp: desk.session_ok_def inv_auth_def early_def auth_proved_def split: option.splits)

text \<open>
  C7: A session can only add. Whatever a peer does, a session takes the engine only through engine
  operations, so the installation stays sound, and every revision and every vault that existed before
  the session, its head and its file included, is unchanged after it: a head moves only by an explicit
  operation outside the session.\<close>

theorem session_only_adds:
  assumes "engine_run (desktop_deps sha256 mergef difff deviceId) (fresh_install tape) en"
    and "session_run (desktop_session sha256 mergef difff deviceId sd0) en trust s"
  shows "engine_run (desktop_deps sha256 mergef difff deviceId) (fresh_install tape) (ss_engine s) \<and>
    db_ok (en_md (ss_engine s)) \<and>
    (\<forall>i r. getRevision i (en_md en) = Some r \<longrightarrow> getRevision i (en_md (ss_engine s)) = Some r) \<and>
    (\<forall>v vt. getVault v (en_md en) = Some vt \<longrightarrow> getVault v (en_md (ss_engine s)) = Some vt)"
proof -
  note ok = desk_session_ok [OF assms, unfolded desk.session_ok_def desktop_session_simps]
  then have run: "engine_run (desktop_deps sha256 mergef difff deviceId) (fresh_install tape) (ss_engine s)"
    using engine_run_trans assms(1) by blast
  moreover have "db_ok (en_md (ss_engine s))"
    using desktop_ok_sound(1) [OF desktop.engine_run_ok [OF run fresh_install_ok]] .
  ultimately show ?thesis using ok by (simp add: desk.grows_def)
qed

text \<open>
  C31: What a peer can make a session hold is bounded. In every run at most 64 early frames are kept, and each
  open transfer holds, of the chunks its own header announced, each at most once, no other chunk and no more
  bytes than that header announced; and the header announced at most 262144 chunks and 512 MiB.\<close>

theorem session_buffers_bounded:
  assumes "engine_run (desktop_deps sha256 mergef difff deviceId) (fresh_install tape) en"
    and "session_run (desktop_session sha256 mergef difff deviceId sd0) en trust s"
  shows "length (ss_orphanFrames s) \<le> 64 \<and>
    (\<forall>(k, h, a) \<in> set (ss_assemblers s).
       distinct (map fst (asm_chunks a)) \<and>
       fst ` set (asm_chunks a) \<subseteq> {..< nat (rh_totalChunks (ih_header h))} \<and>
       sum_list (map (length \<circ> snd) (asm_chunks a)) \<le> nat (rh_sizeBytes (ih_header h)) \<and>
       rh_totalChunks (ih_header h) \<le> 262144 \<and> rh_sizeBytes (ih_header h) \<le> 512 * 1024 * 1024)"
proof -
  have inv: "inv_buffers s" using desk_session_ok [OF assms] by (simp add: desk.session_ok_def)
  have "distinct (map fst (asm_chunks a))" if "fits_header h a" for h a
    using that by (simp add: fits_header_def asm_inv_def)
  with inv show ?thesis
    unfolding inv_buffers_def MAX_ORPHAN_FRAMES_def using fits_header_sizes by fast
qed

text \<open>
  An acknowledgement means stored. In every run, each revision the session counts as received and
  each one it has acknowledged to the peer as accepted is in the metadata store, with bytes in the blob
  store that hash to its hash.\<close>

theorem accepted_means_stored:
  assumes "engine_run (desktop_deps sha256 mergef difff deviceId) (fresh_install tape) en"
    and "session_run (desktop_session sha256 mergef difff deviceId sd0) en trust s"
    and "i \<in> set (ss_received s) \<or> SendControl (RevisionAck i True reason) \<in> set (ss_out s)"
  shows "\<exists>r c. getRevision i (en_md (ss_engine s)) = Some r \<and>
    bytesOf (desktop_deps sha256 mergef difff deviceId) i (ss_engine s) = Inr c \<and> sha256 c = rev_hash r"
proof -
  note ok = desk_session_ok [OF assms(1,2)]
  have "hasRevision i (en_md (ss_engine s))" using ok assms(3) by (auto simp: desk.session_ok_def)
  then obtain r where r: "getRevision i (en_md (ss_engine s)) = Some r"
    using sqlite_md.has_rev [of i "en_md (ss_engine s)"] by auto
  have "desktop_ok sha256 mergef difff deviceId (ss_engine s)" using ok by (simp add: desk.session_ok_def)
  from desktop_ok_sound(3) [OF this r] r show ?thesis by (auto simp: bytesOf_def requireRevision_def)
qed

text \<open>
  C30: Every requested revision is accounted for. In every run, a revision the session asked the peer for
  is still expected (and listed as missing if the session returns now), was received, or was reported as
  rejected.\<close>

theorem requested_accounted:
  assumes "engine_run (desktop_deps sha256 mergef difff deviceId) (fresh_install tape) en"
    and "session_run (desktop_session sha256 mergef difff deviceId sd0) en trust s"
    and "Emit (RequestedRevisions ids) \<in> set (ss_out s)" and "i \<in> set ids"
  shows "i \<in> set (ss_expected s) \<or> i \<in> set (ss_received s) \<or>
    (\<exists>reason. Emit (RejectedRevision i reason) \<in> set (ss_out s))"
  using desk_session_ok [OF assms(1,2)] assms(3,4) by (simp add: desk.session_ok_def inv_wants_def)

section \<open>Payloads within the limits\<close>

definition deliver_message ::
  "('m, 'b, 'c, 'd, 's) SessionDeps \<Rightarrow> Date \<Rightarrow> ProtocolMessage \<Rightarrow> ('m, 'b, 's) SyncSession \<Rightarrow> ('m, 'b, 's) SyncSession" where
  "deliver_message deps now m s =
     (let (es, ib) = route_message m (ss_inbox s) in fold (apply_effect deps now) es (s\<lparr>ss_inbox := ib\<rparr>))"

lemma step_payload:
  assumes "within_limits m" "message_type m \<noteq> ''error''"
  shows "session_step deps now (ControlPayload (Some (encodeMessage m))) s = deliver_message deps now m s"
  using parseMessage_encode [OF assms(1)] assms(2)
  by (cases m) (simp_all add: accept_control_def deliver_message_def)

section \<open>A concrete session\<close>

text \<open>A device that tracks nothing meets a peer holding one revision.\<close>

definition sample_session_deps :: "(metadata_db, disk, unit, unit, devices_table) SessionDeps" where
  "sample_session_deps =
     \<lparr>sd_engine = sample_deps, sd_sha256 = (\<lambda>_. [1]), sd_sign = (\<lambda>_ _. [5]), sd_verify = (\<lambda>_ _ _. Some True),
      sd_auth = \<lparr>ao_keyPair = \<lparr>kp_deviceId = ''00'', kp_publicKey = [7], kp_privateKey = [9]\<rparr>,
                 ao_deviceName = ''me'', ao_pairingMode = True, ao_confirmPairing = None, ao_now = 3\<rparr>,
      sd_store = createSqliteTrustStore, sd_nonce = [8], sd_vaultId = None, sd_chunkBytes = 1, sd_highWaterBytes = 10\<rparr>"

definition sample_start :: "(metadata_db, disk, devices_table) SyncSession" where
  "sample_start = run_start sample_session_deps 3 (new_SyncSession (fresh_install []) [])"

definition sample_hello :: "session_input list" where
  "sample_hello =
     [ControlPayload (Some (encodeMessage (Hello \<lparr>hello_protocolVersion = 1, hello_deviceId = ''01'',
        hello_deviceName = ''peer'', hello_publicKey = ''AAAA'', hello_nonce = ''AAAA''\<rparr>))),
      ControlPayload (Some (encodeMessage (Auth ''AAAA''))),
      ControlPayload (Some (encodeMessage (VaultSummary \<lparr>vs_vaultId = ''v'', vs_vaultName = ''home'',
        vs_headRevisionId = Some ''r'', vs_revisionCount = 1\<rparr>)))]"

definition sample_offer_inputs :: "session_input list" where
  "sample_offer_inputs =
     [ControlPayload (Some (encodeMessage (HistorySummary ''v'' [\<lparr>hs_revisionId = ''r'',
        hs_hash = replicate 64 CHR ''b'', hs_sizeBytes = 2, hs_parentIds = []\<rparr>]))),
      ControlPayload (Some (encodeMessage (WantRevisions ''v'' [])))]"

definition sample_transfer_inputs :: "session_input list" where
  "sample_transfer_inputs =
     [BulkPayload (setUint32 1 @ setUint32 1 @ [4]),
      ControlPayload (Some (encodeMessage (RevisionHeader \<lparr>rh_transferSeq = 1, rh_vaultId = ''v'', rh_revisionId = ''r'',
        rh_hash = replicate 64 CHR ''b'', rh_sizeBytes = 2, rh_parentIds = [], rh_totalChunks = 2, rh_message = None\<rparr>))),
      BulkPayload (setUint32 1 @ setUint32 0 @ [2])]"

definition sample_steps :: "session_input list \<Rightarrow> (metadata_db, disk, devices_table) SyncSession \<Rightarrow>
    (metadata_db, disk, devices_table) SyncSession" where
  "sample_steps = fold (\<lambda>i. session_step sample_session_deps 3 i)"

lemma sample_steps_run:
  "session_run sample_session_deps en trust s \<Longrightarrow> session_run sample_session_deps en trust (sample_steps is s)"
  by (induction "is" arbitrary: s) (simp_all add: sample_steps_def session_next del: session_step.simps)

text \<open>The states after the vault was adopted, after the wants were exchanged and after all chunks came.\<close>

definition sample_engine :: "(metadata_db, disk) engine" where
  "sample_engine = \<lparr>en_md = empty_db\<lparr>db_vaults := [\<lparr>vr_id = ''v'', vr_name = ''home'', vr_kdbx_path = None,
     vr_head_revision_id = None, vr_created_at = 3\<rparr>]\<rparr>, en_bl = \<lparr>dk_files = [], dk_tape = []\<rparr>\<rparr>"

definition sample_out :: "session_output list" where
  "sample_out =
     [SendControl (Hello \<lparr>hello_protocolVersion = 1, hello_deviceId = ''00'', hello_deviceName = ''me'',
        hello_publicKey = ''Bw=='', hello_nonce = ''CA==''\<rparr>),
      SendControl (Auth ''BQ==''), Emit (HandshakeDone ''01'' ''peer''), Emit (Authenticated ''01''),
      SendControl (VaultSummary \<lparr>vs_vaultId = EMPTY_VAULT_ID, vs_vaultName = [], vs_headRevisionId = None,
        vs_revisionCount = 0\<rparr>),
      Emit (AdoptedVault ''v'' ''home''), SendControl (HistorySummary ''v'' [])]"

definition sample_adopted :: "(metadata_db, disk, devices_table) SyncSession" where
  "sample_adopted =
     \<lparr>ss_phase = AwaitHistory ''01'' ''peer'' (Some ''r''),
      ss_inbox = \<lparr>ib_handlers = [''revision-header'', ''revision-ack'', ''sync-complete'', ''transfer-cancel''],
         ib_queued = [],
         ib_waiters = [(''hello'', []), (''auth'', []), (''vault-summary'', []), (''history-summary'', [0])],
         ib_failure = None, ib_rejecters = [(0, ''history-summary'')]\<rparr>,
      ss_assemblers = [], ss_orphanFrames = [], ss_ackWaiters = [], ss_ackOutcome = None, ss_expected = [],
      ss_received = [], ss_sent = [], ss_inboundWork = [], ss_peerCompleted = False,
      ss_remoteDeviceId = Some ''01'', ss_drain = NotDraining, ss_serving = NotServing, ss_vaultId = Some ''v'',
      ss_engine = sample_engine,
      ss_trust = [\<lparr>dr_id = ''01'', dr_public_key = [0, 0, 0], dr_name = ''peer'', dr_trust = ''paired'',
          dr_paired_at = 3, dr_last_seen_at = None\<rparr>],
      ss_out = sample_out\<rparr>"

definition sample_wanting :: "(metadata_db, disk, devices_table) SyncSession" where
  "sample_wanting = sample_adopted
     \<lparr>ss_phase := Exchanging ''01'' ''peer'' (Some ''r'') [(''r'', \<lparr>node_id = ''r'', node_parentIds = []\<rparr>)],
      ss_inbox := \<lparr>ib_handlers = [''revision-header'', ''revision-ack'', ''sync-complete'', ''transfer-cancel''],
         ib_queued = [],
         ib_waiters = [(''hello'', []), (''auth'', []), (''vault-summary'', []), (''history-summary'', []), (''want-revisions'', [])],
         ib_failure = None, ib_rejecters = []\<rparr>,
      ss_expected := [''r''], ss_drain := Draining, ss_serving := ServeNext [] 0,
      ss_out := sample_out @ [Emit (RequestedRevisions [''r'']), SendControl (WantRevisions ''v'' [''r''])]\<rparr>"

definition sample_queued :: "(metadata_db, disk, devices_table) SyncSession" where
  "sample_queued = sample_wanting
     \<lparr>ss_inboundWork := [(\<lparr>ih_header = \<lparr>rh_transferSeq = 1, rh_vaultId = ''v'', rh_revisionId = ''r'',
        rh_hash = replicate 64 CHR ''b'', rh_sizeBytes = 2, rh_parentIds = [], rh_totalChunks = 2, rh_message = None\<rparr>,
        ih_fromDeviceId = ''01''\<rparr>, [2, 4])]\<rparr>"

definition session_fields :: "(metadata_db, disk, devices_table) SyncSession \<Rightarrow> _" where
  "session_fields s =
     ((ss_phase s, ss_inbox s, ss_assemblers s, ss_orphanFrames s, ss_ackWaiters s, ss_ackOutcome s),
      (ss_expected s, ss_received s, ss_sent s, ss_inboundWork s, ss_peerCompleted s, ss_remoteDeviceId s),
      (ss_drain s, ss_serving s, ss_vaultId s, ss_engine s, ss_trust s, ss_out s))"

lemma session_fields_eq: "session_fields s = session_fields t \<Longrightarrow> s = t"
  by (cases s; cases t) (simp add: session_fields_def)

lemma sample_adopted_eq: "sample_steps sample_hello sample_start = sample_adopted"
  by (rule session_fields_eq) code_simp

lemma sample_wanting_delivered:
  "deliver_message sample_session_deps 3 (WantRevisions ''v'' []) (deliver_message sample_session_deps 3
     (HistorySummary ''v'' [\<lparr>hs_revisionId = ''r'', hs_hash = replicate 64 CHR ''b'', hs_sizeBytes = 2,
        hs_parentIds = []\<rparr>]) sample_adopted) = sample_wanting"
  by (rule session_fields_eq) code_simp

lemma sample_wanting_eq: "sample_steps sample_offer_inputs sample_adopted = sample_wanting"
proof -
  have "within_limits (HistorySummary ''v'' [\<lparr>hs_revisionId = ''r'', hs_hash = replicate 64 CHR ''b'',
        hs_sizeBytes = 2, hs_parentIds = []\<rparr>])" "within_limits (WantRevisions ''v'' [])"
    by (simp_all add: ok_string_def LIMITS_defs ok_entry_def ok_ids_def is_hex64_def list_all_iff is_lower_hex_def in_code_range_def)
  then show ?thesis
    using sample_wanting_delivered
    by (simp add: sample_steps_def sample_offer_inputs_def step_payload del: session_step.simps)
qed

lemma sample_queued_eq: "sample_steps sample_transfer_inputs sample_wanting = sample_queued"
  by (rule session_fields_eq) code_simp

lemma sample_final_received: "ss_received (sample_steps [RunIngest] sample_queued) = [''r'']"
  by code_simp

lemma sample_adopted_run: "session_run sample_session_deps (fresh_install []) [] sample_adopted"
  using sample_steps_run [of "fresh_install []" "[]" sample_start sample_hello] sample_adopted_eq
  by (simp add: sample_start_def session_start)

lemma sample_queued_run: "session_run sample_session_deps (fresh_install []) [] sample_queued"
  using sample_steps_run [OF sample_steps_run [OF sample_adopted_run]] sample_wanting_eq sample_queued_eq by metis

lemma sample_as_desktop:
  "sample_session_deps = desktop_session sample_sha (\<lambda>_ _ _ _. MergeFailed '''') (\<lambda>_ _ _ _. DiffReady ()) ''dev''
     sample_session_deps"
  by (simp add: desktop_session_def sample_session_deps_def sample_deps_def)

lemma sample_desktop_run:
  "session_run sample_session_deps en trust s \<Longrightarrow>
   session_run (desktop_session sample_sha (\<lambda>_ _ _ _. MergeFailed '''') (\<lambda>_ _ _ _. DiffReady ()) ''dev''
     sample_session_deps) en trust s"
  by (simp only: sample_as_desktop [symmetric])

lemmas sample_runs =
  run_none [of "desktop_deps sample_sha (\<lambda>_ _ _ _. MergeFailed '''') (\<lambda>_ _ _ _. DiffReady ()) ''dev''" "fresh_install []"]
  sample_desktop_run [OF sample_queued_run]

theorem nothing_before_authentication_witness:
  "ss_remoteDeviceId sample_queued = Some ''01'' \<and> (\<exists>i :: VerifyInput. vi_deviceId i = ''01'' \<and> vi_nonce i = [8])"
proof -
  have *: "ss_remoteDeviceId sample_queued = Some ''01''" "sd_nonce sample_session_deps = [8]"
    by (simp_all add: sample_queued_def sample_wanting_def sample_adopted_def sample_session_deps_def)
  then obtain i :: VerifyInput where "vi_deviceId i = ''01''" "vi_nonce i = [8]"
    using nothing_before_authentication [OF sample_runs(1,2)] by auto
  then show ?thesis using *(1) by blast
qed

theorem session_only_adds_witness: "db_ok (en_md (ss_engine sample_queued))"
  using session_only_adds [OF sample_runs(1,2)] by blast

theorem session_buffers_bounded_witness: "length (ss_orphanFrames sample_queued) \<le> 64"
  using session_buffers_bounded [OF sample_runs(1,2)] by blast

theorem accepted_means_stored_witness:
  "\<exists>r. getRevision ''r'' (en_md (ss_engine (sample_steps [RunIngest] sample_queued))) = Some r"
  using accepted_means_stored [OF sample_runs(1) sample_desktop_run [OF sample_steps_run [OF sample_queued_run]]]
    sample_final_received by (metis list.set_intros(1))

theorem requested_accounted_witness:
  "''r'' \<in> set (ss_expected sample_queued) \<or> ''r'' \<in> set (ss_received sample_queued) \<or>
    (\<exists>reason. Emit (RejectedRevision ''r'' reason) \<in> set (ss_out sample_queued))"
  by (rule requested_accounted [OF sample_runs(1,2), of "[''r'']"])
    (simp_all add: sample_queued_def sample_wanting_def)

end
