(* ===== verification/Session_Delivery.thy ===== *)
theory Session_Delivery
  imports Session_Properties
begin

text \<open>
  The transfer phase end to end. The sender's part: serving a revision puts on the link its header and
  then exactly the frames that its bytes are cut into. The receiver's part: the header, these frames and
  the ingest they queue store the revision. Together: an honest peer that serves the requested
  revisions in the order requested leaves none of them expected.
\<close>

section \<open>The sender\<close>

text \<open>The sending loop with the buffer low enough not to wait.\<close>

fun serve_times :: "('m, 'b, 'c, 'd, 's) SessionDeps \<Rightarrow> nat \<Rightarrow> ('m, 'b, 's) SyncSession \<Rightarrow> ('m, 'b, 's) SyncSession" where
  "serve_times sd 0 s = s"
| "serve_times sd (Suc n) s = serve_times sd n (session_step sd 0 (Serve 0) s)"

lemma serve_chunks:
  assumes "ss_serving s = ServeChunks i bs c n rest q" and "c + m = n"
    and "encode_frames (int q) bs (sd_chunkBytes sd) [c..<n] = Inr fs"
  shows "serve_times sd m s =
    s\<lparr>ss_out := ss_out s @ map SendBulk fs, ss_serving := ServeChunks i bs n n rest q\<rparr>"
  using assms
proof (induction m arbitrary: s c fs)
  case 0
  then show ?case by simp
next
  case (Suc m)
  then have "[c..<n] = c # [Suc c..<n]" by (simp add: upt_rec)
  with Suc.prems(3) obtain f gs where f: "encodeChunkFrame (int q) (int c) (subarray_chunk bs (sd_chunkBytes sd) c) = Inr f"
    and gs: "encode_frames (int q) bs (sd_chunkBytes sd) [Suc c..<n] = Inr gs" and fs: "fs = f # gs"
    by (auto simp: res_bind_eq_Inr)
  let ?t = "put_out (SendBulk f) (s\<lparr>ss_serving := ServeChunks i bs (c + 1) n rest q\<rparr>)"
  have "session_step sd 0 (Serve 0) s = ?t"
    using Suc.prems f by (simp add: serve_step_def)
  moreover have "serve_times sd m ?t =
      ?t\<lparr>ss_out := ss_out ?t @ map SendBulk gs, ss_serving := ServeChunks i bs n n rest q\<rparr>"
    by (rule Suc.IH [of _ "Suc c"]) (use Suc.prems gs in \<open>simp_all add: put_out_def\<close>)
  ultimately show ?case by (simp add: fs put_out_def)
qed

lemma serve_revision:
  assumes "ss_serving s = ServeNext (i # rest) q"
    and "ms_getRevision (dep_metadata (sd_engine sd)) i (en_md (ss_engine s)) = Some r"
    and "bytesOf (sd_engine sd) i (ss_engine s) = Inr bs"
    and "chunkCountFor (int (length bs)) (int (sd_chunkBytes sd)) = Inr n"
    and "chunk_frames (int (q + 1)) bs (sd_chunkBytes sd) = Inr fs"
  shows "ss_out (serve_times sd (Suc (length fs)) s) =
    ss_out s @ [SendControl (RevisionHeader (revision_header r (q + 1) n)), Emit (Sending i n)] @ map SendBulk fs"
proof -
  let ?t = "session_step sd 0 (Serve 0) s"
  have frames: "encode_frames (int (q + 1)) bs (sd_chunkBytes sd) [0..<nat n] = Inr fs"
    using assms(4,5) by (simp add: chunk_frames_def)
  have len: "encode_frames z b k is = Inr gs \<Longrightarrow> length gs = length is" for z b k "is" gs
    by (induction "is" arbitrary: gs) (auto simp: res_bind_eq_Inr)
  have t: "ss_serving ?t = ServeChunks i bs 0 (nat n) rest (q + 1)"
    "ss_out ?t = ss_out s @ [SendControl (RevisionHeader (revision_header r (q + 1) n)), Emit (Sending i n)]"
    using assms by (simp_all add: serve_step_def serve_next_def awaitAck_def emit_def send_def put_out_def)
  have "length fs = nat n" using len [OF frames] by simp
  then have "serve_times sd (length fs) ?t =
      ?t\<lparr>ss_out := ss_out ?t @ map SendBulk fs, ss_serving := ServeChunks i bs (nat n) (nat n) rest (q + 1)\<rparr>"
    by (intro serve_chunks [OF t(1)]) (use frames in simp_all)
  then show ?thesis using t(2) by simp
qed

section \<open>The receiver\<close>

text \<open>What reaches the receiver of a served revision: the link carries the outputs in order.\<close>

definition honest_inputs :: "nat \<Rightarrow> nat \<Rightarrow> Revision \<Rightarrow> bytes \<Rightarrow> session_input list" where
  "honest_inputs k q r bs =
     (case (chunkCountFor (int (length bs)) (int k), chunk_frames (int q) bs k) of
        (Inr n, Inr fs) \<Rightarrow>
          ControlPayload (Some (encodeMessage (RevisionHeader (revision_header r q n)))) # map BulkPayload fs @ [RunIngest]
      | _ \<Rightarrow> [])"

definition run_inputs ::
  "('m, 'b, 'c, 'd, 's) SessionDeps \<Rightarrow> Date \<Rightarrow> session_input list \<Rightarrow> ('m, 'b, 's) SyncSession \<Rightarrow> ('m, 'b, 's) SyncSession" where
  "run_inputs sd now is s = fold (session_step sd now) is s"

lemma run_inputs_simps [simp]:
  "run_inputs sd now [] s = s" "run_inputs sd now (i # is) s = run_inputs sd now is (session_step sd now i s)"
  "run_inputs sd now (is @ js) s = run_inputs sd now js (run_inputs sd now is s)"
  by (simp_all add: run_inputs_def)

lemma session_run_inputs: "session_run sd en trust s \<Longrightarrow> session_run sd en trust (run_inputs sd now is s)"
  by (induction "is" arbitrary: s) (simp_all add: session_next del: session_step.simps)

text \<open>Ready for transfers numbered from \<open>q\<close> on: nothing with these numbers is open or waiting.\<close>

definition receptive :: "nat \<Rightarrow> ('m, 'b, 's) SyncSession \<Rightarrow> bool" where
  "receptive q s \<longleftrightarrow> ss_remoteDeviceId s \<noteq> None \<and> ''revision-header'' \<in> set (ib_handlers (ss_inbox s)) \<and>
     ss_inboundWork s = [] \<and> (\<forall>p \<ge> q. map_of (ss_assemblers s) p = None) \<and>
     (\<forall>f \<in> set (ss_orphanFrames s). fr_transferSeq f < q)"

lemma drain_orphans_idle:
  "\<forall>f \<in> set (ss_orphanFrames s). fr_transferSeq f \<noteq> q \<Longrightarrow> drain_orphans q n s = s"
  by (induction n) (auto dest: bspec [OF _ nth_mem])

lemma receive_frames:
  assumes "map_of (ss_assemblers s) q = Some (h, a)" "holds_chunks_of bs k n a" "length bs \<le> n * k"
    and "fst ` set (asm_chunks a) = {0..<c}" "c < n"
    and "map decodeChunkFrame fs = map (\<lambda>i. Some (sent_chunk (int q) bs k i)) [c..<n]"
  shows "\<exists>asms. run_inputs sd now (map BulkPayload fs) s =
      s\<lparr>ss_assemblers := asms, ss_inboundWork := ss_inboundWork s @ [(h, bs)]\<rparr> \<and>
    (\<forall>p. map_of asms p = (if p = q then None else map_of (ss_assemblers s) p))"
  using assms
proof (induction "n - Suc c" arbitrary: s a c fs)
  case 0
  then have c: "n = Suc c" by simp
  then obtain f where fs: "fs = [f]" "decodeChunkFrame f = Some (sent_chunk (int q) bs k c)"
    using 0 by (auto simp: map_eq_Cons_conv)
  obtain a' where a': "accept_chunk a (sent_chunk (int q) bs k c) = (True, a')" "holds_chunks_of bs k n a'"
    "fst ` set (asm_chunks a') = insert c (fst ` set (asm_chunks a))"
    using accept_sent_chunk [OF 0(3,4) 0(6)] by metis
  have "fst ` set (asm_chunks a') = {0..<n}" using a'(3) 0(5) c by auto
  note whole = holds_all_chunks_assemble [OF a'(2) 0(4) this]
  show ?case
    using 0(2) a'(1) whole fs by (auto simp: onFrame_def queueIngest_def Let_def)
next
  case (Suc m)
  then have upt: "[c..<n] = c # [Suc c..<n]" by (simp add: upt_rec)
  then obtain f gs where fs: "fs = f # gs" "decodeChunkFrame f = Some (sent_chunk (int q) bs k c)"
    "map decodeChunkFrame gs = map (\<lambda>i. Some (sent_chunk (int q) bs k i)) [Suc c..<n]"
    using Suc.prems(6) by (auto simp: map_eq_Cons_conv)
  obtain a' where a': "accept_chunk a (sent_chunk (int q) bs k c) = (True, a')" "holds_chunks_of bs k n a'"
    "fst ` set (asm_chunks a') = insert c (fst ` set (asm_chunks a))"
    using accept_sent_chunk [OF Suc.prems(2,3,5)] by metis
  have keys: "fst ` set (asm_chunks a') = {0..<Suc c}" using a'(3) Suc.prems(4) by auto
  have part: "\<not> isComplete a'"
  proof
    assume "isComplete a'"
    then have "card {0..<Suc c} = n"
      using a'(2) asm_inv_keys_length [of a'] keys by (simp add: isComplete_def holds_chunks_of_def)
    then show False using Suc.hyps(2) by simp
  qed
  let ?t = "s\<lparr>ss_assemblers := AList.update q (h, a') (ss_assemblers s)\<rparr>"
  have step: "session_step sd now (BulkPayload f) s = ?t"
    using Suc.prems(1) a'(1) part fs(2) by (simp add: onFrame_def)
  have "\<exists>asms. run_inputs sd now (map BulkPayload gs) ?t =
      ?t\<lparr>ss_assemblers := asms, ss_inboundWork := ss_inboundWork ?t @ [(h, bs)]\<rparr> \<and>
    (\<forall>p. map_of asms p = (if p = q then None else map_of (ss_assemblers ?t) p))"
    by (rule Suc.hyps(1) [of "Suc c" _ a']) (use Suc a'(2) keys fs(3) in auto)
  then show ?case using step fs(1) by (auto simp del: session_step.simps)
qed

lemma receive_header:
  assumes "receptive q s" "within_limits (RevisionHeader (revision_header r q n))" "0 < n"
    and "ss_remoteDeviceId s = Some d"
  shows "\<exists>a0. new_ChunkAssembler (nat n) (nat (rev_sizeBytes r)) = Inr a0 \<and>
    session_step sd now (ControlPayload (Some (encodeMessage (RevisionHeader (revision_header r q n))))) s =
      s\<lparr>ss_assemblers := AList.update q (\<lparr>ih_header = revision_header r q n, ih_fromDeviceId = d\<rparr>, a0) (ss_assemblers s)\<rparr>"
proof -
  let ?m = "RevisionHeader (revision_header r q n)"
  obtain a0 where a0: "new_ChunkAssembler (nat n) (nat (rev_sizeBytes r)) = Inr a0"
    using assms(3) by (simp add: new_ChunkAssembler_def)
  have "route_message ?m (ss_inbox s) = ([RunHandler ?m], ss_inbox s)"
    using assms(1) by (simp add: route_message_def receptive_def)
  then have "session_step sd now (ControlPayload (Some (encodeMessage ?m))) s = handle_control ?m s"
    by (simp add: step_payload [OF assms(2)] deliver_message_def apply_effect_def del: session_step.simps)
  also have "\<dots> = s\<lparr>ss_assemblers := AList.update q
      (\<lparr>ih_header = revision_header r q n, ih_fromDeviceId = d\<rparr>, a0) (ss_assemblers s)\<rparr>"
    using assms(1,4) a0
    by (auto simp: handle_control_def onHeader_def revision_header_def receptive_def Let_def intro!: drain_orphans_idle)
  finally show ?thesis using a0 by auto
qed

lemma receive_served:
  assumes "receptive q s" "ss_remoteDeviceId s = Some d"
    and "chunkCountFor (int (length bs)) (int k) = Inr n" "chunk_frames (int q) bs k = Inr fs"
    and "within_limits (RevisionHeader (revision_header r q n))" "rev_sizeBytes r = int (length bs)"
    and "int q \<le> MAX_UINT32"
  shows "\<exists>asms. run_inputs sd now (honest_inputs k q r bs) s =
      run_ingest sd now (s\<lparr>ss_assemblers := asms,
        ss_inboundWork := [(\<lparr>ih_header = revision_header r q n, ih_fromDeviceId = d\<rparr>, bs)]\<rparr>) \<and>
    (\<forall>p. map_of asms p = (if p = q then None else map_of (ss_assemblers s) p))"
proof -
  note covers = chunkCountFor_covers [OF assms(3)]
  let ?h = "\<lparr>ih_header = revision_header r q n, ih_fromDeviceId = d\<rparr>"
  from receive_header [OF assms(1,5) covers(1) assms(2), of sd now] obtain a0 where
    a0: "new_ChunkAssembler (nat n) (length bs) = Inr a0" and
    hdr: "session_step sd now (ControlPayload (Some (encodeMessage (RevisionHeader (revision_header r q n))))) s =
      s\<lparr>ss_assemblers := AList.update q (?h, a0) (ss_assemblers s)\<rparr>" (is "_ = ?t")
    using assms(6) by auto
  have "n \<le> maxChunks" using assms(5) by (simp add: revision_header_def)
  then have "\<forall>i \<in> set [0..<nat n]. int i \<le> MAX_UINT32" by (auto simp: LIMITS_defs MAX_UINT32_def)
  with encode_frames_decode [of "int q" "[0..<nat n]" bs k] assms(3,4,7)
  have dec: "map decodeChunkFrame fs = map (\<lambda>i. Some (sent_chunk (int q) bs k i)) [0..<nat n]"
    by (auto simp: chunk_frames_def)
  have "holds_chunks_of bs k (nat n) a0" "asm_chunks a0 = []"
    using asm_inv_new [OF a0] a0 by (auto simp: new_ChunkAssembler_def res_bind_eq_Inr holds_chunks_of_def)
  then have "\<exists>asms. run_inputs sd now (map BulkPayload fs) ?t =
      ?t\<lparr>ss_assemblers := asms, ss_inboundWork := ss_inboundWork ?t @ [(?h, bs)]\<rparr> \<and>
    (\<forall>p. map_of asms p = (if p = q then None else map_of (ss_assemblers ?t) p))"
    by (intro receive_frames [where c = 0]) (use covers dec in simp_all)
  moreover have "ss_inboundWork s = []" using assms(1) by (simp add: receptive_def)
  ultimately show ?thesis
    using assms(3,4) hdr by (auto simp: honest_inputs_def)
qed

section \<open>One revision stored\<close>

lemma file_put_quiet:
  assumes "dk_tape d = []" "is_hex64 (sha256 bs)"
  shows "\<exists>d'. file_put sha256 bs d = (Inr (sha256 bs), d') \<and> dk_tape d' = []"
  using assms by (auto simp: file_put_def put_run_def put_calls_def next_io_def)

lemma ingest_quiet:
  assumes "desktop_ok sha256 mergef difff deviceId s" "dk_tape (en_bl s) = []"
    and "sync_engine.ingestible (desktop_deps sha256 mergef difff deviceId) i (en_md s)"
    and "is_hex64 (in_declaredHash i)" "getVault (in_vaultId i) (en_md s) \<noteq> None"
  shows "\<exists>t ps. ingestReceivedRevision (desktop_deps sha256 mergef difff deviceId) i now s =
      (Inr (Stored (received_revision_of i now)), t) \<and> dk_tape (en_bl t) = [] \<and>
    set ps = set (in_declaredParentIds i) \<and>
    getRevision (in_revisionId i) (en_md t) = Some ((received_revision_of i now)\<lparr>rev_parentIds := ps\<rparr>) \<and>
    (\<forall>j. j \<noteq> in_revisionId i \<longrightarrow> getRevision j (en_md t) = getRevision j (en_md s)) \<and>
    (\<forall>v. getVault v (en_md t) = getVault v (en_md s))"
proof -
  have ing: "\<not> hasRevision (in_revisionId i) (en_md s)" "sha256 (in_bytes i) = in_declaredHash i"
    "\<forall>p \<in> set (in_declaredParentIds i). hasRevision p (en_md s)"
    using assms(3) by (simp_all add: desktop.ingestible_def)
  obtain d' where put: "file_put sha256 (in_bytes i) (en_bl s) = (Inr (in_declaredHash i), d')" "dk_tape d' = []"
    using file_put_quiet [OF assms(2), of sha256 "in_bytes i"] assms(4) ing(2) by auto
  obtain res m' where save: "saveRevision (received_revision_of i now) (en_md s) = (res, m')" by fastforce
  have f: "rev_id (received_revision_of i now) = in_revisionId i"
    "rev_parentIds (received_revision_of i now) = in_declaredParentIds i"
    "rev_vaultId (received_revision_of i now) = in_vaultId i"
    by (simp_all add: received_revision_of_def)
  have "res = Inr ()"
    using sqlite_md.save_revision [of "en_md s" "received_revision_of i now" res m'] save ing assms(1,5)
      desktop_ok_sound(1) [OF assms(1)] by (simp add: f SqliteMetadataStore_def)
  then have run: "ingestReceivedRevision (desktop_deps sha256 mergef difff deviceId) i now s =
      (Inr (Stored (received_revision_of i now)), s\<lparr>en_bl := d', en_md := m'\<rparr>)"
    using desktop.ingest_runs [OF assms(3), of _ d' now res m'] put(1) save
    by (simp add: received_revision_of_def SqliteMetadataStore_def)
  have "\<exists>ps. set ps = set (in_declaredParentIds i) \<and>
      getRevision (in_revisionId i) m' = Some ((received_revision_of i now)\<lparr>rev_parentIds := ps\<rparr>) \<and>
      (\<forall>j. j \<noteq> in_revisionId i \<longrightarrow> getRevision j m' = getRevision j (en_md s)) \<and>
      (\<forall>v. getVault v m' = getVault v (en_md s))"
    by (rule desktop.ingest_accepted [OF assms(1,3) run]) (simp, blast)
  then show ?thesis using run put(2) by auto
qed

section \<open>All requested revisions\<close>

text \<open>
  What an honest peer serves: for every revision the bytes it was made of, with sizes within the
  protocol's limits, in an order in which parents are held or come first.
\<close>

definition served_ok :: "(bytes \<Rightarrow> Sha256Hex) \<Rightarrow> nat \<Rightarrow> Revision \<times> bytes \<Rightarrow> bool" where
  "served_ok sha256 k = (\<lambda>(r, bs). sha256 bs = rev_hash r \<and> rev_sizeBytes r = int (length bs) \<and>
     (case chunkCountFor (int (length bs)) (int k) of
        Inl _ \<Rightarrow> False | Inr n \<Rightarrow> within_limits (RevisionHeader (revision_header r 0 n))))"

fun parents_served :: "RevisionId set \<Rightarrow> (Revision \<times> bytes) list \<Rightarrow> bool" where
  "parents_served held [] = True"
| "parents_served held ((r, bs) # items) =
     (rev_id r \<notin> held \<and> set (rev_parentIds r) \<subseteq> held \<and> parents_served (insert (rev_id r) held) items)"

fun honest_run :: "nat \<Rightarrow> nat \<Rightarrow> (Revision \<times> bytes) list \<Rightarrow> session_input list" where
  "honest_run k q [] = []"
| "honest_run k q ((r, bs) # items) = honest_inputs k q r bs @ honest_run k (Suc q) items"

definition waiting_for :: "RevisionId set \<Rightarrow> (metadata_db, disk, 's) SyncSession \<Rightarrow> bool" where
  "waiting_for wanted s \<longleftrightarrow> set (ss_expected s) = wanted \<and> ss_drain s \<noteq> NotDraining \<and>
     (ss_expected s = [] \<longrightarrow> ss_drain s = Drained)"

definition stored_as :: "Revision \<Rightarrow> metadata_db \<Rightarrow> bool" where
  "stored_as r db \<longleftrightarrow> (\<exists>r'. getRevision (rev_id r) db = Some r' \<and> rev_hash r' = rev_hash r \<and>
     rev_vaultId r' = rev_vaultId r \<and> set (rev_parentIds r') = set (rev_parentIds r))"

lemma served_frames:
  assumes "served_ok sha256 k (r, bs)" "int q \<le> MAX_UINT32"
  obtains n fs where "chunkCountFor (int (length bs)) (int k) = Inr n" "chunk_frames (int q) bs k = Inr fs"
    "within_limits (RevisionHeader (revision_header r q n))" "rev_sizeBytes r = int (length bs)" "sha256 bs = rev_hash r"
proof -
  obtain n where n: "chunkCountFor (int (length bs)) (int k) = Inr n"
    and lim: "within_limits (RevisionHeader (revision_header r 0 n))"
    using assms(1) by (auto simp: served_ok_def split: sum.splits)
  have "\<forall>i \<in> set [0..<nat n]. int i \<le> MAX_UINT32"
    using lim by (auto simp: revision_header_def LIMITS_defs MAX_UINT32_def)
  with encode_frames_decode [of "int q" "[0..<nat n]" bs k] assms(2)
  obtain fs where "chunk_frames (int q) bs k = Inr fs" using n by (auto simp: chunk_frames_def)
  moreover have "within_limits (RevisionHeader (revision_header r q n))"
    using lim by (simp add: revision_header_def)
  ultimately show thesis using that n assms(1) by (simp add: served_ok_def)
qed

lemma receive_one:
  fixes now :: Date
  assumes sd: "sd = desktop_session sha256 mergef difff deviceId sd0"
    and ok: "desktop_ok sha256 mergef difff deviceId (ss_engine s)"
    and s: "receptive q s" "dk_tape (en_bl (ss_engine s)) = []" "waiting_for wanted s"
    and item: "served_ok sha256 k (r, bs)" "int q \<le> MAX_UINT32"
    and new: "\<not> hasRevision (rev_id r) (en_md (ss_engine s))"
      "\<forall>p \<in> set (rev_parentIds r). hasRevision p (en_md (ss_engine s))"
      "getVault (rev_vaultId r) (en_md (ss_engine s)) \<noteq> None"
  defines "t \<equiv> run_inputs sd now (honest_inputs k q r bs) s"
  shows "receptive (Suc q) t \<and> dk_tape (en_bl (ss_engine t)) = [] \<and> waiting_for (wanted - {rev_id r}) t \<and>
    stored_as r (en_md (ss_engine t)) \<and>
    (\<forall>j. j \<noteq> rev_id r \<longrightarrow> getRevision j (en_md (ss_engine t)) = getRevision j (en_md (ss_engine s))) \<and>
    (\<forall>v. getVault v (en_md (ss_engine t)) = getVault v (en_md (ss_engine s))) \<and>
    ss_received t = ss_received s @ [rev_id r]"
proof -
  obtain d where d: "ss_remoteDeviceId s = Some d" using s(1) by (auto simp: receptive_def)
  obtain n fs where nf: "chunkCountFor (int (length bs)) (int k) = Inr n" "chunk_frames (int q) bs k = Inr fs"
    "within_limits (RevisionHeader (revision_header r q n))" "rev_sizeBytes r = int (length bs)" "sha256 bs = rev_hash r"
    using served_frames [OF item] .
  define h where "h = \<lparr>ih_header = revision_header r q n, ih_fromDeviceId = d\<rparr>"
  let ?i = "ingest_input h bs"
  have i: "in_revisionId ?i = rev_id r" "in_vaultId ?i = rev_vaultId r" "in_declaredParentIds ?i = rev_parentIds r"
    "in_declaredHash ?i = rev_hash r" "in_bytes ?i = bs" "rh_revisionId (ih_header h) = rev_id r"
    by (simp_all add: h_def ingest_input_def revision_header_def Let_def)
  obtain asms where t: "t = run_ingest sd now (s\<lparr>ss_assemblers := asms, ss_inboundWork := [(h, bs)]\<rparr>)"
    and asms: "\<forall>p. map_of asms p = (if p = q then None else map_of (ss_assemblers s) p)"
    using receive_served [OF s(1) d nf(1-4) item(2), of sd now] unfolding t_def h_def by auto
  have "is_hex64 (rev_hash r)" using nf(3) by (simp add: revision_header_def)
  moreover have "sync_engine.ingestible (desktop_deps sha256 mergef difff deviceId) ?i (en_md (ss_engine s))"
    using new nf(5) i by (simp add: desktop.ingestible_def)
  ultimately obtain en ps where
    run: "ingestReceivedRevision (desktop_deps sha256 mergef difff deviceId) ?i now (ss_engine s) =
      (Inr (Stored (received_revision_of ?i now)), en)" and
    en: "dk_tape (en_bl en) = []" "set ps = set (rev_parentIds r)"
      "getRevision (rev_id r) (en_md en) = Some ((received_revision_of ?i now)\<lparr>rev_parentIds := ps\<rparr>)"
      "\<forall>j. j \<noteq> rev_id r \<longrightarrow> getRevision j (en_md en) = getRevision j (en_md (ss_engine s))"
      "\<forall>v. getVault v (en_md en) = getVault v (en_md (ss_engine s))"
    using ingest_quiet [OF ok s(2), of ?i now] new(3) i by auto
  let ?u = "count_ingest (s\<lparr>ss_assemblers := asms, ss_inboundWork := [], ss_engine := en\<rparr>)"
  have t_eq: "t = took_in (rev_id r) ?u"
    using t run i(6) sd by (simp add: run_ingest_def)
  have u: "ss_engine ?u = en" "ss_remoteDeviceId ?u = Some d" "ss_inbox ?u = ss_inbox s" "ss_inboundWork ?u = []"
    "ss_assemblers ?u = asms" "ss_orphanFrames ?u = ss_orphanFrames s" "ss_received ?u = ss_received s"
    "ss_expected ?u = ss_expected s" "ss_drain ?u = ss_drain s"
    using d by (simp_all add: count_ingest_def split: phase.split)
  have took: "ss_engine t = en" "ss_remoteDeviceId t = Some d" "ss_inbox t = ss_inbox s" "ss_inboundWork t = []"
    "ss_assemblers t = asms" "ss_orphanFrames t = ss_orphanFrames s" "ss_received t = ss_received s @ [rev_id r]"
    "ss_expected t = removeAll (rev_id r) (ss_expected s)"
    and drain: "ss_drain t = (if ss_drain s = Draining \<and> ss_expected t = [] then Drained else ss_drain t)"
      "ss_drain s \<noteq> NotDraining \<Longrightarrow> ss_drain t \<noteq> NotDraining" "ss_drain s = Drained \<Longrightarrow> ss_drain t = Drained"
    using u by (auto simp: t_eq took_in_def Let_def session_updates notifyProgress_def)
  have "receptive (Suc q) t"
    using s(1) took asms by (auto simp: receptive_def less_Suc_eq)
  moreover have "waiting_for (wanted - {rev_id r}) t"
    using s(3) took(8) drain by (auto simp: waiting_for_def) (metis draining.exhaust)
  moreover have "stored_as r (en_md (ss_engine t))"
    using en(2,3) took(1) i by (simp add: stored_as_def received_revision_of_def)
  ultimately show ?thesis using en took by simp
qed

lemma stored_as_cong: "getRevision (rev_id r) db' = getRevision (rev_id r) db \<Longrightarrow> stored_as r db' = stored_as r db"
  by (simp add: stored_as_def)

lemma has_get: "hasRevision j db \<longleftrightarrow> getRevision j db \<noteq> None"
  using sqlite_md.has_rev [of j db] by auto

lemma stored_as_has: "stored_as r db \<Longrightarrow> hasRevision (rev_id r) db"
  using sqlite_md.has_rev [of "rev_id r" db] by (auto simp: stored_as_def)

lemma parents_served_new: "parents_served S xs \<Longrightarrow> i \<in> S \<Longrightarrow> i \<notin> (rev_id \<circ> fst) ` set xs"
  by (induction S xs rule: parents_served.induct) auto

lemma receive_all:
  assumes sd: "sd = desktop_session sha256 mergef difff deviceId sd0"
    and "\<And>x. session_run sd en trust x \<Longrightarrow> desktop_ok sha256 mergef difff deviceId (ss_engine x)"
    and "session_run sd en trust s" "receptive q s" "dk_tape (en_bl (ss_engine s)) = []"
    and "waiting_for wanted s" "wanted = (rev_id \<circ> fst) ` set items"
    and "list_all (served_ok sha256 k) items" "int (q + length items) \<le> MAX_UINT32"
    and "parents_served {i. hasRevision i (en_md (ss_engine s))} items"
    and "\<forall>(r, bs) \<in> set items. getVault (rev_vaultId r) (en_md (ss_engine s)) \<noteq> None"
  shows "let t = run_inputs sd now (honest_run k q items) s in
    waiting_for {} t \<and> ss_received t = ss_received s @ map (rev_id \<circ> fst) items \<and>
    (\<forall>(r, bs) \<in> set items. stored_as r (en_md (ss_engine t))) \<and>
    (\<forall>j. j \<notin> wanted \<longrightarrow> getRevision j (en_md (ss_engine t)) = getRevision j (en_md (ss_engine s)))"
  using assms(3-)
proof (induction items arbitrary: s q wanted)
  case Nil
  then show ?case by simp
next
  case (Cons item items)
  obtain r bs where item: "item = (r, bs)" by (cases item)
  define u where "u = run_inputs sd now (honest_inputs k q r bs) s"
  have one: "receptive (Suc q) u \<and> dk_tape (en_bl (ss_engine u)) = [] \<and> waiting_for (wanted - {rev_id r}) u \<and>
    stored_as r (en_md (ss_engine u)) \<and>
    (\<forall>j. j \<noteq> rev_id r \<longrightarrow> getRevision j (en_md (ss_engine u)) = getRevision j (en_md (ss_engine s))) \<and>
    (\<forall>v. getVault v (en_md (ss_engine u)) = getVault v (en_md (ss_engine s))) \<and>
    ss_received u = ss_received s @ [rev_id r]"
    unfolding u_def
    by (rule receive_one [OF sd assms(2) [OF Cons.prems(1)] Cons.prems(2,3,4)])
      (use Cons.prems item in \<open>auto simp: MAX_UINT32_def\<close>)
  have has: "{i. hasRevision i (en_md (ss_engine u))} = insert (rev_id r) {i. hasRevision i (en_md (ss_engine s))}"
  proof (rule set_eqI)
    fix j
    show "j \<in> {i. hasRevision i (en_md (ss_engine u))} \<longleftrightarrow>
        j \<in> insert (rev_id r) {i. hasRevision i (en_md (ss_engine s))}"
      using one stored_as_has [of r] has_get [of j] by (cases "j = rev_id r") simp_all
  qed
  have served: "parents_served (insert (rev_id r) {i. hasRevision i (en_md (ss_engine s))}) items"
    using Cons.prems(8) item by simp
  have fresh: "rev_id r \<notin> (rev_id \<circ> fst) ` set items"
    by (rule parents_served_new [OF served]) simp
  define t where "t = run_inputs sd now (honest_run k (Suc q) items) u"
  have vaults: "\<forall>(r', bs') \<in> set items. getVault (rev_vaultId r') (en_md (ss_engine u)) \<noteq> None"
    using one Cons.prems(9) item by (simp add: case_prod_beta)
  have wants: "waiting_for ((rev_id \<circ> fst) ` set items) u"
  proof -
    have "wanted = insert (rev_id r) ((rev_id \<circ> fst) ` set items)" using Cons.prems(5) item by simp
    then have "wanted - {rev_id r} = (rev_id \<circ> fst) ` set items" using Diff_insert_absorb [OF fresh] by simp
    then show ?thesis using one by simp
  qed
  have rest: "waiting_for {} t \<and> ss_received t = ss_received u @ map (rev_id \<circ> fst) items \<and>
    (\<forall>(r, bs) \<in> set items. stored_as r (en_md (ss_engine t))) \<and>
    (\<forall>j. j \<notin> (rev_id \<circ> fst) ` set items \<longrightarrow> getRevision j (en_md (ss_engine t)) = getRevision j (en_md (ss_engine u)))"
    unfolding t_def
  proof (rule Cons.IH [OF _ _ _ wants refl, unfolded Let_def])
    show "session_run sd en trust u" unfolding u_def by (rule session_run_inputs [OF Cons.prems(1)])
    show "receptive (Suc q) u" "dk_tape (en_bl (ss_engine u)) = []" using one by simp_all
    show "list_all (served_ok sha256 k) items" using Cons.prems(6) by simp
    show "int (Suc q + length items) \<le> MAX_UINT32" using Cons.prems(7) by simp
    show "parents_served {i. hasRevision i (en_md (ss_engine u))} items" using served has by simp
  qed (rule vaults)
  have "run_inputs sd now (honest_run k q (item # items)) s = t"
    by (simp add: t_def u_def item)
  moreover have "stored_as r (en_md (ss_engine t))"
    using one rest fresh stored_as_cong [of r "en_md (ss_engine t)" "en_md (ss_engine u)"] by blast
  moreover have "getRevision j (en_md (ss_engine t)) = getRevision j (en_md (ss_engine s))" if "j \<notin> wanted" for j
  proof -
    from that have "j \<noteq> rev_id r" "j \<notin> (rev_id \<circ> fst) ` set items" using Cons.prems(5) item by simp_all
    then show ?thesis using one rest by metis
  qed
  ultimately show ?case
    using rest one item by (simp add: Let_def)
qed

section \<open>Properties\<close>

text \<open>What a link carries of a session's outputs.\<close>

fun carried :: "session_output \<Rightarrow> session_input list" where
  "carried (SendControl m) = [ControlPayload (Some (encodeMessage m))]"
| "carried (SendBulk f) = [BulkPayload f]"
| "carried (Emit _) = []"
| "carried (Uncaught _) = []"

text \<open>
  Serving a revision puts on the link its header and exactly the frames its bytes are cut into, in
  order, numbered by the next transfer number: what the peer's session is given, followed by the ingest
  it queues, is the transfer it expects.\<close>

theorem serving_is_a_transfer:
  assumes "ss_serving s = ServeNext (i # rest) q"
    and "ms_getRevision (dep_metadata (sd_engine sd)) i (en_md (ss_engine s)) = Some r"
    and "bytesOf (sd_engine sd) i (ss_engine s) = Inr bs"
    and "chunkCountFor (int (length bs)) (int (sd_chunkBytes sd)) = Inr n"
    and "chunk_frames (int (q + 1)) bs (sd_chunkBytes sd) = Inr fs"
  shows "concat (map carried (drop (length (ss_out s)) (ss_out (serve_times sd (Suc (length fs)) s)))) @ [RunIngest] =
    honest_inputs (sd_chunkBytes sd) (q + 1) r bs"
proof -
  have "concat (map carried (map SendBulk fs)) = map BulkPayload fs" by (induction fs) simp_all
  then show ?thesis
    using serve_revision [OF assms] assms(4,5) by (simp add: honest_inputs_def comp_def del: serve_times.simps)
qed

text \<open>
  C5: An honest peer leaves nothing missing. In any session that waits for revisions, when the peer's
  header, frames and the queued ingest of each wanted revision happen in the order in which the peer
  serves them (parents first, bytes that hash to what is declared, sizes within the limits) and the disk
  takes the writes, every wanted revision ends up stored as the peer holds it, the session has received
  exactly these, expects nothing more and stops waiting, and no other revision has changed.\<close>

theorem honest_peer_leaves_nothing_missing:
  assumes "engine_run (desktop_deps sha256 mergef difff deviceId) (fresh_install tape) en"
    and "session_run (desktop_session sha256 mergef difff deviceId sd0) en trust s"
    and "receptive q s" "dk_tape (en_bl (ss_engine s)) = []"
    and "waiting_for ((rev_id \<circ> fst) ` set items) s"
    and "list_all (served_ok sha256 k) items" "int (q + length items) \<le> MAX_UINT32"
    and "parents_served {i. hasRevision i (en_md (ss_engine s))} items"
    and "\<forall>(r, bs) \<in> set items. getVault (rev_vaultId r) (en_md (ss_engine s)) \<noteq> None"
  shows "let t = run_inputs (desktop_session sha256 mergef difff deviceId sd0) now (honest_run k q items) s in
    ss_expected t = [] \<and> ss_drain t = Drained \<and> ss_received t = ss_received s @ map (rev_id \<circ> fst) items \<and>
    (\<forall>(r, bs) \<in> set items. stored_as r (en_md (ss_engine t))) \<and>
    (\<forall>j. j \<notin> (rev_id \<circ> fst) ` set items \<longrightarrow> getRevision j (en_md (ss_engine t)) = getRevision j (en_md (ss_engine s)))"
proof -
  have "desktop_ok sha256 mergef difff deviceId (ss_engine x)"
    if "session_run (desktop_session sha256 mergef difff deviceId sd0) en trust x" for x
    using desk_session_ok [OF assms(1) that] by (simp add: desk.session_ok_def)
  from receive_all [OF refl this assms(2-5) refl assms(6-9), of now] show ?thesis
    by (auto simp: Let_def waiting_for_def)
qed


section \<open>Witnesses\<close>

definition sample_serving :: "(metadata_db, disk, devices_table) SyncSession" where
  "sample_serving = (new_SyncSession imported_state [])\<lparr>ss_serving := ServeNext [''r0''] 0\<rparr>"

theorem serving_is_a_transfer_witness:
  "\<exists>r. concat (map carried (drop 0 (ss_out (serve_times sample_session_deps 2 sample_serving)))) @ [RunIngest] =
    honest_inputs 1 1 r [1]"
proof -
  obtain r where "getRevision ''r0'' (en_md imported_state) = Some r"
    using imported_reads by blast
  then have r: "ms_getRevision (dep_metadata (sd_engine sample_session_deps)) ''r0'' (en_md (ss_engine sample_serving)) = Some r"
    by (simp add: sample_serving_def new_SyncSession_def sample_session_deps_def sample_deps_def desktop_deps_def)
  have "bytesOf (sd_engine sample_session_deps) ''r0'' (ss_engine sample_serving) = Inr [1]"
    and "chunkCountFor (int (length [1::8 word])) (int (sd_chunkBytes sample_session_deps)) = Inr 1"
    and "chunk_frames (int (0 + 1)) [1] (sd_chunkBytes sample_session_deps) = Inr [setUint32 1 @ setUint32 0 @ [1]]"
    by code_simp+
  from serving_is_a_transfer [of sample_serving "''r0''" "[]" 0, OF _ r this] show ?thesis
    by (auto simp: sample_serving_def new_SyncSession_def sample_session_deps_def numeral_2_eq_2)
qed

definition sample_item :: "Revision \<times> bytes" where
  "sample_item = (\<lparr>rev_id = ''r'', rev_vaultId = ''v'', rev_hash = replicate 64 CHR ''b'', rev_sizeBytes = 2,
     rev_createdAt = 3, rev_originDeviceId = Some ''01'', rev_parentIds = [], rev_operation = Imported,
     rev_message = None\<rparr>, [2, 4])"

theorem honest_peer_leaves_nothing_missing_witness:
  "ss_expected (run_inputs sample_session_deps 3 (honest_run 1 1 [sample_item]) sample_wanting) = []"
proof -
  have run: "session_run sample_session_deps (fresh_install []) [] sample_wanting"
    using sample_steps_run [OF sample_adopted_run] sample_wanting_eq by metis
  have "receptive 1 sample_wanting" "dk_tape (en_bl (ss_engine sample_wanting)) = []"
    and "waiting_for ((rev_id \<circ> fst) ` set [sample_item]) sample_wanting"
    and "parents_served {i. hasRevision i (en_md (ss_engine sample_wanting))} [sample_item]"
    and "int (1 + length [sample_item]) \<le> MAX_UINT32"
    by (simp_all add: receptive_def waiting_for_def sample_wanting_def sample_adopted_def sample_engine_def
      sample_item_def MAX_UINT32_def hasRevision_def empty_db_def)
  moreover have "list_all (served_ok sample_sha 1) [sample_item]"
  proof -
    have "chunkCountFor 2 1 = Inr 2" by code_simp
    then show ?thesis
      by (simp add: served_ok_def sample_item_def sample_sha_def revision_header_def ok_string_def LIMITS_defs
        ok_ids_def is_hex64_def list_all_iff is_lower_hex_def in_code_range_def)
  qed
  moreover have "\<forall>(r, bs) \<in> set [sample_item]. getVault (rev_vaultId r) (en_md (ss_engine sample_wanting)) \<noteq> None"
  proof -
    have "\<not> Option.is_none (getVault ''v'' (en_md (ss_engine sample_wanting)))" by code_simp
    then show ?thesis by (simp add: sample_item_def Option.is_none_def)
  qed
  ultimately show ?thesis
    using honest_peer_leaves_nothing_missing [OF sample_runs(1) sample_desktop_run [OF run], of 1 "[sample_item]" 1 3]
    by (simp only: sample_as_desktop [symmetric] Let_def)
qed

end
