(* ===== verification/Room_Registry.thy ===== *)
theory Room_Registry
  imports Wire_Protocol
begin

text \<open>
  The rooms of the signaling server, apps/signaling/src/rooms.ts with the types of signalingTypes.ts.

  A \<open>SignalingPeer\<close> carries a function that writes to the socket it joined on; here it carries the
  socket's number, and an operation returns the messages it sends, each with its socket. The registry is
  its map of rooms. The clock, \<open>randomUUID\<close> and \<open>randomBytes\<close> are arguments.
\<close>

section \<open>Types\<close>

datatype ServerSignalMessage =
    JoinedRoom RoomId PeerId "PeerId list"
  | PeerJoined PeerId
  | PeerLeft PeerId
  | SignalFrom PeerId "json option"
  | SignalError string

datatype ClientSignalMessage =
    JoinRoom RoomId string PeerId
  | SignalTo PeerId "json option"

record SignalingPeer =
  sp_peerId :: PeerId
  sp_socket :: nat

record Room =
  rm_id :: RoomId
  rm_inviteToken :: string
  rm_peers :: "(PeerId \<times> SignalingPeer) list"
  rm_createdAt :: Date

type_synonym rooms = "(RoomId \<times> Room) list"
type_synonym sent_signals = "(nat \<times> ServerSignalMessage) list"

text \<open>What the operations throw: \<open>RoomFull\<close>, or the \<open>Error\<close> of a failed assertion.\<close>

datatype room_throw = RoomFull string | RoomError js_error

definition EMPTY_ROOM_TTL_MS :: nat where "EMPTY_ROOM_TTL_MS = 20 * 60 * 1000"
definition MAX_ROOMS :: nat where "MAX_ROOMS = 50000"

section \<open>Operations\<close>

text \<open>Whether a room is empty and was created \<open>EMPTY_ROOM_TTL_MS\<close> ago or earlier.\<close>

definition abandoned :: "Date \<Rightarrow> Room \<Rightarrow> bool" where
  "abandoned now room \<longleftrightarrow> length (rm_peers room) = 0 \<and> int (rm_createdAt room) \<le> int now - int EMPTY_ROOM_TTL_MS"

definition sweep_rooms :: "Date \<Rightarrow> rooms \<Rightarrow> nat \<times> rooms" where
  "sweep_rooms now rooms =
     (length (filter (\<lambda>(_, room). abandoned now room) rooms), filter (\<lambda>(_, room). \<not> abandoned now room) rooms)"

definition createRoom :: "Date \<Rightarrow> Date \<Rightarrow> RoomId \<Rightarrow> string \<Rightarrow> rooms \<Rightarrow> (room_throw + RoomId \<times> string) \<times> rooms" where
  "createRoom sweptAt now uuid token rooms =
     (let rooms = snd (sweep_rooms sweptAt rooms)
      in if length rooms \<ge> MAX_ROOMS then (Inl (RoomFull ''too many rooms are open''), rooms)
         else (Inr (uuid, token), AList.update uuid
           \<lparr>rm_id = uuid, rm_inviteToken = token, rm_peers = [], rm_createdAt = now\<rparr> rooms))"

text \<open>The part of \<open>join\<close> after the room was found or created.\<close>

definition enter_room :: "Room \<Rightarrow> string \<Rightarrow> SignalingPeer \<Rightarrow> (room_throw + PeerId list) \<times> sent_signals \<times> Room" where
  "enter_room room inviteToken peer =
     (case assert_contract (rm_inviteToken room = inviteToken) ''invite token must match room'' of
        Inl e \<Rightarrow> (Inl (RoomError e), [], room)
      | Inr _ \<Rightarrow>
          (let existingPeerIds = map fst (rm_peers room);
               peers = AList.update (sp_peerId peer) peer (rm_peers room)
           in (Inr existingPeerIds,
               map (\<lambda>(_, p). (sp_socket p, PeerJoined (sp_peerId peer)))
                 (filter (\<lambda>(_, p). sp_peerId p \<noteq> sp_peerId peer) peers),
               room\<lparr>rm_peers := peers\<rparr>)))"

definition join_room :: "Date \<Rightarrow> RoomId \<Rightarrow> string \<Rightarrow> SignalingPeer \<Rightarrow> rooms \<Rightarrow>
    (room_throw + PeerId list) \<times> sent_signals \<times> rooms" where
  "join_room now roomId inviteToken peer rooms =
     (case map_of rooms roomId of
        None \<Rightarrow>
          if length rooms \<ge> MAX_ROOMS then (Inl (RoomFull ''too many rooms are open''), [], rooms)
          else let (r, out, room) = enter_room
                     \<lparr>rm_id = roomId, rm_inviteToken = inviteToken, rm_peers = [], rm_createdAt = now\<rparr> inviteToken peer
               in (r, out, AList.update roomId room rooms)
      | Some room \<Rightarrow>
          let (r, out, room) = enter_room room inviteToken peer in (r, out, AList.update roomId room rooms))"

definition leave_room :: "RoomId \<Rightarrow> PeerId \<Rightarrow> rooms \<Rightarrow> sent_signals \<times> rooms" where
  "leave_room roomId peerId rooms =
     (case map_of rooms roomId of
        None \<Rightarrow> ([], rooms)
      | Some room \<Rightarrow>
          let peers = AList.delete peerId (rm_peers room)
          in (map (\<lambda>(_, p). (sp_socket p, PeerLeft peerId)) peers,
              if length peers = 0 then AList.delete roomId rooms
              else AList.update roomId (room\<lparr>rm_peers := peers\<rparr>) rooms))"

definition relay :: "RoomId \<Rightarrow> PeerId \<Rightarrow> PeerId \<Rightarrow> json option \<Rightarrow> rooms \<Rightarrow> room_throw + nat \<times> ServerSignalMessage" where
  "relay roomId fromPeerId targetPeerId payload rooms =
     (case map_of rooms roomId of
        None \<Rightarrow> Inl (RoomError (ContractViolation ''room must exist before signaling''))
      | Some room \<Rightarrow>
          (case map_of (rm_peers room) targetPeerId of
             None \<Rightarrow> Inl (RoomError (ContractViolation ''target peer must be in room''))
           | Some target \<Rightarrow> Inr (sp_socket target, SignalFrom fromPeerId payload)))"

section \<open>Well-formed registries\<close>

text \<open>Every map is keyed by what it stores, and there are never more than \<open>MAX_ROOMS\<close> rooms.\<close>

definition room_wf :: "RoomId \<Rightarrow> Room \<Rightarrow> bool" where
  "room_wf rid room \<longleftrightarrow> rm_id room = rid \<and> distinct (map fst (rm_peers room)) \<and>
     (\<forall>(pid, peer) \<in> set (rm_peers room). sp_peerId peer = pid)"

definition rooms_wf :: "rooms \<Rightarrow> bool" where
  "rooms_wf rooms \<longleftrightarrow> distinct (map fst rooms) \<and> length rooms \<le> MAX_ROOMS \<and> (\<forall>(rid, room) \<in> set rooms. room_wf rid room)"

lemma rooms_wf_empty: "rooms_wf []"
  by (simp add: rooms_wf_def)

lemma rooms_wf_get: "rooms_wf rooms \<Longrightarrow> map_of rooms rid = Some room \<Longrightarrow> room_wf rid room"
  by (auto simp: rooms_wf_def dest: map_of_SomeD)

lemma rooms_wf_update:
  assumes "rooms_wf rooms" "room_wf rid room" "rid \<in> fst ` set rooms \<or> length rooms < MAX_ROOMS"
  shows "rooms_wf (AList.update rid room rooms)"
  using assms by (auto simp: rooms_wf_def alist_update_length dest!: alist_update_mem)

lemma rooms_wf_delete: "rooms_wf rooms \<Longrightarrow> rooms_wf (AList.delete rid rooms)"
  by (auto simp: rooms_wf_def AList.delete_eq distinct_map_filter intro: order_trans [OF length_filter_le])

lemma rooms_wf_sweep: "rooms_wf rooms \<Longrightarrow> rooms_wf (snd (sweep_rooms now rooms))"
  by (auto simp: rooms_wf_def sweep_rooms_def distinct_map_filter intro: order_trans [OF length_filter_le])

lemma room_wf_new: "room_wf rid \<lparr>rm_id = rid, rm_inviteToken = t, rm_peers = [], rm_createdAt = d\<rparr>"
  by (simp add: room_wf_def)

lemma enter_room_ok:
  assumes "enter_room room token peer = (Inr ids, out, room')"
  shows "rm_inviteToken room = token" "ids = map fst (rm_peers room)"
    "room' = room\<lparr>rm_peers := AList.update (sp_peerId peer) peer (rm_peers room)\<rparr>"
    "out = map (\<lambda>(_, p). (sp_socket p, PeerJoined (sp_peerId peer)))
       (filter (\<lambda>(_, p). sp_peerId p \<noteq> sp_peerId peer) (AList.update (sp_peerId peer) peer (rm_peers room)))"
  using assms by (auto simp: enter_room_def Let_def split: sum.splits)

lemma enter_room_refused: "enter_room room token peer = (Inl e, out, room') \<Longrightarrow> out = [] \<and> room' = room"
  by (auto simp: enter_room_def Let_def split: sum.splits)

lemma enter_room_wf:
  assumes "enter_room room token peer = (r, out, room')" "room_wf rid room"
  shows "room_wf rid room'"
proof (cases r)
  case (Inl e)
  then show ?thesis using enter_room_refused assms by blast
next
  case (Inr ids)
  with enter_room_ok(3) [OF assms(1) [unfolded Inr]] assms(2) show ?thesis
    by (auto simp: room_wf_def dest!: alist_update_mem)
qed

lemma rooms_wf_create: "rooms_wf rooms \<Longrightarrow> rooms_wf (snd (createRoom t now uuid token rooms))"
  using rooms_wf_sweep [of rooms t] by (auto simp: createRoom_def Let_def room_wf_new intro!: rooms_wf_update)

lemma rooms_wf_join:
  assumes "rooms_wf rooms" "join_room now rid token peer rooms = (r, out, rooms')"
  shows "rooms_wf rooms'"
proof (cases "map_of rooms rid")
  case None
  then show ?thesis
    using assms enter_room_wf [OF _ room_wf_new, of rid token now token peer]
    by (auto simp: join_room_def split: prod.splits if_splits intro!: rooms_wf_update)
next
  case (Some room)
  note wf = rooms_wf_get [OF assms(1) Some]
  obtain r' out' room' where e: "enter_room room token peer = (r', out', room')" by (cases "enter_room room token peer")
  then have "rooms' = AList.update rid room' rooms" using assms(2) Some by (simp add: join_room_def)
  then show ?thesis
    using rooms_wf_update [OF assms(1) enter_room_wf [OF e wf]] map_of_mem_keys [OF Some] by simp
qed

lemma rooms_wf_leave:
  assumes "rooms_wf rooms"
  shows "rooms_wf (snd (leave_room rid pid rooms))"
proof (cases "map_of rooms rid")
  case None
  then show ?thesis using assms by (simp add: leave_room_def)
next
  case (Some room)
  have "room_wf rid (room\<lparr>rm_peers := AList.delete pid (rm_peers room)\<rparr>)"
    using rooms_wf_get [OF assms Some] by (auto simp: room_wf_def AList.delete_eq distinct_map_filter)
  then show ?thesis
    using assms map_of_mem_keys [OF Some] Some
    by (auto simp: leave_room_def Let_def intro!: rooms_wf_delete rooms_wf_update)
qed

end
