(* ===== verification/Code_Registry.thy ===== *)
theory Code_Registry
  imports Short_Code
begin

text \<open>
  The pairing codes a signaling server hands out, apps/signaling/src/shortCodes.ts: \<open>ShortCodeRegistry\<close>
  as its map from codes to offers with their expiry. The clock it reads is an argument of each operation
  (\<open>issue\<close> reads it twice), and so is what \<open>randomInt\<close> returns: a list of draws, eight numbers each.
\<close>

section \<open>State and operations\<close>

definition TTL_MS :: nat where "TTL_MS = 10 * 60 * 1000"
definition MAX_ENTRIES :: nat where "MAX_ENTRIES = 10000"
definition MAX_OFFER_BYTES :: nat where "MAX_OFFER_BYTES = 2048"

record IssuedShortCode =
  isc_code :: string
  isc_expiresAt :: Date

type_synonym code_entries = "(string \<times> (string \<times> Date)) list"

definition sweep_codes :: "Date \<Rightarrow> code_entries \<Rightarrow> code_entries" where
  "sweep_codes now entries = filter (\<lambda>(code, offer, expiresAt). \<not> expiresAt \<le> now) entries"

text \<open>One call of \<open>generate\<close>, given the eight numbers it draws.\<close>

definition generate :: "nat list \<Rightarrow> string" where
  "generate draws = map (\<lambda>i. SHORT_CODE_ALPHABET ! (draws ! i)) [0..<SHORT_CODE_LENGTH]"

text \<open>The loop that draws until a code is free; \<open>None\<close> when all the draws given are taken.\<close>

fun fresh_code :: "code_entries \<Rightarrow> nat list list \<Rightarrow> string option" where
  "fresh_code entries [] = None"
| "fresh_code entries (draw # draws) =
     (if generate draw \<in> fst ` set entries then fresh_code entries draws else Some (generate draw))"

text \<open>The outer \<open>None\<close>: the loop has not ended with the draws given.\<close>

definition issue :: "string \<Rightarrow> nat list list \<Rightarrow> Date \<Rightarrow> Date \<Rightarrow> code_entries \<Rightarrow>
    IssuedShortCode result option \<times> code_entries" where
  "issue offer draws sweptAt now entries =
     (if length offer = 0 \<or> length offer > MAX_OFFER_BYTES
      then (Some (Inl (ThrownError ''pairing offer is missing or too large'')), entries)
      else let entries = sweep_codes sweptAt entries
           in if length entries \<ge> MAX_ENTRIES
              then (Some (Inl (ThrownError ''too many pairing codes are outstanding'')), entries)
              else case fresh_code entries draws of
                     None \<Rightarrow> (None, entries)
                   | Some code \<Rightarrow>
                       (let expiresAt = now + TTL_MS
                        in (Some (Inr \<lparr>isc_code = formatShortCode code, isc_expiresAt = expiresAt\<rparr>),
                            AList.update code (offer, expiresAt) entries)))"

definition redeem :: "string \<Rightarrow> Date \<Rightarrow> code_entries \<Rightarrow> string option \<times> code_entries" where
  "redeem raw now entries =
     (let entries = sweep_codes now entries
      in case map_of entries (normalizeShortCode raw) of
           None \<Rightarrow> (None, entries)
         | Some (offer, expiresAt) \<Rightarrow> (Some offer, AList.delete (normalizeShortCode raw) entries))"

section \<open>Histories\<close>

text \<open>What has happened to the codes, newest first.\<close>

datatype code_event = Issued string string Date | Redeemed string

fun last_event :: "string \<Rightarrow> code_event list \<Rightarrow> code_event option" where
  "last_event c [] = None"
| "last_event c (Issued code offer e # es) = (if code = c then Some (Issued code offer e) else last_event c es)"
| "last_event c (Redeemed code # es) = (if code = c then Some (Redeemed code) else last_event c es)"

text \<open>\<open>code_run now es entries\<close>: a registry after the events \<open>es\<close>, at a time not before \<open>now\<close>.\<close>

inductive code_run :: "Date \<Rightarrow> code_event list \<Rightarrow> code_entries \<Rightarrow> bool" where
  code_start: "code_run now [] []"
| code_later: "code_run now es entries \<Longrightarrow> now \<le> later \<Longrightarrow> code_run later es entries"
| code_issued: "code_run now es entries \<Longrightarrow> now \<le> sweptAt \<Longrightarrow> sweptAt \<le> at \<Longrightarrow>
    issue offer draws sweptAt at entries = (Some (Inr issued), entries') \<Longrightarrow>
    fresh_code (sweep_codes sweptAt entries) draws = Some code \<Longrightarrow>
    code_run at (Issued code offer (isc_expiresAt issued) # es) entries'"
| code_refused: "code_run now es entries \<Longrightarrow> now \<le> sweptAt \<Longrightarrow> sweptAt \<le> at \<Longrightarrow>
    issue offer draws sweptAt at entries = (Some (Inl e), entries') \<Longrightarrow> code_run at es entries'"
| code_redeemed: "code_run now es entries \<Longrightarrow> now \<le> at \<Longrightarrow> redeem raw at entries = (Some offer, entries') \<Longrightarrow>
    code_run at (Redeemed (normalizeShortCode raw) # es) entries'"
| code_not_redeemed: "code_run now es entries \<Longrightarrow> now \<le> at \<Longrightarrow> redeem raw at entries = (None, entries') \<Longrightarrow>
    code_run at es entries'"

text \<open>What a registry should hold under a code, given the last event about it.\<close>

definition entry_ok :: "Date \<Rightarrow> string \<Rightarrow> code_event option \<Rightarrow> (string \<times> Date) option \<Rightarrow> bool" where
  "entry_ok now c event entry =
     (case entry of
        Some (offer, e) \<Rightarrow> event = Some (Issued c offer e)
      | None \<Rightarrow> (case event of Some (Issued _ _ e) \<Rightarrow> e \<le> now | _ \<Rightarrow> True))"

definition codes_ok :: "Date \<Rightarrow> code_event list \<Rightarrow> code_entries \<Rightarrow> bool" where
  "codes_ok now es entries \<longleftrightarrow> distinct (map fst entries) \<and> length entries \<le> MAX_ENTRIES \<and>
     (\<forall>c. entry_ok now c (last_event c es) (map_of entries c))"

lemma map_of_sweep:
  "distinct (map fst entries) \<Longrightarrow> map_of (sweep_codes now entries) c =
     (case map_of entries c of None \<Rightarrow> None | Some (offer, e) \<Rightarrow> if e \<le> now then None else Some (offer, e))"
proof (induction entries)
  case Nil
  then show ?case by (simp add: sweep_codes_def)
next
  case (Cons x xs)
  obtain k offer e where x: "x = (k, offer, e)" by (cases x)
  have "map_of xs k = None" using Cons.prems x by (simp add: map_of_eq_None_iff)
  then show ?case using Cons x by (auto simp: sweep_codes_def split: option.splits)
qed

lemma sweep_keys: "distinct (map fst entries) \<Longrightarrow> distinct (map fst (sweep_codes now entries))"
  "length (sweep_codes now entries) \<le> length entries"
  by (simp_all add: sweep_codes_def distinct_map_filter)

lemma entry_ok_later: "entry_ok now c ev entry \<Longrightarrow> now \<le> later \<Longrightarrow> entry_ok later c ev entry"
  by (auto simp: entry_ok_def split: option.splits code_event.splits)

lemma codes_ok_later: "codes_ok now es entries \<Longrightarrow> now \<le> later \<Longrightarrow> codes_ok later es entries"
  using entry_ok_later by (simp add: codes_ok_def) blast

lemma codes_ok_sweep:
  assumes "codes_ok now es entries" "now \<le> later"
  shows "codes_ok later es (sweep_codes later entries)"
proof -
  have d: "distinct (map fst entries)" using assms(1) by (simp add: codes_ok_def)
  have "entry_ok later c (last_event c es) (map_of (sweep_codes later entries) c)" for c
  proof -
    have "entry_ok later c (last_event c es) (map_of entries c)"
      using codes_ok_later [OF assms] by (simp add: codes_ok_def)
    then show ?thesis
      by (cases "map_of entries c") (auto simp: map_of_sweep [OF d] entry_ok_def)
  qed
  then show ?thesis
    using assms(1) sweep_keys(2) [of later entries] sweep_keys(1) [OF d] by (simp add: codes_ok_def)
qed

lemma fresh_code_new: "fresh_code entries draws = Some code \<Longrightarrow> code \<notin> fst ` set entries \<and> (\<exists>d \<in> set draws. code = generate d)"
  by (induction draws) (auto split: if_splits)

text \<open>Either no code came out, and at most expired entries went, or a fresh code was entered.\<close>

lemma issue_cases:
  assumes "issue offer draws sweptAt now entries = (r, entries')"
  shows "(entries' = entries \<or> entries' = sweep_codes sweptAt entries) \<and> (\<forall>i. r \<noteq> Some (Inr i)) \<or>
    (\<exists>code. fresh_code (sweep_codes sweptAt entries) draws = Some code \<and>
      length (sweep_codes sweptAt entries) < MAX_ENTRIES \<and>
      r = Some (Inr \<lparr>isc_code = formatShortCode code, isc_expiresAt = now + TTL_MS\<rparr>) \<and>
      entries' = AList.update code (offer, now + TTL_MS) (sweep_codes sweptAt entries))"
proof (cases "length offer = 0 \<or> length offer > MAX_OFFER_BYTES")
  case True
  then show ?thesis using assms by (auto simp: issue_def)
next
  case False
  then show ?thesis
    using assms unfolding issue_def Let_def if_not_P [OF False]
    by (cases "fresh_code (sweep_codes sweptAt entries) draws"; cases "length (sweep_codes sweptAt entries) \<ge> MAX_ENTRIES")
      (simp_all, blast+)
qed

lemma codes_ok_issue:
  assumes "codes_ok now es entries" "now \<le> at"
    and "fresh_code entries draws = Some code" "length entries < MAX_ENTRIES"
  shows "codes_ok at (Issued code offer e # es) (AList.update code (offer, e) entries)"
  using codes_ok_later [OF assms(1,2)] assms(4) fresh_code_new [OF assms(3)]
proof -
  have "entry_ok at c (last_event c es) (map_of entries c)" for c
    using codes_ok_later [OF assms(1,2)] by (simp add: codes_ok_def)
  then have "entry_ok at c (last_event c (Issued code offer e # es)) (map_of (AList.update code (offer, e) entries) c)" for c
    by (cases "c = code") (simp_all add: alist_map_of_update entry_ok_def)
  then show ?thesis
    using assms(1,4) fresh_code_new [OF assms(3)]
    by (simp add: codes_ok_def alist_distinct_update alist_update_length)
qed

lemma codes_ok_redeem:
  assumes "codes_ok now es entries"
  shows "codes_ok now (Redeemed c # es) (AList.delete c entries)"
  using assms alist_delete_length [of c entries]
  by (simp add: codes_ok_def alist_map_of_delete alist_distinct_delete) (simp add: entry_ok_def)

lemma code_run_ok: "code_run now es entries \<Longrightarrow> codes_ok now es entries"
proof (induction rule: code_run.induct)
  case (code_start now)
  then show ?case by (simp add: codes_ok_def entry_ok_def)
next
  case (code_later now es entries later)
  then show ?case using codes_ok_later by blast
next
  case (code_issued now es entries sweptAt at offer draws issued entries' code)
  have "codes_ok sweptAt es (sweep_codes sweptAt entries)"
    by (rule codes_ok_sweep [OF code_issued.IH code_issued.hyps(2)])
  from codes_ok_issue [OF this code_issued.hyps(3,5)] show ?case
    using issue_cases [OF code_issued.hyps(4)] code_issued.hyps(5) by auto
next
  case (code_refused now es entries sweptAt at offer draws e entries')
  have "codes_ok sweptAt es entries" "codes_ok sweptAt es (sweep_codes sweptAt entries)"
    using codes_ok_sweep codes_ok_later code_refused by blast+
  moreover have "entries' = entries \<or> entries' = sweep_codes sweptAt entries"
    using issue_cases [OF code_refused.hyps(4)] by auto
  ultimately show ?case using codes_ok_later code_refused.hyps(3) by blast
next
  case (code_redeemed now es entries at raw offer entries')
  then show ?case
    by (auto simp: redeem_def Let_def split: option.splits intro!: codes_ok_redeem codes_ok_sweep)
next
  case (code_not_redeemed now es entries at raw entries')
  then show ?case
    by (auto simp: redeem_def Let_def split: option.splits intro!: codes_ok_sweep)
qed


lemma redeem_map_of:
  assumes "distinct (map fst entries)"
  shows "fst (redeem raw at entries) = (case map_of entries (normalizeShortCode raw) of
      None \<Rightarrow> None | Some (offer, e) \<Rightarrow> if e \<le> at then None else Some offer)"
  by (auto simp: redeem_def Let_def map_of_sweep [OF assms] split: option.splits)

section \<open>Properties\<close>

text \<open>
  C17: A code buys exactly its own offer, once and in time. After any issuing and redeeming, a typed code
  yields an offer exactly when the last thing that happened to that code (read as the registry reads it)
  was its issue with this offer, and it has not expired: a code that was redeemed, was never issued or is
  too old yields nothing. At most 10000 codes are outstanding.\<close>

theorem redeem_exact:
  assumes "code_run now es entries" and "now \<le> at"
  shows "(fst (redeem raw at entries) = Some offer \<longleftrightarrow>
      (\<exists>e. last_event (normalizeShortCode raw) es = Some (Issued (normalizeShortCode raw) offer e) \<and> at < e)) \<and>
    length entries \<le> 10000"
proof -
  let ?c = "normalizeShortCode raw"
  have ok: "codes_ok at es entries" by (rule codes_ok_later [OF code_run_ok [OF assms(1)] assms(2)])
  then have d: "distinct (map fst entries)" by (simp add: codes_ok_def)
  have "entry_ok at ?c (last_event ?c es) (map_of entries ?c)" using ok by (simp add: codes_ok_def)
  then have "fst (redeem raw at entries) = Some offer \<longleftrightarrow>
      (\<exists>e. last_event ?c es = Some (Issued ?c offer e) \<and> at < e)"
    unfolding redeem_map_of [OF d]
    by (cases "map_of entries ?c") (auto simp: entry_ok_def not_le split: option.splits code_event.splits if_splits)
  then show ?thesis using ok by (simp add: codes_ok_def MAX_ENTRIES_def)
qed

lemma sample_code:
  "issue ''passvault:x'' [[4, 15, 7, 19, 2, 22, 29, 24]] 5 6 [] =
     (Some (Inr \<lparr>isc_code = ''4F7K-2PXR'', isc_expiresAt = 600006\<rparr>), [(''4F7K2PXR'', ''passvault:x'', 600006)])"
  "fresh_code (sweep_codes 5 []) [[4, 15, 7, 19, 2, 22, 29, 24]] = Some ''4F7K2PXR''"
proof -
  have "generate [4, 15, 7, 19, 2, 22, 29, 24] = ''4F7K2PXR''" by code_simp
  then show "fresh_code (sweep_codes 5 []) [[4, 15, 7, 19, 2, 22, 29, 24]] = Some ''4F7K2PXR''"
    by (simp add: sweep_codes_def)
  then show "issue ''passvault:x'' [[4, 15, 7, 19, 2, 22, 29, 24]] 5 6 [] =
     (Some (Inr \<lparr>isc_code = ''4F7K-2PXR'', isc_expiresAt = 600006\<rparr>), [(''4F7K2PXR'', ''passvault:x'', 600006)])"
    by (simp add: issue_def sweep_codes_def MAX_OFFER_BYTES_def MAX_ENTRIES_def TTL_MS_def formatShortCode_def)
qed

theorem redeem_exact_witness:
  "fst (redeem ''4f7k-2pxr'' 8 (snd (issue ''passvault:x'' [[4, 15, 7, 19, 2, 22, 29, 24]] 5 6 []))) = Some ''passvault:x''"
proof -
  from code_issued [OF code_start _ _ sample_code, of 0]
  have run: "code_run 6 [Issued ''4F7K2PXR'' ''passvault:x'' 600006] [(''4F7K2PXR'', ''passvault:x'', 600006)]" by simp
  have "normalizeShortCode ''4f7k-2pxr'' = ''4F7K2PXR''" by code_simp
  then show ?thesis
    using redeem_exact [OF run, of 8 "''4f7k-2pxr''" "''passvault:x''"] by (simp add: sample_code(1))
qed

text \<open>
  What is shown works once. The code a registry shows for an offer, typed back before it expires,
  yields the offer, and yields nothing when it is typed again, unless it was issued again.\<close>

theorem issued_code_redeems_once:
  assumes "code_run now es entries" and "now \<le> sweptAt" "sweptAt \<le> at"
    and "\<forall>draw \<in> set draws. length draw = 8 \<and> (\<forall>i \<in> set draw. i < 32)"
    and "issue offer draws sweptAt at entries = (Some (Inr issued), entries')"
    and "at \<le> t" "t < isc_expiresAt issued"
  shows "fst (redeem (isc_code issued) t entries') = Some offer \<and>
    fst (redeem (isc_code issued) t' (snd (redeem (isc_code issued) t entries'))) = None"
proof -
  from issue_cases [OF assms(5)] obtain code where code: "fresh_code (sweep_codes sweptAt entries) draws = Some code"
    "issued = \<lparr>isc_code = formatShortCode code, isc_expiresAt = at + TTL_MS\<rparr>"
    "entries' = AList.update code (offer, at + TTL_MS) (sweep_codes sweptAt entries)" by auto
  from fresh_code_new [OF code(1)] obtain draw where draw: "draw \<in> set draws" "code = generate draw" by blast
  have "SHORT_CODE_ALPHABET ! i \<in> set SHORT_CODE_ALPHABET" if "i < 32" for i
    using that by (intro nth_mem) (simp add: SHORT_CODE_ALPHABET_def)
  then have "valid_code code"
    using assms(4) draw by (auto simp: valid_code_def generate_def SHORT_CODE_LENGTH_def list_all_iff)
  then have norm: "normalizeShortCode (isc_code issued) = code"
    using code_part(2) [of code] code(2) by (simp add: valid_code_def)
  have d: "distinct (map fst entries)" using code_run_ok [OF assms(1)] by (simp add: codes_ok_def)
  then have d': "distinct (map fst entries')" using sweep_keys(1) code(3) by simp
  have e: "isc_expiresAt issued = at + TTL_MS" using code(2) by simp
  have first: "fst (redeem (isc_code issued) t entries') = Some offer"
    using assms(7) unfolding redeem_map_of [OF d'] norm e by (simp add: code(3))
  then have "map_of (snd (redeem (isc_code issued) t entries')) code = None"
    by (auto simp: redeem_def norm Let_def split: option.splits)
  moreover have "distinct (map fst (snd (redeem (isc_code issued) t entries')))"
    using sweep_keys(1) [OF d'] by (auto simp: redeem_def Let_def split: option.splits)
  ultimately show ?thesis using first by (simp add: redeem_map_of norm)
qed

theorem issued_code_redeems_once_witness:
  "fst (redeem ''4F7K-2PXR'' 7 [(''4F7K2PXR'', ''passvault:x'', 600006)]) = Some ''passvault:x''"
  using issued_code_redeems_once [OF code_start _ _ _ sample_code(1), of 0 7, THEN conjunct1] by simp

end
