(* ===== verification/Rate_Limit.thy ===== *)
theory Rate_Limit
  imports Complex_Main Js_Prelude
begin

text \<open>
  The rate limiter of the signaling server, apps/signaling/src/rateLimit.ts: a token bucket per client
  and the choice of the client a request is charged to.

  \<open>RateLimiter\<close> is a record of its constructor arguments and its map of buckets; the clock it reads is
  an argument, in milliseconds. The numbers of the source are doubles; here they are rationals, so
  rounding is not modelled.
\<close>

section \<open>State and operations\<close>

record bucket =
  bk_tokens :: rat
  bk_updatedAt :: Date

record RateLimiter =
  rl_capacity :: rat
  rl_refillPerSecond :: rat
  rl_buckets :: "(string \<times> bucket) list"

definition new_RateLimiter :: "rat \<Rightarrow> rat \<Rightarrow> RateLimiter" where
  "new_RateLimiter capacity refillPerSecond =
     \<lparr>rl_capacity = capacity, rl_refillPerSecond = refillPerSecond, rl_buckets = []\<rparr>"

text \<open>The tokens of a bucket, refilled up to now.\<close>

definition refilled_tokens :: "RateLimiter \<Rightarrow> Date \<Rightarrow> bucket \<Rightarrow> rat" where
  "refilled_tokens this now bucket =
     min (rl_capacity this)
       (bk_tokens bucket + ((of_nat now - of_nat (bk_updatedAt bucket)) / 1000) * rl_refillPerSecond this)"

definition forget_all :: "RateLimiter \<Rightarrow> RateLimiter" where
  "forget_all this = (if length (rl_buckets this) > 100000 then this\<lparr>rl_buckets := []\<rparr> else this)"

definition bucket_of :: "RateLimiter \<Rightarrow> string \<Rightarrow> Date \<Rightarrow> bucket" where
  "bucket_of this key now =
     (case map_of (rl_buckets this) key of
        None \<Rightarrow> \<lparr>bk_tokens = rl_capacity this, bk_updatedAt = now\<rparr>
      | Some bucket \<Rightarrow> bucket)"

definition take_token :: "string \<Rightarrow> Date \<Rightarrow> RateLimiter \<Rightarrow> bool \<times> RateLimiter" where
  "take_token key now this =
     (let this = forget_all this;
          refilled = refilled_tokens this now (bucket_of this key now);
          store = (\<lambda>tokens. this\<lparr>rl_buckets :=
            AList.update key \<lparr>bk_tokens = tokens, bk_updatedAt = now\<rparr> (rl_buckets this)\<rparr>)
      in if refilled < 1 then (False, store refilled) else (True, store (refilled - 1)))"

text \<open>
  \<open>request.headers["x-forwarded-for"]\<close> is absent, one string or several, and the address of the socket
  may be unknown.
\<close>

datatype forwarded_header = HeaderAbsent | HeaderText string | HeaderList "string list"

definition clientKey :: "forwarded_header \<Rightarrow> string option \<Rightarrow> bool \<Rightarrow> string" where
  "clientKey header remoteAddress trustProxy =
     (let fallback = (case remoteAddress of None \<Rightarrow> ''unknown'' | Some a \<Rightarrow> a)
      in if trustProxy
         then (let raw = (case header of HeaderAbsent \<Rightarrow> [] | HeaderText h \<Rightarrow> h
                          | HeaderList hs \<Rightarrow> if hs = [] then [] else last hs);
                   hops = filter (\<lambda>hop. length hop > 0) (map js_trim (js_split (CHR '','') raw))
               in if hops = [] then fallback else last hops)
         else fallback)"

section \<open>Sequences of requests\<close>

text \<open>What a sequence of requests, each with its key and time, is answered.\<close>

fun take_all :: "(string \<times> Date) list \<Rightarrow> RateLimiter \<Rightarrow> bool list \<times> RateLimiter" where
  "take_all [] this = ([], this)"
| "take_all ((key, now) # rs) this =
     (let (ok, this') = take_token key now this; (oks, this'') = take_all rs this' in (ok # oks, this''))"

text \<open>How many requests of a key were admitted, and how often the map was cleared.\<close>

definition admitted :: "string \<Rightarrow> (string \<times> Date) list \<Rightarrow> RateLimiter \<Rightarrow> nat" where
  "admitted key rs this = length (filter (\<lambda>((k, _), ok). k = key \<and> ok) (zip rs (fst (take_all rs this))))"

fun clears :: "(string \<times> Date) list \<Rightarrow> RateLimiter \<Rightarrow> nat" where
  "clears [] this = 0"
| "clears ((key, now) # rs) this =
     (if length (rl_buckets this) > 100000 then 1 else 0) + clears rs (snd (take_token key now this))"

definition tokens_at :: "string \<Rightarrow> Date \<Rightarrow> RateLimiter \<Rightarrow> rat" where
  "tokens_at key now this = refilled_tokens this now (bucket_of this key now)"

definition limiter_ok :: "Date \<Rightarrow> RateLimiter \<Rightarrow> bool" where
  "limiter_ok now this \<longleftrightarrow> 0 \<le> rl_capacity this \<and> 0 \<le> rl_refillPerSecond this \<and>
     length (rl_buckets this) \<le> 100001 \<and> distinct (map fst (rl_buckets this)) \<and>
     (\<forall>(k, b) \<in> set (rl_buckets this). 0 \<le> bk_tokens b \<and> bk_updatedAt b \<le> now)"

lemma limiter_ok_new: "0 \<le> c \<Longrightarrow> 0 \<le> r \<Longrightarrow> limiter_ok now (new_RateLimiter c r)"
  by (simp add: limiter_ok_def new_RateLimiter_def)

lemma take_token_config [simp]:
  "rl_capacity (snd (take_token key now this)) = rl_capacity this"
  "rl_refillPerSecond (snd (take_token key now this)) = rl_refillPerSecond this"
  by (simp_all add: take_token_def Let_def forget_all_def)

lemma tokens_at_nonneg:
  assumes "limiter_ok now this" "now \<le> later"
  shows "0 \<le> tokens_at key later this"
proof -
  have "0 \<le> (rat_of_nat later - of_nat (bk_updatedAt b)) / 1000 * rl_refillPerSecond this"
    if "bk_updatedAt b \<le> later" for b
    using assms that by (intro mult_nonneg_nonneg) (simp_all add: limiter_ok_def)
  moreover have "(case map_of (rl_buckets this) key of None \<Rightarrow> True | Some b \<Rightarrow> 0 \<le> bk_tokens b \<and> bk_updatedAt b \<le> later)"
    using assms by (auto simp: limiter_ok_def split: option.splits dest!: map_of_SomeD)
  ultimately show ?thesis
    using assms by (auto simp: tokens_at_def refilled_tokens_def bucket_of_def limiter_ok_def split: option.splits)
qed

lemma tokens_at_le: "tokens_at key now this \<le> rl_capacity this"
  by (simp add: tokens_at_def refilled_tokens_def)

lemma tokens_at_later:
  assumes "now \<le> later" "0 \<le> rl_refillPerSecond this"
  shows "tokens_at key later this \<le>
    tokens_at key now this + (of_nat later - of_nat now) / 1000 * rl_refillPerSecond this"
proof -
  have "0 \<le> (rat_of_nat later - of_nat now) / 1000 * rl_refillPerSecond this"
    using assms by (intro mult_nonneg_nonneg) simp_all
  moreover have "min c (t + (l - u) / 1000 * r) \<le> min c (t + (n - u) / 1000 * r) + (l - n) / 1000 * r"
    if "0 \<le> (l - n) / 1000 * r" for c t l u n r :: rat
    using that by (simp add: min_def) (simp add: field_simps)
  ultimately show ?thesis
    by (simp add: tokens_at_def refilled_tokens_def bucket_of_def split: option.split)
qed


section \<open>One request\<close>

lemma take_token_bucket:
  fixes key now this
  defines "refilled \<equiv> tokens_at key now (forget_all this)"
  shows "fst (take_token key now this) \<longleftrightarrow> 1 \<le> refilled"
    and "rl_buckets (snd (take_token key now this)) =
      AList.update key \<lparr>bk_tokens = (if refilled < 1 then refilled else refilled - 1), bk_updatedAt = now\<rparr>
        (rl_buckets (forget_all this))"
  by (auto simp: take_token_def Let_def refilled_def tokens_at_def)

lemma forget_all_fields [simp]:
  "rl_capacity (forget_all this) = rl_capacity this" "rl_refillPerSecond (forget_all this) = rl_refillPerSecond this"
  "length (rl_buckets (forget_all this)) \<le> 100000"
  by (simp_all add: forget_all_def)

lemma limiter_ok_forget: "limiter_ok now this \<Longrightarrow> limiter_ok now (forget_all this)"
  by (simp add: limiter_ok_def forget_all_def)

lemma limiter_ok_take:
  assumes "limiter_ok before this" "before \<le> now"
  shows "limiter_ok now (snd (take_token key now this))"
proof -
  have ok: "limiter_ok before (forget_all this)" by (rule limiter_ok_forget [OF assms(1)])
  have "0 \<le> tokens_at key now (forget_all this)" by (rule tokens_at_nonneg [OF ok assms(2)])
  moreover have "length (AList.update key b (rl_buckets (forget_all this))) \<le> 100001" for b
    using le_trans [OF forget_all_fields(3) [of this], of 100001] by (simp add: alist_update_length)
  moreover have "\<forall>(k, b) \<in> set (rl_buckets (forget_all this)). 0 \<le> bk_tokens b \<and> bk_updatedAt b \<le> now"
    using ok assms(2) by (fastforce simp: limiter_ok_def)
  ultimately show ?thesis
    using ok unfolding limiter_ok_def take_token_bucket(2)
    by (auto simp: alist_distinct_update dest!: alist_update_mem)
qed

lemma tokens_forget:
  assumes "0 \<le> tokens_at key now this"
  shows "tokens_at key now (forget_all this) \<le>
    tokens_at key now this + (if length (rl_buckets this) > 100000 then rl_capacity this else 0)"
  using assms tokens_at_le [of key now "forget_all this"] by (auto simp: forget_all_def)

lemma take_token_accounts:
  assumes "limiter_ok before this" "before \<le> now"
  shows "of_bool (k = key \<and> fst (take_token k now this)) + tokens_at key now (snd (take_token k now this)) \<le>
    tokens_at key now this + (if length (rl_buckets this) > 100000 then rl_capacity this else 0)"
proof -
  note nonneg = tokens_at_nonneg [OF assms]
  have "of_bool (k = key \<and> fst (take_token k now this)) + tokens_at key now (snd (take_token k now this)) \<le>
      tokens_at key now (forget_all this)"
  proof (cases "k = key")
    case True
    then show ?thesis
      using take_token_bucket [of key now this] tokens_at_le [of key now "forget_all this"]
      by (auto simp: tokens_at_def [of key now "snd (take_token key now this)"] bucket_of_def refilled_tokens_def
        alist_map_of_update)
  next
    case False
    then show ?thesis
      using take_token_bucket(2) [of k now this]
      by (simp add: tokens_at_def bucket_of_def refilled_tokens_def alist_map_of_update split: option.split)
  qed
  then show ?thesis using tokens_forget [OF nonneg] by (rule order_trans)
qed

section \<open>Runs\<close>

lemma admitted_Cons [simp]:
  "admitted key ((k, now) # rs) this =
     of_bool (k = key \<and> fst (take_token k now this)) + admitted key rs (snd (take_token k now this))"
  by (simp add: admitted_def split_beta)

lemma admitted_Nil [simp]: "admitted key [] this = 0"
  by (simp add: admitted_def)

lemma admitted_bound:
  assumes "limiter_ok t0 this" "sorted (t0 # map snd rs)"
  shows "of_nat (admitted key rs this) \<le>
    tokens_at key t0 this + rl_capacity this * of_nat (clears rs this) +
      (of_nat (last (t0 # map snd rs)) - of_nat t0) / 1000 * rl_refillPerSecond this"
  using assms
proof (induction rs arbitrary: t0 this)
  case Nil
  then show ?case using tokens_at_nonneg [of t0 this t0 key] by simp
next
  case (Cons x rs)
  obtain k now where x: "x = (k, now)" by fastforce
  define this' where "this' = snd (take_token k now this)"
  let ?r = "rl_refillPerSecond this" and ?l = "rat_of_nat (last (now # map snd rs))"
  have le: "t0 \<le> now" using Cons.prems(2) x by simp
  have r: "0 \<le> ?r" using Cons.prems(1) by (simp add: limiter_ok_def)
  have ok: "limiter_ok now this'" unfolding this'_def by (rule limiter_ok_take [OF Cons.prems(1) le])
  have ih: "of_nat (admitted key rs this') \<le>
      tokens_at key now this' + rl_capacity this * of_nat (clears rs this') + (?l - of_nat now) / 1000 * ?r"
    using Cons.IH [OF ok] Cons.prems(2) x by (simp add: this'_def)
  have acc: "of_bool (k = key \<and> fst (take_token k now this)) + tokens_at key now this' \<le>
      tokens_at key now this + (if length (rl_buckets this) > 100000 then rl_capacity this else 0)"
    unfolding this'_def by (rule take_token_accounts [OF Cons.prems(1) le])
  have later: "tokens_at key now this \<le> tokens_at key t0 this + (of_nat now - of_nat t0) / 1000 * ?r"
    by (rule tokens_at_later [OF le r])
  have time: "(?l - of_nat now) / 1000 * ?r + (of_nat now - of_nat t0) / 1000 * ?r = (?l - of_nat t0) / 1000 * ?r"
    by (simp add: field_simps)
  have "rat_of_nat (admitted key (x # rs) this) =
      of_bool (k = key \<and> fst (take_token k now this)) + of_nat (admitted key rs this')"
    by (simp add: x this'_def)
  also have "\<dots> \<le> tokens_at key t0 this +
      ((if length (rl_buckets this) > 100000 then rl_capacity this else 0) + rl_capacity this * of_nat (clears rs this')) +
      (?l - of_nat t0) / 1000 * ?r"
    using ih acc later time by linarith
  also have "(if length (rl_buckets this) > 100000 then rl_capacity this else 0) +
      rl_capacity this * of_nat (clears rs this') = rl_capacity this * of_nat (clears (x # rs) this)"
    by (simp add: x this'_def distrib_left)
  finally show ?case using x by simp
qed

lemma take_all_ok:
  "limiter_ok t0 this \<Longrightarrow> sorted (t0 # map snd rs) \<Longrightarrow>
    limiter_ok (last (t0 # map snd rs)) (snd (take_all rs this))"
proof (induction rs arbitrary: t0 this)
  case Nil
  then show ?case by simp
next
  case (Cons x rs)
  obtain k now where x: "x = (k, now)" by fastforce
  have "limiter_ok now (snd (take_token k now this))"
    using limiter_ok_take [OF Cons.prems(1)] Cons.prems(2) x by simp
  from Cons.IH [OF this] show ?case using Cons.prems(2) x by (simp add: split_beta)
qed

lemma take_all_config [simp]:
  "rl_capacity (snd (take_all rs this)) = rl_capacity this"
  "rl_refillPerSecond (snd (take_all rs this)) = rl_refillPerSecond this"
  by (induction rs arbitrary: this) (auto simp: split_beta)

lemma limiter_ok_later: "limiter_ok t this \<Longrightarrow> t \<le> u \<Longrightarrow> limiter_ok u this"
  by (fastforce simp: limiter_ok_def)

text \<open>A clearing needs 100001 buckets, so that many requests lie between two clearings.\<close>

lemma take_token_length:
  "length (rl_buckets (snd (take_token k now this))) \<le>
    (if length (rl_buckets this) > 100000 then 1 else length (rl_buckets this) + 1)"
  unfolding take_token_bucket(2) by (simp add: forget_all_def alist_update_length)

lemma clears_bound: "100001 * clears rs this \<le> length rs + length (rl_buckets this)"
proof (induction rs this rule: clears.induct)
  case (2 key now rs this)
  then show ?case using take_token_length [of key now this] by (auto split: if_splits)
qed simp

lemma take_token_others:
  assumes "length (rl_buckets this) \<le> 100000" "k \<noteq> key"
  shows "map_of (rl_buckets (snd (take_token k now this))) key = map_of (rl_buckets this) key"
  using assms take_token_bucket(2) [of k now this] by (simp add: forget_all_def alist_map_of_update)

lemma take_token_same:
  assumes "length (rl_buckets s) \<le> 100000" "length (rl_buckets t) \<le> 100000"
    and "map_of (rl_buckets s) key = map_of (rl_buckets t) key"
    and "rl_capacity s = rl_capacity t" "rl_refillPerSecond s = rl_refillPerSecond t"
  shows "fst (take_token key now s) = fst (take_token key now t)"
    "map_of (rl_buckets (snd (take_token key now s))) key = map_of (rl_buckets (snd (take_token key now t))) key"
proof -
  have "tokens_at key now (forget_all s) = tokens_at key now (forget_all t)"
    using assms by (simp add: tokens_at_def forget_all_def refilled_tokens_def bucket_of_def split: option.split)
  then show "fst (take_token key now s) = fst (take_token key now t)"
    "map_of (rl_buckets (snd (take_token key now s))) key = map_of (rl_buckets (snd (take_token key now t))) key"
    by (simp_all add: take_token_bucket alist_map_of_update)
qed

text \<open>Without a clearing, a client is answered as if it were alone.\<close>

lemma admitted_alone:
  assumes "clears rs s = 0" "clears (filter (\<lambda>(k, _). k = key) rs) t = 0"
    and "map_of (rl_buckets s) key = map_of (rl_buckets t) key"
    and "rl_capacity s = rl_capacity t" "rl_refillPerSecond s = rl_refillPerSecond t"
  shows "admitted key rs s = admitted key (filter (\<lambda>(k, _). k = key) rs) t"
  using assms
proof (induction rs arbitrary: s t)
  case Nil
  then show ?case by simp
next
  case (Cons x rs)
  obtain k now where x: "x = (k, now)" by fastforce
  have s: "length (rl_buckets s) \<le> 100000" "clears rs (snd (take_token k now s)) = 0"
    using Cons.prems(1) x by (simp_all split: if_splits)
  show ?case
  proof (cases "k = key")
    case True
    then have t: "length (rl_buckets t) \<le> 100000"
      "clears (filter (\<lambda>(k, _). k = key) rs) (snd (take_token key now t)) = 0"
      using Cons.prems(2) x by (simp_all split: if_splits)
    note same = take_token_same [OF s(1) t(1) Cons.prems(3-5), of now]
    show ?thesis
      using Cons.IH [OF s(2) _ _] t(2) same Cons.prems(4,5) True by (simp add: x)
  next
    case False
    then show ?thesis
      using Cons.IH [OF s(2), of t] Cons.prems take_token_others [OF s(1) False] by (simp add: x)
  qed
qed

section \<open>Properties\<close>

text \<open>
  C40: The limiter limits. After any requests that a new limiter has answered, take any further
  requests, of any clients and in the order of time: of those, each client is admitted at most the
  capacity plus what the time between the first and the last of them refills, and the capacity once
  more for each time the full map is cleared meanwhile. The map never holds more than 100001 buckets,
  and a clearing needs that many, so 100001 times the clearings are at most the further requests and
  the buckets there were.\<close>

theorem limiter_admits_at_most:
  assumes "0 \<le> capacity" "0 \<le> refill" "rs \<noteq> []" "sorted (map snd (before @ rs))"
  defines "this \<equiv> snd (take_all before (new_RateLimiter capacity refill))"
  shows "of_nat (admitted key rs this) \<le> capacity * (1 + of_nat (clears rs this)) +
      (of_nat (snd (last rs)) - of_nat (snd (hd rs))) / 1000 * refill \<and>
    length (rl_buckets this) \<le> 100001 \<and> length (rl_buckets (snd (take_all rs this))) \<le> 100001 \<and>
    100001 * clears rs this \<le> length rs + length (rl_buckets this)"
proof -
  obtain x rest where rs: "rs = x # rest" using assms(3) by (cases rs) simp_all
  have srt: "sorted (0 # map snd before)" "sorted (snd (hd rs) # map snd rs)"
    using assms(4) rs by (auto simp: sorted_append)
  have le: "last (0 # map snd before) \<le> snd (hd rs)"
    using assms(4) rs by (auto simp: sorted_append last_map)
  have ok: "limiter_ok (snd (hd rs)) this"
    unfolding this_def by (rule limiter_ok_later [OF take_all_ok [OF limiter_ok_new srt(1)] le]) (rule assms)+
  have l: "last (snd (hd rs) # map snd rs) = snd (last rs)" using rs by (simp add: last_map)
  have config: "rl_capacity this = capacity" "rl_refillPerSecond this = refill"
    by (simp_all add: this_def new_RateLimiter_def)
  have "of_nat (admitted key rs this) \<le> capacity * (1 + of_nat (clears rs this)) +
      (of_nat (snd (last rs)) - of_nat (snd (hd rs))) / 1000 * refill"
    using admitted_bound [OF ok srt(2), of key] tokens_at_le [of key "snd (hd rs)" this]
    unfolding l config by (simp add: distrib_left)
  then show ?thesis using ok take_all_ok [OF ok srt(2)] clears_bound [of rs this] by (simp add: limiter_ok_def)
qed

text \<open>Twenty-five requests empty the bucket of a client; ten seconds later it may send five more.\<close>

theorem limiter_admits_at_most_witness:
  "of_nat (admitted ''a'' (replicate 9 (''a'', 17000))
       (snd (take_all (replicate 25 (''a'', 7000)) (new_RateLimiter 20 (1/2))))) \<le>
     20 * (1 + of_nat (clears (replicate 9 (''a'', 17000))
       (snd (take_all (replicate 25 (''a'', 7000)) (new_RateLimiter 20 (1/2)))))) +
     (of_nat (snd (last (replicate 9 (''a'', 17000)))) - of_nat (snd (hd (replicate 9 (''a'', 17000 :: nat))))) / 1000 * (1/2 :: rat)"
proof (rule limiter_admits_at_most [THEN conjunct1])
  show "sorted (map snd (replicate 25 (''a'', 7000) @ replicate 9 (''a'', 17000 :: Date)))"
    by (simp add: sorted_append)
qed simp_all

text \<open>
  A client behind a proxy cannot choose its bucket. With a trusted proxy the key is the address the
  proxy appended, whatever the client put in front of it; without one the header plays no part.\<close>

theorem clientKey_not_spoofable:
  assumes "CHR '','' \<notin> set nearest" "js_trim nearest \<noteq> []"
  shows "clientKey (HeaderText (claimed @ '','' @ nearest)) address True = js_trim nearest \<and>
    clientKey header (Some peer) False = peer"
proof -
  have "js_split (CHR '','') nearest = [nearest]" using assms(1)
    by (induction nearest) auto
  moreover have "js_split (CHR '','') (claimed @ CHR '','' # r) = js_split (CHR '','') claimed @ js_split (CHR '','') r" for r
  proof (induction claimed)
    case (Cons c s)
    have "js_split (CHR '','') s \<noteq> []" by (cases s) (auto split: list.splits)
    with Cons show ?case by (auto split: list.splits)
  qed simp
  ultimately show ?thesis using assms(2) by (simp add: clientKey_def Let_def)
qed

theorem clientKey_not_spoofable_witness:
  "clientKey (HeaderText (''10.0.0.1'' @ '','' @ '' 192.0.2.7'')) None True = ''192.0.2.7''"
proof -
  have "js_trim '' 192.0.2.7'' = ''192.0.2.7''" by code_simp
  moreover have "clientKey (HeaderText (''10.0.0.1'' @ '','' @ '' 192.0.2.7'')) None True = js_trim '' 192.0.2.7''"
    by (rule clientKey_not_spoofable [THEN conjunct1]) (simp, code_simp)
  ultimately show ?thesis by simp
qed

end
