(* ===== verification/Signaling_Server.thy ===== *)
theory Signaling_Server
  imports Room_Registry Code_Registry Rate_Limit
begin

text \<open>
  The signaling server, apps/signaling/src/index.ts: its HTTP endpoints, its sockets and the heartbeat,
  over the room registry, the code registry and the two rate limiters.

  The server is a record of these and of its open sockets, each a number with what its closure keeps
  (\<open>isAlive\<close>, \<open>joined\<close>). A step handles one event: a request (its body is a second event, because it is
  read asynchronously), a message, a pong, a closing socket, a beat of the heartbeat. The clock, random
  draws and what \<open>JSON.parse\<close> makes of a text are arguments of the event. Framing, TLS and the
  listening socket belong to the libraries.
\<close>

section \<open>Requests\<close>

record IncomingMessage =
  im_method :: string
  im_url :: "string option"
  im_forwarded :: forwarded_header
  im_remoteAddress :: "string option"

datatype response_body =
    NoBody
  | HealthBody nat Date
  | RoomBody RoomId string
  | CodeBody IssuedShortCode
  | OfferBody string
  | ErrorBody string

datatype socket_effect = Terminate nat | Ping nat

text \<open>\<open>decodeURIComponent\<close>, \<open>None\<close> when it throws. A character above 255 is shown as \<open>CHR 0x1A\<close>.\<close>

definition hex_digit_value :: "char \<Rightarrow> nat option" where
  "hex_digit_value c =
     (if in_code_range 48 57 c then Some (of_char c - 48)
      else if in_code_range 65 70 c then Some (of_char c - 55)
      else if in_code_range 97 102 c then Some (of_char c - 87) else None)"

definition percent_byte :: "string \<Rightarrow> (nat \<times> string) option" where
  "percent_byte s =
     (case s of
        p # a # b # rest \<Rightarrow>
          (case (hex_digit_value a, hex_digit_value b) of
             (Some x, Some y) \<Rightarrow> if p = CHR ''%'' then Some (16 * x + y, rest) else None
           | _ \<Rightarrow> None)
      | _ \<Rightarrow> None)"

text \<open>The continuation bytes of a sequence, each \<open>%XX\<close> of the form 10xxxxxx.\<close>

fun continuation_bytes :: "nat \<Rightarrow> nat \<Rightarrow> string \<Rightarrow> (nat \<times> string) option" where
  "continuation_bytes 0 acc s = Some (acc, s)"
| "continuation_bytes (Suc n) acc s =
     (case percent_byte s of
        None \<Rightarrow> None
      | Some (b, rest) \<Rightarrow> if b div 64 = 2 then continuation_bytes n (64 * acc + b mod 64) rest else None)"

definition utf8_lead :: "nat \<Rightarrow> (nat \<times> nat) option" where
  "utf8_lead b =
     (if b < 128 then Some (0, b) else if b div 32 = 6 then Some (1, b mod 32)
      else if b div 16 = 14 then Some (2, b mod 16) else if b div 8 = 30 then Some (3, b mod 8) else None)"

definition utf8_shortest :: "nat \<Rightarrow> nat \<Rightarrow> bool" where
  "utf8_shortest n cp \<longleftrightarrow> (if n = 0 then True else if n = 1 then cp \<ge> 128
     else if n = 2 then cp \<ge> 2048 \<and> \<not> (55296 \<le> cp \<and> cp \<le> 57343) else cp \<ge> 65536 \<and> cp \<le> 1114111)"

lemma percent_byte_length: "percent_byte s = Some (b, rest) \<Longrightarrow> length rest < length s"
  by (auto simp: percent_byte_def split: list.splits option.splits if_splits)

lemma continuation_bytes_length: "continuation_bytes n acc s = Some (cp, rest) \<Longrightarrow> length rest \<le> length s"
proof (induction n arbitrary: acc s)
  case (Suc n)
  then obtain b r where r: "percent_byte s = Some (b, r)" "continuation_bytes n (64 * acc + b mod 64) r = Some (cp, rest)"
    by (auto split: option.splits if_splits)
  show ?case using Suc.IH [OF r(2)] percent_byte_length [OF r(1)] by simp
qed simp

function decodeURIComponent :: "string \<Rightarrow> string option" where
  "decodeURIComponent [] = Some []"
| "decodeURIComponent (c # s) =
     (if c \<noteq> CHR ''%'' then map_option (\<lambda>t. c # t) (decodeURIComponent s)
      else case percent_byte (c # s) of
             None \<Rightarrow> None
           | Some (b, rest) \<Rightarrow>
               (case utf8_lead b of
                  None \<Rightarrow> None
                | Some (n, bits) \<Rightarrow>
                    (case continuation_bytes n bits rest of
                       None \<Rightarrow> None
                     | Some (cp, rest') \<Rightarrow>
                         if utf8_shortest n cp
                         then map_option (\<lambda>t. (if cp < 256 then char_of cp else CHR 0x1A) # t) (decodeURIComponent rest')
                         else None)))"
  by pat_completeness auto

termination decodeURIComponent
  by (relation "measure length") (auto dest!: percent_byte_length continuation_bytes_length)

text \<open>
  \<open>readJsonBody\<close>: the chunks are added up until they pass 8192 bytes; \<open>parsed\<close> is what
  \<open>JSON.parse\<close> makes of them together.
\<close>

fun body_fits :: "nat \<Rightarrow> nat list \<Rightarrow> bool" where
  "body_fits sz [] = True"
| "body_fits sz (chunk # chunks) = (if sz + chunk > 8192 then False else body_fits (sz + chunk) chunks)"

definition readJsonBody :: "nat list \<Rightarrow> json option \<Rightarrow> json option" where
  "readJsonBody chunks parsed = (if body_fits 0 chunks then parsed else None)"

definition parseClientMessage :: "json option \<Rightarrow> ClientSignalMessage option" where
  "parseClientMessage raw =
     (case raw of
        None \<Rightarrow> None
      | Some JNull \<Rightarrow> None
      | Some value \<Rightarrow>
          (case (js_property ''type'' value, js_property ''roomId'' value, js_property ''inviteToken'' value,
                 js_property ''peerId'' value, js_property ''targetPeerId'' value) of
             (Some (JStr t), room, token, peer, target) \<Rightarrow>
               (case (t = ''join'', room, token, peer) of
                  (True, Some (JStr r), Some (JStr k), Some (JStr p)) \<Rightarrow> Some (JoinRoom (brand r) k (brand p))
                | _ \<Rightarrow>
                    (case (t = ''signal'', target) of
                       (True, Some (JStr p)) \<Rightarrow> Some (SignalTo (brand p) (js_property ''payload'' value))
                     | _ \<Rightarrow> None))
           | _ \<Rightarrow> None))"

section \<open>The server\<close>

record signal_socket =
  sk_isAlive :: bool
  sk_joined :: "(RoomId \<times> PeerId) option"

record server =
  sv_rooms :: rooms
  sv_codes :: code_entries
  sv_roomLimiter :: RateLimiter
  sv_codeLimiter :: RateLimiter
  sv_sockets :: "(nat \<times> signal_socket) list"

definition startSignalingServer :: server where
  "startSignalingServer =
     \<lparr>sv_rooms = [], sv_codes = [], sv_roomLimiter = new_RateLimiter 20 (1/2), sv_codeLimiter = new_RateLimiter 60 2,
      sv_sockets = []\<rparr>"

text \<open>
  What a request leads to: a response, waiting for the body, or an exception nobody catches in the
  request listener, with which the request stays unanswered.
\<close>

datatype http_outcome = Respond nat response_body | AwaitBody | Unanswered

definition room_error_text :: "room_throw \<Rightarrow> string" where
  "room_error_text e = (case e of RoomFull m \<Rightarrow> m | RoomError x \<Rightarrow> error_message x)"

definition handle_rooms :: "bool \<Rightarrow> IncomingMessage \<Rightarrow> Date \<Rightarrow> RoomId \<Rightarrow> string \<Rightarrow> server \<Rightarrow> http_outcome \<times> server" where
  "handle_rooms trustProxy request now uuid token s =
     (let (ok, limiter) = take_token (clientKey (im_forwarded request) (im_remoteAddress request) trustProxy) now (sv_roomLimiter s);
          s = s\<lparr>sv_roomLimiter := limiter\<rparr>
      in if \<not> ok then (Respond 429 (ErrorBody ''too many requests''), s)
         else let (r, rooms) = createRoom now now uuid token (sv_rooms s)
              in (case r of
                    Inr (roomId, inviteToken) \<Rightarrow> Respond 201 (RoomBody roomId inviteToken)
                  | Inl (RoomFull _) \<Rightarrow> Respond 503 (ErrorBody ''the server is at capacity'')
                  | Inl _ \<Rightarrow> Respond 503 (ErrorBody ''could not create a room''),
                  s\<lparr>sv_rooms := rooms\<rparr>))"

definition take_code_token :: "bool \<Rightarrow> IncomingMessage \<Rightarrow> Date \<Rightarrow> server \<Rightarrow> bool \<times> server" where
  "take_code_token trustProxy request now s =
     (let (ok, limiter) = take_token (clientKey (im_forwarded request) (im_remoteAddress request) trustProxy) now (sv_codeLimiter s)
      in (ok, s\<lparr>sv_codeLimiter := limiter\<rparr>))"

definition CODES_PREFIX :: string where "CODES_PREFIX = ''/pairing-codes/''"

definition handle_redeem :: "bool \<Rightarrow> IncomingMessage \<Rightarrow> Date \<Rightarrow> server \<Rightarrow> http_outcome \<times> server" where
  "handle_redeem trustProxy request now s =
     (let (ok, s) = take_code_token trustProxy request now s
      in if \<not> ok then (Respond 429 (ErrorBody ''too many requests''), s)
         else case decodeURIComponent (drop (length CODES_PREFIX) (case im_url request of None \<Rightarrow> [] | Some u \<Rightarrow> u)) of
                None \<Rightarrow> (Unanswered, s)
              | Some raw \<Rightarrow>
                  (let (offer, codes) = redeem raw now (sv_codes s)
                   in (case offer of
                         None \<Rightarrow> Respond 404 (ErrorBody ''That code is not valid. Ask for a new one.'')
                       | Some x \<Rightarrow> Respond 200 (OfferBody x),
                       s\<lparr>sv_codes := codes\<rparr>)))"

definition handle_request :: "bool \<Rightarrow> IncomingMessage \<Rightarrow> Date \<Rightarrow> RoomId \<Rightarrow> string \<Rightarrow> server \<Rightarrow> http_outcome \<times> server" where
  "handle_request trustProxy request now uuid token s =
     (if im_method request = ''OPTIONS'' then (Respond 204 NoBody, s)
      else if im_method request = ''GET'' \<and> im_url request = Some ''/health''
      then (Respond 200 (HealthBody (length (sv_rooms s)) now), s)
      else if im_method request = ''POST'' \<and> im_url request = Some ''/rooms''
      then handle_rooms trustProxy request now uuid token s
      else if im_method request = ''POST'' \<and> im_url request = Some ''/pairing-codes''
      then (let (ok, s) = take_code_token trustProxy request now s
            in if ok then (AwaitBody, s) else (Respond 429 (ErrorBody ''too many requests''), s))
      else if im_method request = ''GET'' \<and> (case im_url request of None \<Rightarrow> False | Some u \<Rightarrow> take (length CODES_PREFIX) u = CODES_PREFIX)
      then handle_redeem trustProxy request now s
      else (Respond 404 (ErrorBody ''not found''), s))"

text \<open>The body of \<open>POST /pairing-codes\<close> has been read. \<open>None\<close>: the draws given are used up.\<close>

definition handle_body :: "nat list \<Rightarrow> json option \<Rightarrow> nat list list \<Rightarrow> Date \<Rightarrow> server \<Rightarrow> http_outcome option \<times> server" where
  "handle_body chunks parsed draws now s =
     (case (case readJsonBody chunks parsed of None \<Rightarrow> None | Some body \<Rightarrow> js_property ''offer'' body) of
        Some (JStr offer) \<Rightarrow>
          (let (r, codes) = issue offer draws now now (sv_codes s)
           in (case r of
                 None \<Rightarrow> None
               | Some (Inr issued) \<Rightarrow> Some (Respond 201 (CodeBody issued))
               | Some (Inl e) \<Rightarrow> Some (Respond 503 (ErrorBody (error_message e))),
               s\<lparr>sv_codes := codes\<rparr>))
      | _ \<Rightarrow> (Some (Respond 400 (ErrorBody ''expected an offer string'')), s))"

section \<open>Sockets\<close>

definition on_connection :: "nat \<Rightarrow> server \<Rightarrow> server" where
  "on_connection k s = s\<lparr>sv_sockets := AList.update k \<lparr>sk_isAlive = True, sk_joined = None\<rparr> (sv_sockets s)\<rparr>"

definition on_pong :: "nat \<Rightarrow> server \<Rightarrow> server" where
  "on_pong k s =
     (case map_of (sv_sockets s) k of
        None \<Rightarrow> s
      | Some sk \<Rightarrow> s\<lparr>sv_sockets := AList.update k (sk\<lparr>sk_isAlive := True\<rparr>) (sv_sockets s)\<rparr>)"

definition on_socket_message :: "nat \<Rightarrow> json option \<Rightarrow> Date \<Rightarrow> server \<Rightarrow> sent_signals \<times> server" where
  "on_socket_message k raw now s =
     (case map_of (sv_sockets s) k of
        None \<Rightarrow> ([], s)
      | Some sk \<Rightarrow>
          (case parseClientMessage raw of
             None \<Rightarrow> ([(k, SignalError ''invalid signaling message'')], s)
           | Some (JoinRoom roomId inviteToken peerId) \<Rightarrow>
               (let (r, out, rooms) = join_room now roomId inviteToken \<lparr>sp_peerId = peerId, sp_socket = k\<rparr> (sv_rooms s)
                in case r of
                     Inl e \<Rightarrow> (out @ [(k, SignalError (room_error_text e))], s\<lparr>sv_rooms := rooms\<rparr>)
                   | Inr existingPeerIds \<Rightarrow>
                       (out @ [(k, JoinedRoom roomId peerId existingPeerIds)],
                        s\<lparr>sv_rooms := rooms,
                          sv_sockets := AList.update k (sk\<lparr>sk_joined := Some (roomId, peerId)\<rparr>) (sv_sockets s)\<rparr>))
           | Some (SignalTo targetPeerId payload) \<Rightarrow>
               (case sk_joined sk of
                  None \<Rightarrow> ([(k, SignalError ''join a room before signaling'')], s)
                | Some (roomId, peerId) \<Rightarrow>
                    (case relay roomId peerId targetPeerId payload (sv_rooms s) of
                       Inl e \<Rightarrow> ([(k, SignalError (room_error_text e))], s)
                     | Inr sent \<Rightarrow> ([sent], s)))))"

definition on_socket_close :: "nat \<Rightarrow> server \<Rightarrow> sent_signals \<times> server" where
  "on_socket_close k s =
     (case map_of (sv_sockets s) k of
        None \<Rightarrow> ([], s)
      | Some sk \<Rightarrow>
          (let s = s\<lparr>sv_sockets := AList.delete k (sv_sockets s)\<rparr>
           in case sk_joined sk of
                None \<Rightarrow> ([], s)
              | Some (roomId, peerId) \<Rightarrow>
                  (let (out, rooms) = leave_room roomId peerId (sv_rooms s) in (out, s\<lparr>sv_rooms := rooms\<rparr>))))"

text \<open>A beat: sockets that did not answer the last ping are terminated, the others pinged.\<close>

definition heartbeat :: "server \<Rightarrow> socket_effect list \<times> server" where
  "heartbeat s =
     (map (\<lambda>(k, sk). if sk_isAlive sk then Ping k else Terminate k) (sv_sockets s),
      s\<lparr>sv_sockets := map (\<lambda>(k, sk). (k, if sk_isAlive sk then sk\<lparr>sk_isAlive := False\<rparr> else sk)) (sv_sockets s)\<rparr>)"

section \<open>Steps\<close>

datatype server_event =
    HttpRequest IncomingMessage Date RoomId string
  | HttpBody "nat list" "json option" "nat list list" Date
  | Connection nat
  | SocketMessage nat "json option" Date
  | SocketPong nat
  | SocketError nat
  | SocketClose nat
  | Heartbeat

text \<open>A step returns what it writes to sockets.\<close>

fun server_step :: "bool \<Rightarrow> server_event \<Rightarrow> server \<Rightarrow> sent_signals \<times> server" where
  "server_step tp (HttpRequest request now uuid token) s = ([], snd (handle_request tp request now uuid token s))"
| "server_step tp (HttpBody chunks parsed draws now) s = ([], snd (handle_body chunks parsed draws now s))"
| "server_step tp (Connection k) s = ([], on_connection k s)"
| "server_step tp (SocketMessage k raw now) s = on_socket_message k raw now s"
| "server_step tp (SocketPong k) s = ([], on_pong k s)"
| "server_step tp (SocketError k) s = ([], s)"
| "server_step tp (SocketClose k) s = on_socket_close k s"
| "server_step tp Heartbeat s = ([], snd (heartbeat s))"

text \<open>
  \<open>server_run tp es s\<close>: the server is in \<open>s\<close> after the events \<open>es\<close>, newest first. Sockets are numbered
  by the order in which they connect, so a number is never used twice.
\<close>

inductive server_run :: "bool \<Rightarrow> server_event list \<Rightarrow> server \<Rightarrow> bool" for tp where
  server_start: "server_run tp [] startSignalingServer"
| server_next: "server_run tp es s \<Longrightarrow> (\<And>k. e = Connection k \<Longrightarrow> Connection k \<notin> set es) \<Longrightarrow>
    server_run tp (e # es) (snd (server_step tp e s))"

end
