(* ===== verification/Signaling_Safety.thy ===== *)
theory Signaling_Safety
  imports Signaling_Server
begin

text \<open>
  What the signaling server keeps true in every run: who hears about a room, how much it holds, and,
  for clients that keep to the rules, that the rooms mirror the open sockets. The last section shows what
  happens to clients that do not.
\<close>

section \<open>Who is in a room\<close>

text \<open>The socket under which a peer is entered in a room.\<close>

definition member :: "rooms \<Rightarrow> RoomId \<Rightarrow> PeerId \<Rightarrow> nat option" where
  "member rooms rid pid =
     Option.bind (map_of rooms rid) (\<lambda>room. map_option sp_socket (map_of (rm_peers room) pid))"

definition room_token :: "rooms \<Rightarrow> RoomId \<Rightarrow> string option" where
  "room_token rooms rid = map_option rm_inviteToken (map_of rooms rid)"

lemma member_empty [simp]: "member [] rid pid = None"
  by (simp add: member_def)

lemma member_token: "member rooms rid pid = Some k \<Longrightarrow> \<exists>t. room_token rooms rid = Some t"
  by (auto simp: member_def room_token_def Option.bind_eq_Some_conv)

lemma map_of_filter_val:
  "distinct (map fst xs) \<Longrightarrow> map_of (filter (\<lambda>(_, v). P v) xs) k = (case map_of xs k of None \<Rightarrow> None | Some v \<Rightarrow> if P v then Some v else None)"
proof (induction xs)
  case (Cons x xs)
  obtain a v where x: "x = (a, v)" by (cases x)
  have "map_of xs a = None" using Cons.prems x by (simp add: map_of_eq_None_iff)
  then show ?case using Cons x by (auto split: option.splits)
qed simp

lemma member_sweep:
  assumes "rooms_wf rooms"
  shows "member (snd (sweep_rooms now rooms)) rid pid = member rooms rid pid"
    and "room_token (snd (sweep_rooms now rooms)) rid = Some t \<Longrightarrow> room_token rooms rid = Some t"
proof -
  have d: "distinct (map fst rooms)" using assms by (simp add: rooms_wf_def)
  show "member (snd (sweep_rooms now rooms)) rid pid = member rooms rid pid"
    unfolding member_def sweep_rooms_def snd_conv map_of_filter_val [OF d]
    by (auto simp: abandoned_def split: option.splits)
  show "room_token (snd (sweep_rooms now rooms)) rid = Some t \<Longrightarrow> room_token rooms rid = Some t"
    unfolding room_token_def sweep_rooms_def snd_conv map_of_filter_val [OF d]
    by (auto split: option.splits if_splits)
qed

lemma member_create:
  assumes "rooms_wf rooms" "createRoom t now uuid token rooms = (r, rooms')"
  shows "member rooms' rid pid = (if rid = uuid \<and> (\<exists>x. r = Inr x) then None else member rooms rid pid)"
    and "member rooms' rid pid = Some k \<Longrightarrow> room_token rooms' rid = room_token rooms rid"
proof -
  let ?sw = "snd (sweep_rooms t rooms)"
  have cases: "(r = Inl (RoomFull ''too many rooms are open'') \<and> rooms' = ?sw) \<or>
    (r = Inr (uuid, token) \<and> rooms' = AList.update uuid \<lparr>rm_id = uuid, rm_inviteToken = token, rm_peers = [], rm_createdAt = now\<rparr> ?sw)"
    using assms(2) by (auto simp: createRoom_def Let_def split: if_splits)
  then show m: "member rooms' rid pid = (if rid = uuid \<and> (\<exists>x. r = Inr x) then None else member rooms rid pid)"
  proof
    assume "r = Inl (RoomFull ''too many rooms are open'') \<and> rooms' = ?sw"
    then show ?thesis using member_sweep(1) [OF assms(1)] by simp
  next
    assume *: "r = Inr (uuid, token) \<and> rooms' = AList.update uuid \<lparr>rm_id = uuid, rm_inviteToken = token, rm_peers = [], rm_createdAt = now\<rparr> ?sw"
    show ?thesis
    proof (cases "rid = uuid")
      case True
      then show ?thesis using * by (simp add: member_def)
    next
      case False
      then have "member rooms' rid pid = member ?sw rid pid" using * by (simp add: member_def)
      then show ?thesis using False member_sweep(1) [OF assms(1)] by simp
    qed
  qed
  assume k: "member rooms' rid pid = Some k"
  then have old: "member rooms rid pid = Some k" "\<not> (rid = uuid \<and> (\<exists>x. r = Inr x))" using m by (auto split: if_splits)
  have "member ?sw rid pid = Some k" using member_sweep(1) [OF assms(1)] old(1) by simp
  then obtain tok where tok: "room_token ?sw rid = Some tok" using member_token by blast
  then have "room_token rooms rid = Some tok" using member_sweep(2) [OF assms(1)] by blast
  moreover have "room_token rooms' rid = Some tok" using cases old(2) tok by (auto simp: room_token_def)
  ultimately show "room_token rooms' rid = room_token rooms rid" by simp
qed

lemma join_room_cases:
  assumes "join_room now rid token peer rooms = (r, out, rooms')"
  shows "(\<exists>e. r = Inl e \<and> out = [] \<and> (\<forall>i. map_of rooms' i = map_of rooms i)) \<or>
    (\<exists>room. r = Inr (map fst (rm_peers room)) \<and>
      (map_of rooms rid = Some room \<or> map_of rooms rid = None \<and> rm_peers room = []) \<and> rm_inviteToken room = token \<and>
      rooms' = AList.update rid (room\<lparr>rm_peers := AList.update (sp_peerId peer) peer (rm_peers room)\<rparr>) rooms \<and>
      out = map (\<lambda>(_, p). (sp_socket p, PeerJoined (sp_peerId peer)))
        (filter (\<lambda>(_, p). sp_peerId p \<noteq> sp_peerId peer) (AList.update (sp_peerId peer) peer (rm_peers room))))"
proof -
  have entered: "?thesis"
    if room: "map_of rooms rid = Some room \<or> map_of rooms rid = None \<and> rm_peers room = [] \<and> rm_inviteToken room = token"
      and e: "enter_room room token peer = (r, out, room')" "rooms' = AList.update rid room' rooms" for room room'
  proof (cases r)
    case (Inl x)
    with enter_room_refused e(1) have "out = [] \<and> room' = room" by blast
    moreover have "map_of rooms rid = Some room" using room e(1) Inl by (auto simp: enter_room_def Let_def)
    ultimately show ?thesis using Inl e(2) by auto
  next
    case (Inr ids)
    then have "enter_room room token peer = (Inr ids, out, room')" using e(1) by simp
    from enter_room_ok [OF this] show ?thesis using Inr room e(2) by (intro disjI2 exI [of _ room]) auto
  qed
  show ?thesis
  proof (cases "map_of rooms rid")
    case None
    show ?thesis
    proof (cases "length rooms \<ge> MAX_ROOMS")
      case True
      then show ?thesis using assms None by (auto simp: join_room_def)
    next
      case False
      let ?new = "\<lparr>rm_id = rid, rm_inviteToken = token, rm_peers = [], rm_createdAt = now\<rparr>"
      obtain r' out' room' where e: "enter_room ?new token peer = (r', out', room')" by (cases "enter_room ?new token peer")
      then have "r' = r \<and> out' = out \<and> rooms' = AList.update rid room' rooms"
        using assms None False by (simp add: join_room_def)
      then show ?thesis using entered [of ?new room'] e None by simp
    qed
  next
    case (Some room)
    obtain r' out' room' where e: "enter_room room token peer = (r', out', room')" by (cases "enter_room room token peer")
    then have "r' = r \<and> out' = out \<and> rooms' = AList.update rid room' rooms"
      using assms Some by (simp add: join_room_def)
    then show ?thesis using entered [of room room'] e Some by simp
  qed
qed

lemma member_join:
  assumes "join_room now rid token peer rooms = (r, out, rooms')"
  shows "member rooms' i p = (if i = rid \<and> p = sp_peerId peer \<and> (\<exists>ids. r = Inr ids) then Some (sp_socket peer) else member rooms i p)"
    and "member rooms i p = Some k \<Longrightarrow> room_token rooms' i = room_token rooms i"
    and "r = Inr ids \<Longrightarrow> room_token rooms' rid = Some token"
  using join_room_cases [OF assms]
  by (auto simp: member_def room_token_def Option.bind_eq_Some_conv)

lemma member_peer:
  assumes "rooms_wf rooms" "map_of rooms rid = Some room" "(pid, peer) \<in> set (rm_peers room)"
  shows "member rooms rid pid = Some (sp_socket peer)"
proof -
  have "distinct (map fst (rm_peers room))" using rooms_wf_get [OF assms(1,2)] by (simp add: room_wf_def)
  then have "map_of (rm_peers room) pid = Some peer" using assms(3) by simp
  then show ?thesis using assms(2) by (simp add: member_def)
qed

lemma join_room_sends:
  assumes "join_room now rid token peer rooms = (r, out, rooms')" "rooms_wf rooms" "(k, m) \<in> set out"
  shows "\<exists>p. member rooms rid p = Some k \<and> m = PeerJoined (sp_peerId peer)"
proof -
  from join_room_cases [OF assms(1)] assms(3) obtain room p q where
    room: "map_of rooms rid = Some room \<or> rm_peers room = []"
    and q: "(p, q) \<in> set (AList.update (sp_peerId peer) peer (rm_peers room))" "sp_peerId q \<noteq> sp_peerId peer"
    and k: "k = sp_socket q" "m = PeerJoined (sp_peerId peer)"
    by fastforce
  then have "(p, q) \<in> set (rm_peers room)" by (auto dest: alist_update_mem)
  then show ?thesis using member_peer [OF assms(2)] room k by fastforce
qed

lemma member_leave:
  assumes "rooms_wf rooms" "leave_room rid pid rooms = (out, rooms')"
  shows "member rooms' i p = (if i = rid \<and> p = pid then None else member rooms i p)"
    and "member rooms' i p = Some k \<Longrightarrow> room_token rooms' i = room_token rooms i"
    and "(k, m) \<in> set out \<Longrightarrow> \<exists>p. member rooms rid p = Some k \<and> m = PeerLeft pid"
proof -
  have *: "member rooms' i p = (if i = rid \<and> p = pid then None else member rooms i p) \<and>
      (member rooms' i p = Some k \<longrightarrow> room_token rooms' i = room_token rooms i) \<and>
      ((k, m) \<in> set out \<longrightarrow> (\<exists>p. member rooms rid p = Some k \<and> m = PeerLeft pid))"
  proof (cases "map_of rooms rid")
    case None
    then show ?thesis using assms(2) by (auto simp: leave_room_def member_def)
  next
    case (Some room)
    have out: "out = map (\<lambda>(_, p). (sp_socket p, PeerLeft pid)) (AList.delete pid (rm_peers room))"
      and rooms': "rooms' = (if AList.delete pid (rm_peers room) = [] then AList.delete rid rooms
        else AList.update rid (room\<lparr>rm_peers := AList.delete pid (rm_peers room)\<rparr>) rooms)"
      using assms(2) Some by (auto simp: leave_room_def Let_def)
    have "map_of (AList.delete pid (rm_peers room)) p = None" if "AList.delete pid (rm_peers room) = []"
      using that by simp
    then have "p = pid \<or> map_of (rm_peers room) p = None" if "AList.delete pid (rm_peers room) = []"
      using that alist_map_of_delete [of pid "rm_peers room" p] by (auto split: if_splits)
    then have "member rooms' i p = (if i = rid \<and> p = pid then None else member rooms i p)"
      by (auto simp: rooms' member_def Some)
    moreover have "member rooms' i p = Some k \<longrightarrow> room_token rooms' i = room_token rooms i"
      by (auto simp: rooms' member_def room_token_def Some)
    moreover have "(k, m) \<in> set out \<longrightarrow> (\<exists>p. member rooms rid p = Some k \<and> m = PeerLeft pid)"
      using member_peer [OF assms(1) Some] by (auto simp: out AList.delete_eq)
    ultimately show ?thesis by blast
  qed
  show "member rooms' i p = (if i = rid \<and> p = pid then None else member rooms i p)"
    and "member rooms' i p = Some k \<Longrightarrow> room_token rooms' i = room_token rooms i"
    and "(k, m) \<in> set out \<Longrightarrow> \<exists>p. member rooms rid p = Some k \<and> m = PeerLeft pid"
    using * by blast+
qed

lemma relay_sends: "relay rid from pid payload rooms = Inr (k, m) \<Longrightarrow> member rooms rid pid = Some k \<and> m = SignalFrom from payload"
  by (auto simp: relay_def member_def split: option.splits)

section \<open>The invariant of every run\<close>

text \<open>A socket asked to join a room with a token, as a peer.\<close>

definition presented :: "server_event list \<Rightarrow> nat \<Rightarrow> RoomId \<Rightarrow> string \<Rightarrow> PeerId \<Rightarrow> bool" where
  "presented es k rid token pid \<longleftrightarrow>
     (\<exists>raw now. SocketMessage k raw now \<in> set es \<and> parseClientMessage raw = Some (JoinRoom rid token pid))"

definition members_presented :: "server_event list \<Rightarrow> rooms \<Rightarrow> bool" where
  "members_presented es rooms \<longleftrightarrow>
     (\<forall>rid pid k. member rooms rid pid = Some k \<longrightarrow> (\<exists>t. room_token rooms rid = Some t \<and> presented es k rid t pid))"

definition registries_bounded :: "server \<Rightarrow> bool" where
  "registries_bounded s \<longleftrightarrow> rooms_wf (sv_rooms s) \<and>
     distinct (map fst (sv_codes s)) \<and> length (sv_codes s) \<le> MAX_ENTRIES \<and>
     length (rl_buckets (sv_roomLimiter s)) \<le> 100001 \<and> length (rl_buckets (sv_codeLimiter s)) \<le> 100001"

lemma take_token_bounded: "length (rl_buckets (snd (take_token key now l))) \<le> 100001"
  using le_trans [OF forget_all_fields(3) [of l], of 100001] by (simp add: take_token_bucket alist_update_length)

lemma codes_bounded_sweep:
  "distinct (map fst codes) \<Longrightarrow> length codes \<le> n \<Longrightarrow>
   distinct (map fst (sweep_codes now codes)) \<and> length (sweep_codes now codes) \<le> n"
  using sweep_keys by (metis le_trans)

lemma codes_bounded_issue:
  assumes "distinct (map fst codes)" "length codes \<le> MAX_ENTRIES"
  shows "distinct (map fst (snd (issue offer draws t now codes))) \<and> length (snd (issue offer draws t now codes)) \<le> MAX_ENTRIES"
  using issue_cases [OF surjective_pairing, of offer draws t now codes] codes_bounded_sweep [OF assms] assms
  by (auto simp: alist_update_length dest!: fresh_code_new)

lemma codes_bounded_redeem:
  assumes "distinct (map fst codes)" "length codes \<le> MAX_ENTRIES"
  shows "distinct (map fst (snd (redeem raw now codes))) \<and> length (snd (redeem raw now codes)) \<le> MAX_ENTRIES"
  using codes_bounded_sweep [OF assms] by (auto simp: redeem_def Let_def AList.delete_eq distinct_map_filter
      split: option.splits intro: order_trans [OF length_filter_le])


text \<open>What a request and a body leave of the rooms.\<close>

lemma handle_request_state:
  "snd (handle_request tp request now uuid token s) \<in>
     {s, snd (handle_rooms tp request now uuid token s), snd (take_code_token tp request now s), snd (handle_redeem tp request now s)}"
  by (simp add: handle_request_def Let_def split_beta)

lemma handle_rooms_state:
  "\<exists>key rooms. snd (handle_rooms tp request now uuid token s) =
     s\<lparr>sv_roomLimiter := snd (take_token key now (sv_roomLimiter s)), sv_rooms := rooms\<rparr> \<and>
     rooms \<in> {sv_rooms s, snd (createRoom now now uuid token (sv_rooms s))}"
proof -
  let ?key = "clientKey (im_forwarded request) (im_remoteAddress request) tp"
  let ?rooms = "if fst (take_token ?key now (sv_roomLimiter s)) then snd (createRoom now now uuid token (sv_rooms s)) else sv_rooms s"
  show ?thesis
    by (rule exI [of _ ?key], rule exI [of _ ?rooms]) (simp add: handle_rooms_def Let_def split_beta)
qed

lemma handle_redeem_state:
  "\<exists>key codes. snd (handle_redeem tp request now s) =
     s\<lparr>sv_codeLimiter := snd (take_token key now (sv_codeLimiter s)), sv_codes := codes\<rparr> \<and>
     (codes = sv_codes s \<or> (\<exists>raw. codes = snd (redeem raw now (sv_codes s))))"
proof -
  let ?key = "clientKey (im_forwarded request) (im_remoteAddress request) tp"
  let ?s = "s\<lparr>sv_codeLimiter := snd (take_token ?key now (sv_codeLimiter s))\<rparr>"
  have "snd (handle_redeem tp request now s) = ?s \<or>
      (\<exists>raw. snd (handle_redeem tp request now s) = ?s\<lparr>sv_codes := snd (redeem raw now (sv_codes s))\<rparr>)"
    by (auto simp: handle_redeem_def take_code_token_def Let_def split_beta split: option.split)
  then show ?thesis
  proof (elim disjE exE)
    assume "snd (handle_redeem tp request now s) = ?s"
    then show ?thesis by (intro exI [of _ ?key] exI [of _ "sv_codes s"]) simp
  qed blast
qed

lemma take_code_token_state:
  "\<exists>key. snd (take_code_token tp request now s) =
     s\<lparr>sv_codeLimiter := snd (take_token key now (sv_codeLimiter s))\<rparr>"
  by (auto simp: take_code_token_def Let_def split_beta)

lemma handle_request_rooms:
  "sv_rooms (snd (handle_request tp request now uuid token s)) = sv_rooms s \<or>
   sv_rooms (snd (handle_request tp request now uuid token s)) = snd (createRoom now now uuid token (sv_rooms s))"
  using handle_request_state [of tp request now uuid token s] handle_rooms_state [of tp request now uuid token s]
    handle_redeem_state [of tp request now s] take_code_token_state [of tp request now s] by auto

lemma handle_request_sockets: "sv_sockets (snd (handle_request tp request now uuid token s)) = sv_sockets s"
  using handle_request_state [of tp request now uuid token s] handle_rooms_state [of tp request now uuid token s]
    handle_redeem_state [of tp request now s] take_code_token_state [of tp request now s] by auto

lemma handle_request_codes:
  "sv_codes (snd (handle_request tp request now uuid token s)) = sv_codes s \<or>
   (\<exists>raw. sv_codes (snd (handle_request tp request now uuid token s)) = snd (redeem raw now (sv_codes s)))"
  using handle_request_state [of tp request now uuid token s] handle_rooms_state [of tp request now uuid token s]
    handle_redeem_state [of tp request now s] take_code_token_state [of tp request now s] by auto

lemma handle_request_limiters:
  "sv_roomLimiter (snd (handle_request tp request now uuid token s)) \<in>
     {sv_roomLimiter s} \<union> range (\<lambda>key. snd (take_token key now (sv_roomLimiter s)))"
  "sv_codeLimiter (snd (handle_request tp request now uuid token s)) \<in>
     {sv_codeLimiter s} \<union> range (\<lambda>key. snd (take_token key now (sv_codeLimiter s)))"
  using handle_request_state [of tp request now uuid token s] handle_rooms_state [of tp request now uuid token s]
    handle_redeem_state [of tp request now s] take_code_token_state [of tp request now s] by auto

lemma handle_body_fields:
  "sv_rooms (snd (handle_body chunks parsed draws now s)) = sv_rooms s"
  "sv_sockets (snd (handle_body chunks parsed draws now s)) = sv_sockets s"
  "sv_roomLimiter (snd (handle_body chunks parsed draws now s)) = sv_roomLimiter s"
  "sv_codeLimiter (snd (handle_body chunks parsed draws now s)) = sv_codeLimiter s"
  "sv_codes (snd (handle_body chunks parsed draws now s)) = sv_codes s \<or>
   (\<exists>offer. sv_codes (snd (handle_body chunks parsed draws now s)) = snd (issue offer draws now now (sv_codes s)))"
  by (auto simp: handle_body_def Let_def split_beta split: option.splits json.splits)

lemma socket_step_other:
  assumes "\<And>r n u t. e \<noteq> HttpRequest r n u t" "\<And>c p d n. e \<noteq> HttpBody c p d n"
  shows "sv_codes (snd (server_step tp e s)) = sv_codes s \<and> sv_roomLimiter (snd (server_step tp e s)) = sv_roomLimiter s \<and>
    sv_codeLimiter (snd (server_step tp e s)) = sv_codeLimiter s"
proof (cases e)
  case (HttpRequest r n u t)
  then show ?thesis using assms by auto
next
  case (HttpBody c p d n)
  then show ?thesis using assms by auto
qed (simp_all add: on_connection_def on_pong_def on_socket_message_def on_socket_close_def heartbeat_def
    Let_def split_beta split: option.split ClientSignalMessage.split sum.split)

text \<open>The room that an event of a socket concerns, and the peer that acts in it.\<close>

definition acts_as :: "server \<Rightarrow> server_event \<Rightarrow> (RoomId \<times> PeerId) option" where
  "acts_as s e =
     (case e of
        SocketMessage k raw now \<Rightarrow>
          (case parseClientMessage raw of
             None \<Rightarrow> None
           | Some (JoinRoom rid token pid) \<Rightarrow> Some (rid, pid)
           | Some (SignalTo target payload) \<Rightarrow> Option.bind (map_of (sv_sockets s) k) sk_joined)
      | SocketClose k \<Rightarrow> Option.bind (map_of (sv_sockets s) k) sk_joined
      | _ \<Rightarrow> None)"

text \<open>A step either keeps the rooms or runs one operation of the registry on them.\<close>

lemma server_step_rooms:
  obtains "sv_rooms (snd (server_step tp e s)) = sv_rooms s" "\<And>k m. (k, m) \<in> set (fst (server_step tp e s)) \<Longrightarrow>
      (\<exists>text raw now. m = SignalError text \<and> e = SocketMessage k raw now) \<or>
      (\<exists>rid pid from payload. acts_as s e = Some (rid, from) \<and> member (sv_rooms s) rid pid = Some k \<and> m = SignalFrom from payload)"
  | now uuid token request r where "e = HttpRequest request now uuid token"
      "createRoom now now uuid token (sv_rooms s) = (r, sv_rooms (snd (server_step tp e s)))" "fst (server_step tp e s) = []"
  | k raw now rid token pid r out where "e = SocketMessage k raw now" "parseClientMessage raw = Some (JoinRoom rid token pid)"
      "join_room now rid token \<lparr>sp_peerId = pid, sp_socket = k\<rparr> (sv_rooms s) = (r, out, sv_rooms (snd (server_step tp e s)))"
      "fst (server_step tp e s) = out @ [(k, case r of Inl x \<Rightarrow> SignalError (room_error_text x) | Inr ids \<Rightarrow> JoinedRoom rid pid ids)]"
  | k rid pid where "e = SocketClose k" "\<exists>sk. map_of (sv_sockets s) k = Some sk \<and> sk_joined sk = Some (rid, pid)"
      "leave_room rid pid (sv_rooms s) = (fst (server_step tp e s), sv_rooms (snd (server_step tp e s)))"
proof (cases e)
  case (HttpRequest request now uuid token)
  show thesis
  proof (cases "sv_rooms (snd (server_step tp e s)) = sv_rooms s")
    case True
    then show thesis using that(1) HttpRequest by simp
  next
    case False
    then have "sv_rooms (snd (server_step tp e s)) = snd (createRoom now now uuid token (sv_rooms s))"
      using handle_request_rooms [of tp request now uuid token s] HttpRequest by simp
    then have "createRoom now now uuid token (sv_rooms s) =
        (fst (createRoom now now uuid token (sv_rooms s)), sv_rooms (snd (server_step tp e s)))" by simp
    then show thesis using that(2) [OF HttpRequest] HttpRequest by simp
  qed
next
  case (SocketMessage k raw now)
  show thesis
  proof (cases "map_of (sv_sockets s) k")
    case None
    then show thesis using that(1) SocketMessage by (simp add: on_socket_message_def)
  next
    case (Some sk)
    consider "parseClientMessage raw = None" | rid token pid where "parseClientMessage raw = Some (JoinRoom rid token pid)"
      | pid payload where "parseClientMessage raw = Some (SignalTo pid payload)"
      by (cases "parseClientMessage raw") (auto, metis ClientSignalMessage.exhaust)
    then show thesis
    proof cases
      case 1
      then show thesis using that(1) SocketMessage Some by (simp add: on_socket_message_def)
    next
      case 2
      obtain r out rooms where j: "join_room now rid token \<lparr>sp_peerId = pid, sp_socket = k\<rparr> (sv_rooms s) = (r, out, rooms)"
        by (cases "join_room now rid token \<lparr>sp_peerId = pid, sp_socket = k\<rparr> (sv_rooms s)")
      show thesis
        by (rule that(3) [OF SocketMessage 2, of r out]) (use SocketMessage Some 2 j in \<open>auto simp: on_socket_message_def split: sum.splits\<close>)
    next
      case 3
      show thesis
        by (rule that(1))
          (use SocketMessage Some 3 in \<open>auto simp: on_socket_message_def acts_as_def split: option.splits sum.splits dest!: relay_sends\<close>)
    qed
  qed
next
  case (SocketClose k)
  show thesis
  proof (cases "\<exists>sk rid pid. map_of (sv_sockets s) k = Some sk \<and> sk_joined sk = Some (rid, pid)")
    case True
    then obtain sk rid pid where sk: "map_of (sv_sockets s) k = Some sk" "sk_joined sk = Some (rid, pid)" by blast
    show thesis
      by (rule that(4) [OF SocketClose, of rid pid]) (use SocketClose sk in \<open>auto simp: on_socket_close_def Let_def split_beta\<close>)
  next
    case False
    show thesis
      by (rule that(1)) (use SocketClose False in \<open>auto simp: on_socket_close_def Let_def split: option.splits\<close>)
  qed
qed (use that(1) in \<open>auto simp: handle_body_fields on_connection_def on_pong_def heartbeat_def split: option.splits\<close>)


lemma registries_bounded_start: "registries_bounded startSignalingServer"
  by (simp add: registries_bounded_def startSignalingServer_def new_RateLimiter_def rooms_wf_empty)

lemma rooms_wf_step: "rooms_wf (sv_rooms s) \<Longrightarrow> rooms_wf (sv_rooms (snd (server_step tp e s)))"
proof (cases rule: server_step_rooms [of tp e s])
  case (2 now uuid token request r)
  then show "rooms_wf (sv_rooms s) \<Longrightarrow> ?thesis" using rooms_wf_create [of "sv_rooms s" now now uuid token] by simp
next
  case (3 k raw now rid token pid r out)
  then show "rooms_wf (sv_rooms s) \<Longrightarrow> ?thesis" using rooms_wf_join by blast
next
  case (4 k rid pid)
  then show "rooms_wf (sv_rooms s) \<Longrightarrow> ?thesis" using rooms_wf_leave [of "sv_rooms s" rid pid] by simp
qed simp

lemma registries_bounded_step:
  assumes "registries_bounded s"
  shows "registries_bounded (snd (server_step tp e s))"
proof -
  have wf: "rooms_wf (sv_rooms (snd (server_step tp e s)))"
    using assms rooms_wf_step by (simp add: registries_bounded_def)
  note b = assms [unfolded registries_bounded_def]
  show ?thesis
  proof (cases e)
    case (HttpRequest r n u t)
    note codes = handle_request_codes [of tp r n u t s] and limiters = handle_request_limiters [of tp r n u t s]
    have "distinct (map fst (sv_codes (snd (server_step tp e s)))) \<and> length (sv_codes (snd (server_step tp e s))) \<le> MAX_ENTRIES"
      using b codes codes_bounded_redeem [of "sv_codes s"] HttpRequest by auto
    moreover have "length (rl_buckets (sv_roomLimiter (snd (server_step tp e s)))) \<le> 100001"
      using b limiters(1) take_token_bounded HttpRequest by auto
    moreover have "length (rl_buckets (sv_codeLimiter (snd (server_step tp e s)))) \<le> 100001"
      using b limiters(2) take_token_bounded HttpRequest by auto
    ultimately show ?thesis using wf by (simp add: registries_bounded_def)
  next
    case (HttpBody c p d n)
    then show ?thesis
      using b handle_body_fields [of c p d n s] codes_bounded_issue [of "sv_codes s"] by (auto simp: registries_bounded_def)
  qed (use b wf socket_step_other [of e tp s] in \<open>simp_all add: registries_bounded_def\<close>)
qed

lemma server_run_bounded: "server_run tp es s \<Longrightarrow> registries_bounded s"
  by (induction rule: server_run.induct) (simp_all add: registries_bounded_start registries_bounded_step)

lemma presented_Cons: "presented es k rid t pid \<Longrightarrow> presented (e # es) k rid t pid"
  by (auto simp: presented_def)

lemma members_presented_mono:
  assumes "members_presented es rooms"
    and "\<And>rid pid k. member rooms' rid pid = Some k \<Longrightarrow> member rooms rid pid = Some k \<and> room_token rooms' rid = room_token rooms rid"
  shows "members_presented (e # es) rooms'"
  using assms presented_Cons unfolding members_presented_def by metis

lemma members_presented_step:
  assumes "rooms_wf (sv_rooms s)" "members_presented es (sv_rooms s)"
  shows "members_presented (e # es) (sv_rooms (snd (server_step tp e s)))"
proof (cases rule: server_step_rooms [of tp e s])
  case 1
  then show ?thesis using members_presented_mono [OF assms(2)] by simp
next
  case (2 now uuid token request r)
  show ?thesis
    by (rule members_presented_mono [OF assms(2)])
      (use member_create [OF assms(1) 2(2)] in \<open>auto split: if_splits\<close>)
next
  case (3 k raw now rid token pid r out)
  note j = member_join [OF 3(3)]
  show ?thesis unfolding members_presented_def
  proof (intro allI impI)
    fix i p n
    assume m: "member (sv_rooms (snd (server_step tp e s))) i p = Some n"
    show "\<exists>t. room_token (sv_rooms (snd (server_step tp e s))) i = Some t \<and> presented (e # es) n i t p"
    proof (cases "i = rid \<and> p = pid \<and> (\<exists>ids. r = Inr ids)")
      case True
      then show ?thesis using m j(1) j(3) 3(1,2) by (auto simp: presented_def)
    next
      case False
      then have old: "member (sv_rooms s) i p = Some n" using m j(1) by (auto split: if_splits)
      then obtain t where "room_token (sv_rooms s) i = Some t" "presented es n i t p"
        using assms(2) unfolding members_presented_def by blast
      then show ?thesis using j(2) [OF old] presented_Cons by auto
    qed
  qed
next
  case (4 k rid pid)
  show ?thesis
    by (rule members_presented_mono [OF assms(2)])
      (use member_leave [OF assms(1) 4(3)] in \<open>auto split: if_splits\<close>)
qed

lemma server_run_presented: "server_run tp es s \<Longrightarrow> members_presented es (sv_rooms s)"
proof (induction rule: server_run.induct)
  case server_start
  then show ?case by (simp add: members_presented_def startSignalingServer_def)
next
  case (server_next es s e)
  then show ?case using members_presented_step server_run_bounded by (simp add: registries_bounded_def)
qed

section \<open>Properties of every run\<close>

text \<open>
  C16: Only who shows the invite token hears about a room. In every run, whatever happens next: a socket
  that is told that a peer joined or left, or is handed a signal of a peer, is in the very room that
  peer is acting in, and has itself presented that room's present token to get there, and the peer named
  is the one acting; a socket is told who is in a room only when it has just presented that room's token;
  and an error goes to the socket whose message caused it.\<close>

theorem only_token_holders_hear:
  assumes "server_run tp es s" and "(k, m) \<in> set (fst (server_step tp e s))"
  defines "hears \<equiv> \<lambda>pid. \<exists>rid own t. acts_as s e = Some (rid, pid) \<and> member (sv_rooms s) rid own = Some k \<and>
      room_token (sv_rooms s) rid = Some t \<and> presented es k rid t own"
  shows "case m of
      SignalError text \<Rightarrow> \<exists>raw now. e = SocketMessage k raw now
    | JoinedRoom rid pid ids \<Rightarrow> acts_as s e = Some (rid, pid) \<and>
        (\<exists>t. room_token (sv_rooms (snd (server_step tp e s))) rid = Some t \<and> presented (e # es) k rid t pid)
    | PeerJoined pid \<Rightarrow> hears pid
    | PeerLeft pid \<Rightarrow> hears pid
    | SignalFrom pid payload \<Rightarrow> hears pid"
proof -
  have wf: "rooms_wf (sv_rooms s)" using server_run_bounded [OF assms(1)] by (simp add: registries_bounded_def)
  have shown: "hears pid" if "acts_as s e = Some (rid, pid)" "member (sv_rooms s) rid own = Some k" for rid own pid
    using server_run_presented [OF assms(1)] that unfolding members_presented_def hears_def by blast
  show ?thesis
  proof (cases rule: server_step_rooms [of tp e s])
    case 1
    from 1(2) [OF assms(2)] show ?thesis using shown by auto
  next
    case 2
    then show ?thesis using assms(2) by simp
  next
    case (3 k' raw now rid token pid r out)
    have acts: "acts_as s e = Some (rid, pid)" using 3(1,2) by (simp add: acts_as_def)
    consider "(k, m) \<in> set out" | x where "r = Inl x" "k = k'" "m = SignalError (room_error_text x)"
      | ids where "r = Inr ids" "k = k'" "m = JoinedRoom rid pid ids"
      using assms(2) unfolding 3(4) by (cases r) auto
    then show ?thesis
    proof cases
      case 1
      then obtain p where "member (sv_rooms s) rid p = Some k" "m = PeerJoined pid"
        using join_room_sends [OF 3(3) wf] by fastforce
      then show ?thesis using shown [OF acts] by simp
    next
      case 2
      then show ?thesis using \<open>e = _\<close> by simp
    next
      case (3 ids)
      then show ?thesis using member_join(3) [OF \<open>join_room _ _ _ _ _ = _\<close>] \<open>e = _\<close> \<open>parseClientMessage raw = _\<close> acts
        by (auto simp: presented_def)
    qed
  next
    case (4 k' rid pid)
    then have "acts_as s e = Some (rid, pid)" by (auto simp: acts_as_def)
    then show ?thesis using member_leave(3) [OF wf 4(3)] assms(2) shown by fastforce
  qed
qed


definition join_text :: "RoomId \<Rightarrow> string \<Rightarrow> PeerId \<Rightarrow> json option" where
  "join_text rid token pid = Some (JObj [(''type'', JStr ''join''), (''roomId'', JStr rid),
     (''inviteToken'', JStr token), (''peerId'', JStr pid)])"

definition signal_text :: "PeerId \<Rightarrow> json option" where
  "signal_text pid = Some (JObj [(''type'', JStr ''signal''), (''targetPeerId'', JStr pid), (''payload'', JInt 7)])"

lemma parse_texts:
  "parseClientMessage (join_text rid token pid) = Some (JoinRoom rid token pid)"
  "parseClientMessage (signal_text pid) = Some (SignalTo pid (Some (JInt 7)))"
  by (simp_all add: parseClientMessage_def join_text_def signal_text_def brand_def)

text \<open>Running a list of events, oldest first.\<close>

definition server_steps :: "server_event list \<Rightarrow> server" where
  "server_steps es = fold (\<lambda>e s. snd (server_step False e s)) es startSignalingServer"

lemma server_steps_run:
  assumes "distinct [k. Connection k \<leftarrow> es]"
  shows "server_run False (rev es) (server_steps es)"
  using assms
proof (induction es rule: rev_induct)
  case Nil
  then show ?case by (simp add: server_steps_def server_start)
next
  case (snoc e es)
  have run: "server_run False (rev es) (server_steps es)" using snoc by simp
  have "Connection k \<notin> set (rev es)" if "e = Connection k" for k
  proof
    assume "Connection k \<in> set (rev es)"
    then have "k \<in> set [k. Connection k \<leftarrow> es]" by (induction es) auto
    then show False using snoc.prems that by simp
  qed
  from server_next [OF run this] show ?case by (simp add: server_steps_def)
qed

definition sample_meeting :: "server_event list" where
  "sample_meeting = [Connection 1, Connection 2, SocketMessage 1 (join_text ''room'' ''token'' ''a'') 0,
     SocketMessage 2 (join_text ''room'' ''token'' ''b'') 0]"

theorem only_token_holders_hear_witness:
  "\<exists>own t. member (sv_rooms (server_steps sample_meeting)) ''room'' own = Some 2 \<and>
     room_token (sv_rooms (server_steps sample_meeting)) ''room'' = Some t \<and> presented (rev sample_meeting) 2 ''room'' t own"
proof -
  let ?e = "SocketMessage 1 (signal_text ''b'') 0"
  note eval = server_steps_def sample_meeting_def startSignalingServer_def on_connection_def on_socket_message_def
    parse_texts join_room_def enter_room_def assert_contract_def MAX_ROOMS_def relay_def Let_def
  have run: "server_run False (rev sample_meeting) (server_steps sample_meeting)"
    by (rule server_steps_run) (simp add: sample_meeting_def)
  have sent: "(2, SignalFrom ''a'' (Some (JInt 7))) \<in> set (fst (server_step False ?e (server_steps sample_meeting)))"
    by (simp add: eval)
  have "acts_as (server_steps sample_meeting) ?e = Some (''room'', ''a'')"
    by (simp add: acts_as_def eval)
  then show ?thesis using only_token_holders_hear [OF run sent] by auto
qed

text \<open>
  What the server holds is bounded. In every run there are at most 50000 rooms, 10000 outstanding
  pairing codes and 100001 buckets in each rate limiter.\<close>

theorem server_bounded:
  assumes "server_run tp es s"
  shows "length (sv_rooms s) \<le> 50000 \<and> length (sv_codes s) \<le> 10000 \<and>
    length (rl_buckets (sv_roomLimiter s)) \<le> 100001 \<and> length (rl_buckets (sv_codeLimiter s)) \<le> 100001"
  using server_run_bounded [OF assms]
  by (simp add: registries_bounded_def rooms_wf_def MAX_ROOMS_def MAX_ENTRIES_def)

theorem server_bounded_witness: "length (sv_rooms (server_steps sample_meeting)) \<le> 50000"
  using server_bounded [OF server_steps_run [of sample_meeting]] by (simp add: sample_meeting_def)


section \<open>Clients that keep to the rules\<close>

text \<open>
  A client keeps to the rules when it joins at most once per socket, under a peer id that no open socket
  uses in that room. That a fresh room id is not in use and that a new socket is new is up to
  \<open>randomUUID\<close> and the library.
\<close>

definition joined_as :: "server \<Rightarrow> nat \<Rightarrow> RoomId \<Rightarrow> PeerId \<Rightarrow> bool" where
  "joined_as s k rid pid \<longleftrightarrow> (\<exists>sk. map_of (sv_sockets s) k = Some sk \<and> sk_joined sk = Some (rid, pid))"

fun polite :: "server \<Rightarrow> server_event \<Rightarrow> bool" where
  "polite s (HttpRequest request now uuid token) = (uuid \<notin> fst ` set (sv_rooms s))"
| "polite s (Connection k) = (k \<notin> fst ` set (sv_sockets s))"
| "polite s (SocketMessage k raw now) =
     (case parseClientMessage raw of
        Some (JoinRoom rid token pid) \<Rightarrow>
          (\<forall>(k', sk) \<in> set (sv_sockets s). (k' = k \<longrightarrow> sk_joined sk = None) \<and> sk_joined sk \<noteq> Some (rid, pid))
      | _ \<Rightarrow> True)"
| "polite s _ = True"

inductive polite_run :: "bool \<Rightarrow> server \<Rightarrow> bool" for tp where
  polite_start: "polite_run tp startSignalingServer"
| polite_next: "polite_run tp s \<Longrightarrow> polite s e \<Longrightarrow> polite_run tp (snd (server_step tp e s))"

definition mirrors :: "server \<Rightarrow> bool" where
  "mirrors s \<longleftrightarrow> rooms_wf (sv_rooms s) \<and> (\<forall>rid pid k. member (sv_rooms s) rid pid = Some k \<longleftrightarrow> joined_as s k rid pid)"

lemma mirrors_cong:
  "mirrors s \<Longrightarrow> rooms_wf (sv_rooms t) \<Longrightarrow> (\<And>rid pid. member (sv_rooms t) rid pid = member (sv_rooms s) rid pid) \<Longrightarrow>
   (\<And>k rid pid. joined_as t k rid pid = joined_as s k rid pid) \<Longrightarrow> mirrors t"
  by (simp add: mirrors_def)

lemma member_create_fresh:
  assumes "rooms_wf rooms" "createRoom t now uuid token rooms = (r, rooms')" "uuid \<notin> fst ` set rooms"
  shows "member rooms' rid pid = member rooms rid pid"
proof -
  have "map_of rooms uuid = None" using assms(3) by (simp add: map_of_eq_None_iff)
  then have "member rooms uuid pid = None" by (simp add: member_def)
  then show ?thesis using member_create(1) [OF assms(1,2)] by auto
qed

lemma joined_as_message:
  assumes "map_of (sv_sockets s) k = Some sk"
  shows "joined_as (snd (on_socket_message k raw now s)) n i p =
    (case parseClientMessage raw of
       Some (JoinRoom rid token pid) \<Rightarrow>
         (case join_room now rid token \<lparr>sp_peerId = pid, sp_socket = k\<rparr> (sv_rooms s) of
            (Inr ids, _) \<Rightarrow> if n = k then (i, p) = (rid, pid) else joined_as s n i p
          | _ \<Rightarrow> joined_as s n i p)
     | _ \<Rightarrow> joined_as s n i p)"
  using assms
  by (auto simp: on_socket_message_def joined_as_def split: option.split ClientSignalMessage.split sum.split prod.split)

lemma mirrors_message:
  assumes "mirrors s" "polite s (SocketMessage k raw now)"
  shows "mirrors (snd (on_socket_message k raw now s))"
proof (cases "map_of (sv_sockets s) k")
  case None
  then show ?thesis using assms(1) by (simp add: on_socket_message_def)
next
  case (Some sk)
  note joined = joined_as_message [OF Some, of raw now]
  have wf: "rooms_wf (sv_rooms (snd (on_socket_message k raw now s)))"
    using rooms_wf_step [of s False "SocketMessage k raw now"] assms(1) by (simp add: mirrors_def)
  show ?thesis
  proof (cases "parseClientMessage raw")
    case None
    then show ?thesis using assms(1) Some by (simp add: on_socket_message_def)
  next
    case (Some m)
    show ?thesis
    proof (cases m)
      case (SignalTo target payload)
      then show ?thesis using assms(1) Some \<open>map_of _ k = Some sk\<close>
        by (simp add: on_socket_message_def split: option.split sum.split)
    next
      case (JoinRoom rid token pid)
      obtain r out rooms where j: "join_room now rid token \<lparr>sp_peerId = pid, sp_socket = k\<rparr> (sv_rooms s) = (r, out, rooms)"
        by (cases "join_room now rid token \<lparr>sp_peerId = pid, sp_socket = k\<rparr> (sv_rooms s)")
      then have rooms: "sv_rooms (snd (on_socket_message k raw now s)) = rooms"
        using Some JoinRoom \<open>map_of _ k = Some sk\<close> by (simp add: on_socket_message_def split: sum.split)
      have free: "\<not> joined_as s k i p" "\<not> joined_as s n rid pid" for i p n
        using assms(2) Some JoinRoom by (auto simp: joined_as_def dest!: map_of_SomeD)
      show ?thesis
      proof (cases r)
        case (Inl e)
        then show ?thesis
          by (intro mirrors_cong [OF assms(1) wf]) (simp_all add: rooms member_join(1) [OF j] joined Some JoinRoom j)
      next
        case (Inr ids)
        have "member rooms i p = Some n \<longleftrightarrow> joined_as (snd (on_socket_message k raw now s)) n i p" for i p n
          using assms(1) free by (auto simp: member_join(1) [OF j] joined Some JoinRoom j Inr mirrors_def)
        then show ?thesis using wf by (simp add: mirrors_def rooms)
      qed
    qed
  qed
qed

lemma mirrors_unique: "mirrors s \<Longrightarrow> joined_as s n rid pid \<Longrightarrow> joined_as s k rid pid \<Longrightarrow> n = k"
  unfolding mirrors_def by (metis option.inject)

lemma mirrors_close:
  assumes "mirrors s"
  shows "mirrors (snd (on_socket_close k s))"
proof (cases "map_of (sv_sockets s) k")
  case None
  then show ?thesis using assms by (simp add: on_socket_close_def)
next
  case (Some sk)
  have wf: "rooms_wf (sv_rooms (snd (on_socket_close k s)))"
    using rooms_wf_step [of s False "SocketClose k"] assms by (simp add: mirrors_def)
  have joined: "joined_as (snd (on_socket_close k s)) n i p \<longleftrightarrow> n \<noteq> k \<and> joined_as s n i p" for n i p
    using Some by (auto simp: on_socket_close_def joined_as_def Let_def split_beta split: option.split)
  have own: "joined_as s k i p \<longleftrightarrow> sk_joined sk = Some (i, p)" for i p using Some by (simp add: joined_as_def)
  have "member (sv_rooms (snd (on_socket_close k s))) i p = Some n \<longleftrightarrow> n \<noteq> k \<and> member (sv_rooms s) i p = Some n" for i p n
  proof (cases "sk_joined sk")
    case None
    then show ?thesis using Some own assms by (auto simp: on_socket_close_def Let_def mirrors_def)
  next
    case (Some rp)
    obtain rid pid where rp: "rp = (rid, pid)" by (cases rp)
    obtain out rooms where l: "leave_room rid pid (sv_rooms s) = (out, rooms)" by (cases "leave_room rid pid (sv_rooms s)")
    have "sv_rooms (snd (on_socket_close k s)) = rooms"
      using Some rp l \<open>map_of _ k = Some sk\<close> by (simp add: on_socket_close_def Let_def)
    moreover have "n = k" if "joined_as s n rid pid" for n
      using mirrors_unique [OF assms that, of k] own Some rp by simp
    ultimately show ?thesis
      using member_leave(1) [OF _ l] assms own Some rp by (auto simp: mirrors_def)
  qed
  then show ?thesis using assms wf joined by (simp add: mirrors_def)
qed

lemma mirrors_step:
  assumes "mirrors s" "polite s e"
  shows "mirrors (snd (server_step tp e s))"
proof (cases e)
  case (HttpRequest request now uuid token)
  have wf: "rooms_wf (sv_rooms (snd (server_step tp e s)))" using rooms_wf_step assms(1) by (simp add: mirrors_def)
  have "member (sv_rooms (snd (server_step tp e s))) rid pid = member (sv_rooms s) rid pid" for rid pid
    using handle_request_rooms [of tp request now uuid token s] HttpRequest assms
      member_create_fresh [OF _ surjective_pairing, of "sv_rooms s" uuid now now token] by (auto simp: mirrors_def)
  then show ?thesis
    using HttpRequest by (intro mirrors_cong [OF assms(1) wf]) (simp_all add: joined_as_def handle_request_sockets)
next
  case (HttpBody chunks parsed draws now)
  then show ?thesis
    using assms(1) handle_body_fields [of chunks parsed draws now s] by (simp add: mirrors_def joined_as_def)
next
  case (Connection k)
  have "map_of (sv_sockets s) k = None" using assms(2) Connection by (simp add: map_of_eq_None_iff)
  then show ?thesis using assms(1) Connection by (simp add: mirrors_def joined_as_def on_connection_def)
next
  case (SocketMessage k raw now)
  then show ?thesis using mirrors_message [OF assms(1)] assms(2) by simp
next
  case (SocketPong k)
  then show ?thesis using assms(1) by (auto simp: mirrors_def joined_as_def on_pong_def split: option.split)
next
  case (SocketError k)
  then show ?thesis using assms(1) by simp
next
  case (SocketClose k)
  then show ?thesis using mirrors_close [OF assms(1)] by simp
next
  case Heartbeat
  let ?f = "\<lambda>sk. if sk_isAlive sk then sk\<lparr>sk_isAlive := False\<rparr> else sk"
  have "joined_as (snd (server_step tp e s)) k rid pid = joined_as s k rid pid" for k rid pid
    unfolding Heartbeat joined_as_def server_step.simps heartbeat_def
    by (cases "map_of (sv_sockets s) k") (simp_all add: map_of_map [of ?f, unfolded comp_def])
  then show ?thesis using assms(1) Heartbeat by (simp add: mirrors_def heartbeat_def)
qed

lemma polite_run_mirrors: "polite_run tp s \<Longrightarrow> mirrors s"
  by (induction rule: polite_run.induct)
    (simp_all add: mirrors_step, simp add: mirrors_def startSignalingServer_def rooms_wf_empty joined_as_def)

text \<open>
  With clients that keep to the rules the rooms mirror the open sockets: a peer is in a room exactly
  while the socket that joined as that peer is open. So no peer is lost from its room and none lingers,
  and when every socket has closed, twenty minutes later a sweep leaves no room.\<close>

theorem rooms_mirror_sockets:
  assumes "polite_run tp s"
  shows "(member (sv_rooms s) rid pid = Some k \<longleftrightarrow> joined_as s k rid pid) \<and>
    (sv_sockets s = [] \<and> (\<forall>(i, room) \<in> set (sv_rooms s). rm_createdAt room + EMPTY_ROOM_TTL_MS \<le> now) \<longrightarrow>
      snd (sweep_rooms now (sv_rooms s)) = [])"
proof (intro conjI impI)
  note m = polite_run_mirrors [OF assms]
  then show "member (sv_rooms s) rid pid = Some k \<longleftrightarrow> joined_as s k rid pid" by (simp add: mirrors_def)
  assume *: "sv_sockets s = [] \<and> (\<forall>(i, room) \<in> set (sv_rooms s). rm_createdAt room + EMPTY_ROOM_TTL_MS \<le> now)"
  have "abandoned now room" if r: "(i, room) \<in> set (sv_rooms s)" for i room
  proof -
    have "distinct (map fst (sv_rooms s))" using m by (simp add: mirrors_def rooms_wf_def)
    then have get: "map_of (sv_rooms s) i = Some room" using r by simp
    have "rm_peers room = []"
    proof (rule ccontr)
      assume "rm_peers room \<noteq> []"
      then obtain p q where "(p, q) \<in> set (rm_peers room)" by (cases "rm_peers room") auto
      then have "joined_as s (sp_socket q) i p" using member_peer [OF _ get] m by (simp add: mirrors_def)
      then show False using * by (simp add: joined_as_def)
    qed
    then show ?thesis using * r by (auto simp: abandoned_def)
  qed
  then show "snd (sweep_rooms now (sv_rooms s)) = []" by (auto simp: sweep_rooms_def filter_empty_conv)
qed


fun polite_all :: "server_event list \<Rightarrow> server \<Rightarrow> bool" where
  "polite_all [] s = True"
| "polite_all (e # es) s = (polite s e \<and> polite_all es (snd (server_step False e s)))"

lemma polite_all_run: "polite_run False s \<Longrightarrow> polite_all es s \<Longrightarrow> polite_run False (fold (\<lambda>e s. snd (server_step False e s)) es s)"
  by (induction es arbitrary: s) (simp_all add: polite_next)

lemmas server_eval = server_steps_def startSignalingServer_def on_connection_def on_socket_message_def parse_texts
  join_room_def enter_room_def MAX_ROOMS_def on_socket_close_def leave_room_def member_def

theorem rooms_mirror_sockets_witness:
  "member (sv_rooms (server_steps sample_meeting)) ''room'' ''b'' = Some 2"
proof -
  have "polite_all sample_meeting startSignalingServer"
    by (simp add: sample_meeting_def server_eval)
  from polite_all_run [OF polite_start this] have "polite_run False (server_steps sample_meeting)"
    by (simp add: server_steps_def)
  moreover have "joined_as (server_steps sample_meeting) 2 ''room'' ''b''"
    by (simp add: sample_meeting_def server_eval joined_as_def)
  ultimately show ?thesis using rooms_mirror_sockets by blast
qed

section \<open>Clients that do not\<close>

text \<open>
  A device that reconnects joins again under the same peer id before the server has noticed that its
  old socket is dead. When the old socket closes at last, the close removes the new entry: the device
  is still connected and believes that it is in the room, and nobody reaches it any more.\<close>

lemma stale_close_evicts_reconnected_peer:
  "let s = server_steps [Connection 1, SocketMessage 1 (join_text ''room'' ''token'' ''a'') 0,
        Connection 2, SocketMessage 2 (join_text ''room'' ''token'' ''a'') 0, SocketClose 1]
   in map_of (sv_sockets s) 2 = Some \<lparr>sk_isAlive = True, sk_joined = Some (''room'', ''a'')\<rparr> \<and> sv_rooms s = []"
  by (simp add: server_eval Let_def)

text \<open>
  A socket that joins a second room stays entered in the first, also after it has closed: that room
  keeps a peer for ever, and no sweep collects it.\<close>

lemma second_join_leaves_a_ghost:
  "let s = server_steps [Connection 1, SocketMessage 1 (join_text ''r1'' ''t'' ''a'') 0,
        SocketMessage 1 (join_text ''r2'' ''t'' ''a'') 0, SocketClose 1]
   in sv_sockets s = [] \<and> member (sv_rooms s) ''r1'' ''a'' = Some 1 \<and>
      member (snd (sweep_rooms 9000000 (sv_rooms s))) ''r1'' ''a'' = Some 1"
proof -
  let ?s = "server_steps [Connection 1, SocketMessage 1 (join_text ''r1'' ''t'' ''a'') 0,
        SocketMessage 1 (join_text ''r2'' ''t'' ''a'') 0, SocketClose 1]"
  have "sv_sockets ?s = []" "member (sv_rooms ?s) ''r1'' ''a'' = Some 1"
    by (simp_all add: server_eval Let_def)
  moreover have "rooms_wf (sv_rooms ?s)"
    using server_run_bounded [OF server_steps_run] by (simp add: registries_bounded_def)
  ultimately show ?thesis by (simp add: member_sweep(1))
qed

text \<open>A bad percent escape in the path of a code makes the request listener throw.\<close>

lemma bad_escape_is_unanswered:
  "fst (handle_request False \<lparr>im_method = ''GET'', im_url = Some ''/pairing-codes/%zz'', im_forwarded = HeaderAbsent,
     im_remoteAddress = None\<rparr> 0 ''u'' ''t'' startSignalingServer) = Unanswered"
  by (simp add: handle_request_def CODES_PREFIX_def handle_redeem_def take_code_token_def take_token_def
    startSignalingServer_def new_RateLimiter_def forget_all_def refilled_tokens_def bucket_of_def clientKey_def
    percent_byte_def hex_digit_value_def in_code_range_def)

end
