(* ===== verification/Settings_Store.thy ===== *)
theory Settings_Store
  imports Wire_Protocol Short_Code
begin

text \<open>
  Where a device meets its peers: \<open>SettingsStore\<close> of packages/storage-sql/src/settingsStore.ts over
  the \<open>settings\<close> table.

  A row's value is text. It is kept here as the value \<open>JSON.parse\<close> makes of it (\<open>JsonText\<close>) or, when
  the text is not JSON, as it is (\<open>OtherText\<close>): writing \<open>JSON.stringify(x)\<close> and reading it back gives \<open>x\<close>.
\<close>

section \<open>The table and the store\<close>

datatype setting_text = JsonText json | OtherText string

type_synonym settings_table = "(string \<times> setting_text) list"

record ConnectionSettings =
  cs_serverHost :: string
  cs_turnUrl :: "string option"
  cs_turnUsername :: "string option"
  cs_turnCredential :: "string option"

record IceServer =
  ice_urls :: string
  ice_username :: "string option"
  ice_credential :: "string option"

record SettingsStore =
  st_rows :: settings_table
  st_fallbackHost :: string
  st_cached :: "ConnectionSettings option"

definition new_SettingsStore :: "settings_table \<Rightarrow> string \<Rightarrow> SettingsStore" where
  "new_SettingsStore rows fallbackHost = \<lparr>st_rows = rows, st_fallbackHost = fallbackHost, st_cached = None\<rparr>"

definition CONNECTION_KEY :: string where "CONNECTION_KEY = ''connection''"

text \<open>The fields of a stored value that are strings.\<close>

definition string_field :: "string \<Rightarrow> json \<Rightarrow> string option" where
  "string_field key value = (case js_property key value of Some (JStr s) \<Rightarrow> Some s | _ \<Rightarrow> None)"

definition settings_of :: "string \<Rightarrow> json \<Rightarrow> ConnectionSettings" where
  "settings_of fallbackHost stored =
     \<lparr>cs_serverHost = (case string_field ''serverHost'' stored of
        Some host \<Rightarrow> if isValidServerHost host then host else fallbackHost | None \<Rightarrow> fallbackHost),
      cs_turnUrl = (case string_field ''turnUrl'' stored of
        Some url \<Rightarrow> if length url > 0 then Some url else None | None \<Rightarrow> None),
      cs_turnUsername = string_field ''turnUsername'' stored,
      cs_turnCredential = string_field ''turnCredential'' stored\<rparr>"

text \<open>Text that is not JSON counts as no settings; the text \<open>null\<close> makes reading its fields throw.\<close>

definition get_settings :: "SettingsStore \<Rightarrow> ConnectionSettings result \<times> SettingsStore" where
  "get_settings this =
     (case st_cached this of
        Some settings \<Rightarrow> (Inr settings, this)
      | None \<Rightarrow>
          (let stored = (case map_of (st_rows this) CONNECTION_KEY of
                           Some (JsonText value) \<Rightarrow> value | _ \<Rightarrow> JObj [])
           in if stored = JNull then (Inl (ThrownError ''TypeError''), this)
              else let settings = settings_of (st_fallbackHost this) stored
                   in (Inr settings, this\<lparr>st_cached := Some settings\<rparr>)))"

definition is_turn_url :: "string \<Rightarrow> bool" where
  "is_turn_url url \<longleftrightarrow> js_toLowerCase (take 5 url) = ''turn:'' \<or> js_toLowerCase (take 6 url) = ''turns:''"

definition stringify_settings :: "ConnectionSettings \<Rightarrow> json" where
  "stringify_settings settings =
     JObj ([(''serverHost'', JStr (cs_serverHost settings))] @
       (case cs_turnUrl settings of None \<Rightarrow> [] | Some url \<Rightarrow> [(''turnUrl'', JStr url)]) @
       (case cs_turnUsername settings of None \<Rightarrow> [] | Some name \<Rightarrow> [(''turnUsername'', JStr name)]) @
       (case cs_turnCredential settings of None \<Rightarrow> [] | Some c \<Rightarrow> [(''turnCredential'', JStr c)]))"

text \<open>The text between quotation marks in a message.\<close>

definition in_quotes :: "string \<Rightarrow> string" where
  "in_quotes x = [CHR 0x22] @ x @ [CHR 0x22]"

definition save_settings :: "ConnectionSettings \<Rightarrow> SettingsStore \<Rightarrow> ConnectionSettings result \<times> SettingsStore" where
  "save_settings wanted this =
     (case normalizeServerHost (cs_serverHost wanted) of
        None \<Rightarrow> (Inl (ThrownError (''Could not read '' @ in_quotes (js_trim (cs_serverHost wanted)) @
          '' as a server address. It should look like sync.example.org.'')), this)
      | Some host \<Rightarrow>
          (let turnUrl = (case cs_turnUrl wanted of None \<Rightarrow> [] | Some url \<Rightarrow> js_trim url)
           in if length turnUrl > 0 \<and> \<not> is_turn_url turnUrl
              then (Inl (ThrownError (in_quotes turnUrl @
                '' is not a relay address. It should start with turn: or turns:.'')), this)
              else let settings =
                     \<lparr>cs_serverHost = host,
                      cs_turnUrl = (if length turnUrl > 0 then Some turnUrl else None),
                      cs_turnUsername = map_option js_trim (cs_turnUsername wanted),
                      cs_turnCredential = cs_turnCredential wanted\<rparr>
                   in (Inr settings,
                       this\<lparr>st_rows := AList.update CONNECTION_KEY (JsonText (stringify_settings settings)) (st_rows this),
                            st_cached := Some settings\<rparr>)))"

definition iceServers :: "SettingsStore \<Rightarrow> IceServer list result \<times> SettingsStore" where
  "iceServers this =
     (let (r, this) = get_settings this
      in (res_bind r (\<lambda>settings. Inr
            ([\<lparr>ice_urls = ''stun:stun.l.google.com:19302'', ice_username = None, ice_credential = None\<rparr>] @
             (case cs_turnUrl settings of
                None \<Rightarrow> []
              | Some url \<Rightarrow> [\<lparr>ice_urls = url, ice_username = cs_turnUsername settings,
                             ice_credential = cs_turnCredential settings\<rparr>]))), this))"

lemma string_field_stringify:
  "string_field ''serverHost'' (stringify_settings s) = Some (cs_serverHost s)"
  "string_field ''turnUrl'' (stringify_settings s) = cs_turnUrl s"
  "string_field ''turnUsername'' (stringify_settings s) = cs_turnUsername s"
  "string_field ''turnCredential'' (stringify_settings s) = cs_turnCredential s"
  by (simp_all add: string_field_def stringify_settings_def split: option.split)

lemma settings_of_stringify:
  assumes "isValidServerHost (cs_serverHost s)" "cs_turnUrl s \<noteq> Some []"
  shows "settings_of fallback (stringify_settings s) = s"
  using assms by (cases s) (auto simp: settings_of_def string_field_stringify split: option.split)

section \<open>Properties\<close>

text \<open>
  Saved settings come back. What \<open>save\<close> accepts and returns is what \<open>get\<close> returns from then on, from
  the cache and after a restart that reads the table again, whatever the built-in default is; the host
  is a valid one and a relay, if there is one, is a turn address; and \<open>save\<close> touches no other row.\<close>

theorem saved_settings_come_back:
  assumes "save_settings wanted this = (Inr settings, this')"
  shows "fst (get_settings this') = Inr settings \<and>
    fst (get_settings (new_SettingsStore (st_rows this') fallback)) = Inr settings \<and>
    isValidServerHost (cs_serverHost settings) \<and>
    (case cs_turnUrl settings of None \<Rightarrow> True | Some url \<Rightarrow> is_turn_url url) \<and>
    (\<forall>key. key \<noteq> CONNECTION_KEY \<longrightarrow> map_of (st_rows this') key = map_of (st_rows this) key)"
proof -
  let ?turn = "case cs_turnUrl wanted of None \<Rightarrow> [] | Some url \<Rightarrow> js_trim url"
  from assms obtain host where host: "normalizeServerHost (cs_serverHost wanted) = Some host"
    by (auto simp: save_settings_def split: option.splits)
  have turn: "?turn = [] \<or> is_turn_url ?turn"
    using assms host by (auto simp: save_settings_def Let_def split: if_splits)
  have parts: "settings = \<lparr>cs_serverHost = host, cs_turnUrl = (if ?turn = [] then None else Some ?turn),
      cs_turnUsername = map_option js_trim (cs_turnUsername wanted), cs_turnCredential = cs_turnCredential wanted\<rparr>"
    using assms host turn by (simp add: save_settings_def Let_def split: if_splits)
  have this': "st_cached this' = Some settings"
      "st_rows this' = AList.update CONNECTION_KEY (JsonText (stringify_settings settings)) (st_rows this)"
    using assms host turn by (auto simp: save_settings_def Let_def simp del: AList.update.simps split: if_splits)
  have valid: "isValidServerHost host"
    using host by (auto simp: normalizeServerHost_def Let_def split: if_splits)
  have same: "settings_of fallback (stringify_settings settings) = settings"
    by (rule settings_of_stringify) (use valid in \<open>simp_all add: parts\<close>)
  have object: "stringify_settings settings \<noteq> JNull" by (simp add: stringify_settings_def)
  have "fst (get_settings this') = Inr settings" using this' by (simp add: get_settings_def)
  moreover have "fst (get_settings (new_SettingsStore (st_rows this') fallback)) = Inr settings"
    using this'(2) same object by (simp add: get_settings_def new_SettingsStore_def Let_def)
  moreover have "isValidServerHost (cs_serverHost settings)" using valid by (simp add: parts)
  moreover have "case cs_turnUrl settings of None \<Rightarrow> True | Some url \<Rightarrow> is_turn_url url"
    using turn by (auto simp: parts)
  moreover have "\<forall>key. key \<noteq> CONNECTION_KEY \<longrightarrow> map_of (st_rows this') key = map_of (st_rows this) key"
    using this'(2) by (simp add: update_conv)
  ultimately show ?thesis by blast
qed

definition sample_settings :: ConnectionSettings where
  "sample_settings = \<lparr>cs_serverHost = ''https://Sync.example.org/health'', cs_turnUrl = Some '' turn:relay.example.org'',
     cs_turnUsername = None, cs_turnCredential = None\<rparr>"

theorem saved_settings_come_back_witness:
  "fst (get_settings (new_SettingsStore (st_rows (snd (save_settings sample_settings (new_SettingsStore [] ''x'')))) ''y'')) =
     Inr \<lparr>cs_serverHost = ''sync.example.org'', cs_turnUrl = Some ''turn:relay.example.org'',
          cs_turnUsername = None, cs_turnCredential = None\<rparr>"
proof -
  let ?r = "save_settings sample_settings (new_SettingsStore [] ''x'')"
  have "fst ?r = Inr \<lparr>cs_serverHost = ''sync.example.org'', cs_turnUrl = Some ''turn:relay.example.org'',
          cs_turnUsername = None, cs_turnCredential = None\<rparr>"
  proof -
    have "normalizeServerHost (cs_serverHost sample_settings) = Some ''sync.example.org''" by code_simp
    moreover have "js_trim '' turn:relay.example.org'' = ''turn:relay.example.org''" "is_turn_url ''turn:relay.example.org''"
      by code_simp+
    ultimately show ?thesis by (simp add: save_settings_def sample_settings_def Let_def)
  qed
  then have "?r = (Inr \<lparr>cs_serverHost = ''sync.example.org'', cs_turnUrl = Some ''turn:relay.example.org'',
          cs_turnUsername = None, cs_turnCredential = None\<rparr>, snd ?r)" by (metis prod.collapse)
  from saved_settings_come_back [OF this, of "''y''"] show ?thesis by blast
qed

text \<open>A row holding the JSON text \<open>null\<close> makes every read throw.\<close>

lemma null_setting_throws:
  "fst (get_settings (new_SettingsStore [(CONNECTION_KEY, JsonText JNull)] host)) = Inl (ThrownError ''TypeError'')"
  by (simp add: get_settings_def new_SettingsStore_def)

end
