(* ===== verification/Vault_File.thy ===== *)
theory Vault_File
  imports Js_Prelude
begin

text \<open>
  The user's vault file: packages/storage-node/src/vaultFile.ts, and the interface through which the
  services use it (\<open>VaultFileAccess\<close> of packages/services/src/platform.ts, implemented for the desktop in
  apps/desktop/src/main/nodePlatform.ts).

  A folder is the map from paths to contents. What the operating system decides about a write is read
  from a tape: the random name of the temporary file and whether opening, writing or renaming fails.
  The watcher is a state machine whose events are its public methods, the notifications of the file
  watching library, its timer and the ends of its reads and of the callback.
\<close>

section \<open>Paths\<close>

text \<open>
  \<open>dirname\<close> and \<open>join\<close> of \<open>node:path\<close> on POSIX; \<open>join\<close> is used on a directory and one plain name, for
  which it inserts the separator (a path is taken as normalised).
\<close>

definition dirname :: "string \<Rightarrow> string" where
  "dirname p =
     (let body = dropWhile (\<lambda>c. c = CHR ''/'') (rev p);
          upto_slash = dropWhile (\<lambda>c. c \<noteq> CHR ''/'') body
      in case upto_slash of
           [] \<Rightarrow> if p \<noteq> [] \<and> hd p = CHR ''/'' then ''/'' else ''.''
         | _ # rest \<Rightarrow> if rest = [] then ''/'' else rev rest)"

definition path_join :: "string \<Rightarrow> string \<Rightarrow> string" where
  "path_join directory name =
     (if directory = ''/'' then directory @ name
      else if directory = ''.'' then name else directory @ ''/'' @ name)"

definition lockPathFor :: "string \<Rightarrow> string" where
  "lockPathFor vaultPath = vaultPath @ ''.lock''"

section \<open>The file system\<close>

datatype write_fate = WriteOk | OpenRefused | WriteStops nat | RenameRefused

record folder =
  fo_files :: "(string \<times> bytes) list"
  fo_tape :: "(string \<times> write_fate) list"

definition next_write :: "folder \<Rightarrow> string \<times> write_fate" where
  "next_write d = (case fo_tape d of [] \<Rightarrow> ('''', WriteOk) | w # _ \<Rightarrow> w)"

definition isVaultLocked :: "string \<Rightarrow> folder \<Rightarrow> bool" where
  "isVaultLocked vaultPath d \<longleftrightarrow> map_of (fo_files d) (lockPathFor vaultPath) \<noteq> None"

definition readVaultFile :: "string \<Rightarrow> folder \<Rightarrow> bytes result" where
  "readVaultFile vaultPath d =
     (case map_of (fo_files d) vaultPath of
        None \<Rightarrow> Inl (ThrownError ''ENOENT'')
      | Some content \<Rightarrow> Inr content)"

datatype WriteOutcome = Written | RefusedLocked string

definition temp_beside :: "string \<Rightarrow> string \<Rightarrow> string" where
  "temp_beside vaultPath uuid = path_join (dirname vaultPath) (''.passvault-'' @ uuid @ ''.tmp'')"

definition LOCKED_REASON :: string where
  "LOCKED_REASON = ''KeePassXC has this vault open. Close it before writing the merged revision.''"

definition writeVaultFileAtomic :: "string \<Rightarrow> bytes \<Rightarrow> bool \<Rightarrow> (folder, WriteOutcome) action" where
  "writeVaultFileAtomic vaultPath bs ignoreLock d =
     (if \<not> ignoreLock \<and> isVaultLocked vaultPath d then (Inr (RefusedLocked LOCKED_REASON), d)
      else
        let (uuid, fate) = next_write d;
            tempPath = temp_beside vaultPath uuid;
            fs = fo_files d;
            d' = d\<lparr>fo_tape := tl (fo_tape d)\<rparr>
        in case fate of
             OpenRefused \<Rightarrow> (Inl (ThrownError ''open failed''), d')
           | WriteStops n \<Rightarrow>
               (Inl (ThrownError ''write failed''), d'\<lparr>fo_files := AList.update tempPath (take n bs) fs\<rparr>)
           | RenameRefused \<Rightarrow>
               (Inl (ThrownError ''rename failed''), d'\<lparr>fo_files := AList.delete tempPath fs\<rparr>)
           | WriteOk \<Rightarrow>
               (Inr Written, d'\<lparr>fo_files := AList.update vaultPath bs (AList.delete tempPath fs)\<rparr>))"

text \<open>The folders a write passes through, at any of which the process may die.\<close>

definition write_moments :: "string \<Rightarrow> string \<Rightarrow> bytes \<Rightarrow> (string \<times> bytes) list \<Rightarrow> (string \<times> bytes) list list" where
  "write_moments vaultPath uuid bs fs =
     fs # map (\<lambda>n. AList.update (temp_beside vaultPath uuid) (take n bs) fs) [0 ..< length bs + 1]
     @ [AList.update vaultPath bs (AList.delete (temp_beside vaultPath uuid) fs)]"

section \<open>The interface the services use\<close>

record 'f VaultFileAccess =
  fa_read :: "string \<Rightarrow> 'f \<Rightarrow> bytes result"
  fa_write :: "string \<Rightarrow> bytes \<Rightarrow> bool \<Rightarrow> ('f, WriteOutcome) action"
  fa_isLocked :: "string \<Rightarrow> 'f \<Rightarrow> bool"

definition NodeFiles :: "folder VaultFileAccess" where
  "NodeFiles = \<lparr>fa_read = readVaultFile, fa_write = writeVaultFileAtomic, fa_isLocked = isVaultLocked\<rparr>"

text \<open>
  What a client may rely on, for the paths that can name a vault (\<open>vault_path\<close>): a write that
  answers \<open>Written\<close> has put the bytes there, every other outcome has left the file as it was, and a
  write that does not ignore the lock leaves a locked file alone.
\<close>

locale vault_files =
  fixes files :: "'f VaultFileAccess" and vault_path :: "string \<Rightarrow> bool"
  assumes write_done: "vault_path p \<Longrightarrow> fa_write files p bs ign d = (Inr Written, d') \<Longrightarrow> fa_read files p d' = Inr bs"
    and write_else: "vault_path p \<Longrightarrow> fa_write files p bs ign d = (r, d') \<Longrightarrow> r \<noteq> Inr Written \<Longrightarrow>
      fa_read files p d' = fa_read files p d"
    and write_other: "vault_path p \<Longrightarrow> vault_path q \<Longrightarrow> p \<noteq> q \<Longrightarrow> fa_write files p bs ign d = (r, d') \<Longrightarrow>
      fa_read files q d' = fa_read files q d"
    and write_locked: "fa_isLocked files p d \<Longrightarrow> \<exists>reason. fa_write files p bs False d = (Inr (RefusedLocked reason), d)"
begin

lemma write_old_or_new:
  assumes "vault_path p" "fa_write files p bs ign d = (r, d')"
  shows "fa_read files p d' = (if r = Inr Written then Inr bs else fa_read files p d)"
  using assms write_done write_else by auto

lemma write_idempotent:
  assumes "vault_path p" "fa_read files p d = Inr bs" "fa_write files p bs ign d = (r, d')"
  shows "fa_read files p d' = Inr bs"
  using write_old_or_new [OF assms(1,3)] assms(2) by simp

end

text \<open>A path that ends in \<open>.tmp\<close> is not a vault's: that is where the temporary files are.\<close>

definition names_vault :: "string \<Rightarrow> bool" where
  "names_vault p \<longleftrightarrow> drop (length p - 4) p \<noteq> ''.tmp''"

lemma temp_beside_end: "drop (length (temp_beside p u) - 4) (temp_beside p u) = ''.tmp''"
proof -
  have "temp_beside p u = path_join (dirname p) (''.passvault-'' @ u) @ ''.tmp''"
    by (simp add: temp_beside_def path_join_def)
  then show ?thesis by simp
qed

lemma temp_not_vault [simp]: "names_vault p \<Longrightarrow> temp_beside q u \<noteq> p" "names_vault p \<Longrightarrow> p \<noteq> temp_beside q u"
  using temp_beside_end names_vault_def by metis+

lemma write_cases:
  obtains "\<not> ign" "isVaultLocked p d" "writeVaultFileAtomic p bs ign d = (Inr (RefusedLocked LOCKED_REASON), d)"
    | e d' where "ign \<or> \<not> isVaultLocked p d" "writeVaultFileAtomic p bs ign d = (Inl e, d')"
        "\<And>q. names_vault q \<Longrightarrow> map_of (fo_files d') q = map_of (fo_files d) q"
    | d' where "ign \<or> \<not> isVaultLocked p d" "writeVaultFileAtomic p bs ign d = (Inr Written, d')"
        "\<And>q. names_vault q \<Longrightarrow> map_of (fo_files d') q = (if q = p then Some bs else map_of (fo_files d) q)"
proof (cases "\<not> ign \<and> isVaultLocked p d")
  case True
  then show ?thesis using that(1) by (simp add: writeVaultFileAtomic_def)
next
  case False
  then show ?thesis
    using that(2-3)
    by (cases "next_write d"; cases "snd (next_write d)") (auto simp: writeVaultFileAtomic_def Let_def)
qed

interpretation node_files: vault_files NodeFiles names_vault
proof (unfold_locales, unfold NodeFiles_def VaultFileAccess.simps)
  fix p bs ign and d d' :: folder
  assume w: "names_vault p" "writeVaultFileAtomic p bs ign d = (Inr Written, d')"
  show "readVaultFile p d' = Inr bs"
    by (rule write_cases [of ign p d bs]) (use w in \<open>auto simp: readVaultFile_def\<close>)
next
  fix p bs ign and d d' :: folder and r
  assume w: "names_vault p" "writeVaultFileAtomic p bs ign d = (r, d')" "r \<noteq> Inr Written"
  show "readVaultFile p d' = readVaultFile p d"
    by (rule write_cases [of ign p d bs]) (use w in \<open>auto simp: readVaultFile_def\<close>)
next
  fix p q bs ign and d d' :: folder and r
  assume w: "names_vault p" "names_vault q" "p \<noteq> q" "writeVaultFileAtomic p bs ign d = (r, d')"
  show "readVaultFile q d' = readVaultFile q d"
    by (rule write_cases [of ign p d bs]) (use w in \<open>auto simp: readVaultFile_def\<close>)
next
  fix p bs and d :: folder
  assume "isVaultLocked p d"
  then show "\<exists>reason. writeVaultFileAtomic p bs False d = (Inr (RefusedLocked reason), d)"
    by (simp add: writeVaultFileAtomic_def)
qed

section \<open>The watcher\<close>

text \<open>
  Where a delivery stands: not under way, about to read for the first or the second time (the tries of
  \<open>readWithRetry\<close>), or waiting for the callback it has handed the contents to.
\<close>

datatype delivery = NoDelivery | FirstRead | SecondRead | Handling

record VaultFileWatcher =
  vw_watching :: bool
  vw_timer :: bool
  vw_delivery :: delivery
  vw_pending :: bool

definition new_VaultFileWatcher :: VaultFileWatcher where
  "new_VaultFileWatcher = \<lparr>vw_watching = False, vw_timer = False, vw_delivery = NoDelivery, vw_pending = False\<rparr>"

definition processing :: "VaultFileWatcher \<Rightarrow> bool" where
  "processing this \<longleftrightarrow> vw_delivery this \<noteq> NoDelivery"

datatype watcher_event =
    WStart
  | WStop
  | WNotified
  | WLibraryError string
  | WTimer
  | WPollNow
  | WReadEnds "bytes option"
  | WHandlerEnds "string option"

datatype watcher_output = OnChange bytes | OnError string

definition schedule :: "VaultFileWatcher \<Rightarrow> VaultFileWatcher" where
  "schedule this = this\<lparr>vw_timer := True\<rparr>"

definition deliver :: "VaultFileWatcher \<Rightarrow> VaultFileWatcher" where
  "deliver this =
     (if processing this then this\<lparr>vw_pending := True\<rparr> else this\<lparr>vw_delivery := FirstRead\<rparr>)"

text \<open>The \<open>finally\<close> of \<open>deliver\<close>.\<close>

definition delivery_ends :: "VaultFileWatcher \<Rightarrow> VaultFileWatcher" where
  "delivery_ends this =
     (let this = this\<lparr>vw_delivery := NoDelivery\<rparr>
      in if vw_pending this then schedule (this\<lparr>vw_pending := False\<rparr>) else this)"

definition read_ends :: "bytes option \<Rightarrow> VaultFileWatcher \<Rightarrow> VaultFileWatcher \<times> watcher_output list" where
  "read_ends content this =
     (case content of
        Some bs \<Rightarrow> (this\<lparr>vw_delivery := Handling\<rparr>, [OnChange bs])
      | None \<Rightarrow> (if vw_delivery this = FirstRead then (this\<lparr>vw_delivery := SecondRead\<rparr>, [])
                 else (delivery_ends this, [])))"

text \<open>An event that cannot happen in a state (a timer that is not set) leaves it as it is.\<close>

fun watcher_step :: "watcher_event \<Rightarrow> VaultFileWatcher \<Rightarrow> VaultFileWatcher \<times> watcher_output list" where
  "watcher_step WStart this = (this\<lparr>vw_watching := True\<rparr>, [])"
| "watcher_step WStop this = (this\<lparr>vw_timer := False, vw_watching := False\<rparr>, [])"
| "watcher_step WNotified this = (if vw_watching this then schedule this else this, [])"
| "watcher_step (WLibraryError e) this = (this, if vw_watching this then [OnError e] else [])"
| "watcher_step WTimer this = (if vw_timer this then deliver (this\<lparr>vw_timer := False\<rparr>) else this, [])"
| "watcher_step WPollNow this = (deliver this, [])"
| "watcher_step (WReadEnds content) this =
     (if vw_delivery this \<in> {FirstRead, SecondRead} then read_ends content this else (this, []))"
| "watcher_step (WHandlerEnds failure) this =
     (if vw_delivery this = Handling
      then (delivery_ends this, case failure of None \<Rightarrow> [] | Some e \<Rightarrow> [OnError e])
      else (this, []))"

section \<open>The watcher and the file\<close>

text \<open>
  A watcher beside the file it watches: the password manager saves or removes the file, after which the
  library owes a notification; reading takes the contents of that moment, or fails while a rename is in
  progress. The last three fields record what the statements speak of.
\<close>

record watched =
  wd_watcher :: VaultFileWatcher
  wd_file :: "bytes option"
  wd_owed :: bool
  wd_unseen :: bool
  wd_gave_up :: bool
  wd_handed :: "bytes list"

definition read_result :: "bool \<Rightarrow> watched \<Rightarrow> bytes option" where
  "read_result torn w = (if torn then None else wd_file w)"

definition handed_bytes :: "watcher_output list \<Rightarrow> bytes list" where
  "handed_bytes os = concat (map (\<lambda>x. case x of OnChange bs \<Rightarrow> [bs] | _ \<Rightarrow> []) os)"

datatype watched_event =
    FileChanges "bytes option"
  | Notification
  | TimerFires
  | PollNow
  | LibraryError string
  | ReadNow bool
  | HandlerEnds "string option"

definition with_watcher :: "watcher_event \<Rightarrow> watched \<Rightarrow> watched" where
  "with_watcher e w = w\<lparr>wd_watcher := fst (watcher_step e (wd_watcher w))\<rparr>"

definition read_now :: "bool \<Rightarrow> watched \<Rightarrow> watched" where
  "read_now torn w =
     (let content = read_result torn w; (v, os) = watcher_step (WReadEnds content) (wd_watcher w)
      in w\<lparr>wd_watcher := v, wd_handed := handed_bytes os @ wd_handed w,
           wd_unseen := (wd_unseen w \<and> content = None),
           wd_gave_up := (case content of
              Some _ \<Rightarrow> False | None \<Rightarrow> vw_delivery (wd_watcher w) = SecondRead \<or> wd_gave_up w)\<rparr>)"

fun watched_step :: "watched_event \<Rightarrow> watched \<Rightarrow> watched" where
  "watched_step (FileChanges content) w = w\<lparr>wd_file := content, wd_owed := True, wd_unseen := True\<rparr>"
| "watched_step Notification w = with_watcher WNotified (w\<lparr>wd_owed := False\<rparr>)"
| "watched_step TimerFires w = with_watcher WTimer w"
| "watched_step PollNow w = with_watcher WPollNow w"
| "watched_step (LibraryError e) w = with_watcher (WLibraryError e) w"
| "watched_step (HandlerEnds failure) w = with_watcher (WHandlerEnds failure) w"
| "watched_step (ReadNow torn) w =
     (if vw_delivery (wd_watcher w) \<in> {FirstRead, SecondRead} then read_now torn w else w)"

definition watching_from :: "bytes option \<Rightarrow> watched" where
  "watching_from content =
     \<lparr>wd_watcher = fst (watcher_step WStart new_VaultFileWatcher), wd_file = content, wd_owed = False,
      wd_unseen = False, wd_gave_up = False, wd_handed = []\<rparr>"

definition settled :: "watched \<Rightarrow> bool" where
  "settled w \<longleftrightarrow> \<not> wd_owed w \<and> \<not> vw_timer (wd_watcher w) \<and> \<not> processing (wd_watcher w)"

definition watched_ok :: "bytes option \<Rightarrow> watched \<Rightarrow> bool" where
  "watched_ok content w \<longleftrightarrow>
     vw_watching (wd_watcher w) \<and>
     (vw_pending (wd_watcher w) \<longrightarrow> processing (wd_watcher w)) \<and>
     (wd_unseen w \<longrightarrow> wd_owed w \<or> vw_timer (wd_watcher w) \<or> vw_pending (wd_watcher w) \<or>
        vw_delivery (wd_watcher w) \<in> {FirstRead, SecondRead} \<or> wd_gave_up w) \<and>
     (\<not> wd_unseen w \<longrightarrow> (case wd_handed w of [] \<Rightarrow> wd_file w = content | bs # _ \<Rightarrow> wd_file w = Some bs))"

lemmas watcher_defs = watched_ok_def schedule_def deliver_def delivery_ends_def read_ends_def
  read_result_def handed_bytes_def processing_def Let_def

lemma watched_read_ok: "watched_ok content w \<Longrightarrow> watched_ok content (watched_step (ReadNow torn) w)"
proof (cases "read_result torn w")
  case None
  assume "watched_ok content w"
  with None show ?thesis by (cases "vw_delivery (wd_watcher w)"; cases "wd_handed w") (simp_all add: watcher_defs read_now_def)
next
  case (Some bs)
  assume ok: "watched_ok content w"
  have "wd_file w = Some bs" using Some by (simp add: read_result_def split: if_splits)
  with ok Some show ?thesis
    by (cases "vw_delivery (wd_watcher w)") (auto simp: read_now_def watched_ok_def read_ends_def handed_bytes_def processing_def)
qed

lemma watched_handler_ok: "watched_ok content w \<Longrightarrow> watched_ok content (watched_step (HandlerEnds f) w)"
  by (cases "vw_delivery (wd_watcher w)"; cases "vw_pending (wd_watcher w)"; cases "wd_handed w")
    (simp_all add: watcher_defs with_watcher_def)

lemma watched_step_ok: "watched_ok content w \<Longrightarrow> watched_ok content (watched_step e w)"
proof (cases e)
  case TimerFires
  assume "watched_ok content w"
  with TimerFires show ?thesis
    by (cases "vw_delivery (wd_watcher w)"; cases "wd_handed w"; cases "vw_timer (wd_watcher w)")
      (auto simp: with_watcher_def watcher_defs)
next
  case PollNow
  assume "watched_ok content w"
  with PollNow show ?thesis
    by (cases "vw_delivery (wd_watcher w)"; cases "wd_handed w") (auto simp: with_watcher_def watcher_defs)
next
  case (ReadNow torn)
  assume "watched_ok content w"
  with ReadNow show ?thesis by (simp add: watched_read_ok del: watched_step.simps)
next
  case (HandlerEnds f)
  assume "watched_ok content w"
  with HandlerEnds show ?thesis by (simp add: watched_handler_ok del: watched_step.simps)
qed (simp_all add: with_watcher_def watched_ok_def schedule_def processing_def split: list.splits)

lemma watched_run_ok: "watched_ok content w \<Longrightarrow> watched_ok content (fold watched_step es w)"
  by (induction es arbitrary: w) (simp_all add: watched_step_ok)

lemma watching_from_ok: "watched_ok content (watching_from content)"
  by (simp add: watching_from_def new_VaultFileWatcher_def watcher_defs)

section \<open>Properties\<close>

text \<open>A delivery is given up when its second read fails, and in no other way; nothing is handed over since.\<close>

lemma gives_up_at_second_read:
  assumes "wd_gave_up (watched_step e w)"
  shows "wd_handed (watched_step e w) = wd_handed w \<and> (wd_gave_up w \<or>
     (\<exists>torn. e = ReadNow torn \<and> vw_delivery (wd_watcher w) = SecondRead \<and> read_result torn w = None))"
proof (cases e)
  case (ReadNow torn)
  then show ?thesis
    using assms
    by (cases "vw_delivery (wd_watcher w)"; cases "read_result torn w")
      (auto simp: read_now_def read_ends_def handed_bytes_def delivery_ends_def Let_def split_beta)
qed (use assms in \<open>simp_all add: with_watcher_def\<close>)

lemma gave_up_origin:
  "wd_gave_up (fold watched_step es (watching_from content)) \<Longrightarrow>
    \<exists>before torn after. es = before @ ReadNow torn # after \<and>
      (let u = fold watched_step before (watching_from content)
       in vw_delivery (wd_watcher u) = SecondRead \<and> read_result torn u = None \<and>
          wd_handed (fold watched_step es (watching_from content)) = wd_handed u)"
proof (induction es rule: rev_induct)
  case Nil
  then show ?case by (simp add: watching_from_def)
next
  case (snoc e es)
  let ?u = "fold watched_step es (watching_from content)"
  have gave: "wd_gave_up (watched_step e ?u)" using snoc.prems by simp
  note step = gives_up_at_second_read [OF gave]
  show ?case
  proof (cases "wd_gave_up ?u")
    case True
    from snoc.IH [OF this] obtain before torn after where
      *: "es = before @ ReadNow torn # after" "let u = fold watched_step before (watching_from content)
       in vw_delivery (wd_watcher u) = SecondRead \<and> read_result torn u = None \<and> wd_handed ?u = wd_handed u"
      by blast
    show ?thesis
      by (rule exI [of _ before], rule exI [of _ torn], rule exI [of _ "after @ [e]"]) (use * step in \<open>simp add: Let_def del: watched_step.simps\<close>)
  next
    case False
    then obtain torn where "e = ReadNow torn" "vw_delivery (wd_watcher ?u) = SecondRead" "read_result torn ?u = None"
      using step by blast
    then show ?thesis
      by (intro exI [of _ es] exI [of _ torn] exI [of _ "[]"]) (use step in \<open>simp add: Let_def del: watched_step.simps\<close>)
  qed
qed

text \<open>
  C12: No save of the password manager is lost to the interleaving. However saves and removals of the file,
  notifications, the debounce timer, polls, reads (also ones that fail in the middle of a rename) and the
  callback are interleaved: when the watcher has nothing left to do, with no notification owed, no timer and no
  delivery under way, the contents it handed over last are the contents of the file, and if it has handed over
  none the file is as it was at the start; or else a delivery of this run was given up because its second read
  failed too, and nothing has been handed over since.\<close>

theorem no_save_is_lost:
  assumes "w = fold watched_step es (watching_from content)" and "settled w"
  shows "(case wd_handed w of [] \<Rightarrow> wd_file w = content | bs # _ \<Rightarrow> wd_file w = Some bs) \<or>
    (\<exists>before torn after. es = before @ ReadNow torn # after \<and>
       (let u = fold watched_step before (watching_from content)
        in vw_delivery (wd_watcher u) = SecondRead \<and> read_result torn u = None \<and> wd_handed w = wd_handed u))"
proof (cases "wd_gave_up w")
  case True
  then show ?thesis using gave_up_origin [of es content] unfolding assms(1) by (rule_tac disjI2) blast
next
  case False
  then show ?thesis
    using watched_run_ok [OF watching_from_ok, of content es] assms(2) unfolding assms(1) [symmetric]
    by (intro disjI1) (auto simp: watched_ok_def settled_def processing_def)
qed

text \<open>A save during the handling of the one before: the second is handed over too.\<close>

definition two_saves :: "watched_event list" where
  "two_saves = [FileChanges (Some [2]), Notification, TimerFires, ReadNow False, FileChanges (Some [3]),
     Notification, TimerFires, HandlerEnds None, TimerFires, ReadNow True, ReadNow False, HandlerEnds None]"

theorem no_save_is_lost_witness:
  "wd_handed (fold watched_step two_saves (watching_from (Some [1]))) = [[3], [2]] \<and>
   (wd_file (fold watched_step two_saves (watching_from (Some [1]))) = Some [3] \<or>
    (\<exists>before torn after. two_saves = before @ ReadNow torn # after \<and>
       (let u = fold watched_step before (watching_from (Some [1]))
        in vw_delivery (wd_watcher u) = SecondRead \<and> read_result torn u = None \<and> [[3], [2]] = wd_handed u)))"
proof -
  have "settled (fold watched_step two_saves (watching_from (Some [1])))"
    and handed: "wd_handed (fold watched_step two_saves (watching_from (Some [1]))) = [[3], [2]]"
    by code_simp+
  then show ?thesis using no_save_is_lost [OF refl, of two_saves "Some [1]"] by simp
qed

text \<open>
  The case that is left: when both reads of a delivery fail the watcher says nothing and does nothing more, and
  the save is not recorded until the file changes again.
\<close>

lemma two_failed_reads_lose_the_save:
  "let w = fold watched_step [FileChanges (Some [2]), Notification, TimerFires, ReadNow True, ReadNow True]
         (watching_from (Some [1]))
   in settled w \<and> wd_file w = Some [2] \<and> wd_handed w = []"
  by code_simp


definition sample_folder :: folder where
  "sample_folder = \<lparr>fo_files = [(''/v/my.kdbx'', [1])], fo_tape = [(''u'', WriteStops 1)]\<rparr>"


text \<open>A write that fails leaves its temporary file beside the vault.\<close>

lemma failed_write_leaves_temp:
  "map_of (fo_files (snd (writeVaultFileAtomic ''/v/my.kdbx'' [2, 3] False sample_folder))) ''/v/.passvault-u.tmp'' = Some [2]"
  by (simp add: writeVaultFileAtomic_def sample_folder_def isVaultLocked_def lockPathFor_def next_write_def
      temp_beside_def path_join_def dirname_def Let_def)

text \<open>Stopping does not end a delivery under way: the callback still gets the contents, and a pending one re-arms the timer.\<close>

lemma stopped_watcher_still_delivers:
  assumes "vw_delivery this = FirstRead" "vw_pending this"
  shows "snd (watcher_step (WReadEnds (Some bs)) (fst (watcher_step WStop this))) = [OnChange bs] \<and>
    vw_timer (fst (watcher_step (WHandlerEnds None)
      (fst (watcher_step (WReadEnds (Some bs)) (fst (watcher_step WStop this))))))"
  using assms by (simp add: watcher_defs)

end
