(* ===== verification/Kdbx_Interpreter.thy ===== *)
theory Kdbx_Interpreter
  imports Engine_Invariants Device_Identity "HOL-Library.Char_ord" "HOL-Library.List_Lexorder"
begin

text \<open>
  The decryption boundary: packages/core/src/interpreter.ts and packages/kdbx (types.ts,
  kdbxInterpreter.ts and snapshot.ts).

  What kdbxweb does is a parameter: a record of functions that open, merge and save a database and show
  its tree of groups. A database that the library mutates is returned updated. An opened database is an
  arbitrary type \<open>'db\<close>.
\<close>

section \<open>Credentials and the file signature\<close>

record KdbxOpenCredentials =
  kc_password :: "string option"
  kc_keyFile :: "bytes option"

record KdbxCredentialSet =
  kcs_local :: KdbxOpenCredentials
  kcs_incoming :: "KdbxOpenCredentials list"
  kcs_output :: "KdbxOpenCredentials option"

definition uniformCredentials :: "string \<Rightarrow> nat \<Rightarrow> KdbxCredentialSet" where
  "uniformCredentials password incomingCount =
     \<lparr>kcs_local = \<lparr>kc_password = Some password, kc_keyFile = None\<rparr>,
      kcs_incoming = replicate incomingCount \<lparr>kc_password = Some password, kc_keyFile = None\<rparr>,
      kcs_output = None\<rparr>"

text \<open>\<open>DataView.getUint32(offset, true)\<close>: little endian.\<close>

definition getUint32_le :: "bytes \<Rightarrow> nat \<Rightarrow> int" where
  "getUint32_le bs at =
     uint (bs ! at) + 256 * (uint (bs ! (at + 1)) + 256 * (uint (bs ! (at + 2)) + 256 * uint (bs ! (at + 3))))"

definition looksLikeKdbx :: "bytes \<Rightarrow> bool" where
  "looksLikeKdbx bs =
     (if length bs < 8 then False
      else getUint32_le bs 0 = 0x9aa2d903 \<and> getUint32_le bs 4 = 0xb54bfb67)"

section \<open>Differences between vaults\<close>

record DiffEntrySummary =
  de_uuid :: string
  de_title :: string
  de_groupPath :: string

record ChangedEntrySummary = DiffEntrySummary +
  de_changedFields :: "string list"

record VaultDiff =
  addedEntries :: "DiffEntrySummary list"
  removedEntries :: "DiffEntrySummary list"
  changedEntries :: "ChangedEntrySummary list"
  addedGroups :: "string list"
  removedGroups :: "string list"
  changedGroups :: "string list"

definition emptyVaultDiff :: VaultDiff where
  "emptyVaultDiff = \<lparr>addedEntries = [], removedEntries = [], changedEntries = [],
     addedGroups = [], removedGroups = [], changedGroups = []\<rparr>"

definition mergeVaultDiffs :: "VaultDiff \<Rightarrow> VaultDiff \<Rightarrow> VaultDiff" where
  "mergeVaultDiffs left right =
     \<lparr>addedEntries = addedEntries left @ addedEntries right,
      removedEntries = removedEntries left @ removedEntries right,
      changedEntries = changedEntries left @ changedEntries right,
      addedGroups = addedGroups left @ addedGroups right,
      removedGroups = removedGroups left @ removedGroups right,
      changedGroups = changedGroups left @ changedGroups right\<rparr>"

section \<open>What the library shows of a database\<close>

datatype kdbx_field = PlainText string | ProtectedValue bytes

record KdbxEntry =
  ke_uuid :: string
  ke_fields :: "(string \<times> kdbx_field) list"
  ke_binaries :: "string list"

datatype KdbxGroup = KdbxGroup (kg_uuid: string) (kg_name: "string option") (kg_entries: "KdbxEntry list")
  (kg_groups: "KdbxGroup list")

text \<open>What the library throws: its typed error, another \<open>Error\<close>, or something else.\<close>

datatype kdbx_thrown = KdbxError string string | PlainError string | NotAnError

record 'db KdbxLibrary =
  kl_load :: "bytes \<Rightarrow> KdbxOpenCredentials \<Rightarrow> kdbx_thrown + 'db"
  kl_merge :: "'db \<Rightarrow> 'db \<Rightarrow> kdbx_thrown + 'db"
  kl_setCredentials :: "KdbxOpenCredentials \<Rightarrow> 'db \<Rightarrow> 'db"
  kl_save :: "'db \<Rightarrow> kdbx_thrown + bytes"
  kl_groups :: "'db \<Rightarrow> KdbxGroup list"
  kl_sha256 :: "bytes \<Rightarrow> bytes"
  kl_getText :: "bytes \<Rightarrow> string"

section \<open>Snapshots\<close>

record EntrySnapshot =
  es_uuid :: string
  es_title :: string
  es_groupPath :: string
  es_fields :: "(string \<times> string) list"
  es_binaryKeys :: "string list"

record DatabaseSnapshot =
  db_entries :: "(string \<times> EntrySnapshot) list"
  db_groups :: "(string \<times> string) list"

definition fieldFingerprint :: "'db KdbxLibrary \<Rightarrow> kdbx_field \<Rightarrow> string" where
  "fieldFingerprint lib value =
     (case value of
        PlainText s \<Rightarrow> ''s:'' @ s
      | ProtectedValue b \<Rightarrow> ''p:'' @ take 32 (toHex (kl_sha256 lib b)))"

definition entryTitle :: "'db KdbxLibrary \<Rightarrow> KdbxEntry \<Rightarrow> string" where
  "entryTitle lib e =
     (let text = (case map_of (ke_fields e) ''Title'' of
                    None \<Rightarrow> [] | Some (PlainText s) \<Rightarrow> s | Some (ProtectedValue b) \<Rightarrow> kl_getText lib b)
      in if text = [] then ''Untitled'' else text)"

definition entry_snapshot :: "'db KdbxLibrary \<Rightarrow> string \<Rightarrow> KdbxEntry \<Rightarrow> EntrySnapshot" where
  "entry_snapshot lib path e =
     \<lparr>es_uuid = ke_uuid e, es_title = entryTitle lib e, es_groupPath = path,
      es_fields = map (\<lambda>(key, value). (key, fieldFingerprint lib value)) (ke_fields e),
      es_binaryKeys = sort (ke_binaries e)\<rparr>"

definition put_entry :: "'db KdbxLibrary \<Rightarrow> string \<Rightarrow> KdbxEntry \<Rightarrow> DatabaseSnapshot \<Rightarrow> DatabaseSnapshot" where
  "put_entry lib path e acc =
     acc\<lparr>db_entries := AList.update (ke_uuid e) (entry_snapshot lib path e) (db_entries acc)\<rparr>"

fun collectGroup :: "'db KdbxLibrary \<Rightarrow> string \<Rightarrow> KdbxGroup \<Rightarrow> DatabaseSnapshot \<Rightarrow> DatabaseSnapshot" where
  "collectGroup lib path (KdbxGroup uuid name es gs) acc =
     fold (\<lambda>child. collectGroup lib
             (path @ ''/'' @ (case kg_name child of None \<Rightarrow> ''Unnamed group'' | Some n \<Rightarrow> n)) child) gs
       (fold (put_entry lib path) es (acc\<lparr>db_groups := AList.update uuid path (db_groups acc)\<rparr>))"

definition snapshotDatabase :: "'db KdbxLibrary \<Rightarrow> 'db \<Rightarrow> DatabaseSnapshot" where
  "snapshotDatabase lib db =
     fold (\<lambda>root. collectGroup lib (case kg_name root of None \<Rightarrow> ''Root'' | Some n \<Rightarrow> n) root)
       (kl_groups lib db) \<lparr>db_entries = [], db_groups = []\<rparr>"

definition js_join :: "string \<Rightarrow> string list \<Rightarrow> string" where
  "js_join sep xs = (case xs of [] \<Rightarrow> [] | x # rest \<Rightarrow> x @ concat (map (\<lambda>y. sep @ y) rest))"

definition changedEntryFields :: "EntrySnapshot \<Rightarrow> EntrySnapshot \<Rightarrow> string list" where
  "changedEntryFields base incoming =
     (let changed = map fst (filter (\<lambda>(key, value). map_of (es_fields base) key \<noteq> Some value) (es_fields incoming));
          gone = filter (\<lambda>key. map_of (es_fields incoming) key = None) (map fst (es_fields base));
          moved = (if es_groupPath base \<noteq> es_groupPath incoming then [''Group''] else []);
          attached = (if js_join [CHR 0x00] (es_binaryKeys base) \<noteq> js_join [CHR 0x00] (es_binaryKeys incoming)
                      then [''Attachments''] else [])
      in sort (set_of_iterable (changed @ gone @ moved @ attached)))"

definition summarize :: "EntrySnapshot \<Rightarrow> DiffEntrySummary" where
  "summarize e = \<lparr>de_uuid = es_uuid e, de_title = es_title e, de_groupPath = es_groupPath e\<rparr>"

definition changed_entry :: "DatabaseSnapshot \<Rightarrow> string \<times> EntrySnapshot \<Rightarrow> ChangedEntrySummary list" where
  "changed_entry base = (\<lambda>(uuid, e).
     case map_of (db_entries base) uuid of
       None \<Rightarrow> []
     | Some baseEntry \<Rightarrow>
         let changed = changedEntryFields baseEntry e
         in if length changed > 0 then [DiffEntrySummary.extend (summarize e) \<lparr>de_changedFields = changed\<rparr>] else [])"

definition diffSnapshots :: "DatabaseSnapshot \<Rightarrow> DatabaseSnapshot \<Rightarrow> VaultDiff" where
  "diffSnapshots base incoming =
     \<lparr>addedEntries = map (\<lambda>(_, e). summarize e)
        (filter (\<lambda>(uuid, _). map_of (db_entries base) uuid = None) (db_entries incoming)),
      removedEntries = map (\<lambda>(_, e). summarize e)
        (filter (\<lambda>(uuid, _). map_of (db_entries incoming) uuid = None) (db_entries base)),
      changedEntries = concat (map (changed_entry base) (db_entries incoming)),
      addedGroups = map snd (filter (\<lambda>(uuid, _). map_of (db_groups base) uuid = None) (db_groups incoming)),
      removedGroups = map snd (filter (\<lambda>(uuid, _). map_of (db_groups incoming) uuid = None) (db_groups base)),
      changedGroups = map snd (filter (\<lambda>(uuid, path).
        map_of (db_groups base) uuid \<noteq> None \<and> map_of (db_groups base) uuid \<noteq> Some path) (db_groups incoming))\<rparr>"

section \<open>The interpreter\<close>

definition kdbx_bind :: "kdbx_thrown + 'a \<Rightarrow> ('a \<Rightarrow> kdbx_thrown + 'b) \<Rightarrow> kdbx_thrown + 'b" where
  "kdbx_bind r f = (case r of Inl e \<Rightarrow> Inl e | Inr x \<Rightarrow> f x)"

text \<open>A failed \<open>assert\<close> is an \<open>Error\<close> like another here.\<close>

definition kdbx_assert :: "bool \<Rightarrow> string \<Rightarrow> kdbx_thrown + unit" where
  "kdbx_assert condition message =
     (if condition then Inr () else Inl (PlainError (error_message (ContractViolation message))))"

definition toCredentials :: "KdbxOpenCredentials \<Rightarrow> kdbx_thrown + KdbxOpenCredentials" where
  "toCredentials c =
     kdbx_bind (kdbx_assert (kc_password c \<noteq> None \<or> kc_keyFile c \<noteq> None)
       ''KDBX credentials must include a password or key file'') (\<lambda>_. Inr c)"

definition open_database :: "'db KdbxLibrary \<Rightarrow> bytes \<Rightarrow> KdbxOpenCredentials \<Rightarrow> kdbx_thrown + 'db" where
  "open_database lib bs credentials = kdbx_bind (toCredentials credentials) (kl_load lib bs)"

definition describe :: "kdbx_thrown \<Rightarrow> string" where
  "describe e =
     (case e of
        KdbxError code message \<Rightarrow>
          if code = ''InvalidKey'' then ''Wrong password or key file for one of the selected databases.''
          else ''KDBX error ('' @ code @ ''): '' @ message
      | PlainError message \<Rightarrow> message
      | NotAnError \<Rightarrow> ''Unknown KDBX failure'')"

text \<open>Open the incoming databases in order and hand each to \<open>use\<close>, with the credentials of its index.\<close>

fun each_incoming ::
  "'db KdbxLibrary \<Rightarrow> ('a \<Rightarrow> 'db \<Rightarrow> kdbx_thrown + 'a) \<Rightarrow> material list \<Rightarrow> KdbxOpenCredentials list \<Rightarrow> 'a \<Rightarrow>
   kdbx_thrown + 'a" where
  "each_incoming lib f [] cs acc = Inr acc"
| "each_incoming lib f ((_, bs) # rest) cs acc =
     (case cs of
        [] \<Rightarrow> kdbx_bind (kdbx_assert False ''missing credentials for an incoming revision'') (\<lambda>_. Inr acc)
      | c # cs' \<Rightarrow>
          kdbx_bind (open_database lib bs c) (\<lambda>incomingDb.
          kdbx_bind (f acc incomingDb) (\<lambda>acc'. each_incoming lib f rest cs' acc')))"

definition credential_count_reason :: "nat \<Rightarrow> nat \<Rightarrow> string" where
  "credential_count_reason wanted given =
     ''Expected '' @ decimal_string wanted @ '' incoming credential set(s), received '' @ decimal_string given @ ''.''"

definition merge_databases ::
  "'db KdbxLibrary \<Rightarrow> bytes \<Rightarrow> material list \<Rightarrow> KdbxCredentialSet \<Rightarrow> kdbx_thrown + bytes" where
  "merge_databases lib localBytes incoming credentials =
     kdbx_bind (open_database lib localBytes (kcs_local credentials)) (\<lambda>localDb.
     kdbx_bind (each_incoming lib (kl_merge lib) incoming (kcs_incoming credentials) localDb) (\<lambda>merged.
     let outputCredentials = (case kcs_output credentials of None \<Rightarrow> kcs_local credentials | Some c \<Rightarrow> c) in
     kdbx_bind (case kcs_output credentials of
          None \<Rightarrow> Inr merged
        | Some c \<Rightarrow> kdbx_bind (toCredentials c) (\<lambda>c. Inr (kl_setCredentials lib c merged))) (\<lambda>outDb.
     kdbx_bind (kl_save lib outDb) (\<lambda>saved.
     kdbx_bind (open_database lib saved outputCredentials) (\<lambda>_. Inr saved)))))"

definition interpreter_merge ::
  "'db KdbxLibrary \<Rightarrow> VaultId \<Rightarrow> material \<Rightarrow> material list \<Rightarrow> KdbxCredentialSet option \<Rightarrow> InterpretationResult" where
  "interpreter_merge lib vaultId local incoming credentials =
     (case credentials of
        None \<Rightarrow> NeedsCredentials ''KDBX merge requires credentials for every database.''
      | Some credentials \<Rightarrow>
          if incoming = [] then MergeFailed ''No incoming revisions to merge.''
          else if length (kcs_incoming credentials) \<noteq> length incoming
          then NeedsCredentials (credential_count_reason (length incoming) (length (kcs_incoming credentials)))
          else (case merge_databases lib (snd local) incoming credentials of
                  Inl e \<Rightarrow> MergeFailed (describe e)
                | Inr saved \<Rightarrow> MergeSucceeded saved (fst local # map fst incoming)))"

definition interpreter_diff ::
  "'db KdbxLibrary \<Rightarrow> VaultId \<Rightarrow> material \<Rightarrow> material list \<Rightarrow> KdbxCredentialSet option \<Rightarrow> VaultDiff DiffResult" where
  "interpreter_diff lib vaultId local incoming credentials =
     (case credentials of
        None \<Rightarrow> DiffNeedsCredentials ''KDBX diff requires credentials for every database.''
      | Some credentials \<Rightarrow>
          if length (kcs_incoming credentials) \<noteq> length incoming
          then DiffNeedsCredentials (credential_count_reason (length incoming) (length (kcs_incoming credentials)))
          else (case kdbx_bind (open_database lib (snd local) (kcs_local credentials)) (\<lambda>localDb.
                  each_incoming lib (\<lambda>acc incomingDb. Inr (mergeVaultDiffs acc
                      (diffSnapshots (snapshotDatabase lib localDb) (snapshotDatabase lib incomingDb))))
                    incoming (kcs_incoming credentials) emptyVaultDiff) of
                  Inl e \<Rightarrow> DiffFailed (describe e)
                | Inr diff \<Rightarrow> DiffReady diff))"

section \<open>Snapshots are maps\<close>

definition wf_snapshot :: "DatabaseSnapshot \<Rightarrow> bool" where
  "wf_snapshot s \<longleftrightarrow> distinct (map fst (db_entries s)) \<and> distinct (map fst (db_groups s)) \<and>
     (\<forall>(uuid, e) \<in> set (db_entries s). es_uuid e = uuid \<and> distinct (map fst (es_fields e)))"

text \<open>The fields of an entry are a \<open>Map\<close>.\<close>

fun group_wf :: "KdbxGroup \<Rightarrow> bool" where
  "group_wf (KdbxGroup _ _ es gs) \<longleftrightarrow> list_all (\<lambda>e. distinct (map fst (ke_fields e))) es \<and> list_all group_wf gs"

lemma wf_put_entry: "wf_snapshot acc \<Longrightarrow> distinct (map fst (ke_fields e)) \<Longrightarrow> wf_snapshot (put_entry lib path e acc)"
  by (auto simp: wf_snapshot_def put_entry_def entry_snapshot_def comp_def case_prod_unfold dest!: alist_update_mem)

lemma wf_put_entries:
  "list_all (\<lambda>e. distinct (map fst (ke_fields e))) es \<Longrightarrow> wf_snapshot acc \<Longrightarrow> wf_snapshot (fold (put_entry lib path) es acc)"
  by (induction es arbitrary: acc) (simp_all add: wf_put_entry)

lemma wf_put_group: "wf_snapshot acc \<Longrightarrow> wf_snapshot (acc\<lparr>db_groups := AList.update u p (db_groups acc)\<rparr>)"
  by (simp add: wf_snapshot_def)

lemma fold_keeps: "(\<And>x a. x \<in> set xs \<Longrightarrow> P a \<Longrightarrow> P (f x a)) \<Longrightarrow> P a \<Longrightarrow> P (fold f xs a)"
  by (induction xs arbitrary: a) simp_all

lemma wf_collectGroup: "group_wf g \<Longrightarrow> wf_snapshot acc \<Longrightarrow> wf_snapshot (collectGroup lib path g acc)"
proof (induction lib path g acc rule: collectGroup.induct)
  case (1 lib path uuid name es gs acc)
  show ?case
    unfolding collectGroup.simps
    by (rule fold_keeps [where P = wf_snapshot])
      (use 1 in \<open>auto simp: list_all_iff intro!: wf_put_entries wf_put_group\<close>)
qed

lemma snapshotDatabase_wf: "list_all group_wf (kl_groups lib db) \<Longrightarrow> wf_snapshot (snapshotDatabase lib db)"
  unfolding snapshotDatabase_def
  by (rule fold_keeps [where P = wf_snapshot]) (auto simp: list_all_iff intro!: wf_collectGroup, simp add: wf_snapshot_def)

section \<open>What a diff says\<close>

definition entry_differs :: "EntrySnapshot \<Rightarrow> EntrySnapshot \<Rightarrow> bool" where
  "entry_differs b i \<longleftrightarrow> map_of (es_fields b) \<noteq> map_of (es_fields i) \<or> es_groupPath b \<noteq> es_groupPath i \<or>
     js_join [CHR 0x00] (es_binaryKeys b) \<noteq> js_join [CHR 0x00] (es_binaryKeys i)"

lemma map_of_filter_keys:
  "distinct (map fst xs) \<Longrightarrow> fst ` set (filter (\<lambda>(k, v). m k \<noteq> Some v) xs) = {k. map_of xs k \<noteq> None \<and> m k \<noteq> map_of xs k}"
  by (force simp: image_iff)

lemma set_changedEntryFields:
  assumes "distinct (map fst (es_fields i))"
  shows "set (changedEntryFields b i) = {k. map_of (es_fields b) k \<noteq> map_of (es_fields i) k} \<union>
    (if es_groupPath b \<noteq> es_groupPath i then {''Group''} else {}) \<union>
    (if js_join [CHR 0x00] (es_binaryKeys b) \<noteq> js_join [CHR 0x00] (es_binaryKeys i) then {''Attachments''} else {})"
proof -
  have new: "set (map fst (filter (\<lambda>(key, value). map_of (es_fields b) key \<noteq> Some value) (es_fields i))) =
      {k. map_of (es_fields i) k \<noteq> None \<and> map_of (es_fields b) k \<noteq> map_of (es_fields i) k}"
    using map_of_filter_keys [OF assms, of "map_of (es_fields b)"] by (simp only: set_map)
  have "set (map fst (filter (\<lambda>(key, value). map_of (es_fields b) key \<noteq> Some value) (es_fields i))) \<union>
      set (filter (\<lambda>key. map_of (es_fields i) key = None) (map fst (es_fields b))) =
      {k. map_of (es_fields b) k \<noteq> map_of (es_fields i) k}"
  proof (rule set_eqI)
    fix k
    have "k \<in> fst ` set (es_fields b) \<longleftrightarrow> map_of (es_fields b) k \<noteq> None"
      by (simp add: map_of_eq_None_iff)
    then show "k \<in> set (map fst (filter (\<lambda>(key, value). map_of (es_fields b) key \<noteq> Some value) (es_fields i))) \<union>
        set (filter (\<lambda>key. map_of (es_fields i) key = None) (map fst (es_fields b))) \<longleftrightarrow>
        k \<in> {k. map_of (es_fields b) k \<noteq> map_of (es_fields i) k}"
      unfolding new Un_iff mem_Collect_eq set_filter set_map [of fst "es_fields b"]
      by (cases "map_of (es_fields i) k"; cases "map_of (es_fields b) k") simp_all
  qed
  then show ?thesis by (auto simp: changedEntryFields_def Let_def)
qed

lemma changedEntryFields_empty:
  assumes "distinct (map fst (es_fields i))"
  shows "length (changedEntryFields b i) > 0 \<longleftrightarrow> entry_differs b i"
proof -
  have "length (changedEntryFields b i) > 0 \<longleftrightarrow> set (changedEntryFields b i) \<noteq> {}" by simp
  also have "\<dots> \<longleftrightarrow> entry_differs b i"
    unfolding set_changedEntryFields [OF assms] entry_differs_def by (auto simp: fun_eq_iff)
  finally show ?thesis .
qed

lemma wf_snapshot_get:
  assumes "wf_snapshot s" "map_of (db_entries s) u = Some e"
  shows "es_uuid e = u" and "distinct (map fst (es_fields e))"
  using assms by (auto simp: wf_snapshot_def dest!: map_of_SomeD)

lemma uuids_of:
  assumes "wf_snapshot s"
  shows "de_uuid ` set (map (\<lambda>(_, e). summarize e) (filter (\<lambda>(u, _). P u) (db_entries s))) =
    {u. P u \<and> map_of (db_entries s) u \<noteq> None}"
proof -
  have "es_uuid e = u" if "(u, e) \<in> set (db_entries s)" for u e
    using assms that by (auto simp: wf_snapshot_def)
  moreover have "map_of (db_entries s) u \<noteq> None \<longleftrightarrow> (\<exists>e. (u, e) \<in> set (db_entries s))" for u
    by (force simp: map_of_eq_None_iff)
  ultimately show ?thesis by (force simp: summarize_def)
qed

lemma changed_entry_iff:
  "c \<in> set (changed_entry base (u, e)) \<longleftrightarrow>
     (\<exists>b. map_of (db_entries base) u = Some b \<and> changedEntryFields b e \<noteq> [] \<and>
        c = DiffEntrySummary.extend (summarize e) \<lparr>de_changedFields = changedEntryFields b e\<rparr>)"
  by (cases "map_of (db_entries base) u") (auto simp: changed_entry_def Let_def)

lemma extend_fields [simp]:
  "de_uuid (DiffEntrySummary.extend d m) = de_uuid d"
  "de_changedFields (DiffEntrySummary.extend d \<lparr>de_changedFields = fs\<rparr>) = fs"
  by (simp_all add: DiffEntrySummary.extend_def)

lemma changed_iff:
  assumes "wf_snapshot incoming"
  shows "c \<in> set (changedEntries (diffSnapshots base incoming)) \<longleftrightarrow>
    (\<exists>b e. map_of (db_entries base) (de_uuid c) = Some b \<and> map_of (db_entries incoming) (de_uuid c) = Some e \<and>
       entry_differs b e \<and>
       c = DiffEntrySummary.extend (summarize e) \<lparr>de_changedFields = changedEntryFields b e\<rparr>)"
proof -
  have keys: "distinct (map fst (db_entries incoming))" using assms by (simp add: wf_snapshot_def)
  have own: "es_uuid e = u \<and> (changedEntryFields b e \<noteq> [] \<longleftrightarrow> entry_differs b e)"
    if "map_of (db_entries incoming) u = Some e" for u e b
    using wf_snapshot_get [OF assms that] changedEntryFields_empty by auto
  have "c \<in> set (changedEntries (diffSnapshots base incoming)) \<longleftrightarrow>
      (\<exists>u e. map_of (db_entries incoming) u = Some e \<and> c \<in> set (changed_entry base (u, e)))"
    using keys by (simp add: diffSnapshots_def) (metis map_of_eq_Some_iff surj_pair)
  also have "\<dots> \<longleftrightarrow> (\<exists>b e. map_of (db_entries base) (de_uuid c) = Some b \<and>
      map_of (db_entries incoming) (de_uuid c) = Some e \<and> entry_differs b e \<and>
      c = DiffEntrySummary.extend (summarize e) \<lparr>de_changedFields = changedEntryFields b e\<rparr>)" (is "?l \<longleftrightarrow> ?r")
  proof
    assume ?l
    then obtain u e b where u: "map_of (db_entries incoming) u = Some e" "map_of (db_entries base) u = Some b"
      "changedEntryFields b e \<noteq> []"
      and c: "c = DiffEntrySummary.extend (summarize e) \<lparr>de_changedFields = changedEntryFields b e\<rparr>"
      unfolding changed_entry_iff by blast
    have "de_uuid c = u" using own [OF u(1)] c by (simp add: summarize_def)
    then show ?r using u c own [OF u(1), of b] by blast
  next
    assume ?r
    then show ?l unfolding changed_entry_iff using own by blast
  qed
  finally show ?thesis .
qed

section \<open>Properties\<close>

text \<open>
  A preview says exactly what changed. Between two snapshots of databases: the entries reported as
  added are those only the incoming one has, those reported as removed are those only the base has, and
  an entry of both is reported as changed if and only if a field, its group or its attachment names
  differ, with precisely the names of the fields that differ (a protected one by its fingerprint) and
  \<open>Group\<close> or \<open>Attachments\<close> where these do.\<close>

theorem diff_reports_every_change:
  assumes "wf_snapshot base" and "wf_snapshot incoming" and "d = diffSnapshots base incoming"
  shows "de_uuid ` set (addedEntries d) =
      {u. map_of (db_entries base) u = None \<and> map_of (db_entries incoming) u \<noteq> None} \<and>
    de_uuid ` set (removedEntries d) =
      {u. map_of (db_entries incoming) u = None \<and> map_of (db_entries base) u \<noteq> None} \<and>
    (\<forall>u b e. map_of (db_entries base) u = Some b \<longrightarrow> map_of (db_entries incoming) u = Some e \<longrightarrow>
       ((\<exists>c \<in> set (changedEntries d). de_uuid c = u) \<longleftrightarrow> entry_differs b e)) \<and>
    (\<forall>c \<in> set (changedEntries d). \<exists>b e.
       map_of (db_entries base) (de_uuid c) = Some b \<and> map_of (db_entries incoming) (de_uuid c) = Some e \<and>
       set (de_changedFields c) = {k. map_of (es_fields b) k \<noteq> map_of (es_fields e) k} \<union>
         (if es_groupPath b \<noteq> es_groupPath e then {''Group''} else {}) \<union>
         (if js_join [CHR 0x00] (es_binaryKeys b) \<noteq> js_join [CHR 0x00] (es_binaryKeys e)
          then {''Attachments''} else {}))"
proof -
  have added: "de_uuid ` set (addedEntries d) =
      {u. map_of (db_entries base) u = None \<and> map_of (db_entries incoming) u \<noteq> None}"
    and removed: "de_uuid ` set (removedEntries d) =
      {u. map_of (db_entries incoming) u = None \<and> map_of (db_entries base) u \<noteq> None}"
    unfolding assms(3) diffSnapshots_def VaultDiff.simps
    by (rule uuids_of [OF assms(2)], rule uuids_of [OF assms(1)])
  have listed: "(\<exists>c \<in> set (changedEntries d). de_uuid c = u) \<longleftrightarrow> entry_differs b e"
    if "map_of (db_entries base) u = Some b" "map_of (db_entries incoming) u = Some e" for u b e
  proof
    assume "entry_differs b e"
    moreover have "es_uuid e = u" using wf_snapshot_get [OF assms(2) that(2)] by simp
    ultimately have "DiffEntrySummary.extend (summarize e) \<lparr>de_changedFields = changedEntryFields b e\<rparr>
        \<in> set (changedEntries d)"
      unfolding assms(3) changed_iff [OF assms(2)] using that by (simp add: summarize_def)
    then show "\<exists>c \<in> set (changedEntries d). de_uuid c = u"
      using \<open>es_uuid e = u\<close> by (force simp: summarize_def)
  next
    assume "\<exists>c \<in> set (changedEntries d). de_uuid c = u"
    then obtain c where "c \<in> set (changedEntries (diffSnapshots base incoming))" "de_uuid c = u"
      using assms(3) by blast
    then show "entry_differs b e" unfolding changed_iff [OF assms(2)] using that by auto
  qed
  have fields: "\<exists>b e. map_of (db_entries base) (de_uuid c) = Some b \<and>
      map_of (db_entries incoming) (de_uuid c) = Some e \<and>
      set (de_changedFields c) = {k. map_of (es_fields b) k \<noteq> map_of (es_fields e) k} \<union>
         (if es_groupPath b \<noteq> es_groupPath e then {''Group''} else {}) \<union>
         (if js_join [CHR 0x00] (es_binaryKeys b) \<noteq> js_join [CHR 0x00] (es_binaryKeys e)
          then {''Attachments''} else {})" if mem: "c \<in> set (changedEntries d)" for c
  proof -
    obtain b e where "map_of (db_entries base) (de_uuid c) = Some b"
      and e: "map_of (db_entries incoming) (de_uuid c) = Some e"
      and c: "de_changedFields c = changedEntryFields b e"
      using mem unfolding assms(3) changed_iff [OF assms(2)] by (metis extend_fields(2))
    then show ?thesis
      unfolding c set_changedEntryFields [OF wf_snapshot_get(2) [OF assms(2) e]] by blast
  qed
  show ?thesis
    by (intro conjI allI impI ballI)
      (rule added, rule removed, rule listed, assumption, assumption, rule fields, assumption)
qed

definition sample_entry :: "string \<Rightarrow> string \<Rightarrow> EntrySnapshot" where
  "sample_entry uuid password =
     \<lparr>es_uuid = uuid, es_title = ''Bank'', es_groupPath = ''Root'',
      es_fields = [(''Title'', ''s:Bank''), (''Password'', password)], es_binaryKeys = []\<rparr>"

theorem diff_reports_every_change_witness:
  "\<exists>c. changedEntries (diffSnapshots \<lparr>db_entries = [(''e'', sample_entry ''e'' ''p:1'')], db_groups = []\<rparr>
       \<lparr>db_entries = [(''e'', sample_entry ''e'' ''p:2'')], db_groups = []\<rparr>) = [c] \<and> de_changedFields c = [''Password'']"
proof -
  let ?b = "\<lparr>db_entries = [(''e'', sample_entry ''e'' ''p:1'')], db_groups = []\<rparr>"
  let ?i = "\<lparr>db_entries = [(''e'', sample_entry ''e'' ''p:2'')], db_groups = []\<rparr>"
  have wf: "wf_snapshot ?b" "wf_snapshot ?i"
    by (simp_all add: wf_snapshot_def sample_entry_def)
  have fields: "changedEntryFields (sample_entry ''e'' ''p:1'') (sample_entry ''e'' ''p:2'') = [''Password'']"
    by (simp add: changedEntryFields_def sample_entry_def Let_def set_of_iterable_def set_add_def)
  have "\<exists>c \<in> set (changedEntries (diffSnapshots ?b ?i)). de_uuid c = ''e''"
    using diff_reports_every_change [OF wf refl] by (auto simp: entry_differs_def sample_entry_def fun_eq_iff)
  then show ?thesis using fields by (simp add: diffSnapshots_def changed_entry_def Let_def)
qed

lemma kdbx_bind_Inr: "kdbx_bind r f = Inr y \<longleftrightarrow> (\<exists>x. r = Inr x \<and> f x = Inr y)"
  by (cases r) (simp_all add: kdbx_bind_def)

lemma merge_databases_reopens:
  assumes "merge_databases lib localBytes incoming credentials = Inr saved"
  shows "\<exists>db. open_database lib saved
    (case kcs_output credentials of None \<Rightarrow> kcs_local credentials | Some c \<Rightarrow> c) = Inr db"
  using assms by (auto simp: merge_databases_def kdbx_bind_Inr Let_def)

lemma load_revisions_ids:
  "load_revisions (desktop_deps sha256 mergef difff deviceId) ids s = Inr rs \<Longrightarrow> map rev_id rs = ids"
  by (induction ids arbitrary: rs) (auto simp: res_bind_eq_Inr dest: getRevision_id)

abbreviation kdbx_deps where
  "kdbx_deps sha256 lib deviceId \<equiv> desktop_deps sha256 (interpreter_merge lib) (interpreter_diff lib) deviceId"

text \<open>What a finished merge leaves, whichever interpreter made its bytes.\<close>

lemma merge_done:
  assumes ok: "desktop_ok sha256 mergef difff deviceId s"
    and new: "\<not> hasRevision revisionId (en_md s)"
    and run: "merge (desktop_deps sha256 mergef difff deviceId) vaultId base incoming cs msg now revisionId s = (Inr (MergeDone r), t)"
  obtains loc mats saved ps where "mergef vaultId loc mats cs = MergeSucceeded saved ps" "sha256 saved = rev_hash r"
    and "rev_id r = revisionId" "rev_parentIds r = base # incoming" "distinct (base # incoming)"
    and "\<exists>r'. getRevision revisionId (en_md t) = Some r' \<and> rev_hash r' = rev_hash r \<and>
       set (rev_parentIds r') = set (base # incoming)"
    and "\<forall>v. getVault v (en_md t) = getVault v (en_md s)"
    and "db_conflicts (en_md t) = db_conflicts (en_md s)"
proof -
  let ?deps = "desktop_deps sha256 mergef difff deviceId"
  obtain br inc loc mats where inputs: "merge_inputs ?deps base incoming s = Inr (br, inc, loc, mats)"
    using run by (cases "merge_inputs ?deps base incoming s") (auto simp: merge_def act_bind_simp act_read_def)
  then have ids: "rev_id br = base" "map rev_id inc = incoming"
    by (auto simp: merge_inputs_def res_bind_eq_Inr dest: getRevision_id load_revisions_ids)
  obtain saved ps where merged: "dep_merge ?deps vaultId loc mats cs = MergeSucceeded saved ps"
    using run inputs
    by (cases "dep_merge ?deps vaultId loc mats cs") (auto simp: merge_def act_bind_simp act_read_def)
  obtain h b where put: "file_put sha256 saved (en_bl s) = (Inr h, b)"
    and save: "act_bind (act_lift (mergedRevision (seed revisionId vaultId h (length saved) now
         (Some (case msg of Some m \<Rightarrow> m | None \<Rightarrow> ''Merged '' @ decimal_string (length inc + 1) @ '' revisions'')))
         base incoming (Some (dep_deviceId ?deps))))
         (\<lambda>revision. act_bind (on_md (ms_saveRevision SqliteMetadataStore revision)) (\<lambda>_. act_return (MergeDone revision)))
       (s\<lparr>en_bl := b\<rparr>) = (Inr (MergeDone r), t)"
    using run inputs merged ids
    by (auto simp: merge_def act_bind_Inr act_read_def on_bl_def split: prod.splits)
  have h: "h = sha256 saved"
    using file_store.put_key [of sha256 saved "en_bl s" h b] put by (simp add: FileBlobStore_def)
  obtain m where rev: "mergedRevision (seed revisionId vaultId h (length saved) now
         (Some (case msg of Some m \<Rightarrow> m | None \<Rightarrow> ''Merged '' @ decimal_string (length inc + 1) @ '' revisions'')))
         base incoming (Some (dep_deviceId ?deps)) = Inr r"
    and stored: "ms_saveRevision SqliteMetadataStore r (en_md s) = (Inr (), m)" and t: "t = s\<lparr>en_bl := b, en_md := m\<rparr>"
    using save by (auto simp: act_bind_Inr on_md_def split: prod.splits)
  have r: "rev_id r = revisionId" "rev_hash r = h" "rev_parentIds r = base # incoming" "distinct (base # incoming)"
    using rev by (auto simp: mergedRevision_def res_bind_eq_Inr Let_def length_set_of_iterable_le simp del: distinct.simps
        dest!: base_revision_fields)
  note law = sqlite_md.save_revision [OF desktop_ok_sound(1) [OF ok] stored]
  show thesis
  proof
    show "mergef vaultId loc mats cs = MergeSucceeded saved ps" using merged by (simp add: desktop_deps_def)
    show "sha256 saved = rev_hash r" "rev_id r = revisionId" "rev_parentIds r = base # incoming" "distinct (base # incoming)"
      using r h by simp_all
    show "\<exists>r'. getRevision revisionId (en_md t) = Some r' \<and> rev_hash r' = rev_hash r \<and>
       set (rev_parentIds r') = set (base # incoming)"
      using law new r t by auto
    show "\<forall>v. getVault v (en_md t) = getVault v (en_md s)" using law new r t by simp
    have "saveRevision r (en_md s) = (Inr (), m)" using stored by (simp add: SqliteMetadataStore_def)
    then show "db_conflicts (en_md t) = db_conflicts (en_md s)"
      unfolding t by (rule saveRevision_cases) simp_all
  qed
qed

text \<open>
  A merge is stored, readable and puts nothing in use. When the engine with the KDBX interpreter
  answers that a merge is done, the new revision is stored with the base and all incoming revisions as
  its parents, no two the same; the bytes stored under its hash are the ones that were opened again
  with the output credentials before they were returned; and no vault, so no head, has changed.\<close>

theorem merge_stores_what_reopens:
  assumes "engine_run (kdbx_deps sha256 lib deviceId) (fresh_install tape) s"
    and "\<not> hasRevision revisionId (en_md s)"
    and "merge (kdbx_deps sha256 lib deviceId) vaultId base incoming (Some cs) msg now revisionId s = (Inr (MergeDone r), t)"
  shows "rev_id r = revisionId \<and> rev_parentIds r = base # incoming \<and> distinct (base # incoming) \<and>
    (\<exists>saved db. sha256 saved = rev_hash r \<and>
       open_database lib saved (case kcs_output cs of None \<Rightarrow> kcs_local cs | Some c \<Rightarrow> c) = Inr db) \<and>
    (\<exists>r'. getRevision revisionId (en_md t) = Some r' \<and> rev_hash r' = rev_hash r \<and>
       set (rev_parentIds r') = set (base # incoming)) \<and>
    (\<forall>v. getVault v (en_md t) = getVault v (en_md s))"
proof -
  have ok: "desktop_ok sha256 (interpreter_merge lib) (interpreter_diff lib) deviceId s"
    using desktop.engine_run_ok [OF assms(1) fresh_install_ok] .
  show ?thesis
  proof (rule merge_done [OF ok assms(2,3)], goal_cases)
    case (1 loc mats saved ps)
    have "\<exists>db. open_database lib saved (case kcs_output cs of None \<Rightarrow> kcs_local cs | Some c \<Rightarrow> c) = Inr db"
      using 1(1) by (auto simp: interpreter_merge_def split: if_splits sum.splits dest: merge_databases_reopens)
    then show ?case using 1 by blast
  qed
qed

definition sample_library :: "unit KdbxLibrary" where
  "sample_library = \<lparr>kl_load = (\<lambda>_ _. Inr ()), kl_merge = (\<lambda>_ _. Inr ()), kl_setCredentials = (\<lambda>_ _. ()),
     kl_save = (\<lambda>_. Inr [1]), kl_groups = (\<lambda>_. []), kl_sha256 = (\<lambda>_. []), kl_getText = (\<lambda>_. [])\<rparr>"

definition sample_kdbx_deps :: "(KdbxCredentialSet option, VaultDiff) desktop" where
  "sample_kdbx_deps = kdbx_deps sample_sha sample_library ''dev''"

definition two_versions :: "(metadata_db, disk) engine" where
  "two_versions = snd (recordLocalChange sample_kdbx_deps ''v'' [2] 8 ''r1''
     (snd (importVault sample_kdbx_deps ''home'' [1] None 7 ''v'' ''r0'' (fresh_install []))))"

lemma two_versions_run: "engine_run sample_kdbx_deps (fresh_install []) two_versions"
proof (rule run_step)
  let ?one = "snd (importVault sample_kdbx_deps ''home'' [1] None 7 ''v'' ''r0'' (fresh_install []))"
  have new: "\<not> hasRevision ''r0'' empty_db" by (simp add: hasRevision_def empty_db_def)
  have "engine_step sample_kdbx_deps (fresh_install []) ?one"
    by (intro step_import [of _ "''r0''" _ "''home''" "[1]" None 7 "''v''", OF _ surjective_pairing])
      (use new in \<open>simp add: sample_kdbx_deps_def fresh_install_def\<close>)
  then show "engine_run sample_kdbx_deps (fresh_install []) ?one" by (rule run_step [OF run_none])
  have "\<not> hasRevision ''r1'' (en_md ?one)" by code_simp
  then show "engine_step sample_kdbx_deps ?one two_versions"
    unfolding two_versions_def
    by (intro step_local [of _ "''r1''" _ "''v''" "[2]" 8, OF _ surjective_pairing])
      (simp add: sample_kdbx_deps_def)
qed

theorem merge_stores_what_reopens_witness:
  "\<exists>r t. merge sample_kdbx_deps ''v'' ''r1'' [''r0''] (Some (uniformCredentials ''pw'' 1)) None 9 ''r2'' two_versions =
      (Inr (MergeDone r), t) \<and> rev_parentIds r = [''r1'', ''r0''] \<and> getVault ''v'' (en_md t) = getVault ''v'' (en_md two_versions)"
proof -
  let ?m = "merge sample_kdbx_deps ''v'' ''r1'' [''r0''] (Some (uniformCredentials ''pw'' 1)) None 9 ''r2'' two_versions"
  have "case fst ?m of Inr (MergeDone r) \<Rightarrow> True | _ \<Rightarrow> False" by code_simp
  then obtain r where "fst ?m = Inr (MergeDone r)"
    by (auto split: sum.splits MergeOutcome.splits)
  then obtain t where m: "?m = (Inr (MergeDone r), t)" by (metis prod.collapse)
  have "\<not> hasRevision ''r2'' (en_md two_versions)" by code_simp
  from merge_stores_what_reopens [OF two_versions_run [unfolded sample_kdbx_deps_def] this m [unfolded sample_kdbx_deps_def]] m
  show ?thesis by auto
qed

end
