(* ===== verification/Failure_Messages.thy ===== *)
theory Failure_Messages
  imports Sync_Session
begin

text \<open>
  What the user is told when a synchronisation fails: \<open>explainFailure\<close>, \<open>describeSync\<close> and \<open>short\<close> of
  packages/services/src/vaultServices.ts. The sentences themselves are named by constructors; which one
  is chosen, and with which names in it, is as in the source.
\<close>

datatype SyncExplanation =
    SeparateFiles string string
  | NeitherHasFile
  | LostTrackOfFile
  | DisconnectedHere | DisconnectedThere
  | NotSetUpHere | NotSetUpThere
  | KeyChangedHere | KeyChangedThere
  | NotConfirmedHere | NotConfirmedThere
  | PeerUnproven | WeAreUnproven
  | DifferentBuilds
  | UnreadableMessage
  | StoppedResponding
  | DisconnectedEarly
  | CouldNotFinish string

text \<open>The characters up to the next quotation mark, and what follows that mark.\<close>

definition up_to_quote :: "string \<Rightarrow> (string \<times> string) option" where
  "up_to_quote s =
     (case dropWhile (\<lambda>c. c \<noteq> CHR 0x22) s of
        [] \<Rightarrow> None
      | _ # rest \<Rightarrow> Some (takeWhile (\<lambda>c. c \<noteq> CHR 0x22) s, rest))"

definition strip_prefix :: "string \<Rightarrow> string \<Rightarrow> string option" where
  "strip_prefix p s = (if take (length p) s = p then Some (drop (length p) s) else None)"

definition TRACKS_PREFIX :: string where "TRACKS_PREFIX = ''This device tracks '' @ [CHR 0x22]"
definition PEER_TRACKS :: string where "PEER_TRACKS = '' and the peer tracks '' @ [CHR 0x22]"

definition match_files_here :: "string \<Rightarrow> (string \<times> string) option" where
  "match_files_here s =
     (case strip_prefix TRACKS_PREFIX s of
        None \<Rightarrow> None
      | Some s1 \<Rightarrow>
          (case up_to_quote s1 of
             None \<Rightarrow> None
           | Some (ours, s2) \<Rightarrow>
               (case strip_prefix PEER_TRACKS s2 of
                  None \<Rightarrow> None
                | Some s3 \<Rightarrow> map_option (\<lambda>(theirs, _). (ours, theirs)) (up_to_quote s3))))"

text \<open>\<open>RegExp.exec\<close>: the first place in the text where the pattern matches.\<close>

fun match_files :: "string \<Rightarrow> (string \<times> string) option" where
  "match_files [] = None"
| "match_files (c # s) = (case match_files_here (c # s) of Some m \<Rightarrow> Some m | None \<Rightarrow> match_files s)"

definition explainFailure :: "string \<Rightarrow> SessionCode option \<Rightarrow> SyncExplanation" where
  "explainFailure reason code =
     (let weRefused = js_includes reason ''peer rejected:'' in
      case match_files reason of
        Some (ours, theirs) \<Rightarrow> SeparateFiles ours theirs
      | None \<Rightarrow>
      if js_includes reason ''neither device is tracking a vault'' then NeitherHasFile
      else if js_includes reason ''does not track that vault'' then LostTrackOfFile
      else if js_includes reason ''device has been revoked''
      then (if weRefused then DisconnectedHere else DisconnectedThere)
      else if js_includes reason ''device is not paired with this one''
      then (if weRefused then NotSetUpHere else NotSetUpThere)
      else if js_includes reason ''device key has changed since pairing''
      then (if weRefused then KeyChangedHere else KeyChangedThere)
      else if js_includes reason ''the pairing numbers were not confirmed''
      then (if weRefused then NotConfirmedHere else NotConfirmedThere)
      else if js_includes reason ''device id does not match'' \<or> js_includes reason ''signature did not verify''
      then (if weRefused then PeerUnproven else WeAreUnproven)
      else if code = Some (ProtocolCode UnsupportedVersion) \<or> js_includes reason ''speaks protocol''
      then DifferentBuilds
      else if code = Some (ProtocolCode MalformedMessage) \<or> code = Some (ProtocolCode LimitExceeded)
      then UnreadableMessage
      else if code = Some Timeout \<or> js_includes reason ''timed out waiting for'' then StoppedResponding
      else if code = Some Closed \<or> js_includes reason ''closed the control channel'' then DisconnectedEarly
      else CouldNotFinish reason)"

definition plural :: "nat \<Rightarrow> string" where
  "plural n = (if n = 1 then '''' else ''s'')"

text \<open>The report of a finished synchronisation; the dash between its parts is written as \<open>--\<close>.\<close>

definition describeSync :: "string \<Rightarrow> nat \<Rightarrow> nat \<Rightarrow> nat \<Rightarrow> string" where
  "describeSync peerName received sent missing =
     (let shortfall = (if missing = 0 then ''''
            else '' '' @ decimal_string missing @ '' change'' @ plural missing @
              '' did not arrive; they will be fetched again next time.'')
      in if received = 0 \<and> sent = 0
         then (if missing = 0 then ''Checked with '' @ peerName @ '' -- already in step.''
               else ''Checked with '' @ peerName @ ''.'' @ shortfall)
         else let parts = (if received > 0 then [''received '' @ decimal_string received @ '' change'' @ plural received] else [])
                        @ (if sent > 0 then [''sent '' @ decimal_string sent] else [])
              in ''Synced with '' @ peerName @ '' -- '' @
                 (case parts of [] \<Rightarrow> [] | x # rest \<Rightarrow> x @ concat (map (\<lambda>y. '' and '' @ y) rest)) @ ''.'' @ shortfall)"

section \<open>Properties\<close>

text \<open>Why the authenticator turned a peer away, read off what it was given.\<close>

lemma reject_reason:
  assumes "verifyPeer sha256 ed_verify options store i s = Inr (Reject reason, t)"
  shows "reason =
    (if deviceIdFor sha256 (vi_publicKey i) \<noteq> vi_deviceId i then ''device id does not match the presented public key''
     else if \<not> verify ed_verify (vi_publicKey i) (peer_challenge options i) (vi_signature i)
     then ''signature did not verify against the presented key''
     else case ts_get store (vi_deviceId i) s of
            None \<Rightarrow> if \<not> ao_pairingMode options then ''device is not paired with this one''
                    else ''the pairing numbers were not confirmed on this device''
          | Some known \<Rightarrow> if pd_trust known = Revoked then ''device has been revoked''
                    else ''device key has changed since pairing; pair again to accept the new key'')"
  using assms
  by (auto simp: verifyPeer_def evaluateTrust_def split: if_splits option.splits)

text \<open>
  C39: A refusal is explained on both screens, by what caused it. When the authenticator turns a peer away,
  the device that refused (whose session fails with \<open>peer rejected:\<close> and the reason) and the device that was
  refused (whose session fails with \<open>peer reported:\<close> and the reason the error message carried) are told,
  each from its own side: that the peer could not prove its identity, when the id it claimed is not that of its key
  or its signature does not verify (one text for both); that the device is not set up, when it is unknown and no
  pairing is under way; that the digits were not confirmed, when it is unknown in pairing mode; that it was
  disconnected, when it is recorded as revoked; and that its key has changed, when it is recorded with another.\<close>

theorem refusals_explained_on_both_sides:
  assumes "verifyPeer sha256 ed_verify options store i s = Inr (Reject reason, t)"
  shows "(explainFailure (''peer rejected: '' @ reason) (Some (ProtocolCode Unauthorized)),
          explainFailure (''peer reported: '' @ reason) (Some (ProtocolCode Unauthorized))) =
    (if deviceIdFor sha256 (vi_publicKey i) \<noteq> vi_deviceId i \<or>
        \<not> verify ed_verify (vi_publicKey i) (peer_challenge options i) (vi_signature i)
     then (PeerUnproven, WeAreUnproven)
     else case ts_get store (vi_deviceId i) s of
            None \<Rightarrow> if \<not> ao_pairingMode options then (NotSetUpHere, NotSetUpThere) else (NotConfirmedHere, NotConfirmedThere)
          | Some known \<Rightarrow> if pd_trust known = Revoked then (DisconnectedHere, DisconnectedThere)
                           else (KeyChangedHere, KeyChangedThere))"
proof -
  define told where "told = (\<lambda>r. (explainFailure (''peer rejected: '' @ r) (Some (ProtocolCode Unauthorized)),
          explainFailure (''peer reported: '' @ r) (Some (ProtocolCode Unauthorized))))"
  have "told ''device id does not match the presented public key'' = (PeerUnproven, WeAreUnproven)"
    "told ''signature did not verify against the presented key'' = (PeerUnproven, WeAreUnproven)"
    "told ''device is not paired with this one'' = (NotSetUpHere, NotSetUpThere)"
    "told ''the pairing numbers were not confirmed on this device'' = (NotConfirmedHere, NotConfirmedThere)"
    "told ''device has been revoked'' = (DisconnectedHere, DisconnectedThere)"
    "told ''device key has changed since pairing; pair again to accept the new key'' = (KeyChangedHere, KeyChangedThere)"
    unfolding told_def by code_simp+
  then show ?thesis
    unfolding reject_reason [OF assms] told_def [THEN fun_cong, symmetric] by (simp split: option.split)
qed

definition unknown_peer :: VerifyInput where
  "unknown_peer = \<lparr>vi_deviceId = deviceIdFor (\<lambda>_. [1]) [2], vi_publicKey = [2], vi_nonce = [], vi_signature = [],
     vi_claimedName = ''phone''\<rparr>"

definition no_pairing :: AuthenticatorOptions where
  "no_pairing = \<lparr>ao_keyPair = \<lparr>kp_deviceId = ''d'', kp_publicKey = [3], kp_privateKey = [4]\<rparr>,
     ao_deviceName = ''laptop'', ao_pairingMode = False, ao_confirmPairing = None, ao_now = 0\<rparr>"

theorem refusals_explained_on_both_sides_witness:
  "explainFailure (''peer rejected: '' @ ''device is not paired with this one'') (Some (ProtocolCode Unauthorized)) = NotSetUpHere \<and>
   explainFailure (''peer reported: '' @ ''device is not paired with this one'') (Some (ProtocolCode Unauthorized)) = NotSetUpThere"
proof -
  have "verifyPeer (\<lambda>_. [1]) (\<lambda>_ _ _. Some True) no_pairing createSqliteTrustStore unknown_peer [] =
      Inr (Reject ''device is not paired with this one'', [])"
    by (simp add: verifyPeer_def unknown_peer_def no_pairing_def verify_def evaluateTrust_def
        createSqliteTrustStore_def sql_get_def)
  moreover have "deviceIdFor (\<lambda>_. [1]) (vi_publicKey unknown_peer) = vi_deviceId unknown_peer"
    "verify (\<lambda>_ _ _. Some True) (vi_publicKey unknown_peer) c (vi_signature unknown_peer)"
    "ts_get createSqliteTrustStore (vi_deviceId unknown_peer) [] = None" "\<not> ao_pairingMode no_pairing" for c
    by (simp_all add: unknown_peer_def no_pairing_def verify_def createSqliteTrustStore_def sql_get_def)
  ultimately show ?thesis using refusals_explained_on_both_sides [of "\<lambda>_. [1]" "\<lambda>_ _ _. Some True" no_pairing createSqliteTrustStore unknown_peer "[]"]
    by (simp only: if_False if_True simp_thms option.case prod.inject)
qed

text \<open>
  A device that lost track of its vault is not told so: its own failure reads \<open>local device does not
  track this vault\<close>, which no case matches, and it is the other device, holding the message sent to it,
  that is told that it lost track of its file.
\<close>

lemma lost_track_advice_on_the_wrong_device:
  "explainFailure ''local device does not track this vault'' (Some (ProtocolCode UnknownVault)) =
     CouldNotFinish ''local device does not track this vault'' \<and>
   explainFailure (''peer reported: '' @ ''this device does not track that vault'') (Some (ProtocolCode UnknownVault)) =
     LostTrackOfFile"
  by code_simp

end
