(* ===== verification/Vault_Services.thy ===== *)
theory Vault_Services
  imports Kdbx_Interpreter Vault_File Settings_Store Failure_Messages
begin

text \<open>
  The application's service object, \<open>VaultServices\<close> of packages/services/src/vaultServices.ts: its state
  and the operations on the vault and its file. It owns the engine with its stores, the trust store, the
  settings and the rendezvous table, and keeps the file the password manager opens in step with the
  current version.

  A method runs to its end here, from a state to a state, with the time and the ids it would draw as
  arguments. A line of the activity list is named by a constructor (the sentence and its time are not
  modelled); the callbacks into the window are recorded in the order they are made. The platform's
  files are any \<open>VaultFileAccess\<close>.
\<close>

section \<open>State\<close>

definition MAX_ACTIVITY :: nat where "MAX_ACTIVITY = 200"

definition ACTIVE_VAULT_KEY :: string where "ACTIVE_VAULT_KEY = ''activeVault''"

record LoadedIdentity =
  li_keyPair :: DeviceKeyPair
  li_name :: string
  li_atRestUnprotected :: bool

record Rendezvous =
  rv_roomId :: string
  rv_inviteToken :: string
  rv_signalUrl :: string

record RendezvousRow =
  rz_device_id :: string
  rz_room_id :: string
  rz_invite_token :: string
  rz_signal_url :: string
  rz_updated_at :: Date

text \<open>The promise a verification holds open is named by the session that waits for it.\<close>

record Verification =
  vn_deviceId :: DeviceId
  vn_peerName :: string
  vn_code :: string
  vn_session :: PeerId

datatype service_call = SnapshotChanged | SyncSuggested | ConfirmResolved PeerId bool

datatype activity_line =
    NoKeychain | ReopenedVault string | ChooseVault | BackTo string | NowTracking string | Tracking string
  | StoppedTracking | SavedInKeePass | WatchingFailed string | FileIsOpen | UpdatedFile | DidNotWrite
  | WroteRevision RevisionId string | SavedTo string | EarlierVersionInUse | MeetingThrough string
  | ReadyWithLink | ReadyWithCode string | CheckDigits string | ConfirmedDigits string | RefusedDigits string
  | NotConfirmedInTime | DisconnectedBeforeConfirm | DisconnectedDevice DeviceId | ReconnectedDevice string
  | ForgotDevice string | AuthenticatedPeer DeviceId | JoinedVault string | SyncReport string
  | BroughtUpToDate | BothChanged | SwitchedToOther | KeptThisVersion | LeftBothVersions
  | MergeFailedBecause string | CombinedChanges | UsingCombined | SyncFailedBecause SyncExplanation

record 'f VaultServices =
  sv_engine :: "(metadata_db, disk) engine"
  sv_files :: 'f
  sv_trust :: devices_table
  sv_rendezvous :: "RendezvousRow list"
  sv_settings :: SettingsStore
  sv_vaultId :: "VaultId option"
  sv_watcher :: "string option"
  sv_activity :: "activity_line list"
  sv_sessionsInFlight :: "PeerId list"
  sv_livePeers :: "(PeerId \<times> DeviceId option) list"
  sv_pendingRendezvous :: "Rendezvous option"
  sv_updateHeldBack :: bool
  sv_verification :: "Verification option"
  sv_unlockTimer :: bool
  sv_pairingStartedAt :: "Date option"
  sv_calls :: "service_call list"

record 'f VaultServicesDeps =
  vd_engine :: "(KdbxCredentialSet option, VaultDiff) desktop"
  vd_files :: "'f VaultFileAccess"
  vd_canWatch :: bool
  vd_identity :: LoadedIdentity
  vd_sha256 :: "bytes \<Rightarrow> bytes"
  vd_defaultServerHost :: string

section \<open>Plumbing\<close>

definition on_engine :: "((metadata_db, disk) engine, 'a) action \<Rightarrow> ('f VaultServices, 'a) action" where
  "on_engine a s = (case a (sv_engine s) of (r, e) \<Rightarrow> (r, s\<lparr>sv_engine := e\<rparr>))"

definition on_files :: "('f, 'a) action \<Rightarrow> ('f VaultServices, 'a) action" where
  "on_files a s = (case a (sv_files s) of (r, f) \<Rightarrow> (r, s\<lparr>sv_files := f\<rparr>))"

definition act_modify :: "('s \<Rightarrow> 's) \<Rightarrow> ('s, unit) action" where
  "act_modify f s = (Inr (), f s)"

definition act_then :: "('s, 'a) action \<Rightarrow> ('s, 'b) action \<Rightarrow> ('s, 'b) action" where
  "act_then a b = act_bind a (\<lambda>_. b)"

definition act_catch :: "('s, 'a) action \<Rightarrow> (js_error \<Rightarrow> ('s, 'a) action) \<Rightarrow> ('s, 'a) action" where
  "act_catch a handler s = (case a s of (Inl e, t) \<Rightarrow> handler e t | (Inr x, t) \<Rightarrow> (Inr x, t))"

definition log_line :: "activity_line \<Rightarrow> ('f VaultServices, unit) action" where
  "log_line line = act_modify (\<lambda>s. s\<lparr>sv_activity := take MAX_ACTIVITY (line # sv_activity s)\<rparr>)"

definition call_out :: "service_call \<Rightarrow> ('f VaultServices, unit) action" where
  "call_out c = act_modify (\<lambda>s. s\<lparr>sv_calls := sv_calls s @ [c]\<rparr>)"

definition the_vault :: "VaultId \<Rightarrow> 'f VaultServices \<Rightarrow> Vault option" where
  "the_vault v s = getVault v (en_md (sv_engine s))"

definition requireVaultId :: "'f VaultServices \<Rightarrow> VaultId result" where
  "requireVaultId s =
     (case sv_vaultId s of None \<Rightarrow> Inl (ThrownError ''No vault is being tracked.'') | Some v \<Rightarrow> Inr v)"

section \<open>Which vault is being tracked\<close>

definition setActiveVault :: "VaultId option \<Rightarrow> ('f VaultServices, unit) action" where
  "setActiveVault vaultId = act_modify (\<lambda>s. s\<lparr>sv_vaultId := vaultId,
     sv_settings := (sv_settings s)\<lparr>st_rows :=
       (case vaultId of
          None \<Rightarrow> AList.delete ACTIVE_VAULT_KEY (st_rows (sv_settings s))
        | Some v \<Rightarrow> AList.update ACTIVE_VAULT_KEY (OtherText v) (st_rows (sv_settings s)))\<rparr>\<rparr>)"

text \<open>The row holds the id itself, which is not JSON text.\<close>

definition storedActiveVaultId :: "'f VaultServices \<Rightarrow> VaultId option" where
  "storedActiveVaultId s =
     (case map_of (st_rows (sv_settings s)) ACTIVE_VAULT_KEY of Some (OtherText v) \<Rightarrow> Some v | _ \<Rightarrow> None)"

section \<open>Watching the file\<close>

definition clear_held_back :: "'f VaultServices \<Rightarrow> 'f VaultServices" where
  "clear_held_back s = s\<lparr>sv_updateHeldBack := False, sv_unlockTimer := False\<rparr>"

definition clearHeldBackUpdate :: "('f VaultServices, unit) action" where
  "clearHeldBackUpdate = act_modify clear_held_back"

definition startWatching :: "'f VaultServicesDeps \<Rightarrow> string \<Rightarrow> ('f VaultServices, unit) action" where
  "startWatching deps kdbxPath = act_modify (\<lambda>s. s\<lparr>sv_watcher := if vd_canWatch deps then Some kdbxPath else None\<rparr>)"

text \<open>The callback given to the watcher: it records into the vault that is active when it runs.\<close>

definition onWatchedChange ::
  "'f VaultServicesDeps \<Rightarrow> bytes \<Rightarrow> Date \<Rightarrow> RevisionId \<Rightarrow> ('f VaultServices, unit) action" where
  "onWatchedChange deps bs now revisionId s =
     (case sv_vaultId s of
        None \<Rightarrow> (Inr (), s)
      | Some vaultId \<Rightarrow>
          act_catch (act_bind (on_engine (recordLocalChange (vd_engine deps) vaultId bs now revisionId)) (\<lambda>result.
            case result of
              Unchanged _ \<Rightarrow> act_return ()
            | Recorded _ \<Rightarrow>
                act_then clearHeldBackUpdate (act_then (log_line SavedInKeePass)
                  (act_then (call_out SnapshotChanged) (call_out SyncSuggested)))))
            (\<lambda>e. log_line (WatchingFailed (error_message e))) s)"

datatype record_outcome = FileRecorded | FileUnchanged | NoVault

definition recordFileNow :: "'f VaultServicesDeps \<Rightarrow> Date \<Rightarrow> RevisionId \<Rightarrow> ('f VaultServices, record_outcome) action" where
  "recordFileNow deps now revisionId s =
     (case sv_vaultId s of
        None \<Rightarrow> (Inr NoVault, s)
      | Some vaultId \<Rightarrow>
          (case the_vault vaultId s of
             None \<Rightarrow> (Inr NoVault, s)
           | Some vault \<Rightarrow>
               (case vault_kdbxPath vault of
                  None \<Rightarrow> (Inr NoVault, s)
                | Some kdbxPath \<Rightarrow>
                    act_bind (act_read (\<lambda>s. fa_read (vd_files deps) kdbxPath (sv_files s))) (\<lambda>bs.
                    act_bind (on_engine (recordLocalChange (vd_engine deps) vaultId bs now revisionId)) (\<lambda>result.
                    case result of
                      Unchanged _ \<Rightarrow> act_return FileUnchanged
                    | Recorded _ \<Rightarrow>
                        act_then clearHeldBackUpdate (act_then (log_line SavedInKeePass)
                          (act_then (call_out SnapshotChanged) (act_then (call_out SyncSuggested)
                            (act_return FileRecorded)))))) s)))"

section \<open>Start and stop\<close>

text \<open>What is kept on disk: the engine's stores, the tables and the user's files. The rest starts empty.\<close>

definition launched :: "'f VaultServicesDeps \<Rightarrow> 'f VaultServices \<Rightarrow> 'f VaultServices" where
  "launched deps disk =
     \<lparr>sv_engine = sv_engine disk, sv_files = sv_files disk, sv_trust = sv_trust disk,
      sv_rendezvous = sv_rendezvous disk,
      sv_settings = new_SettingsStore (st_rows (sv_settings disk)) (vd_defaultServerHost deps),
      sv_vaultId = None, sv_watcher = None, sv_activity = [], sv_sessionsInFlight = [], sv_livePeers = [],
      sv_pendingRendezvous = None, sv_updateHeldBack = False, sv_verification = None, sv_unlockTimer = False,
      sv_pairingStartedAt = None, sv_calls = []\<rparr>"

definition active_at_start :: "'f VaultServices \<Rightarrow> Vault option" where
  "active_at_start s =
     (let vaults = listVaults (en_md (sv_engine s)); stored = storedActiveVaultId s
      in case find (\<lambda>vault. Some (vault_id vault) = stored) vaults of
           Some vault \<Rightarrow> Some vault
         | None \<Rightarrow> if vaults = [] then None else Some (last vaults))"

definition start :: "'f VaultServicesDeps \<Rightarrow> 'f VaultServices \<Rightarrow> unit result \<times> 'f VaultServices" where
  "start deps disk =
     act_then (if li_atRestUnprotected (vd_identity deps) then log_line NoKeychain else act_return ())
       (\<lambda>s. case active_at_start s of
          None \<Rightarrow> log_line ChooseVault s
        | Some active \<Rightarrow>
            act_then (setActiveVault (Some (vault_id active)))
              (act_then (case vault_kdbxPath active of None \<Rightarrow> act_return () | Some p \<Rightarrow> startWatching deps p)
                (log_line (ReopenedVault (vault_name active)))) s) (launched deps disk)"

text \<open>The watcher is stopped and stays in its field; closing the sessions is \<open>closeAll\<close> of the link hub.\<close>

definition stop :: "('f VaultServices, unit) action" where
  "stop = act_modify (\<lambda>s. s\<lparr>sv_livePeers := []\<rparr>)"

section \<open>Choosing the file\<close>

text \<open>\<open>kdbxPath.split(/[/\\]/u).pop()\<close>.\<close>

definition path_separator :: "char \<Rightarrow> bool" where
  "path_separator c \<longleftrightarrow> c = CHR ''/'' \<or> c = CHR 0x5C"

definition last_segment :: "string \<Rightarrow> string" where
  "last_segment p = rev (takeWhile (\<lambda>c. \<not> path_separator c) (rev p))"

definition not_keepass :: "string option \<Rightarrow> js_error" where
  "not_keepass displayName =
     ThrownError ((case displayName of None \<Rightarrow> ''That file'' | Some n \<Rightarrow> n) @
       '' is not a KeePass database. Choose the .kdbx file KeePassXC opens.'')"

definition bindVault ::
  "'f VaultServicesDeps \<Rightarrow> string \<Rightarrow> string option \<Rightarrow> Date \<Rightarrow> VaultId \<Rightarrow> RevisionId \<Rightarrow> ('f VaultServices, unit) action" where
  "bindVault deps kdbxPath displayName now newVaultId newRevisionId s =
     (case find (\<lambda>vault. vault_kdbxPath vault = Some kdbxPath) (listVaults (en_md (sv_engine s))) of
        Some known \<Rightarrow>
          act_then (setActiveVault (Some (vault_id known)))
            (act_then (startWatching deps kdbxPath)
            (act_then (recordFileNow deps now newRevisionId)
            (act_then (log_line (BackTo (vault_name known))) (call_out SnapshotChanged)))) s
      | None \<Rightarrow>
          act_bind (act_read (\<lambda>s. fa_read (vd_files deps) kdbxPath (sv_files s))) (\<lambda>bs.
            if \<not> looksLikeKdbx bs then act_throw (not_keepass displayName)
            else let name = (case displayName of Some n \<Rightarrow> n | None \<Rightarrow> last_segment kdbxPath) in
              act_bind (on_engine (importVault (vd_engine deps) name bs (Some kdbxPath) now newVaultId newRevisionId))
                (\<lambda>(vault, _).
              act_then (setActiveVault (Some (vault_id vault)))
                (act_then (startWatching deps kdbxPath)
                (act_then (log_line (if sv_vaultId s \<noteq> None then NowTracking name else Tracking name))
                  (call_out SnapshotChanged))))) s)"

definition stopTrackingVault :: "('f VaultServices, unit) action" where
  "stopTrackingVault =
     act_then (act_modify (\<lambda>s. s\<lparr>sv_watcher := None\<rparr>))
       (act_then clearHeldBackUpdate
       (act_then (setActiveVault None)
       (act_then (log_line StoppedTracking) (call_out SnapshotChanged))))"

section \<open>Keeping the file in step\<close>

definition watchForUnlock :: "('f VaultServices, unit) action" where
  "watchForUnlock = act_modify (\<lambda>s. s\<lparr>sv_unlockTimer := True\<rparr>)"

definition hold_back :: "('f VaultServices, unit) action" where
  "hold_back s =
     act_then (if sv_updateHeldBack s then act_return ()
               else act_then (act_modify (\<lambda>s. s\<lparr>sv_updateHeldBack := True\<rparr>))
                      (act_then (log_line FileIsOpen) (call_out SnapshotChanged))) watchForUnlock s"

definition already_on_disk :: "'f VaultServicesDeps \<Rightarrow> string \<Rightarrow> Revision \<Rightarrow> 'f VaultServices \<Rightarrow> bool" where
  "already_on_disk deps kdbxPath head s =
     (case fa_read (vd_files deps) kdbxPath (sv_files s) of
        Inl _ \<Rightarrow> False
      | Inr onDisk \<Rightarrow> dep_sha256 (vd_engine deps) onDisk = rev_hash head)"

text \<open>The file and the current version of the active vault, where it has both.\<close>

definition current_file :: "'f VaultServices \<Rightarrow> (string \<times> Revision) option" where
  "current_file s =
     (case sv_vaultId s of
        None \<Rightarrow> None
      | Some vaultId \<Rightarrow>
          (case the_vault vaultId s of
             None \<Rightarrow> None
           | Some vault \<Rightarrow>
               (case (vault_kdbxPath vault, vault_headRevisionId vault) of
                  (Some kdbxPath, Some headId) \<Rightarrow>
                    map_option (Pair kdbxPath) (getRevision headId (en_md (sv_engine s)))
                | _ \<Rightarrow> None)))"

text \<open>
  What \<open>files.write\<close> answers is not looked at. Between the answer of \<open>isLocked\<close> and the write the services
  and the password manager go on: \<open>meanwhile\<close> is what they do in that time.
\<close>

definition materializeAmid ::
  "('f VaultServices \<Rightarrow> 'f VaultServices) \<Rightarrow> 'f VaultServicesDeps \<Rightarrow> ('f VaultServices, unit) action" where
  "materializeAmid meanwhile deps s =
     (case current_file s of
        None \<Rightarrow> (Inr (), s)
      | Some (kdbxPath, head) \<Rightarrow>
          if already_on_disk deps kdbxPath head s then clearHeldBackUpdate s
          else if fa_isLocked (vd_files deps) kdbxPath (sv_files s) then hold_back s
          else act_bind (act_read (\<lambda>s. bytesOf (vd_engine deps) (rev_id head) (sv_engine s))) (\<lambda>bs.
            act_then (on_files (fa_write (vd_files deps) kdbxPath bs False))
              (act_then clearHeldBackUpdate
              (act_then (log_line UpdatedFile) (call_out SnapshotChanged)))) (meanwhile s))"

text \<open>Where nothing else happens meanwhile.\<close>

definition materializeCurrentVersion :: "'f VaultServicesDeps \<Rightarrow> ('f VaultServices, unit) action" where
  "materializeCurrentVersion deps = materializeAmid id deps"

lemmas materialize_defs = materializeCurrentVersion_def materializeAmid_def id_apply

text \<open>A tick of the unlock timer; what it throws ends in an unhandled rejection.\<close>

definition unlock_tick :: "'f VaultServicesDeps \<Rightarrow> 'f VaultServices \<Rightarrow> 'f VaultServices" where
  "unlock_tick deps s = (if sv_unlockTimer s then snd (materializeCurrentVersion deps s) else s)"

datatype WriteBackOutcome = WriteBackWritten string | WriteBackLocked string | WriteBackFailed string

definition active_path :: "'f VaultServices \<Rightarrow> string option" where
  "active_path s =
     (case sv_vaultId s of
        None \<Rightarrow> None
      | Some vaultId \<Rightarrow> (case the_vault vaultId s of None \<Rightarrow> None | Some vault \<Rightarrow> vault_kdbxPath vault))"

definition applyPendingUpdate :: "'f VaultServicesDeps \<Rightarrow> ('f VaultServices, WriteBackOutcome) action" where
  "applyPendingUpdate deps s =
     (case active_path s of
        None \<Rightarrow> (Inr (WriteBackFailed ''No password file is set up on this device.''), s)
      | Some kdbxPath \<Rightarrow>
          if fa_isLocked (vd_files deps) kdbxPath (sv_files s)
          then (Inr (WriteBackLocked ''KeePassXC still has the file open. Close it and try again.''), s)
          else act_then (materializeCurrentVersion deps) (act_return (WriteBackWritten kdbxPath)) s)"

definition failed_with :: "js_error \<Rightarrow> ('f VaultServices, WriteBackOutcome) action" where
  "failed_with e = act_return (WriteBackFailed (error_message e))"

definition writeBack ::
  "'f VaultServicesDeps \<Rightarrow> RevisionId \<Rightarrow> bool \<Rightarrow> ('f VaultServices, WriteBackOutcome) action" where
  "writeBack deps revisionId ignoreLock s =
     (case sv_vaultId s of
        None \<Rightarrow> (Inr (WriteBackFailed ''No vault is being tracked.''), s)
      | Some _ \<Rightarrow>
          (case active_path s of
             None \<Rightarrow> (Inr (WriteBackFailed ''This vault is not bound to a file on disk.''), s)
           | Some kdbxPath \<Rightarrow>
               act_catch
                 (act_bind (act_read (\<lambda>s. bytesOf (vd_engine deps) revisionId (sv_engine s))) (\<lambda>bs.
                  act_bind (on_files (fa_write (vd_files deps) kdbxPath bs ignoreLock)) (\<lambda>outcome.
                  case outcome of
                    RefusedLocked reason \<Rightarrow> act_then (log_line DidNotWrite) (act_return (WriteBackLocked reason))
                  | Written \<Rightarrow>
                      act_then (log_line (WroteRevision revisionId kdbxPath))
                        (act_then (call_out SnapshotChanged) (act_return (WriteBackWritten kdbxPath))))))
                 failed_with s))"

definition saveVaultAs :: "'f VaultServicesDeps \<Rightarrow> string \<Rightarrow> ('f VaultServices, WriteBackOutcome) action" where
  "saveVaultAs deps kdbxPath =
     act_bind (act_read requireVaultId) (\<lambda>vaultId s.
       case (case the_vault vaultId s of None \<Rightarrow> None | Some vault \<Rightarrow> vault_headRevisionId vault) of
         None \<Rightarrow> (Inr (WriteBackFailed ''This vault has no revision to write yet.''), s)
       | Some headId \<Rightarrow>
           act_catch
             (act_bind (act_read (\<lambda>s. bytesOf (vd_engine deps) headId (sv_engine s))) (\<lambda>bs.
              act_then (on_files (fa_write (vd_files deps) kdbxPath bs True))
                (act_then (on_engine (bindVaultToFile (vd_engine deps) vaultId kdbxPath))
                (act_then (startWatching deps kdbxPath)
                (act_then (log_line (SavedTo kdbxPath))
                (act_then (call_out SnapshotChanged) (act_return (WriteBackWritten kdbxPath))))))))
             failed_with s)"

definition promote_version ::
  "'f VaultServicesDeps \<Rightarrow> RevisionId \<Rightarrow> Date \<Rightarrow> ('f VaultServices, unit) action" where
  "promote_version deps revisionId now =
     act_bind (act_read requireVaultId) (\<lambda>vaultId.
     act_then (on_engine (promote (vd_engine deps) vaultId revisionId now))
       (act_then (log_line EarlierVersionInUse)
       (act_then (materializeCurrentVersion deps)
       (act_then (call_out SnapshotChanged) (call_out SyncSuggested)))))"

section \<open>Conflicts\<close>

text \<open>
  One step, although the source awaits between listing the conflicts and saving the new one: two sessions that
  end at the same time over the same pair of versions are not interleaved here.
\<close>

definition openConflictFor ::
  "VaultId \<Rightarrow> RevisionId \<Rightarrow> ConflictId \<Rightarrow> Date \<Rightarrow> ('f VaultServices, ConflictId) action" where
  "openConflictFor vaultId incomingRevisionId conflictId now s =
     (let db = en_md (sv_engine s);
          vault = getVault vaultId db;
          current = (case vault of
            None \<Rightarrow> None
          | Some v \<Rightarrow> (case vault_headRevisionId v of None \<Rightarrow> None | Some h \<Rightarrow> getRevision h db));
          incoming = getRevision incomingRevisionId db
      in case (vault, current, incoming) of
           (Some vault, Some current, Some incoming) \<Rightarrow>
             (case find (\<lambda>c. cf_currentRevisionId c = rev_id current \<and> cf_incomingRevisionId c = rev_id incoming)
                     (listOpenConflicts vaultId db) of
                Some already \<Rightarrow> (Inr (cf_id already), s)
              | None \<Rightarrow>
                  act_bind (act_lift (openConflict conflictId vault current incoming now)) (\<lambda>conflict.
                  act_then (on_engine (on_md (saveConflict conflict)))
                    (act_then (log_line BothChanged) (act_return (cf_id conflict)))) s)
         | _ \<Rightarrow> (Inl (ThrownError ''cannot record a conflict without both revisions''), s))"

definition decision_line :: "ConflictDecision \<Rightarrow> activity_line" where
  "decision_line decision =
     (if decision = SwitchIncoming then SwitchedToOther
      else if decision = KeepCurrent then KeptThisVersion else LeftBothVersions)"

text \<open>\<open>decision\<close> is one of \<open>KeepCurrent\<close>, \<open>SwitchIncoming\<close> and \<open>SaveBoth\<close>.\<close>

definition resolveConflict ::
  "'f VaultServicesDeps \<Rightarrow> ConflictId \<Rightarrow> ConflictDecision \<Rightarrow> Date \<Rightarrow> ('f VaultServices, unit) action" where
  "resolveConflict deps conflictId decision now =
     act_bind (act_read requireVaultId) (\<lambda>vaultId s.
       case find (\<lambda>c. cf_id c = conflictId) (listOpenConflicts vaultId (en_md (sv_engine s))) of
         None \<Rightarrow> (Inr (), s)
       | Some conflict \<Rightarrow>
           act_then (if decision = SwitchIncoming
               then act_then (on_engine (promote (vd_engine deps) vaultId (cf_incomingRevisionId conflict) now)) (act_return ())
               else act_return ())
             (act_bind (act_lift (recordConflictDecision conflict decision now)) (\<lambda>decided.
              act_then (on_engine (on_md (saveConflict decided)))
                (act_then (log_line (decision_line decision))
                (act_then (materializeCurrentVersion deps) (call_out SnapshotChanged))))) s)"

section \<open>Merging\<close>

datatype MergeOutcomeSummary = SummaryMerged RevisionId | SummaryNeedsCredentials string | SummaryFailed string

definition merge_versions ::
  "'f VaultServicesDeps \<Rightarrow> RevisionId \<Rightarrow> RevisionId list \<Rightarrow> string \<Rightarrow> Date \<Rightarrow> RevisionId \<Rightarrow>
   ('f VaultServices, MergeOutcomeSummary) action" where
  "merge_versions deps baseRevisionId incomingRevisionIds password now revisionId =
     act_bind (act_read requireVaultId) (\<lambda>vaultId.
     act_bind (on_engine (merge (vd_engine deps) vaultId baseRevisionId incomingRevisionIds
         (Some (uniformCredentials password (length incomingRevisionIds))) None now revisionId)) (\<lambda>result.
     case result of
       MergeNeedsCredentials reason \<Rightarrow> act_return (SummaryNeedsCredentials reason)
     | MergeFailure reason \<Rightarrow>
         act_then (log_line (MergeFailedBecause reason)) (act_return (SummaryFailed reason))
     | MergeDone revision \<Rightarrow>
         act_then (log_line CombinedChanges)
           (act_then (call_out SnapshotChanged) (act_return (SummaryMerged (rev_id revision))))))"

text \<open>Every open conflict of the vault is recorded as decided.\<close>

fun decide_all :: "Conflict list \<Rightarrow> Date \<Rightarrow> ('f VaultServices, unit) action" where
  "decide_all [] now = act_return ()"
| "decide_all (conflict # rest) now =
     act_bind (act_lift (recordConflictDecision conflict TryMerge now)) (\<lambda>decided.
     act_then (on_engine (on_md (saveConflict decided))) (decide_all rest now))"

definition combineAndUse ::
  "'f VaultServicesDeps \<Rightarrow> RevisionId \<Rightarrow> string \<Rightarrow> Date \<Rightarrow> RevisionId \<Rightarrow> ('f VaultServices, MergeOutcomeSummary) action" where
  "combineAndUse deps otherVersionId password now revisionId =
     act_bind (act_read requireVaultId) (\<lambda>vaultId s.
       case (case the_vault vaultId s of None \<Rightarrow> None | Some vault \<Rightarrow> vault_headRevisionId vault) of
         None \<Rightarrow> (Inr (SummaryFailed ''There is no current version to combine with.''), s)
       | Some headId \<Rightarrow>
           act_bind (merge_versions deps headId [otherVersionId] password now revisionId) (\<lambda>merged.
           case merged of
             SummaryMerged mergedId \<Rightarrow>
               act_then (on_engine (promote (vd_engine deps) vaultId mergedId now))
                 (act_bind (act_read (\<lambda>s. Inr (listOpenConflicts vaultId (en_md (sv_engine s))))) (\<lambda>conflicts.
                  act_then (decide_all conflicts now)
                    (act_then (log_line UsingCombined)
                    (act_then (materializeCurrentVersion deps)
                    (act_then (call_out SnapshotChanged)
                    (act_then (call_out SyncSuggested) (act_return merged)))))))
           | _ \<Rightarrow> act_return merged) s)"

end
