(* ===== verification/Service_Peers.thy ===== *)
theory Service_Peers
  imports Vault_Services
begin

text \<open>
  The other half of packages/services/src/vaultServices.ts: the connection server, pairing codes, where to
  meet a device again, the verification prompt, the list of devices and what a synchronisation session
  does to the services.

  The network is a parameter: an operation takes what \<open>fetch\<close> gave it. A session itself is the
  machine of \<open>Sync_Session\<close>; here are its beginning, the events it emits, and what follows its end. The
  link that the hub hands a session is in \<open>Link_Hub\<close>.
\<close>

section \<open>The connection server\<close>

text \<open>What a request comes to: it fails, it is answered with an error status, or it has a body.\<close>

datatype 'b fetched = FetchFailed js_error | FetchStatus nat | FetchBody 'b

definition get_host :: "('f VaultServices, string) action" where
  "get_host s =
     (let (r, settings) = get_settings (sv_settings s)
      in (res_bind r (\<lambda>c. Inr (cs_serverHost c)), s\<lparr>sv_settings := settings\<rparr>))"

definition signalUrl :: "('f VaultServices, string) action" where
  "signalUrl = act_bind get_host (\<lambda>host. act_return (signalUrlFor host))"

definition saveConnectionSettings :: "ConnectionSettings \<Rightarrow> ('f VaultServices, ConnectionSettings) action" where
  "saveConnectionSettings wanted s =
     (case save_settings wanted (sv_settings s) of
        (Inl e, settings) \<Rightarrow> (Inl e, s\<lparr>sv_settings := settings\<rparr>)
      | (Inr saved, settings) \<Rightarrow>
          act_then (log_line (MeetingThrough (cs_serverHost saved)))
            (act_then (call_out SnapshotChanged) (act_return saved)) (s\<lparr>sv_settings := settings\<rparr>))"

text \<open>The answer of \<open>testConnectionServer\<close>: whether the address is one, and what answered there.\<close>

datatype server_test =
    NotAnAddress string | AnsweredWithError string nat | IsPassVault string | IsSomethingElse string | Unreachable string

definition test_ok :: "server_test \<Rightarrow> bool" where
  "test_ok t = (case t of IsPassVault _ \<Rightarrow> True | _ \<Rightarrow> False)"

definition testConnectionServer :: "(string \<Rightarrow> string option fetched) \<Rightarrow> string \<Rightarrow> server_test" where
  "testConnectionServer fetch raw =
     (case normalizeServerHost raw of
        None \<Rightarrow> NotAnAddress (js_trim raw)
      | Some host \<Rightarrow>
          (case fetch (httpUrlFor host @ ''/health'') of
             FetchFailed _ \<Rightarrow> Unreachable host
           | FetchStatus status \<Rightarrow> AnsweredWithError host status
           | FetchBody service \<Rightarrow>
               if service = Some ''passvault-signaling'' then IsPassVault host else IsSomethingElse host))"

section \<open>Pairing\<close>

definition FIVE_MINUTES :: nat where "FIVE_MINUTES = 5 * 60000"

definition pairingUnderway :: "Date \<Rightarrow> 'f VaultServices \<Rightarrow> bool" where
  "pairingUnderway now s =
     (case sv_pairingStartedAt s of None \<Rightarrow> False | Some started \<Rightarrow> int now - int started < int FIVE_MINUTES)"

record PairingCode =
  pc_code :: string
  pc_rendezvous :: Rendezvous
  pc_serverHost :: string
  pc_short :: "(string \<times> string \<times> string) option"

record issued_code =
  is_code :: string
  is_expiresAt :: string

definition own_offer :: "'f VaultServicesDeps \<Rightarrow> Rendezvous \<Rightarrow> PairingOffer" where
  "own_offer deps place =
     \<lparr>po_version = PAIRING_VERSION, po_deviceId = kp_deviceId (li_keyPair (vd_identity deps)),
      po_publicKey = kp_publicKey (li_keyPair (vd_identity deps)), po_name = li_name (vd_identity deps),
      po_roomId = rv_roomId place, po_inviteToken = rv_inviteToken place, po_signalUrl = rv_signalUrl place\<rparr>"

text \<open>Best effort: whatever goes wrong, there is no short code.\<close>

definition issueShortCode ::
  "(string \<Rightarrow> string \<Rightarrow> issued_code fetched) \<Rightarrow> string \<Rightarrow> ('f VaultServices, (string \<times> string \<times> string) option) action" where
  "issueShortCode post_code link =
     act_catch
       (act_bind get_host (\<lambda>host.
        case post_code (httpUrlFor host @ ''/pairing-codes'') link of
          FetchFailed e \<Rightarrow> act_throw e
        | FetchStatus _ \<Rightarrow> act_return None
        | FetchBody issued \<Rightarrow>
            act_return (Some (is_code issued, formatQualifiedShortCode (is_code issued) host, is_expiresAt issued))))
       (\<lambda>_. act_return None)"

definition createPairingCode ::
  "(url_params \<Rightarrow> string) \<Rightarrow> (string \<Rightarrow> (string \<times> string) fetched) \<Rightarrow> (string \<Rightarrow> string \<Rightarrow> issued_code fetched) \<Rightarrow>
   'f VaultServicesDeps \<Rightarrow> Date \<Rightarrow> ('f VaultServices, PairingCode) action" where
  "createPairingCode toString_params post_rooms post_code deps now =
     act_bind get_host (\<lambda>host.
     case post_rooms (httpUrlFor host @ ''/rooms'') of
       FetchFailed e \<Rightarrow> act_throw e
     | FetchStatus status \<Rightarrow>
         act_throw (ThrownError (''The signaling server refused to create a room ('' @ decimal_string status @ '').''))
     | FetchBody (roomId, inviteToken) \<Rightarrow>
         let place = \<lparr>rv_roomId = roomId, rv_inviteToken = inviteToken, rv_signalUrl = signalUrlFor host\<rparr>;
             link = encodePairingOffer toString_params (own_offer deps place)
         in act_then (act_modify (\<lambda>s. s\<lparr>sv_pendingRendezvous := Some place, sv_pairingStartedAt := Some now\<rparr>))
              (act_bind (issueShortCode post_code link) (\<lambda>short.
               act_then (log_line (case short of None \<Rightarrow> ReadyWithLink | Some (code, _) \<Rightarrow> ReadyWithCode code))
                 (act_return \<lparr>pc_code = link, pc_rendezvous = place, pc_serverHost = host, pc_short = short\<rparr>))))"

datatype redeemed = Redeemed string | NoSuchCode string bool | RedeemStatus string nat | RedeemUnreadable string | RedeemUnreachable string

definition redeemShortCode ::
  "(string \<Rightarrow> string option fetched) \<Rightarrow> ParsedShortCode \<Rightarrow> ('f VaultServices, redeemed) action" where
  "redeemShortCode fetch typed =
     act_bind get_host (\<lambda>ours.
     let host = (case psc_host typed of None \<Rightarrow> ours | Some h \<Rightarrow> h) in
     act_return (case fetch (httpUrlFor host @ ''/pairing-codes/'' @ psc_code typed) of
         FetchFailed _ \<Rightarrow> RedeemUnreachable host
       | FetchStatus status \<Rightarrow>
           if status = 404 then NoSuchCode host (psc_host typed = None) else RedeemStatus host status
       | FetchBody offer \<Rightarrow> (case offer of None \<Rightarrow> RedeemUnreadable host | Some link \<Rightarrow> Redeemed link)))"

record AcceptedPairing =
  ap_rendezvous :: Rendezvous
  ap_peerName :: string
  ap_peerPublicKeyBase64 :: string
  ap_sas :: string

datatype read_code = CodeAccepted AcceptedPairing | CodeRefused string | CodeNotRedeemed redeemed

definition sas_with :: "'f VaultServicesDeps \<Rightarrow> bytes \<Rightarrow> string" where
  "sas_with deps publicKey =
     shortAuthenticationString (vd_sha256 deps) (kp_publicKey (li_keyPair (vd_identity deps))) publicKey"

definition accept_offer ::
  "(string \<Rightarrow> (string \<times> url_params) option) \<Rightarrow> 'f VaultServicesDeps \<Rightarrow> Date \<Rightarrow> string \<Rightarrow> ('f VaultServices, read_code) action" where
  "accept_offer parse_URL deps now link =
     (case decodePairingOffer (vd_sha256 deps) parse_URL link of
        OfferRefused reason \<Rightarrow> act_return (CodeRefused reason)
      | OfferParsed offer \<Rightarrow>
          let place = \<lparr>rv_roomId = po_roomId offer, rv_inviteToken = po_inviteToken offer, rv_signalUrl = po_signalUrl offer\<rparr>
          in act_then (act_modify (\<lambda>s. s\<lparr>sv_pendingRendezvous := Some place, sv_pairingStartedAt := Some now\<rparr>))
               (act_return (CodeAccepted \<lparr>ap_rendezvous = place, ap_peerName = po_name offer,
                  ap_peerPublicKeyBase64 = toBase64 (po_publicKey offer), ap_sas = sas_with deps (po_publicKey offer)\<rparr>)))"

definition readPairingCode ::
  "(string \<Rightarrow> (string \<times> url_params) option) \<Rightarrow> (string \<Rightarrow> string option fetched) \<Rightarrow> 'f VaultServicesDeps \<Rightarrow> Date \<Rightarrow>
   string \<Rightarrow> ('f VaultServices, read_code) action" where
  "readPairingCode parse_URL fetch deps now code =
     (case parseShortCode code of
        None \<Rightarrow> accept_offer parse_URL deps now code
      | Some typed \<Rightarrow>
          act_bind (redeemShortCode fetch typed) (\<lambda>resolved.
            case resolved of
              Redeemed link \<Rightarrow> accept_offer parse_URL deps now link
            | _ \<Rightarrow> act_return (CodeNotRedeemed resolved)))"

section \<open>Where to meet again\<close>

definition rendezvous_row :: "DeviceId \<Rightarrow> Rendezvous \<Rightarrow> Date \<Rightarrow> RendezvousRow" where
  "rendezvous_row deviceId place now =
     \<lparr>rz_device_id = deviceId, rz_room_id = rv_roomId place, rz_invite_token = rv_inviteToken place,
      rz_signal_url = rv_signalUrl place, rz_updated_at = now\<rparr>"

definition rememberRendezvous :: "DeviceId \<Rightarrow> Rendezvous \<Rightarrow> Date \<Rightarrow> ('f VaultServices, unit) action" where
  "rememberRendezvous deviceId place now = act_modify (\<lambda>s. s\<lparr>sv_rendezvous :=
     upsert (\<lambda>r. rz_device_id r = deviceId) (\<lambda>r. rendezvous_row deviceId place now)
       (rendezvous_row deviceId place now) (sv_rendezvous s)\<rparr>)"

definition row_rendezvous :: "RendezvousRow \<Rightarrow> Rendezvous" where
  "row_rendezvous r = \<lparr>rv_roomId = rz_room_id r, rv_inviteToken = rz_invite_token r, rv_signalUrl = rz_signal_url r\<rparr>"

definition rendezvousFor :: "DeviceId \<Rightarrow> 'f VaultServices \<Rightarrow> Rendezvous option \<times> 'f VaultServices" where
  "rendezvousFor deviceId s =
     (case find (\<lambda>r. rz_device_id r = deviceId) (sv_rendezvous s) of
        None \<Rightarrow> (None, s)
      | Some row \<Rightarrow> (Some (row_rendezvous row), s\<lparr>sv_pendingRendezvous := Some (row_rendezvous row)\<rparr>))"

text \<open>The join with the paired devices, newest first; of rows with the same date SQL may give either.\<close>

definition standing_rows :: "'f VaultServices \<Rightarrow> (RendezvousRow \<times> DeviceRow) list" where
  "standing_rows s =
     rev (sort_key (\<lambda>(r, _). rz_updated_at r)
       (concat (map (\<lambda>r. map (Pair r) (filter (\<lambda>d. dr_id d = rz_device_id r \<and> dr_trust d = ''paired'') (sv_trust s)))
          (sv_rendezvous s))))"

definition standingRendezvous ::
  "'f VaultServices \<Rightarrow> (Rendezvous \<times> DeviceId \<times> string) option \<times> 'f VaultServices" where
  "standingRendezvous s =
     (case standing_rows s of
        [] \<Rightarrow> (None, s)
      | (row, device) # _ \<Rightarrow>
          (Some (row_rendezvous row, rz_device_id row, dr_name device),
           s\<lparr>sv_pendingRendezvous := Some (row_rendezvous row)\<rparr>))"

section \<open>Verifying a new device\<close>

text \<open>\<open>None\<close> is a promise left open; \<open>Some False\<close> one that is resolved at once.\<close>

definition awaitPairingConfirmation ::
  "'f VaultServicesDeps \<Rightarrow> PeerId \<Rightarrow> DeviceId \<Rightarrow> bytes \<Rightarrow> string \<Rightarrow> ('f VaultServices, bool option) action" where
  "awaitPairingConfirmation deps session deviceId publicKey name s =
     (if sv_verification s \<noteq> None then (Inr (Some False), s)
      else act_then (act_modify (\<lambda>s. s\<lparr>sv_verification := Some \<lparr>vn_deviceId = deviceId, vn_peerName = name,
                         vn_code = sas_with deps publicKey, vn_session = session\<rparr>\<rparr>))
             (act_then (log_line (CheckDigits name)) (act_then (call_out SnapshotChanged) (act_return None))) s)"

definition settleVerification :: "bool \<Rightarrow> activity_line \<Rightarrow> ('f VaultServices, unit) action" where
  "settleVerification isConfirmed message s =
     (case sv_verification s of
        None \<Rightarrow> (Inr (), s)
      | Some pending \<Rightarrow>
          act_then (act_modify (\<lambda>s. s\<lparr>sv_verification := None\<rparr>))
            (act_then (call_out (ConfirmResolved (vn_session pending) isConfirmed))
            (act_then (log_line message) (call_out SnapshotChanged))) s)"

definition answerVerification :: "bool \<Rightarrow> ('f VaultServices, unit) action" where
  "answerVerification isConfirmed s =
     (case sv_verification s of
        None \<Rightarrow> (Inr (), s)
      | Some pending \<Rightarrow>
          settleVerification isConfirmed
            (if isConfirmed then ConfirmedDigits (vn_peerName pending) else RefusedDigits (vn_peerName pending)) s)"

definition verification_timeout :: "('f VaultServices, unit) action" where
  "verification_timeout = settleVerification False NotConfirmedInTime"

section \<open>The list of devices\<close>

definition disconnectDevice :: "DeviceId \<Rightarrow> ('f VaultServices, unit) action" where
  "disconnectDevice deviceId =
     act_then (act_modify (\<lambda>s. s\<lparr>sv_trust := ts_revoke createSqliteTrustStore deviceId (sv_trust s)\<rparr>))
       (act_then (log_line (DisconnectedDevice deviceId)) (call_out SnapshotChanged))"

definition reconnectDevice :: "DeviceId \<Rightarrow> ('f VaultServices, unit) action" where
  "reconnectDevice deviceId s =
     (case ts_get createSqliteTrustStore deviceId (sv_trust s) of
        None \<Rightarrow> (Inl (ThrownError ''That device is no longer known to this one. Connect it again.''), s)
      | Some known \<Rightarrow>
          act_then (act_modify (\<lambda>s. s\<lparr>sv_trust := ts_pair createSqliteTrustStore (known\<lparr>pd_lastSeenAt := None\<rparr>) (sv_trust s)\<rparr>))
            (act_then (log_line (ReconnectedDevice (pd_name known))) (call_out SnapshotChanged)) s)"

definition forgetDevice :: "DeviceId \<Rightarrow> ('f VaultServices, unit) action" where
  "forgetDevice deviceId s =
     (let name = (case ts_get createSqliteTrustStore deviceId (sv_trust s) of
            None \<Rightarrow> deviceId | Some known \<Rightarrow> pd_name known)
      in act_then (act_modify (\<lambda>s. s\<lparr>sv_rendezvous := filter (\<lambda>r. rz_device_id r \<noteq> deviceId) (sv_rendezvous s),
             sv_trust := filter (\<lambda>r. dr_id r \<noteq> deviceId) (sv_trust s)\<rparr>))
           (act_then (log_line (ForgotDevice name)) (call_out SnapshotChanged)) s)"

section \<open>Who is reachable\<close>

definition peerOpened :: "PeerId \<Rightarrow> ('f VaultServices, unit) action" where
  "peerOpened peerId s =
     (if map_of (sv_livePeers s) peerId \<noteq> None then (Inr (), s)
      else act_then (act_modify (\<lambda>s. s\<lparr>sv_livePeers := AList.update peerId None (sv_livePeers s)\<rparr>))
             (call_out SnapshotChanged) s)"

definition peerGone :: "PeerId \<Rightarrow> ('f VaultServices, unit) action" where
  "peerGone peerId s =
     (if map_of (sv_livePeers s) peerId = None then (Inr (), s)
      else act_then (act_modify (\<lambda>s. s\<lparr>sv_livePeers := AList.delete peerId (sv_livePeers s)\<rparr>))
             (call_out SnapshotChanged) s)"

definition onlineDeviceIds :: "'f VaultServices \<Rightarrow> DeviceId list" where
  "onlineDeviceIds s =
     set_of_iterable (concat (map (\<lambda>(_, d). case d of None \<Rightarrow> [] | Some deviceId \<Rightarrow> [deviceId]) (sv_livePeers s)))"

section \<open>Sessions\<close>

datatype SyncOutcome =
    SyncCompleted nat nat Divergence "ConflictId option"
  | SyncFailed SyncExplanation
  | SyncAlreadyRunning

definition begin_session :: "PeerId \<Rightarrow> 'f VaultServices \<Rightarrow> SyncOutcome option \<times> 'f VaultServices" where
  "begin_session peerId s =
     (if peerId \<in> set (sv_sessionsInFlight s) then (Some SyncAlreadyRunning, s)
      else (None, s\<lparr>sv_sessionsInFlight := set_add (sv_sessionsInFlight s) peerId\<rparr>))"

text \<open>A session started by the peer: whether one is begun, and whether in pairing mode.\<close>

definition onPeerInitiated :: "PeerId \<Rightarrow> Date \<Rightarrow> 'f VaultServices \<Rightarrow> bool option \<times> 'f VaultServices" where
  "onPeerInitiated peerId now s =
     (if peerId \<in> set (sv_sessionsInFlight s) then (None, s)
      else (Some (pairingUnderway now s), snd (begin_session peerId s)))"

definition session_timeout :: "bool \<Rightarrow> nat" where
  "session_timeout pairingMode = (if pairingMode then FIVE_MINUTES else 30000)"

definition on_session_event :: "PeerId \<Rightarrow> SessionEvent \<Rightarrow> Date \<Rightarrow> ('f VaultServices, unit) action" where
  "on_session_event peerId event now s =
     (case event of
        Authenticated remoteDeviceId \<Rightarrow>
          act_then (log_line (AuthenticatedPeer remoteDeviceId))
            (act_then (case sv_pendingRendezvous s of
                 None \<Rightarrow> act_return () | Some place \<Rightarrow> rememberRendezvous remoteDeviceId place now)
              (if map_of (sv_livePeers s) peerId \<noteq> None
               then act_then (act_modify (\<lambda>s. s\<lparr>sv_livePeers := AList.update peerId (Some remoteDeviceId) (sv_livePeers s)\<rparr>))
                      (call_out SnapshotChanged)
               else act_return ())) s
      | AdoptedVault vaultId name \<Rightarrow> act_then (setActiveVault (Some vaultId)) (log_line (JoinedVault name)) s
      | _ \<Rightarrow> (Inr (), s))"

definition after_divergence ::
  "'f VaultServicesDeps \<Rightarrow> SessionResult \<Rightarrow> Date \<Rightarrow> ConflictId \<Rightarrow> ('f VaultServices, ConflictId option) action" where
  "after_divergence deps result now conflictId =
     (case (sr_remoteHead result, sr_vaultId result) of
        (None, _) \<Rightarrow> act_return None
      | (Some remoteHead, None) \<Rightarrow>
          (case sr_divergence result of
             Diverged _ \<Rightarrow> act_throw (ThrownError ''cannot record a conflict without both revisions'')
           | RemoteAhead \<Rightarrow> act_throw (ContractViolation ''unknown vault undefined'')
           | _ \<Rightarrow> act_return None)
      | (Some remoteHead, Some vaultId) \<Rightarrow>
          (case sr_divergence result of
             Diverged _ \<Rightarrow> act_bind (openConflictFor vaultId remoteHead conflictId now) (\<lambda>c. act_return (Some c))
           | RemoteAhead \<Rightarrow>
               act_then (on_engine (fastForward (vd_engine deps) vaultId remoteHead now))
                 (act_then (log_line BroughtUpToDate)
                 (act_then (materializeCurrentVersion deps) (act_return None)))
           | _ \<Rightarrow> act_return None))"

definition sync_failed :: "string \<Rightarrow> SessionCode option \<Rightarrow> ('f VaultServices, SyncOutcome) action" where
  "sync_failed reason code =
     act_then (log_line (SyncFailedBecause (explainFailure reason code)))
       (act_then (call_out SnapshotChanged) (act_return (SyncFailed (explainFailure reason code))))"

text \<open>The \<open>finally\<close> of \<open>runSession\<close>.\<close>

definition end_session :: "PeerId \<Rightarrow> 'f VaultServices \<Rightarrow> 'f VaultServices" where
  "end_session peerId s =
     (let t = snd (settleVerification False DisconnectedBeforeConfirm s)
      in t\<lparr>sv_sessionsInFlight := remove1 peerId (sv_sessionsInFlight t)\<rparr>)"

definition session_returned ::
  "'f VaultServicesDeps \<Rightarrow> PeerId \<Rightarrow> SessionResult \<Rightarrow> Date \<Rightarrow> ConflictId \<Rightarrow> 'f VaultServices \<Rightarrow>
   SyncOutcome result \<times> 'f VaultServices" where
  "session_returned deps peerId result now conflictId s =
     (case act_catch
        (act_then (setActiveVault (sr_vaultId result))
          (act_then (log_line (SyncReport (describeSync (sr_remoteName result) (length (sr_received result))
              (length (sr_sent result)) (length (sr_missing result)))))
          (act_bind (after_divergence deps result now conflictId) (\<lambda>opened.
           act_then (call_out SnapshotChanged)
             (act_return (SyncCompleted (length (sr_received result)) (length (sr_sent result))
                (sr_divergence result) opened))))))
        (\<lambda>e. sync_failed (error_message e) None) s of
      (outcome, t) \<Rightarrow> (outcome, end_session peerId t))"

definition session_threw ::
  "PeerId \<Rightarrow> string \<Rightarrow> SessionCode option \<Rightarrow> 'f VaultServices \<Rightarrow> SyncOutcome result \<times> 'f VaultServices" where
  "session_threw peerId reason code s =
     (case sync_failed reason code s of (outcome, t) \<Rightarrow> (outcome, end_session peerId t))"

end
