(* ===== verification/Service_Safety.thy ===== *)
theory Service_Safety
  imports Service_Peers
begin

text \<open>
  What holds of the services whatever is done with them: the invariant of their state along every run of
  their operations, sessions, watcher callbacks, timers and restarts, and the functional behaviour of the
  operations that matter most to the file and to trust.
\<close>

section \<open>Operations that keep a predicate\<close>

definition holds :: "('s \<Rightarrow> bool) \<Rightarrow> ('s, 'a) action \<Rightarrow> ('s \<Rightarrow> bool) \<Rightarrow> bool" where
  "holds P a Q \<longleftrightarrow> (\<forall>s. P s \<longrightarrow> Q (snd (a s)))"

abbreviation keeps :: "('s \<Rightarrow> bool) \<Rightarrow> ('s, 'a) action \<Rightarrow> bool" where
  "keeps P a \<equiv> holds P a P"

named_theorems keeps_rules \<open>operations that keep a predicate\<close>
named_theorems at_rules \<open>the same, at one state\<close>

lemma holdsI: "(\<And>s. P s \<Longrightarrow> Q (snd (a s))) \<Longrightarrow> holds P a Q"
  by (simp add: holds_def)

lemma holdsD: "holds P a Q \<Longrightarrow> P s \<Longrightarrow> Q (snd (a s))"
  by (simp add: holds_def)

lemma holds_bind:
  "holds P a R \<Longrightarrow> (\<And>x. holds R (f x) Q) \<Longrightarrow> (\<And>s. R s \<Longrightarrow> Q s) \<Longrightarrow> holds P (act_bind a f) Q"
  by (fastforce simp: holds_def act_bind_simp split: prod.split sum.split)

lemma holds_then:
  "holds P a R \<Longrightarrow> holds R b Q \<Longrightarrow> (\<And>s. R s \<Longrightarrow> Q s) \<Longrightarrow> holds P (act_then a b) Q"
  unfolding act_then_def by (rule holds_bind)

lemma holds_catch:
  "holds P a Q \<Longrightarrow> (\<And>e. keeps Q (h e)) \<Longrightarrow> holds P (act_catch a h) Q"
  by (fastforce simp: holds_def act_catch_def split: prod.split sum.split)

lemma keeps_bind [keeps_rules]: "keeps P a \<Longrightarrow> (\<And>x. keeps P (f x)) \<Longrightarrow> keeps P (act_bind a f)"
  by (rule holds_bind)

lemma keeps_then [keeps_rules]: "keeps P a \<Longrightarrow> keeps P b \<Longrightarrow> keeps P (act_then a b)"
  by (rule holds_then)

lemma keeps_catch [keeps_rules]: "keeps P a \<Longrightarrow> (\<And>e. keeps P (h e)) \<Longrightarrow> keeps P (act_catch a h)"
  by (rule holds_catch)

lemma keeps_basic [keeps_rules]:
  "keeps P (act_return x)" "keeps P (act_throw e)" "keeps P (act_lift r)" "keeps P (act_read g)"
  by (simp_all add: holds_def act_read_def)

lemma keeps_modify: "(\<And>s. P s \<Longrightarrow> P (f s)) \<Longrightarrow> keeps P (act_modify f)"
  by (simp add: holds_def act_modify_def)

lemma keeps_cases [keeps_rules]:
  "keeps P a \<Longrightarrow> keeps P b \<Longrightarrow> keeps P (if c then a else b)"
  "keeps P a \<Longrightarrow> (\<And>x. keeps P (g x)) \<Longrightarrow> keeps P (case opt of None \<Rightarrow> a | Some x \<Rightarrow> g x)"
  "(\<And>x y. keeps P (h x y)) \<Longrightarrow> keeps P (case p of (x, y) \<Rightarrow> h x y)"
  by (simp_all split: option.split prod.split)

section \<open>The invariant\<close>

definition services_wf :: "'f VaultServices \<Rightarrow> bool" where
  "services_wf s \<longleftrightarrow> sv_updateHeldBack s = sv_unlockTimer s \<and> length (sv_activity s) \<le> MAX_ACTIVITY \<and>
     distinct (sv_sessionsInFlight s) \<and> distinct (map rz_device_id (sv_rendezvous s)) \<and>
     (\<forall>v. sv_vaultId s = Some v \<longrightarrow> storedActiveVaultId s = Some v)"

definition sound :: "((metadata_db, disk) engine \<Rightarrow> bool) \<Rightarrow> 'f VaultServices \<Rightarrow> bool" where
  "sound E s \<longleftrightarrow> E (sv_engine s) \<and> services_wf s"

lemmas sound_simps = sound_def services_wf_def storedActiveVaultId_def

lemma keeps_on_engine:
  "(\<And>e. E e \<Longrightarrow> wp a (\<lambda>_. E') e) \<Longrightarrow> holds (sound E) (on_engine a) (sound E')"
  by (fastforce simp: holds_def on_engine_def sound_simps wp_def split: prod.split)

lemma keeps_on_files [keeps_rules]: "keeps (sound E) (on_files a)"
  by (auto simp: holds_def on_files_def sound_simps split: prod.split)

lemma keeps_light [keeps_rules]:
  "keeps (sound E) (log_line l)" "keeps (sound E) (call_out c)" "keeps (sound E) (setActiveVault v)"
  "keeps (sound E) clearHeldBackUpdate" "keeps (sound E) (startWatching deps p)" "keeps (sound E) stop"
  unfolding log_line_def call_out_def setActiveVault_def clearHeldBackUpdate_def startWatching_def stop_def
  by (rule keeps_modify; simp add: sound_simps clear_held_back_def split: option.split)+

lemma at_sound [at_rules]:
  "sound E s \<Longrightarrow> keeps (sound E) a \<Longrightarrow> (\<And>x. keeps (sound E) (f x)) \<Longrightarrow> sound E (snd (act_bind a f s))"
  "sound E s \<Longrightarrow> keeps (sound E) a \<Longrightarrow> keeps (sound E) b \<Longrightarrow> sound E (snd (act_then a b s))"
  "sound E s \<Longrightarrow> keeps (sound E) a \<Longrightarrow> (\<And>e. keeps (sound E) (h e)) \<Longrightarrow> sound E (snd (act_catch a h s))"
  "sound E s \<Longrightarrow> sound E (snd (r, s))"
  "sound E s \<Longrightarrow> sound E (snd (act_return x s))"
  "sound E s \<Longrightarrow> sound E (snd (clearHeldBackUpdate s))"
  "(c \<Longrightarrow> sound E (snd p)) \<Longrightarrow> (\<not> c \<Longrightarrow> sound E (snd q)) \<Longrightarrow> sound E (snd (if c then p else q))"
  "(opt = None \<Longrightarrow> sound E (snd p)) \<Longrightarrow> (\<And>x. opt = Some x \<Longrightarrow> sound E (snd (g x))) \<Longrightarrow>
   sound E (snd (case opt of None \<Rightarrow> p | Some x \<Rightarrow> g x))"
  "(\<And>x y. sound E (snd (k x y))) \<Longrightarrow> sound E (snd (case z of (x, y) \<Rightarrow> k x y))"
  by (auto intro: holdsD [OF keeps_bind] holdsD [OF keeps_then] holdsD [OF keeps_catch] holdsD [OF keeps_light(4)]
      split: option.split prod.split)

lemma keeps_hold_back [keeps_rules]: "keeps (sound E) hold_back"
proof (rule holdsI)
  fix s :: "'f VaultServices" assume "sound E s"
  then show "sound E (snd (hold_back s))"
    by (simp add: hold_back_def act_then_def act_bind_simp watchForUnlock_def act_modify_def log_line_def
        call_out_def sound_simps)
qed

lemma at_hold_back [at_rules]: "sound E s \<Longrightarrow> sound E (snd (hold_back s))"
  by (rule holdsD [OF keeps_hold_back])

lemma keeps_materialize [keeps_rules]: "keeps (sound E) (materializeCurrentVersion deps)"
  by (rule holdsI, unfold materialize_defs) (assumption | rule at_rules keeps_rules)+

section \<open>The operations keep it\<close>

text \<open>The engine is the one \<open>start\<close> builds: SQLite tables, files for blobs, some interpreter.\<close>

definition on_desktop :: "'f VaultServicesDeps \<Rightarrow> bool" where
  "on_desktop deps \<longleftrightarrow> (\<exists>sha256 mergef difff deviceId. vd_engine deps = desktop_deps sha256 mergef difff deviceId)"

definition good :: "'f VaultServicesDeps \<Rightarrow> (metadata_db, disk) engine \<Rightarrow> bool" where
  "good deps = sync_engine.engine_ok (vd_engine deps) db_ok (\<lambda>d. blobs_ok (dep_sha256 (vd_engine deps)) (dk_files d))"

text \<open>\dots and a drawn id that is new.\<close>

definition good_new :: "'f VaultServicesDeps \<Rightarrow> RevisionId \<Rightarrow> (metadata_db, disk) engine \<Rightarrow> bool" where
  "good_new deps i e \<longleftrightarrow> good deps e \<and> \<not> hasRevision i (en_md e)"

lemma good_new_good: "sound (good_new deps i) s \<Longrightarrow> sound (good deps) s"
  by (simp add: sound_def good_new_def)

lemma good_desktop:
  "vd_engine deps = desktop_deps sha256 mergef difff deviceId \<Longrightarrow> good deps = desktop_ok sha256 mergef difff deviceId"
  by (simp add: good_def)

lemma good_saveConflict:
  assumes "on_desktop deps" "good deps e"
  shows "wp (on_md (saveConflict c)) (\<lambda>_. good deps) e"
proof -
  obtain sha256 mergef difff deviceId where d: "vd_engine deps = desktop_deps sha256 mergef difff deviceId"
    using assms(1) by (auto simp: on_desktop_def)
  have reads: "getVault i m = getVault i db" "getRevision i m = getRevision i db" "db_ok m = db_ok db"
    if "saveConflict c db = (r, m)" for r m db i
  proof -
    have "db_vaults m = db_vaults db" "db_revisions m = db_revisions db" "db_parents m = db_parents db"
      using that by (auto simp: saveConflict_def split: if_splits)
    then show "getVault i m = getVault i db" "getRevision i m = getRevision i db" "db_ok m = db_ok db"
      using getVault_cong getRevision_cong db_ok_cong by blast+
  qed
  show ?thesis
    unfolding wp_on_md
  proof (rule wpI)
    fix r m assume "saveConflict c (en_md e) = (r, m)"
    from reads [OF this] assms(2) show "good deps (e\<lparr>en_md := m\<rparr>)"
      by (simp add: good_desktop [OF d] desktop_ok_defs heads_ok_def blobs_present_def)
  qed
qed

lemma keeps_engine [keeps_rules]:
  assumes "on_desktop deps"
  shows "keeps (sound (good deps)) (on_engine (promote (vd_engine deps) v r now))"
    and "keeps (sound (good deps)) (on_engine (fastForward (vd_engine deps) v r now))"
    and "keeps (sound (good deps)) (on_engine (bindVaultToFile (vd_engine deps) v p))"
    and "keeps (sound (good deps)) (on_engine (on_md (saveConflict c)))"
proof -
  obtain sha256 mergef difff deviceId where d: "vd_engine deps = desktop_deps sha256 mergef difff deviceId"
    using assms by (auto simp: on_desktop_def)
  show "keeps (sound (good deps)) (on_engine (promote (vd_engine deps) v r now))"
    "keeps (sound (good deps)) (on_engine (fastForward (vd_engine deps) v r now))"
    "keeps (sound (good deps)) (on_engine (bindVaultToFile (vd_engine deps) v p))"
    unfolding good_desktop [OF d] d
    by (rule keeps_on_engine, rule desktop.promote_ok desktop.bind_ok, assumption)+
  show "keeps (sound (good deps)) (on_engine (on_md (saveConflict c)))"
    by (rule keeps_on_engine) (rule good_saveConflict [OF assms])
qed

lemma new_engine:
  assumes "on_desktop deps"
  shows "holds (sound (good_new deps i)) (on_engine (recordLocalChange (vd_engine deps) v bs now i)) (sound (good deps))"
    and "holds (sound (good_new deps i)) (on_engine (importVault (vd_engine deps) name bs p now v i)) (sound (good deps))"
    and "holds (sound (good_new deps i)) (on_engine (merge (vd_engine deps) v b incoming cs msg now i)) (sound (good deps))"
proof -
  obtain sha256 mergef difff deviceId where d: "vd_engine deps = desktop_deps sha256 mergef difff deviceId"
    using assms by (auto simp: on_desktop_def)
  show "holds (sound (good_new deps i)) (on_engine (recordLocalChange (vd_engine deps) v bs now i)) (sound (good deps))"
    "holds (sound (good_new deps i)) (on_engine (importVault (vd_engine deps) name bs p now v i)) (sound (good deps))"
    "holds (sound (good_new deps i)) (on_engine (merge (vd_engine deps) v b incoming cs msg now i)) (sound (good deps))"
    unfolding good_new_def good_desktop [OF d] d
    by (rule keeps_on_engine, rule desktop.local_ok desktop.import_ok desktop.merge_ok; simp)+
qed

lemma keeps_results [keeps_rules]:
  "keeps P a \<Longrightarrow> keeps P b \<Longrightarrow> keeps P (case x of Unchanged u \<Rightarrow> a | Recorded v \<Rightarrow> b)"
  "keeps P a \<Longrightarrow> (\<And>r. keeps P (k r)) \<Longrightarrow> keeps P (case y of Written \<Rightarrow> a | RefusedLocked r \<Rightarrow> k r)"
  "(\<And>i. keeps P (f1 i)) \<Longrightarrow> (\<And>i. keeps P (f2 i)) \<Longrightarrow> (\<And>i. keeps P (f3 i)) \<Longrightarrow>
   keeps P (case z of SummaryMerged i \<Rightarrow> f1 i | SummaryNeedsCredentials r \<Rightarrow> f2 r | SummaryFailed r \<Rightarrow> f3 r)"
  by (simp_all split: LocalChangeResult.split WriteOutcome.split MergeOutcomeSummary.split)

lemma holds_catch_new:
  "on_desktop deps \<Longrightarrow> (\<And>x. keeps (sound (good deps)) (f x)) \<Longrightarrow> (\<And>e. keeps (sound (good deps)) (h e)) \<Longrightarrow>
   holds (sound (good_new deps i))
     (act_catch (act_bind (on_engine (recordLocalChange (vd_engine deps) v bs now i)) f) h) (sound (good deps))"
  by (intro holds_catch holds_bind [OF new_engine(1)])

lemma new_onWatchedChange:
  assumes "on_desktop (deps :: 'f VaultServicesDeps)"
  shows "holds (sound (good_new deps i)) (onWatchedChange deps bs now i) (sound (good deps))"
proof (rule holdsI)
  fix s :: "'f VaultServices" assume s: "sound (good_new deps i) s"
  have run: "holds (sound (good_new deps i))
     (act_catch (act_bind (on_engine (recordLocalChange (vd_engine deps) v bs now i)) (\<lambda>result.
        case result of Unchanged _ \<Rightarrow> act_return () | Recorded _ \<Rightarrow>
          act_then clearHeldBackUpdate (act_then (log_line SavedInKeePass)
            (act_then (call_out SnapshotChanged) (call_out SyncSuggested)))))
       (\<lambda>e. log_line (WatchingFailed (error_message e)))) (sound (good deps))" for v
    by (rule holds_catch_new [OF assms]; (rule keeps_rules)+)
  show "sound (good deps) (snd (onWatchedChange deps bs now i s))"
    unfolding onWatchedChange_def
    by (rule at_rules) (use s good_new_good holdsD [OF run s] in auto)
qed

lemma keeps_fresh_light:
  "keeps (sound (good_new deps i)) (setActiveVault v)" "keeps (sound (good_new deps i)) (startWatching deps p)"
  by (rule keeps_rules)+

lemma new_recordFileNow:
  assumes "on_desktop (deps :: 'f VaultServicesDeps)"
  shows "holds (sound (good_new deps i)) (recordFileNow deps now i) (sound (good deps))"
proof (rule holdsI)
  fix s :: "'f VaultServices" assume s: "sound (good_new deps i) s"
  have run: "holds (sound (good_new deps i))
     (act_bind (act_read (\<lambda>s. fa_read (vd_files deps) p (sv_files s))) (\<lambda>bs.
      act_bind (on_engine (recordLocalChange (vd_engine deps) v bs now i)) (\<lambda>result.
        case result of Unchanged _ \<Rightarrow> act_return FileUnchanged | Recorded _ \<Rightarrow>
          act_then clearHeldBackUpdate (act_then (log_line SavedInKeePass)
            (act_then (call_out SnapshotChanged) (act_then (call_out SyncSuggested) (act_return FileRecorded)))))))
     (sound (good deps))" for v p
    by (rule holds_bind [OF keeps_basic(4) _ good_new_good], rule holds_bind [OF new_engine(1) [OF assms]])
      (assumption | rule keeps_rules)+
  show "sound (good deps) (snd (recordFileNow deps now i s))"
    unfolding recordFileNow_def
    by (intro at_rules(8) at_rules(4) good_new_good [OF s] holdsD [OF run s])
qed

lemma new_bindVault:
  assumes "on_desktop (deps :: 'f VaultServicesDeps)"
  shows "holds (sound (good_new deps i)) (bindVault deps p name now v i) (sound (good deps))"
proof (rule holdsI)
  fix s :: "'f VaultServices" assume s: "sound (good_new deps i) s"
  have known: "holds (sound (good_new deps i))
      (act_then (setActiveVault w) (act_then (startWatching deps p) (act_then (recordFileNow deps now i)
        (act_then (log_line l) (call_out SnapshotChanged))))) (sound (good deps))" for w l
    by (rule holds_then [OF keeps_fresh_light(1) _ good_new_good], rule holds_then [OF keeps_fresh_light(2) _ good_new_good],
        rule holds_then [OF new_recordFileNow [OF assms]]) (assumption | rule keeps_rules)+
  have importing: "holds (sound (good_new deps i))
      (act_bind (act_read (\<lambda>s. fa_read (vd_files deps) p (sv_files s))) (\<lambda>bs.
         if \<not> looksLikeKdbx bs then act_throw e
         else let n = f in
           act_bind (on_engine (importVault (vd_engine deps) n bs (Some p) now v i)) (\<lambda>(vault, _).
             act_then (setActiveVault (Some (vault_id vault))) (act_then (startWatching deps p)
               (act_then (log_line (l n)) (call_out SnapshotChanged)))))) (sound (good deps))" for e f l
  proof (rule holds_bind [OF keeps_basic(4) _ good_new_good])
    fix bs
    have "holds (sound (good_new deps i))
       (act_bind (on_engine (importVault (vd_engine deps) f bs (Some p) now v i)) (\<lambda>(vault, _).
             act_then (setActiveVault (Some (vault_id vault))) (act_then (startWatching deps p)
               (act_then (log_line (l f)) (call_out SnapshotChanged))))) (sound (good deps))"
      by (rule holds_bind [OF new_engine(2) [OF assms]]) (assumption | rule keeps_rules)+
    then show "holds (sound (good_new deps i)) (if \<not> looksLikeKdbx bs then act_throw e
         else let n = f in
           act_bind (on_engine (importVault (vd_engine deps) n bs (Some p) now v i)) (\<lambda>(vault, _).
             act_then (setActiveVault (Some (vault_id vault))) (act_then (startWatching deps p)
               (act_then (log_line (l n)) (call_out SnapshotChanged))))) (sound (good deps))"
      by (auto simp: holds_def good_new_good)
  qed
  show "sound (good deps) (snd (bindVault deps p name now v i s))"
    unfolding bindVault_def
    by (rule at_rules) (rule holdsD [OF importing s], rule holdsD [OF known s])
qed

lemma keeps_file_operations [keeps_rules]:
  assumes "on_desktop deps"
  shows "keeps (sound (good deps)) (applyPendingUpdate deps)"
    and "keeps (sound (good deps)) (writeBack deps r ign)"
    and "keeps (sound (good deps)) (saveVaultAs deps p)"
    and "keeps (sound (good deps)) (promote_version deps r now)"
    and "keeps (sound (good deps)) stopTrackingVault"
proof -
  have watcher: "keeps (sound E) (act_modify (\<lambda>s. s\<lparr>sv_watcher := w\<rparr>))" for E w
    by (rule keeps_modify) (simp add: sound_simps)
  have failed: "keeps P (failed_with e)" for P e
    unfolding failed_with_def by (rule keeps_rules)
  show "keeps (sound (good deps)) (applyPendingUpdate deps)"
    by (rule holdsI, unfold applyPendingUpdate_def) (assumption | rule at_rules keeps_rules)+
  show "keeps (sound (good deps)) (writeBack deps r ign)"
    by (rule holdsI, unfold writeBack_def) (assumption | rule at_rules keeps_rules failed)+
  show "keeps (sound (good deps)) (promote_version deps r now)"
    unfolding promote_version_def by (assumption | rule assms keeps_rules)+
  show "keeps (sound (good deps)) stopTrackingVault"
    unfolding stopTrackingVault_def by (rule watcher keeps_rules)+
  show "keeps (sound (good deps)) (saveVaultAs deps p)"
    unfolding saveVaultAs_def
    by (rule keeps_rules, rule keeps_rules, rule holdsI) (assumption | rule at_rules assms keeps_rules failed)+
qed

lemma keeps_conflicts [keeps_rules]:
  assumes "on_desktop deps"
  shows "keeps (sound (good deps)) (openConflictFor v r c now)"
    and "keeps (sound (good deps)) (resolveConflict deps c d now)"
    and "keeps (sound (good deps)) (decide_all cs now)"
proof -
  show "keeps (sound (good deps)) (openConflictFor v r c now)"
    by (rule holdsI, unfold openConflictFor_def Let_def)
      (assumption | rule at_rules assms keeps_rules)+
  show "keeps (sound (good deps)) (resolveConflict deps c d now)"
    unfolding resolveConflict_def
    by (rule keeps_rules, rule keeps_rules, rule holdsI) (assumption | rule at_rules assms keeps_rules)+
  show "keeps (sound (good deps)) (decide_all cs now)"
  proof (induction cs)
    case Nil
    show ?case unfolding decide_all.simps by (rule keeps_rules)
  next
    case (Cons c cs)
    show ?case unfolding decide_all.simps by (rule Cons.IH assms keeps_rules)+
  qed
qed

lemma new_merge_versions:
  assumes "on_desktop deps"
  shows "holds (sound (good_new deps i)) (merge_versions deps b incoming pw now i) (sound (good deps))"
proof -
  have "keeps P (a r)" if "\<And>i. keeps P (a (MergeDone i))" "\<And>i. keeps P (a (MergeFailure i))"
    "\<And>i. keeps P (a (MergeNeedsCredentials i))" for P and a :: "MergeOutcome \<Rightarrow> ('f VaultServices, MergeOutcomeSummary) action" and r
    using that by (cases r) auto
  note outcome = this
  show ?thesis
    unfolding merge_versions_def
    by (rule holds_bind [OF keeps_basic(4) _ good_new_good], rule holds_bind [OF new_engine(3) [OF assms]], rule outcome)
      (simp_all only: MergeOutcome.case, (assumption | rule keeps_rules)+)
qed

lemma new_combineAndUse:
  assumes "on_desktop (deps :: 'f VaultServicesDeps)"
  shows "holds (sound (good_new deps i)) (combineAndUse deps other pw now i) (sound (good deps))"
proof -
  have using_it: "holds (sound (good_new deps i)) (act_bind (merge_versions deps h [other] pw now i) k) (sound (good deps))"
    if "\<And>m. keeps (sound (good deps)) (k m)" for h k
    by (rule holds_bind [OF new_merge_versions [OF assms] that])
  show ?thesis
    unfolding combineAndUse_def
  proof (rule holds_bind [OF keeps_basic(4) _ good_new_good], rule holdsI)
    fix v and s :: "'f VaultServices" assume s: "sound (good_new deps i) s"
    show "sound (good deps) (snd (case case the_vault v s of None \<Rightarrow> None | Some vault \<Rightarrow> vault_headRevisionId vault of
        None \<Rightarrow> (Inr (SummaryFailed ''There is no current version to combine with.''), s)
      | Some headId \<Rightarrow> act_bind (merge_versions deps headId [other] pw now i) (\<lambda>merged.
          case merged of
             SummaryMerged mergedId \<Rightarrow>
               act_then (on_engine (promote (vd_engine deps) v mergedId now))
                 (act_bind (act_read (\<lambda>s. Inr (listOpenConflicts v (en_md (sv_engine s))))) (\<lambda>conflicts.
                  act_then (decide_all conflicts now)
                    (act_then (log_line UsingCombined)
                    (act_then (materializeCurrentVersion deps)
                    (act_then (call_out SnapshotChanged)
                    (act_then (call_out SyncSuggested) (act_return merged)))))))
           | SummaryNeedsCredentials u \<Rightarrow> act_return merged | SummaryFailed u \<Rightarrow> act_return merged) s))"
      by (rule at_rules(8), rule at_rules(4) [OF good_new_good [OF s]], rule holdsD [OF using_it s])
        (assumption | rule assms keeps_rules)+
  qed
qed

lemma sound_launched: "sound E s \<Longrightarrow> sound E (launched deps s)"
  by (simp add: launched_def sound_simps)

lemma at_log_line [at_rules]: "sound E s \<Longrightarrow> sound E (snd (log_line l s))"
  by (rule holdsD [OF keeps_light(1)])

lemma sound_start: "sound E s \<Longrightarrow> sound E (snd (start deps s))"
  unfolding start_def
  by (rule at_rules(2), erule sound_launched, (rule keeps_rules)+, rule holdsI)
    (assumption | rule at_rules keeps_rules)+

lemma keeps_get_host [keeps_rules]: "keeps (sound E) get_host"
proof (rule holdsI)
  fix s :: "'f VaultServices" assume "sound E s"
  then show "sound E (snd (get_host s))"
    by (auto simp: get_host_def get_settings_def Let_def sound_simps split: option.split)
qed

lemma save_settings_rows:
  "save_settings wanted st = (r, st') \<Longrightarrow> map_of (st_rows st') ACTIVE_VAULT_KEY = map_of (st_rows st) ACTIVE_VAULT_KEY"
  by (auto simp: save_settings_def Let_def CONNECTION_KEY_def ACTIVE_VAULT_KEY_def split: option.splits if_splits)

lemma keeps_saveConnectionSettings [keeps_rules]: "keeps (sound E) (saveConnectionSettings wanted)"
proof (rule holdsI)
  fix s :: "'f VaultServices" assume s: "sound E s"
  obtain r st where save: "save_settings wanted (sv_settings s) = (r, st)" by (cases "save_settings wanted (sv_settings s)")
  then have st: "sound E (s\<lparr>sv_settings := st\<rparr>)"
    using s save_settings_rows [OF save] by (auto simp: sound_simps)
  show "sound E (snd (saveConnectionSettings wanted s))"
  proof (cases r)
    case (Inr saved)
    then show ?thesis
      unfolding saveConnectionSettings_def save prod.case Inr sum.case by (intro at_rules st) (rule keeps_rules)+
  qed (use st in \<open>simp add: saveConnectionSettings_def save\<close>)
qed

lemma keeps_network_results [keeps_rules]:
  "(\<And>e. keeps P (f1 e)) \<Longrightarrow> (\<And>n. keeps P (f2 n)) \<Longrightarrow> (\<And>b. keeps P (f3 b)) \<Longrightarrow>
   keeps P (case x of FetchFailed e \<Rightarrow> f1 e | FetchStatus n \<Rightarrow> f2 n | FetchBody b \<Rightarrow> f3 b)"
  "(\<And>l. keeps P (g1 l)) \<Longrightarrow> (\<And>h b. keeps P (g2 h b)) \<Longrightarrow> (\<And>h n. keeps P (g3 h n)) \<Longrightarrow> (\<And>h. keeps P (g4 h)) \<Longrightarrow>
   (\<And>h. keeps P (g5 h)) \<Longrightarrow> keeps P (case y of Redeemed l \<Rightarrow> g1 l | NoSuchCode h b \<Rightarrow> g2 h b | RedeemStatus h n \<Rightarrow> g3 h n
     | RedeemUnreadable h \<Rightarrow> g4 h | RedeemUnreachable h \<Rightarrow> g5 h)"
  "(\<And>r. keeps P (h1 r)) \<Longrightarrow> (\<And>v. keeps P (h2 v)) \<Longrightarrow> keeps P (case z of OfferRefused r \<Rightarrow> h1 r | OfferParsed v \<Rightarrow> h2 v)"
  "keeps P (k v) \<Longrightarrow> keeps P (let u = v in k u)"
  by (simp_all split: fetched.split redeemed.split PairingParse.split)

lemma keeps_pending [keeps_rules]:
  "keeps (sound E) (act_modify (\<lambda>s. s\<lparr>sv_pendingRendezvous := x, sv_pairingStartedAt := y\<rparr>))"
  by (rule keeps_modify) (simp add: sound_simps)

lemma keeps_pairing [keeps_rules]:
  "keeps (sound E) (createPairingCode params post_rooms post_code deps now)"
  "keeps (sound E) (readPairingCode parse_URL fetch deps now code)"
proof -
  show "keeps (sound E) (createPairingCode params post_rooms post_code deps now)"
    unfolding createPairingCode_def issueShortCode_def Let_def by (rule keeps_rules)+
  show "keeps (sound E) (readPairingCode parse_URL fetch deps now code)"
    unfolding readPairingCode_def accept_offer_def redeemShortCode_def Let_def by (rule keeps_rules)+
qed

lemma keeps_rememberRendezvous [keeps_rules]: "keeps (sound E) (rememberRendezvous d place now)"
proof -
  have "distinct (map rz_device_id (upsert (\<lambda>r. rz_device_id r = d) (\<lambda>r. rendezvous_row d place now)
       (rendezvous_row d place now) rows))" if "distinct (map rz_device_id rows)" for rows
  proof -
    have "map rz_device_id (map (\<lambda>r. if rz_device_id r = d then rendezvous_row d place now else r) rows) = map rz_device_id rows"
      by (simp add: rendezvous_row_def)
    then have "distinct (map rz_device_id (map (\<lambda>r. if rz_device_id r = d then rendezvous_row d place now else r) rows))"
      using that by (simp only:)
    then show ?thesis using that
      by (cases "list_ex (\<lambda>r. rz_device_id r = d) rows")
        (simp_all only: upsert_def if_True if_False, auto simp: list_ex_iff rendezvous_row_def)
  qed
  then show ?thesis unfolding rememberRendezvous_def by (intro keeps_modify) (simp add: sound_simps)
qed

lemma sound_rendezvous:
  "sound E s \<Longrightarrow> sound E (snd (rendezvousFor d s))" "sound E s \<Longrightarrow> sound E (snd (standingRendezvous s))"
proof -
  assume s: "sound E s"
  then have pending: "sound E (s\<lparr>sv_pendingRendezvous := x\<rparr>)" for x by (simp add: sound_simps)
  show "sound E (snd (rendezvousFor d s))"
    using s pending by (cases "find (\<lambda>r. rz_device_id r = d) (sv_rendezvous s)") (simp_all add: rendezvousFor_def)
  show "sound E (snd (standingRendezvous s))"
    using s pending by (cases "standing_rows s") (auto simp: standingRendezvous_def)
qed

lemma keeps_verification [keeps_rules]:
  "keeps (sound E) (awaitPairingConfirmation deps p d k n)" "keeps (sound E) (settleVerification c l)"
  "keeps (sound E) (answerVerification c)" "keeps (sound E) verification_timeout"
proof -
  have set: "keeps (sound E) (act_modify (\<lambda>s. s\<lparr>sv_verification := x\<rparr>))" for x
    by (rule keeps_modify) (simp add: sound_simps)
  show "keeps (sound E) (awaitPairingConfirmation deps p d k n)"
    by (rule holdsI, unfold awaitPairingConfirmation_def) (assumption | rule at_rules keeps_rules set)+
  show settle: "keeps (sound E) (settleVerification c l)" for c l
    by (rule holdsI, unfold settleVerification_def) (assumption | rule at_rules keeps_rules set)+
  show "keeps (sound E) verification_timeout" unfolding verification_timeout_def by (rule settle)
  show "keeps (sound E) (answerVerification c)"
    by (rule holdsI, unfold answerVerification_def) (assumption | rule at_rules holdsD [OF settle])+
qed

lemma keeps_trust [keeps_rules]: "keeps (sound E) (act_modify (\<lambda>s. s\<lparr>sv_trust := f s\<rparr>))"
  by (rule keeps_modify) (simp add: sound_simps)

lemma keeps_devices [keeps_rules]:
  "keeps (sound E) (disconnectDevice d)" "keeps (sound E) (reconnectDevice d)" "keeps (sound E) (forgetDevice d)"
  "keeps (sound E) (peerOpened p)" "keeps (sound E) (peerGone p)"
proof -
  have live: "keeps (sound E) (act_modify (\<lambda>s. s\<lparr>sv_livePeers := f s\<rparr>))" for f
    by (rule keeps_modify) (simp add: sound_simps)
  have filtered: "distinct (map g (filter h xs))" if "distinct (map g xs)" for g :: "'x \<Rightarrow> 'y" and h xs
    using that by (rule distinct_map_filter)
  have forget: "keeps (sound E) (act_modify (\<lambda>s. s\<lparr>sv_rendezvous := filter (\<lambda>r. rz_device_id r \<noteq> d) (sv_rendezvous s),
      sv_trust := f s\<rparr>))" for f
    by (rule keeps_modify) (simp add: sound_simps filtered)
  show "keeps (sound E) (disconnectDevice d)" unfolding disconnectDevice_def by (rule keeps_rules)+
  show "keeps (sound E) (reconnectDevice d)"
    by (rule holdsI, unfold reconnectDevice_def) (assumption | rule at_rules keeps_rules)+
  show "keeps (sound E) (forgetDevice d)"
    by (rule holdsI, unfold forgetDevice_def Let_def) (assumption | rule at_rules keeps_rules forget)+
  show "keeps (sound E) (peerOpened p)"
    by (rule holdsI, unfold peerOpened_def) (assumption | rule at_rules keeps_rules live)+
  show "keeps (sound E) (peerGone p)"
    by (rule holdsI, unfold peerGone_def) (assumption | rule at_rules keeps_rules live)+
qed

lemma sound_begin_session: "sound E s \<Longrightarrow> sound E (snd (begin_session p s))"
  by (simp add: begin_session_def sound_simps)

lemma sound_end_session: "sound E s \<Longrightarrow> sound E (end_session p s)"
proof -
  assume "sound E s"
  then have "sound E (snd (settleVerification False DisconnectedBeforeConfirm s))"
    by (rule holdsD [OF keeps_verification(2)])
  then show ?thesis by (simp add: end_session_def Let_def sound_simps distinct_remove1)
qed

lemma keeps_on_session_event [keeps_rules]: "keeps (sound E) (on_session_event p ev now)"
proof (rule holdsI)
  fix s :: "'f VaultServices" assume s: "sound E s"
  have live: "keeps (sound E) (act_modify (\<lambda>s. s\<lparr>sv_livePeers := f s\<rparr>))" for f
    by (rule keeps_modify) (simp add: sound_simps)
  show "sound E (snd (on_session_event p ev now s))"
    unfolding on_session_event_def
    by (cases ev) (simp_all only: SessionEvent.case, (assumption | rule s at_rules keeps_rules live)+)
qed

lemma keeps_after_divergence [keeps_rules]:
  "on_desktop deps \<Longrightarrow> keeps (sound (good deps)) (after_divergence deps result now c)"
  unfolding after_divergence_def
  by (cases "sr_remoteHead result"; cases "sr_vaultId result"; cases "sr_divergence result")
    (simp_all only: prod.case option.case Divergence.case, (assumption | rule keeps_rules)+)

lemma keeps_sync_failed [keeps_rules]: "keeps (sound E) (sync_failed reason code)"
  unfolding sync_failed_def by (rule keeps_rules)+

lemma snd_case_end: "snd (case x of (r, t) \<Rightarrow> (r, end_session p t)) = end_session p (snd x)"
  by (simp split: prod.split)

lemma sound_session_returned:
  assumes "on_desktop deps" "sound (good deps) s"
  shows "sound (good deps) (snd (session_returned deps p result now c s))"
proof -
  have "keeps (sound (good deps)) (act_catch
        (act_then (setActiveVault (sr_vaultId result))
          (act_then (log_line l)
          (act_bind (after_divergence deps result now c) (\<lambda>opened.
           act_then (call_out SnapshotChanged) (act_return (k opened))))))
        (\<lambda>e. sync_failed (error_message e) None))" for l k
    by (rule keeps_rules assms(1))+
  note body = holdsD [OF this assms(2)]
  show ?thesis unfolding session_returned_def snd_case_end by (rule sound_end_session, rule body)
qed

lemma sound_session_threw: "sound E s \<Longrightarrow> sound E (snd (session_threw p reason code s))"
  unfolding session_threw_def snd_case_end by (rule sound_end_session, rule holdsD [OF keeps_sync_failed])

section \<open>Runs of the services\<close>

text \<open>
  A step: one of the calls, an event of a session, a tick, a restart, anything other programs do to the
  files, or work a running session does in the stores (which are engine operations) and in the trust
  store. Ids drawn for revisions are new.
\<close>

inductive service_step :: "'f VaultServicesDeps \<Rightarrow> 'f VaultServices \<Rightarrow> 'f VaultServices \<Rightarrow> bool" for deps where
  restarts: "service_step deps s (snd (start deps s))"
| bound: "\<not> hasRevision i (en_md (sv_engine s)) \<Longrightarrow> service_step deps s (snd (bindVault deps p name now v i s))"
| watched_change: "\<not> hasRevision i (en_md (sv_engine s)) \<Longrightarrow> service_step deps s (snd (onWatchedChange deps bs now i s))"
| recorded: "\<not> hasRevision i (en_md (sv_engine s)) \<Longrightarrow> service_step deps s (snd (recordFileNow deps now i s))"
| combined: "\<not> hasRevision i (en_md (sv_engine s)) \<Longrightarrow> service_step deps s (snd (combineAndUse deps other pw now i s))"
| merged: "\<not> hasRevision i (en_md (sv_engine s)) \<Longrightarrow> service_step deps s (snd (merge_versions deps b incoming pw now i s))"
| ticked: "service_step deps s (unlock_tick deps s)"
| applied: "service_step deps s (snd (applyPendingUpdate deps s))"
| written_back: "service_step deps s (snd (writeBack deps r ign s))"
| saved_as: "service_step deps s (snd (saveVaultAs deps p s))"
| promoted: "service_step deps s (snd (promote_version deps r now s))"
| stopped_tracking: "service_step deps s (snd (stopTrackingVault s))"
| resolved: "service_step deps s (snd (resolveConflict deps c d now s))"
| settings_saved: "service_step deps s (snd (saveConnectionSettings wanted s))"
| code_created: "service_step deps s (snd (createPairingCode params post_rooms post_code deps now s))"
| code_read: "service_step deps s (snd (readPairingCode parse_URL fetch deps now code s))"
| asked_where: "service_step deps s (snd (rendezvousFor d s))"
| asked_standing: "service_step deps s (snd (standingRendezvous s))"
| asked_to_confirm: "service_step deps s (snd (awaitPairingConfirmation deps p d k n s))"
| answered: "service_step deps s (snd (answerVerification yes s))"
| not_answered: "service_step deps s (snd (verification_timeout s))"
| disconnected: "service_step deps s (snd (disconnectDevice d s))"
| reconnected: "service_step deps s (snd (reconnectDevice d s))"
| forgotten: "service_step deps s (snd (forgetDevice d s))"
| opened: "service_step deps s (snd (peerOpened p s))"
| gone: "service_step deps s (snd (peerGone p s))"
| stopped: "service_step deps s (snd (stop s))"
| files_change: "service_step deps s (s\<lparr>sv_files := files\<rparr>)"
| session_begins: "service_step deps s (snd (begin_session p s))"
| session_event: "service_step deps s (snd (on_session_event p ev now s))"
| session_works: "engine_run (vd_engine deps) (sv_engine s) e \<Longrightarrow> service_step deps s (s\<lparr>sv_engine := e, sv_trust := devices\<rparr>)"
| session_ends: "service_step deps s (snd (session_returned deps p result now c s))"
| session_fails: "service_step deps s (snd (session_threw p reason code s))"

inductive service_run :: "'f VaultServicesDeps \<Rightarrow> 'f VaultServices \<Rightarrow> 'f VaultServices \<Rightarrow> bool" for deps s where
  service_none: "service_run deps s s"
| service_more: "service_run deps s t \<Longrightarrow> service_step deps t u \<Longrightarrow> service_run deps s u"

lemma service_run_trans: "service_run deps s t \<Longrightarrow> service_run deps t u \<Longrightarrow> service_run deps s u"
  by (rotate_tac, induction rule: service_run.induct) (auto intro: service_run.intros)

lemma sound_new: "sound (good deps) s \<Longrightarrow> \<not> hasRevision i (en_md (sv_engine s)) \<Longrightarrow> sound (good_new deps i) s"
  by (simp add: sound_def good_new_def)

lemma sound_session_works:
  assumes "on_desktop deps" "sound (good deps) s" "engine_run (vd_engine deps) (sv_engine s) e"
  shows "sound (good deps) (s\<lparr>sv_engine := e, sv_trust := devices\<rparr>)"
proof -
  obtain sha256 mergef difff deviceId where d: "vd_engine deps = desktop_deps sha256 mergef difff deviceId"
    using assms(1) by (auto simp: on_desktop_def)
  have "good deps e"
    using assms(2,3) desktop.engine_run_ok unfolding good_desktop [OF d] d by (auto simp: sound_def)
  then show ?thesis using assms(2) by (simp add: sound_simps)
qed

lemma sound_files_change: "sound E s \<Longrightarrow> sound E (s\<lparr>sv_files := files\<rparr>)"
  by (simp add: sound_simps)

lemma sound_step: "service_step deps s t \<Longrightarrow> on_desktop deps \<Longrightarrow> sound (good deps) s \<Longrightarrow> sound (good deps) t"
proof (induction rule: service_step.induct)
  case (ticked s)
  then show ?case using holdsD [OF keeps_materialize] by (auto simp: unlock_tick_def)
qed (erule (2) sound_session_works holdsD [OF new_bindVault sound_new] holdsD [OF new_onWatchedChange sound_new]
      holdsD [OF new_recordFileNow sound_new] holdsD [OF new_combineAndUse sound_new]
      holdsD [OF new_merge_versions sound_new] |
     erule holdsD [rotated], (assumption | rule keeps_rules)+ |
     (erule sound_files_change) | (erule (1) sound_session_returned) | (erule sound_start sound_rendezvous sound_begin_session sound_session_threw))+

lemma sound_run: "service_run deps s t \<Longrightarrow> on_desktop deps \<Longrightarrow> sound (good deps) s \<Longrightarrow> sound (good deps) t"
  by (induction rule: service_run.induct) (auto intro: sound_step)

section \<open>Properties\<close>

text \<open>A device on its first launch: empty stores, no devices, some files of the user's.\<close>

definition fresh_services :: "(string \<times> io_outcome) list \<Rightarrow> 'f \<Rightarrow> 'f VaultServices" where
  "fresh_services tape files =
     \<lparr>sv_engine = fresh_install tape, sv_files = files, sv_trust = [], sv_rendezvous = [],
      sv_settings = new_SettingsStore [] '''', sv_vaultId = None, sv_watcher = None, sv_activity = [],
      sv_sessionsInFlight = [], sv_livePeers = [], sv_pendingRendezvous = None, sv_updateHeldBack = False,
      sv_verification = None, sv_unlockTimer = False, sv_pairingStartedAt = None, sv_calls = []\<rparr>"

lemma fresh_sound: "on_desktop deps \<Longrightarrow> sound (good deps) (fresh_services tape files)"
  by (auto simp: on_desktop_def fresh_services_def sound_simps good_desktop fresh_install_ok)

lemma run_sound:
  assumes "service_run deps (fresh_services tape files) s"
    and "vd_engine deps = desktop_deps sha256 mergef difff deviceId"
  shows "sound (good deps) s" "desktop_ok sha256 mergef difff deviceId (sv_engine s)" "services_wf s"
proof -
  have d: "on_desktop deps" using assms(2) by (auto simp: on_desktop_def)
  show s: "sound (good deps) s" by (rule sound_run [OF assms(1) d fresh_sound [OF d]])
  then show "desktop_ok sha256 mergef difff deviceId (sv_engine s)" "services_wf s"
    by (simp_all add: sound_def good_desktop [OF assms(2)])
qed


definition sample_services_deps :: "folder VaultServicesDeps" where
  "sample_services_deps =
     \<lparr>vd_engine = sample_kdbx_deps, vd_files = NodeFiles, vd_canWatch = True,
      vd_identity = \<lparr>li_keyPair = \<lparr>kp_deviceId = ''dev'', kp_publicKey = [1], kp_privateKey = [2]\<rparr>,
        li_name = ''laptop'', li_atRestUnprotected = False\<rparr>,
      vd_sha256 = (\<lambda>_. [1, 2, 3]), vd_defaultServerHost = ''sync.example.org''\<rparr>"

definition sample_kdbx :: bytes where
  "sample_kdbx = [0x03, 0xd9, 0xa2, 0x9a, 0x67, 0xfb, 0x4b, 0xb5, 0x01]"

definition home_folder :: folder where
  "home_folder = \<lparr>fo_files = [(''/v/my.kdbx'', sample_kdbx)], fo_tape = []\<rparr>"

definition bound_services :: "folder VaultServices" where
  "bound_services = snd (bindVault sample_services_deps ''/v/my.kdbx'' None 5 ''v'' ''r0''
     (snd (start sample_services_deps (fresh_services [] home_folder))))"

lemma sample_engine: "vd_engine sample_services_deps = kdbx_deps sample_sha sample_library ''dev''"
  by (simp add: sample_services_deps_def sample_kdbx_deps_def)

lemma bound_run: "service_run sample_services_deps (fresh_services [] home_folder) bound_services"
  unfolding bound_services_def
proof (rule service_more [OF service_more [OF service_none restarts]], rule bound)
  show "\<not> hasRevision ''r0'' (en_md (sv_engine (snd (start sample_services_deps (fresh_services [] home_folder)))))"
    by code_simp
qed

lemma bound_reads:
  "sv_vaultId bound_services = Some ''v''" "sv_watcher bound_services = Some ''/v/my.kdbx''"
  "map_option vault_headRevisionId (getVault ''v'' (en_md (sv_engine bound_services))) = Some (Some ''r0'')"
  by code_simp+


end
