(* ===== verification/Service_Properties.thy ===== *)
theory Service_Properties
  imports Service_Safety
begin

text \<open>
  What the operations of the services that users rely on do: keeping the file in step, recording a
  conflict, combining two versions, coming back to the vault in use and the list of devices. The lemmas at the end of the sections show behaviour that the comments of the source do not
  promise, on concrete states.
\<close>

lemmas act_defs = act_then_def act_bind_simp act_modify_def log_line_def call_out_def on_engine_def
  on_files_def act_read_def act_catch_def clearHeldBackUpdate_def clear_held_back_def

section \<open>Concrete states\<close>

text \<open>A newer version came from another device; then one that does not follow it.\<close>

definition advanced_services :: "folder VaultServices" where
  "advanced_services = bound_services\<lparr>sv_engine :=
     snd (promote sample_kdbx_deps ''v'' ''r1'' 9 (snd (ingestReceivedRevision sample_kdbx_deps
       \<lparr>in_vaultId = ''v'', in_revisionId = ''r1'', in_declaredParentIds = [''r0''],
        in_declaredHash = replicate 64 CHR ''a'', in_bytes = [1], in_fromDeviceId = ''peer'', in_message = None\<rparr>
       8 (sv_engine bound_services)))), sv_trust := []\<rparr>"

lemma advanced_run: "service_run sample_services_deps (fresh_services [] home_folder) advanced_services"
  unfolding advanced_services_def
  by (rule service_more [OF bound_run session_works], unfold sample_engine [folded sample_kdbx_deps_def],
      rule run_step [OF run_step [OF run_none]], rule step_ingest [OF surjective_pairing],
      rule step_promote [OF surjective_pairing])

definition forked_services :: "folder VaultServices" where
  "forked_services = advanced_services\<lparr>sv_engine :=
     snd (ingestReceivedRevision sample_kdbx_deps
       \<lparr>in_vaultId = ''v'', in_revisionId = ''r2'', in_declaredParentIds = [''r0''],
        in_declaredHash = replicate 64 CHR ''a'', in_bytes = [1], in_fromDeviceId = ''peer'', in_message = None\<rparr>
       10 (sv_engine advanced_services))\<rparr>"

lemma forked_run: "service_run sample_services_deps (fresh_services [] home_folder) forked_services"
proof -
  have eq: "forked_services = advanced_services\<lparr>sv_engine := snd (ingestReceivedRevision sample_kdbx_deps
       \<lparr>in_vaultId = ''v'', in_revisionId = ''r2'', in_declaredParentIds = [''r0''],
        in_declaredHash = replicate 64 CHR ''a'', in_bytes = [1], in_fromDeviceId = ''peer'', in_message = None\<rparr>
       10 (sv_engine advanced_services)), sv_trust := sv_trust advanced_services\<rparr>"
    by (simp add: forked_services_def)
  show ?thesis
    unfolding eq
    by (rule service_more [OF advanced_run session_works], unfold sample_engine [folded sample_kdbx_deps_def],
      rule run_step [OF run_none], rule step_ingest [OF surjective_pairing])
qed

text \<open>The file was edited while the application was not running.\<close>

definition edited_services :: "folder VaultServices" where
  "edited_services = snd (start sample_services_deps
     (advanced_services\<lparr>sv_files := \<lparr>fo_files = [(''/v/my.kdbx'', [7, 7])], fo_tape = []\<rparr>\<rparr>))"

text \<open>What the examples below read off these states, evaluated at once.\<close>

lemma sample_reads:
  "map_option (\<lambda>(p, h). (p, rev_hash h)) (current_file advanced_services) = Some (''/v/my.kdbx'', replicate 64 CHR ''a'') \<and>
   fst (materializeCurrentVersion sample_services_deps advanced_services) = Inr () \<and>
   \<not> isVaultLocked ''/v/my.kdbx'' (sv_files advanced_services) \<and>
   (case current_file advanced_services of None \<Rightarrow> True
      | Some (p, h) \<Rightarrow> \<not> already_on_disk sample_services_deps p h advanced_services) \<and>
   fst (openConflictFor ''v'' ''r2'' ''c1'' 11 forked_services) = Inr ''c1'' \<and>
   ''c1'' \<notin> cf_id ` set (db_conflicts (en_md (sv_engine forked_services))) \<and>
   map_option vault_kdbxPath (getVault ''v'' (en_md (sv_engine bound_services))) = Some (Some ''/v/my.kdbx'') \<and>
   sv_verification bound_services = None \<and>
   fst (combineAndUse sample_services_deps ''r2'' ''pw'' 12 ''r3'' forked_services) = Inr (SummaryMerged ''r3'') \<and>
   \<not> hasRevision ''r3'' (en_md (sv_engine forked_services)) \<and>
   sv_vaultId forked_services = Some ''v'' \<and>
   getVault ''v'' (en_md (sv_engine forked_services)) \<noteq> None \<and>
   map_option rev_vaultId (getRevision ''r2'' (en_md (sv_engine forked_services))) = Some ''v'' \<and>
   sv_vaultId (snd (stopTrackingVault bound_services)) = None \<and>
   sv_vaultId (snd (start sample_services_deps (snd (stopTrackingVault bound_services)))) = Some ''v'' \<and>
   readVaultFile ''/v/my.kdbx'' (sv_files edited_services) = Inr [7, 7] \<and>
   map_option rev_id (map_option snd (current_file edited_services)) = Some ''r1'' \<and>
   readVaultFile ''/v/my.kdbx'' (sv_files (snd (materializeCurrentVersion sample_services_deps edited_services))) = Inr [1] \<and>
   map rev_id (listRevisions ''v'' (en_md (sv_engine edited_services))) = [''r1'', ''r0'']"
  by code_simp

section \<open>The file follows the current version\<close>

lemma held_back_state:
  "fst (hold_back s) = Inr ()" "sv_updateHeldBack (snd (hold_back s))" "sv_unlockTimer (snd (hold_back s))"
  "sv_engine (snd (hold_back s)) = sv_engine s" "sv_files (snd (hold_back s)) = sv_files s"
  by (simp_all add: hold_back_def watchForUnlock_def act_defs)

lemma materialize_cases:
  assumes "current_file s = Some (kdbxPath, head)"
    and "bytesOf (vd_engine deps) (rev_id head) (sv_engine (meanwhile s)) = Inr content"
    and "materializeAmid meanwhile deps s = (r, t)"
  obtains "already_on_disk deps kdbxPath head s" "r = Inr ()" "t = clear_held_back s"
    | "\<not> already_on_disk deps kdbxPath head s" "fa_isLocked (vd_files deps) kdbxPath (sv_files s)" "(r, t) = hold_back s"
    | w d where "\<not> already_on_disk deps kdbxPath head s" "\<not> fa_isLocked (vd_files deps) kdbxPath (sv_files s)"
        "fa_write (vd_files deps) kdbxPath content False (sv_files (meanwhile s)) = (w, d)" "sv_files t = d"
        "sv_engine t = sv_engine (meanwhile s)"
        "case w of Inl e \<Rightarrow> r = Inl e \<and> sv_updateHeldBack t = sv_updateHeldBack (meanwhile s) |
          Inr _ \<Rightarrow> r = Inr () \<and> \<not> sv_updateHeldBack t \<and> hd (sv_activity t) = UpdatedFile"
proof -
  obtain w d where w: "fa_write (vd_files deps) kdbxPath content False (sv_files (meanwhile s)) = (w, d)"
    by (cases "fa_write (vd_files deps) kdbxPath content False (sv_files (meanwhile s))")
  show ?thesis
  proof (cases "already_on_disk deps kdbxPath head s")
    case True
    then show ?thesis using that(1) assms by (auto simp: materializeAmid_def act_defs)
  next
    case False
    show ?thesis
    proof (cases "fa_isLocked (vd_files deps) kdbxPath (sv_files s)")
      case True
      then show ?thesis using that(2) False assms by (auto simp: materializeAmid_def)
    next
      case unlocked: False
      show ?thesis
        by (rule that(3) [OF False unlocked w])
          (use assms False unlocked w in \<open>auto simp: materializeAmid_def act_defs MAX_ACTIVITY_def split: sum.splits\<close>)
    qed
  qed
qed

lemma current_file_stored: "current_file s = Some (p, head) \<Longrightarrow> getRevision (rev_id head) (en_md (sv_engine s)) = Some head"
  by (auto simp: current_file_def split: option.splits dest: getRevision_id)

lemma run_bytes:
  assumes "service_run deps (fresh_services tape files) s"
    and "vd_engine deps = desktop_deps sha256 mergef difff deviceId"
    and "getRevision i (en_md (sv_engine s)) = Some r"
  shows "\<exists>c. bytesOf (vd_engine deps) i (sv_engine s) = Inr c \<and> sha256 c = rev_hash r"
  using desktop_ok_sound(3) [OF run_sound(2) [OF assms(1,2)] assms(3)] assms(2,3)
  by (simp add: bytesOf_def requireRevision_def)

lemma write_outcome:
  fixes d :: folder
  assumes "writeVaultFileAtomic p bs False d = (w, d')"
  shows "if isVaultLocked p d then (\<exists>reason. w = Inr (RefusedLocked reason)) \<and> d' = d
    else if snd (next_write d) = WriteOk then w = Inr Written else \<exists>e. w = Inl e"
  using assms by (cases "next_write d"; cases "snd (next_write d)") (auto simp: writeVaultFileAtomic_def Let_def)

text \<open>
  C10: The file follows the current version, or is left alone. For a vault with a file and a current
  version, on the desktop: a file that already has that version's contents is not touched and nothing
  stays held back; a file the password manager has open is not touched, and the update is held back with
  the timer running. Otherwise the bytes to write are those the store keeps for the current version,
  which have its hash, and the outcome is settled by the folder \<open>u\<close> the write meets, since the
  services, the user and the password manager may have done anything after the look at the lock: where
  the file is locked by then it is not touched; where opening, writing and renaming succeed the file
  holds exactly those bytes and nothing stays held back; where one of them fails that is thrown and the file
  is as it was. The step itself changes neither the history nor any other vault's file.\<close>

theorem materialize_exact:
  assumes "service_run deps (fresh_services tape files) s" and "service_run deps s (meanwhile s)"
    and "vd_engine deps = desktop_deps sha256 mergef difff deviceId" and "vd_files deps = NodeFiles"
    and "current_file s = Some (kdbxPath, head)" and "names_vault kdbxPath"
    and "getRevision (rev_id head) (en_md (sv_engine (meanwhile s))) = Some head"
    and "materializeAmid meanwhile deps s = (r, t)"
  defines "u \<equiv> meanwhile s"
  shows "if already_on_disk deps kdbxPath head s
      then r = Inr () \<and> sv_files t = sv_files s \<and> sv_engine t = sv_engine s \<and> \<not> sv_updateHeldBack t
      else if isVaultLocked kdbxPath (sv_files s)
      then r = Inr () \<and> sv_files t = sv_files s \<and> sv_engine t = sv_engine s \<and> sv_updateHeldBack t \<and> sv_unlockTimer t
      else (\<exists>content. bytesOf (vd_engine deps) (rev_id head) (sv_engine u) = Inr content \<and> sha256 content = rev_hash head \<and>
          (if isVaultLocked kdbxPath (sv_files u)
           then r = Inr () \<and> sv_files t = sv_files u
           else if snd (next_write (sv_files u)) = WriteOk
           then r = Inr () \<and> readVaultFile kdbxPath (sv_files t) = Inr content \<and> \<not> sv_updateHeldBack t
           else (\<exists>e. r = Inl e) \<and> readVaultFile kdbxPath (sv_files t) = readVaultFile kdbxPath (sv_files u))) \<and>
        sv_engine t = sv_engine u \<and>
        (\<forall>q. names_vault q \<longrightarrow> q \<noteq> kdbxPath \<longrightarrow> readVaultFile q (sv_files t) = readVaultFile q (sv_files u))"
proof -
  have run: "service_run deps (fresh_services tape files) u"
    using service_run_trans [OF assms(1,2)] by (simp add: u_def)
  obtain content where content: "bytesOf (vd_engine deps) (rev_id head) (sv_engine u) = Inr content" "sha256 content = rev_hash head"
    using run_bytes [OF run assms(3) assms(7) [folded u_def]] by blast
  have node: "fa_isLocked (vd_files deps) = isVaultLocked" "fa_read (vd_files deps) = readVaultFile"
    "fa_write (vd_files deps) = writeVaultFileAtomic"
    by (simp_all add: assms(4) NodeFiles_def)
  show ?thesis
  proof (rule materialize_cases [OF assms(5) content(1) [unfolded u_def] assms(8)], goal_cases)
    case 1
    then show ?case by (simp add: clear_held_back_def)
  next
    case 2
    then have "r = fst (hold_back s)" "t = snd (hold_back s)" by (metis fst_conv, metis snd_conv)
    then show ?case using 2 held_back_state [of s] by (simp add: node)
  next
    case (3 w d)
    have writing: "writeVaultFileAtomic kdbxPath content False (sv_files u) = (w, d)"
      using 3(3) by (simp add: node u_def)
    have writing': "fa_write NodeFiles kdbxPath content False (sv_files u) = (w, d)"
      using writing by (simp add: NodeFiles_def)
    have other: "readVaultFile q d = readVaultFile q (sv_files u)" if "names_vault q" "q \<noteq> kdbxPath" for q
      using node_files.write_other [OF assms(6) that(1) _ writing'] that(2) by (simp add: NodeFiles_def)
    have contents: "readVaultFile kdbxPath d = (if w = Inr Written then Inr content else readVaultFile kdbxPath (sv_files u))"
      using node_files.write_old_or_new [OF assms(6) writing'] by (simp add: NodeFiles_def)
    have "if isVaultLocked kdbxPath (sv_files u) then r = Inr () \<and> sv_files t = sv_files u
      else if snd (next_write (sv_files u)) = WriteOk
      then r = Inr () \<and> readVaultFile kdbxPath (sv_files t) = Inr content \<and> \<not> sv_updateHeldBack t
      else (\<exists>e. r = Inl e) \<and> readVaultFile kdbxPath (sv_files t) = readVaultFile kdbxPath (sv_files u)"
      using write_outcome [OF writing] 3(4,6) contents by (auto split: if_splits)
    then show ?case using 3(1,2,4,5) content other by (simp add: node u_def)
  qed
qed

theorem materialize_exact_witness:
  "\<exists>bs. readVaultFile ''/v/my.kdbx'' (sv_files (snd (materializeCurrentVersion sample_services_deps advanced_services))) = Inr bs \<and>
     sample_sha bs = replicate 64 CHR ''a''"
proof -
  let ?m = "materializeCurrentVersion sample_services_deps advanced_services"
  have "map_option (\<lambda>(p, h). (p, rev_hash h)) (current_file advanced_services) = Some (''/v/my.kdbx'', replicate 64 CHR ''a'')"
    using sample_reads by (rule conjunct1)
  then obtain head where head: "current_file advanced_services = Some (''/v/my.kdbx'', head)" "rev_hash head = replicate 64 CHR ''a''"
    by auto
  have "fst ?m = Inr ()" using sample_reads by (elim conjE)
  then have m: "materializeAmid id sample_services_deps advanced_services = (Inr (), snd ?m)"
    unfolding materializeCurrentVersion_def by (metis prod.collapse)
  have free: "\<not> isVaultLocked ''/v/my.kdbx'' (sv_files advanced_services)" using sample_reads by (elim conjE)
  have "case current_file advanced_services of None \<Rightarrow> True
      | Some (p, h) \<Rightarrow> \<not> already_on_disk sample_services_deps p h advanced_services" using sample_reads by (elim conjE)
  then have new: "\<not> already_on_disk sample_services_deps ''/v/my.kdbx'' head advanced_services" using head by simp
  have path: "names_vault ''/v/my.kdbx''" by (simp add: names_vault_def)
  have still: "service_run sample_services_deps advanced_services (id advanced_services)" by (simp add: service_none)
  have stored: "getRevision (rev_id head) (en_md (sv_engine (id advanced_services))) = Some head"
    using current_file_stored [OF head(1)] by simp
  have node: "vd_files sample_services_deps = NodeFiles" by (simp add: sample_services_deps_def)
  show ?thesis
    using materialize_exact [OF advanced_run still sample_engine node head(1) path stored m] free new head(2)
    by (auto split: if_splits)
qed

text \<open>
  A lock taken after the look at it: the write is refused, the answer is not looked at, and the update
  that never happened is reported and no longer held back.
\<close>

theorem refused_write_is_reported_as_update:
  assumes "current_file s = Some (kdbxPath, head)" "vd_files deps = NodeFiles"
    and "\<not> already_on_disk deps kdbxPath head s" "\<not> isVaultLocked kdbxPath (sv_files s)"
    and "bytesOf (vd_engine deps) (rev_id head) (sv_engine (meanwhile s)) = Inr content"
    and "isVaultLocked kdbxPath (sv_files (meanwhile s))"
  shows "fst (materializeAmid meanwhile deps s) = Inr () \<and>
    sv_files (snd (materializeAmid meanwhile deps s)) = sv_files (meanwhile s) \<and>
    hd (sv_activity (snd (materializeAmid meanwhile deps s))) = UpdatedFile \<and>
    \<not> sv_updateHeldBack (snd (materializeAmid meanwhile deps s))"
  by (rule materialize_cases [of s kdbxPath head deps meanwhile content, OF assms(1,5) surjective_pairing])
    (use assms in \<open>auto simp: NodeFiles_def writeVaultFileAtomic_def\<close>)

section \<open>Recording a conflict\<close>

lemma upsert_new: "\<not> list_ex P rows \<Longrightarrow> upsert P f n rows = rows @ [n]"
  by (simp add: upsert_def)

lemma set_listOpenConflicts:
  "set (listOpenConflicts v db) = {c \<in> set (db_conflicts db). cf_vaultId c = v \<and> cf_status c = OpenStatus}"
  by (auto simp: listOpenConflicts_def)

lemma find_unique_pair:
  assumes "c \<in> set cs" "P c" "\<And>x. x \<in> set cs \<Longrightarrow> P x \<Longrightarrow> x = c"
  shows "find P cs = Some c"
proof (cases "find P cs")
  case None
  then show ?thesis using assms(1,2) by (auto simp: find_None_iff)
next
  case (Some x)
  then have "x \<in> set cs" "P x" by (auto simp: find_Some_iff)
  with assms(3) Some show ?thesis by simp
qed

text \<open>The current and the incoming version of a vault, as \<open>openConflictFor\<close> finds them.\<close>

definition conflict_sides :: "VaultId \<Rightarrow> RevisionId \<Rightarrow> metadata_db \<Rightarrow> (Vault \<times> Revision \<times> Revision) option" where
  "conflict_sides v incoming db =
     (case getVault v db of
        None \<Rightarrow> None
      | Some vt \<Rightarrow>
          (case (case vault_headRevisionId vt of None \<Rightarrow> None | Some h \<Rightarrow> getRevision h db, getRevision incoming db) of
             (Some cur, Some inc) \<Rightarrow> Some (vt, cur, inc)
           | _ \<Rightarrow> None))"

definition same_sides :: "Revision \<Rightarrow> Revision \<Rightarrow> Conflict \<Rightarrow> bool" where
  "same_sides cur inc c \<longleftrightarrow> cf_currentRevisionId c = rev_id cur \<and> cf_incomingRevisionId c = rev_id inc"

lemma openConflictFor_sides:
  "openConflictFor v incoming cid now s =
     (case conflict_sides v incoming (en_md (sv_engine s)) of
        None \<Rightarrow> (Inl (ThrownError ''cannot record a conflict without both revisions''), s)
      | Some (vt, cur, inc) \<Rightarrow>
          (case find (same_sides cur inc) (listOpenConflicts v (en_md (sv_engine s))) of
             Some already \<Rightarrow> (Inr (cf_id already), s)
           | None \<Rightarrow>
               act_bind (act_lift (openConflict cid vt cur inc now)) (\<lambda>conflict.
               act_then (on_engine (on_md (saveConflict conflict)))
                 (act_then (log_line BothChanged) (act_return (cf_id conflict)))) s))"
  by (auto simp: openConflictFor_def conflict_sides_def Let_def same_sides_def [abs_def] split: option.splits)

lemma conflict_sides_cong:
  assumes "db_vaults m = db_vaults db" "db_revisions m = db_revisions db" "db_parents m = db_parents db"
  shows "conflict_sides v incoming m = conflict_sides v incoming db"
  unfolding conflict_sides_def getVault_cong [OF assms(1)] getRevision_cong [OF assms(2,3)] by (rule refl)

lemma openConflictFor_new:
  assumes "conflict_sides v incoming (en_md (sv_engine s)) = Some (vt, cur, inc)"
    and "find (same_sides cur inc) (listOpenConflicts v (en_md (sv_engine s))) = None"
    and "cid \<notin> cf_id ` set (db_conflicts (en_md (sv_engine s)))"
    and "openConflictFor v incoming cid now s = (Inr c, t)"
  shows "c = cid" and "vault_id vt = v"
    and "en_md (sv_engine t) = (en_md (sv_engine s))\<lparr>db_conflicts := db_conflicts (en_md (sv_engine s)) @
      [\<lparr>cf_id = cid, cf_vaultId = v, cf_currentRevisionId = rev_id cur, cf_incomingRevisionId = rev_id inc,
        cf_status = OpenStatus, cf_createdAt = now, cf_resolvedAt = None, cf_decision = None\<rparr>]\<rparr>"
    and "sv_files t = sv_files s"
proof -
  show id: "vault_id vt = v"
    using assms(1) by (auto simp: conflict_sides_def split: option.splits dest: getVault_id)
  have new: "\<not> list_ex (\<lambda>c. cf_id c = cid) (db_conflicts (en_md (sv_engine s)))"
    using assms(3) by (auto simp: list_ex_iff)
  have opened: "openConflict cid vt cur inc now = Inr \<lparr>cf_id = cid, cf_vaultId = vault_id vt,
      cf_currentRevisionId = rev_id cur, cf_incomingRevisionId = rev_id inc, cf_status = OpenStatus,
      cf_createdAt = now, cf_resolvedAt = None, cf_decision = None\<rparr>"
    using assms unfolding openConflictFor_sides by (auto simp: act_defs openConflict_def assert_contract_def split: if_splits)
  show "c = cid"
    and "en_md (sv_engine t) = (en_md (sv_engine s))\<lparr>db_conflicts := db_conflicts (en_md (sv_engine s)) @
      [\<lparr>cf_id = cid, cf_vaultId = v, cf_currentRevisionId = rev_id cur, cf_incomingRevisionId = rev_id inc,
        cf_status = OpenStatus, cf_createdAt = now, cf_resolvedAt = None, cf_decision = None\<rparr>]\<rparr>"
    and "sv_files t = sv_files s"
    using assms(1,2,4) opened new id
    by (auto simp: openConflictFor_sides act_defs on_md_def saveConflict_def upsert_new split: if_splits)
qed

text \<open>
  C18: A conflict is recorded once. When both devices moved on, what is recorded is an open conflict
  between this device's current version and the incoming one; however often the same divergence is met
  again, with whatever new id and time, the answer is the same conflict and nothing changes. Neither
  version, nor the current one of the vault, nor the file is touched.\<close>

theorem conflict_recorded_once:
  assumes "cid \<notin> cf_id ` set (db_conflicts (en_md (sv_engine s)))"
    and "openConflictFor v incoming cid now s = (Inr c, t)"
  shows "openConflictFor v incoming cid' now' t = (Inr c, t) \<and>
    (\<exists>vt conflict. getVault v (en_md (sv_engine t)) = Some vt \<and>
       conflict \<in> set (listOpenConflicts v (en_md (sv_engine t))) \<and> cf_id conflict = c \<and>
       vault_headRevisionId vt = Some (cf_currentRevisionId conflict) \<and> cf_incomingRevisionId conflict = incoming) \<and>
    (\<forall>w. getVault w (en_md (sv_engine t)) = getVault w (en_md (sv_engine s))) \<and>
    (\<forall>i. getRevision i (en_md (sv_engine t)) = getRevision i (en_md (sv_engine s))) \<and> sv_files t = sv_files s"
proof -
  obtain vt cur inc where sides: "conflict_sides v incoming (en_md (sv_engine s)) = Some (vt, cur, inc)"
    using assms(2) by (cases "conflict_sides v incoming (en_md (sv_engine s))") (auto simp: openConflictFor_sides)
  then have vt: "getVault v (en_md (sv_engine s)) = Some vt" "vault_headRevisionId vt = Some (rev_id cur)"
    "rev_id inc = incoming"
    by (auto simp: conflict_sides_def split: option.splits dest: getRevision_id)
  show ?thesis
  proof (cases "find (same_sides cur inc) (listOpenConflicts v (en_md (sv_engine s)))")
    case (Some already)
    then have t: "t = s" "c = cf_id already" using assms(2) sides by (auto simp: openConflictFor_sides)
    have already: "already \<in> set (listOpenConflicts v (en_md (sv_engine s)))" "same_sides cur inc already"
      using Some by (auto simp: find_Some_iff)
    show ?thesis
      unfolding t
      by (intro conjI exI [of _ vt] exI [of _ already])
        (use Some sides vt already in \<open>auto simp: openConflictFor_sides same_sides_def\<close>)
  next
    case None
    note new = openConflictFor_new [OF sides None assms]
    let ?c = "\<lparr>cf_id = cid, cf_vaultId = v, cf_currentRevisionId = rev_id cur, cf_incomingRevisionId = rev_id inc,
        cf_status = OpenStatus, cf_createdAt = now, cf_resolvedAt = None, cf_decision = None\<rparr>"
    have listed: "set (listOpenConflicts v (en_md (sv_engine t))) = insert ?c (set (listOpenConflicts v (en_md (sv_engine s))))"
      unfolding set_listOpenConflicts new(3) by auto
    have "find (same_sides cur inc) (listOpenConflicts v (en_md (sv_engine t))) = Some ?c"
      by (rule find_unique_pair) (use listed None in \<open>auto simp: same_sides_def find_None_iff\<close>)
    moreover have "conflict_sides v incoming (en_md (sv_engine t)) = Some (vt, cur, inc)"
      unfolding sides [symmetric] by (rule conflict_sides_cong) (simp_all add: new(3))
    ultimately have "openConflictFor v incoming cid' now' t = (Inr c, t)"
      by (simp add: openConflictFor_sides new(1))
    moreover have reads: "getVault w (en_md (sv_engine t)) = getVault w (en_md (sv_engine s))"
      "getRevision i (en_md (sv_engine t)) = getRevision i (en_md (sv_engine s))" for w i
      by (rule getVault_cong, simp add: new(3)) (rule getRevision_cong, simp_all add: new(3))
    moreover have "\<exists>vt conflict. getVault v (en_md (sv_engine t)) = Some vt \<and>
       conflict \<in> set (listOpenConflicts v (en_md (sv_engine t))) \<and> cf_id conflict = c \<and>
       vault_headRevisionId vt = Some (cf_currentRevisionId conflict) \<and> cf_incomingRevisionId conflict = incoming"
      by (rule exI [of _ vt], rule exI [of _ ?c]) (use reads vt listed new(1) in simp)
    ultimately show ?thesis using new(4) by blast
  qed
qed

theorem conflict_recorded_once_witness:
  "\<exists>t. openConflictFor ''v'' ''r2'' ''c1'' 11 forked_services = (Inr ''c1'', t) \<and>
     openConflictFor ''v'' ''r2'' ''c2'' 12 t = (Inr ''c1'', t)"
proof -
  let ?o = "openConflictFor ''v'' ''r2'' ''c1'' 11 forked_services"
  have "fst ?o = Inr ''c1''" using sample_reads by (elim conjE)
  then have o: "?o = (Inr ''c1'', snd ?o)" by (metis prod.collapse)
  have "''c1'' \<notin> cf_id ` set (db_conflicts (en_md (sv_engine forked_services)))"
    using sample_reads by (elim conjE)
  from conflict_recorded_once [OF this o] o show ?thesis by blast
qed

section \<open>The vault in use\<close>

lemma start_active:
  assumes "active_at_start (launched deps s) = Some active"
  shows "sv_vaultId (snd (start deps s)) = Some (vault_id active)"
    and "sv_watcher (snd (start deps s)) = (if vd_canWatch deps then vault_kdbxPath active else None)"
proof -
  define u where "u = snd ((if li_atRestUnprotected (vd_identity deps) then log_line NoKeychain else act_return ()) (launched deps s))"
  have logged: "active_at_start u = active_at_start (launched deps s)"
    by (simp add: u_def log_line_def act_modify_def active_at_start_def storedActiveVaultId_def)
  have first: "(if li_atRestUnprotected (vd_identity deps) then log_line NoKeychain else act_return ()) (launched deps s) = (Inr (), u)"
    by (simp add: u_def log_line_def act_modify_def)
  have start: "start deps s = act_then (setActiveVault (Some (vault_id active)))
      (act_then (case vault_kdbxPath active of None \<Rightarrow> act_return () | Some p \<Rightarrow> startWatching deps p)
         (log_line (ReopenedVault (vault_name active)))) u"
    unfolding start_def act_then_def [of "if _ then _ else _"] act_bind_simp first
    by (simp add: logged assms)
  have "sv_watcher u = None" by (simp add: u_def log_line_def act_modify_def launched_def)
  then show "sv_vaultId (snd (start deps s)) = Some (vault_id active)"
    "sv_watcher (snd (start deps s)) = (if vd_canWatch deps then vault_kdbxPath active else None)"
    unfolding start
    by (cases "vault_kdbxPath active"; simp add: act_then_def act_bind_simp act_modify_def log_line_def
        setActiveVault_def startWatching_def)+
qed

lemma stored_launched: "storedActiveVaultId (launched deps s) = storedActiveVaultId s"
  by (simp add: storedActiveVaultId_def launched_def new_SettingsStore_def)

text \<open>
  A restart comes back to the vault in use. After any history of use, if this device tracks a vault
  that is in its tables, then so does a restarted one, and it watches that vault's file where the
  platform can watch.\<close>

theorem restart_keeps_the_vault:
  assumes "service_run deps (fresh_services tape files) s"
    and "vd_engine deps = desktop_deps sha256 mergef difff deviceId"
    and "sv_vaultId s = Some v" and "getVault v (en_md (sv_engine s)) = Some vt"
  shows "sv_vaultId (snd (start deps s)) = Some v \<and>
    sv_watcher (snd (start deps s)) = (if vd_canWatch deps then vault_kdbxPath vt else None)"
proof -
  have stored: "storedActiveVaultId s = Some v"
    using run_sound(3) [OF assms(1,2)] assms(3) by (simp add: services_wf_def)
  let ?vaults = "listVaults (en_md (sv_engine s))"
  have db: "db_ok (en_md (sv_engine s))" using desktop_ok_sound(1) [OF run_sound(2) [OF assms(1,2)]] .
  have mem: "vt \<in> set ?vaults"
    using assms(4) by (auto simp: getVault_def listVaults_def find_Some_iff)
  have one: "x = vt" if "x \<in> set ?vaults" "vault_id x = v" for x
  proof -
    obtain row where row: "row \<in> set (db_vaults (en_md (sv_engine s)))" "x = toVault row"
      using \<open>x \<in> set ?vaults\<close> by (auto simp: listVaults_def)
    have id: "vr_id row = v" using \<open>vault_id x = v\<close> row(2) by (simp add: toVault_def)
    have keys: "distinct (map vr_id (db_vaults (en_md (sv_engine s))))" using db by (simp add: db_ok_def)
    have "find (\<lambda>r. vr_id r = v) (db_vaults (en_md (sv_engine s))) = Some row"
      using find_unique [OF keys row(1)] id by simp
    then show ?thesis using assms(4) row(2) by (simp add: getVault_def)
  qed
  have "find (\<lambda>vault. Some (vault_id vault) = Some v) ?vaults = Some vt"
    by (rule find_unique_pair, rule mem, simp add: getVault_id [OF assms(4)], rule one, assumption, simp)
  then have "active_at_start (launched deps s) = Some vt"
    unfolding active_at_start_def Let_def stored_launched stored by (simp add: launched_def)
  from start_active [OF this] getVault_id [OF assms(4)] show ?thesis by simp
qed

theorem restart_keeps_the_vault_witness:
  "sv_vaultId (snd (start sample_services_deps bound_services)) = Some ''v'' \<and>
   sv_watcher (snd (start sample_services_deps bound_services)) = Some ''/v/my.kdbx''"
proof -
  have "map_option vault_kdbxPath (getVault ''v'' (en_md (sv_engine bound_services))) = Some (Some ''/v/my.kdbx'')"
    using sample_reads by (elim conjE)
  then obtain vt where "getVault ''v'' (en_md (sv_engine bound_services)) = Some vt" "vault_kdbxPath vt = Some ''/v/my.kdbx''"
    by auto
  then show ?thesis
    using restart_keeps_the_vault [OF bound_run sample_engine bound_reads(1)] by (simp add: sample_services_deps_def)
qed

text \<open>
  A vault one stopped tracking is tracked again after a restart: nothing is recorded for "none", and with
  nothing recorded the last vault is taken.
\<close>

lemma restart_resumes_a_stopped_vault:
  "sv_vaultId (snd (stopTrackingVault bound_services)) = None \<and>
   sv_vaultId (snd (start sample_services_deps (snd (stopTrackingVault bound_services)))) = Some ''v''"
  using sample_reads by (intro conjI; elim conjE)

text \<open>
  An edit made while the application is not running is not recorded at the start, and the next newer
  version from another device is written over it: the edit is then in no revision and not on disk.
\<close>

lemma edit_while_closed_is_overwritten:
  "readVaultFile ''/v/my.kdbx'' (sv_files edited_services) = Inr [7, 7]"
  "map_option rev_id (map_option snd (current_file edited_services)) = Some ''r1''"
  "readVaultFile ''/v/my.kdbx'' (sv_files (snd (materializeCurrentVersion sample_services_deps edited_services))) = Inr [1]"
  "map rev_id (listRevisions ''v'' (en_md (sv_engine edited_services))) = [''r1'', ''r0'']"
  by (insert sample_reads) (elim conjE; assumption)+

section \<open>Devices\<close>

lemma find_filter_other:
  "e \<noteq> d \<Longrightarrow> find (\<lambda>r. dr_id r = e) (filter (\<lambda>r. dr_id r \<noteq> d) rows) = find (\<lambda>r. dr_id r = e) rows"
  by (induction rows) auto

lemma find_filter_place:
  "e \<noteq> d \<Longrightarrow> find (\<lambda>r. rz_device_id r = e) (filter (\<lambda>r. rz_device_id r \<noteq> d) rows) =
    find (\<lambda>r. rz_device_id r = e) rows"
  by (induction rows) auto

lemma sql_revoke_op: "ts_revoke createSqliteTrustStore = sql_revoke"
  by (simp add: createSqliteTrustStore_def)

lemma view_sql: "view createSqliteTrustStore s d = sql_get d s"
  by (simp add: view_def createSqliteTrustStore_def)

text \<open>
  C15: Disconnecting is reversible, forgetting is not. After a disconnect a known device stays recorded
  as it was but for being revoked, and the authenticator turns it away whatever it presents; a reconnect
  then records it exactly as it was, as paired; neither touches the places where devices meet. After
  forgetting it, it is unknown and of the meeting places exactly its own are gone. What is recorded of
  other devices, where they are met, and the history are not touched by any of these.\<close>

theorem disconnect_reconnect_forget:
  assumes "sql_get d (sv_trust s) = Some known"
    and "dis = snd (disconnectDevice d s)" and "re = snd (reconnectDevice d dis)" and "off = snd (forgetDevice d s)"
  shows "(\<forall>i sha256 ed_verify options. vi_deviceId i = d \<longrightarrow>
      (\<exists>r. verifyPeer sha256 ed_verify options createSqliteTrustStore i (sv_trust dis) = Inr (Reject r, sv_trust dis))) \<and>
    sql_get d (sv_trust dis) = Some (known\<lparr>pd_trust := Revoked\<rparr>) \<and>
    fst (reconnectDevice d dis) = Inr () \<and> sql_get d (sv_trust re) = Some (known\<lparr>pd_trust := Paired\<rparr>) \<and>
    sv_rendezvous dis = sv_rendezvous s \<and> sv_rendezvous re = sv_rendezvous s \<and>
    sql_get d (sv_trust off) = None \<and> fst (rendezvousFor d off) = None \<and>
    (\<forall>row. row \<in> set (sv_rendezvous off) \<longleftrightarrow> row \<in> set (sv_rendezvous s) \<and> rz_device_id row \<noteq> d) \<and>
    (\<forall>e. e \<noteq> d \<longrightarrow> sql_get e (sv_trust dis) = sql_get e (sv_trust s) \<and> sql_get e (sv_trust re) = sql_get e (sv_trust s) \<and>
       sql_get e (sv_trust off) = sql_get e (sv_trust s) \<and> fst (rendezvousFor e off) = fst (rendezvousFor e s)) \<and>
    sv_engine dis = sv_engine s \<and> sv_engine re = sv_engine s \<and> sv_engine off = sv_engine s"
proof -
  have dis: "sv_trust dis = sql_revoke d (sv_trust s)" "sv_engine dis = sv_engine s" "sv_rendezvous dis = sv_rendezvous s"
    by (simp_all add: assms(2) disconnectDevice_def act_defs createSqliteTrustStore_def)
  have refused: "\<exists>r. verifyPeer sha256 ed_verify options createSqliteTrustStore i (sv_trust dis) = Inr (Reject r, sv_trust dis)"
    if "vi_deviceId i = d" for i sha256 ed_verify options
    using sql_store.revoked_never_accepted [of sha256 ed_verify d "sv_trust s" "sv_trust dis" i options] that assms(1)
    by (simp add: view_sql dis sql_revoke_op auth_run.run_start)
  have known: "pd_deviceId known = d"
    using assms(1) by (auto simp: sql_get_def toPairedDevice_def dest: find_id_eq)
  have revoked: "sql_get d (sv_trust dis) = Some (known\<lparr>pd_trust := Revoked\<rparr>)"
    unfolding dis sql_get_revoke using assms(1) by simp
  let ?again = "known\<lparr>pd_trust := Revoked, pd_lastSeenAt := None\<rparr>"
  have re: "fst (reconnectDevice d dis) = Inr ()" "sv_trust re = sql_pair ?again (sv_trust dis)"
    "sv_engine re = sv_engine s" "sv_rendezvous re = sv_rendezvous s"
    using revoked dis by (simp_all add: assms(3) reconnectDevice_def act_defs createSqliteTrustStore_def)
  have again: "sql_get d (sv_trust re) = Some (known\<lparr>pd_trust := Paired\<rparr>)"
    unfolding re(2) sql_get_pair revoked using known by (simp add: seen_as_before_def)
  have others: "sql_get e (sv_trust dis) = sql_get e (sv_trust s) \<and> sql_get e (sv_trust re) = sql_get e (sv_trust s)"
    if "e \<noteq> d" for e
    using that known unfolding re(2) sql_get_pair dis sql_get_revoke by simp
  have off: "sv_trust off = filter (\<lambda>r. dr_id r \<noteq> d) (sv_trust s)" "sv_engine off = sv_engine s"
    "sv_rendezvous off = filter (\<lambda>r. rz_device_id r \<noteq> d) (sv_rendezvous s)"
    by (simp_all add: assms(4) forgetDevice_def Let_def act_defs)
  have gone: "sql_get d (sv_trust off) = None" "fst (rendezvousFor d off) = None"
    by (auto simp: off sql_get_def find_None_iff rendezvousFor_def split: option.split dest!: find_Some_iff [THEN iffD1] nth_mem)
  have kept: "sql_get e (sv_trust off) = sql_get e (sv_trust s) \<and> fst (rendezvousFor e off) = fst (rendezvousFor e s)"
    if "e \<noteq> d" for e
    unfolding off sql_get_def rendezvousFor_def find_filter_other [OF that] find_filter_place [OF that]
    by (simp split: option.split)
  have rows: "row \<in> set (sv_rendezvous off) \<longleftrightarrow> row \<in> set (sv_rendezvous s) \<and> rz_device_id row \<noteq> d" for row
    by (simp add: off)
  show ?thesis using refused revoked re(1,3,4) again dis(2,3) gone rows others kept off(2) by blast
qed

definition phone_row :: DeviceRow where
  "phone_row = \<lparr>dr_id = ''phone'', dr_public_key = [5], dr_name = ''Phone'', dr_trust = ''paired'', dr_paired_at = 1,
     dr_last_seen_at = None\<rparr>"

theorem disconnect_reconnect_forget_witness:
  "map_option pd_trust (sql_get ''phone'' (sv_trust (snd (reconnectDevice ''phone''
     (snd (disconnectDevice ''phone'' (bound_services\<lparr>sv_trust := [phone_row]\<rparr>))))))) = Some Paired"
proof -
  have "sql_get ''phone'' (sv_trust (bound_services\<lparr>sv_trust := [phone_row]\<rparr>)) = Some (toPairedDevice phone_row)"
    by (simp add: sql_get_def phone_row_def)
  from disconnect_reconnect_forget [OF this refl refl refl] show ?thesis by simp
qed

text \<open>A pairing that has succeeded is still "underway" until its five minutes are over: nothing clears it.\<close>

lemma pairing_stays_underway:
  assumes "sv_pairingStartedAt s = Some 0"
  shows "pairingUnderway 60000 (snd (on_session_event p (Authenticated d) 60000 s))"
  using assms
  by (auto simp: on_session_event_def act_defs rememberRendezvous_def pairingUnderway_def FIVE_MINUTES_def split: option.split)

section \<open>Combining two versions\<close>

lemma decide_all_conflicts:
  assumes "decide_all cs now s = (Inr (), t)"
  shows "\<exists>rows. en_md (sv_engine t) = (en_md (sv_engine s))\<lparr>db_conflicts := rows\<rparr> \<and>
    (\<forall>c \<in> set rows. cf_status c = OpenStatus \<longrightarrow> c \<in> set (db_conflicts (en_md (sv_engine s))) \<and> cf_id c \<notin> cf_id ` set cs)"
  using assms
proof (induction cs arbitrary: s)
  case Nil
  then show ?case by (auto intro!: exI [of _ "db_conflicts (en_md (sv_engine s))"])
next
  case (Cons c cs)
  then obtain decided u where decided: "recordConflictDecision c TryMerge now = Inr decided"
    and save: "saveConflict decided (en_md (sv_engine s)) = (Inr (), u)"
    and rest: "decide_all cs now (s\<lparr>sv_engine := (sv_engine s)\<lparr>en_md := u\<rparr>\<rparr>) = (Inr (), t)"
    by (auto simp: act_then_def act_bind_Inr on_engine_def on_md_def split: prod.splits)
  have d: "cf_id decided = cf_id c" "cf_status decided \<noteq> OpenStatus"
    using decided by (auto simp: recordConflictDecision_def res_bind_eq_Inr decision_status_def)
  obtain rows where u: "u = (en_md (sv_engine s))\<lparr>db_conflicts := rows\<rparr>"
    and rows: "\<And>x. x \<in> set rows \<Longrightarrow> cf_status x = OpenStatus \<Longrightarrow>
      x \<in> set (db_conflicts (en_md (sv_engine s))) \<and> cf_id x \<noteq> cf_id c"
  proof
    let ?rows = "upsert (\<lambda>x. cf_id x = cf_id decided) (\<lambda>x. x\<lparr>cf_status := cf_status decided,
        cf_decision := cf_decision decided, cf_resolvedAt := cf_resolvedAt decided\<rparr>) decided
        (db_conflicts (en_md (sv_engine s)))"
    show "u = (en_md (sv_engine s))\<lparr>db_conflicts := ?rows\<rparr>"
      using save by (simp add: saveConflict_def split: if_splits)
    show "x \<in> set (db_conflicts (en_md (sv_engine s))) \<and> cf_id x \<noteq> cf_id c"
      if "x \<in> set ?rows" "cf_status x = OpenStatus" for x
      using that d by (auto simp: upsert_def list_ex_iff split: if_splits)
  qed
  from Cons.IH [OF rest] obtain rows' where
    t: "en_md (sv_engine t) = u\<lparr>db_conflicts := rows'\<rparr>"
    and rows': "\<forall>x \<in> set rows'. cf_status x = OpenStatus \<longrightarrow> x \<in> set (db_conflicts u) \<and> cf_id x \<notin> cf_id ` set cs"
    by auto
  show ?case
  proof (intro exI [of _ rows'] conjI ballI impI)
    show "en_md (sv_engine t) = (en_md (sv_engine s))\<lparr>db_conflicts := rows'\<rparr>" by (simp add: t u)
    fix x assume x: "x \<in> set rows'" "cf_status x = OpenStatus"
    then have "x \<in> set rows" "cf_id x \<notin> cf_id ` set cs" using rows' u by auto
    then show "x \<in> set (db_conflicts (en_md (sv_engine s)))" "cf_id x \<notin> cf_id ` set (c # cs)"
      using rows x(2) by auto
  qed
qed

lemma on_md_pair: "on_md a e = (fst (a (en_md e)), e\<lparr>en_md := snd (a (en_md e))\<rparr>)"
  by (simp add: on_md_def split: prod.split)

text \<open>What a promotion leaves.\<close>

lemma promote_done:
  assumes "db_ok (en_md e)"
    and "promote (desktop_deps sha256 mergef difff deviceId) v i now e = (r, e')" and "r = Inr vt'"
  shows "\<exists>vt. getVault v (en_md e') = Some vt \<and> vault_headRevisionId vt = Some i"
    and "getRevision j (en_md e') = getRevision j (en_md e)"
    and "db_conflicts (en_md e') = db_conflicts (en_md e)"
proof -
  let ?deps = "desktop_deps sha256 mergef difff deviceId"
  obtain vt rv nxt ev m where vt: "getVault v (en_md e) = Some vt" and rv: "getRevision i (en_md e) = Some rv"
    and mv: "promoteRevision vt rv now = Inr (nxt, ev)"
    and save: "transaction (act_bind (ms_saveVault SqliteMetadataStore nxt) (\<lambda>_.
        act_bind (ms_appendHeadEvent SqliteMetadataStore ev) (\<lambda>_. act_return nxt))) (en_md e) = (Inr vt', m)"
    and e': "e' = e\<lparr>en_md := m\<rparr>"
    using assms(2,3)
    by (auto simp: promote_def act_bind_Inr act_read_def save_head_move_def on_md_pair) (metis prod.collapse)
  obtain m1 where m1: "ms_saveVault SqliteMetadataStore nxt (en_md e) = (Inr (), m1)"
    and m: "ms_appendHeadEvent SqliteMetadataStore ev m1 = (Inr (), m)"
    using save by (auto simp: transaction_def act_bind_Inr split: prod.splits sum.splits)
  have nxt: "vault_headRevisionId nxt = Some i" "vault_id nxt = v"
    using desktop.head_move_fields(1) [OF mv] getRevision_id [OF rv] getVault_id [OF vt] by auto
  note law1 = sqlite_md.save_vault [OF assms(1) m1]
  have ok1: "db_ok m1" using law1 by blast
  note law2 = sqlite_md.head_event [OF ok1 m]
  show "\<exists>vt. getVault v (en_md e') = Some vt \<and> vault_headRevisionId vt = Some i"
    using law1 law2 nxt e' by auto
  show "getRevision j (en_md e') = getRevision j (en_md e)" using law1 law2 e' by simp
  show "db_conflicts (en_md e') = db_conflicts (en_md e)"
    using m1 m e' by (auto simp: SqliteMetadataStore_def saveVault_def appendHeadEvent_def split: if_splits)
qed

lemma materialize_engine: "sv_engine (snd (materializeCurrentVersion deps s)) = sv_engine s"
  by (auto simp: materialize_defs act_defs held_back_state split: option.split sum.split prod.split)

lemma combine_steps:
  assumes "combineAndUse deps other pw now i (s :: 'f VaultServices) = (Inr (SummaryMerged m), t)" and "sv_vaultId s = Some v"
  obtains vt h rv e1 e2 x and s3 :: "'f VaultServices" where "the_vault v s = Some vt" "vault_headRevisionId vt = Some h"
    and "merge (vd_engine deps) v h [other] (Some (uniformCredentials pw 1)) None now i (sv_engine s) = (Inr (MergeDone rv), e1)"
    and "m = rev_id rv" "promote (vd_engine deps) v m now e1 = (Inr x, e2)"
    and "\<exists>s2. sv_engine s2 = e2 \<and> decide_all (listOpenConflicts v (en_md e2)) now s2 = (Inr (), s3)"
    and "sv_engine t = sv_engine s3" "\<exists>cs. sv_calls t = cs @ [SyncSuggested]"
proof -
  obtain vt h where vt: "the_vault v s = Some vt" "vault_headRevisionId vt = Some h"
    using assms by (auto simp: combineAndUse_def act_bind_simp act_read_def requireVaultId_def split: option.splits)
  obtain merged s1 where m1: "merge_versions deps h [other] pw now i s = (Inr merged, s1)"
    using assms vt by (cases "merge_versions deps h [other] pw now i s"; cases "fst (merge_versions deps h [other] pw now i s)")
      (auto simp: combineAndUse_def act_bind_simp act_read_def requireVaultId_def)
  have mm: "merged = SummaryMerged m"
    using assms vt m1 by (auto simp: combineAndUse_def act_bind_simp act_read_def requireVaultId_def act_then_def
        split: MergeOutcomeSummary.splits prod.splits sum.splits)
  obtain res e1 where me: "merge (vd_engine deps) v h [other] (Some (uniformCredentials pw 1)) None now i (sv_engine s) = (res, e1)"
    by fastforce
  have finished: "\<exists>rv. res = Inr (MergeDone rv) \<and> m = rev_id rv" and s1: "sv_engine s1 = e1"
    using m1 mm me assms(2)
    by (auto simp: merge_versions_def act_defs requireVaultId_def split: sum.splits MergeOutcome.splits)
  obtain rv where rv: "res = Inr (MergeDone rv)" "m = rev_id rv" using finished by blast
  have rest: "act_then (on_engine (promote (vd_engine deps) v m now))
      (act_bind (act_read (\<lambda>s. Inr (listOpenConflicts v (en_md (sv_engine s))))) (\<lambda>conflicts.
        act_then (decide_all conflicts now) (act_then (log_line UsingCombined)
          (act_then (materializeCurrentVersion deps) (act_then (call_out SnapshotChanged)
            (act_then (call_out SyncSuggested) (act_return merged))))))) s1 = (Inr merged, t)"
    using assms vt m1 mm by (simp add: combineAndUse_def act_bind_simp [of "act_read requireVaultId"]
        act_bind_simp [of "merge_versions deps h [other] pw now i"] act_read_def requireVaultId_def)
  obtain x s2 where p: "on_engine (promote (vd_engine deps) v m now) s1 = (Inr x, s2)"
    and r2: "act_bind (act_read (\<lambda>s. Inr (listOpenConflicts v (en_md (sv_engine s))))) (\<lambda>conflicts.
        act_then (decide_all conflicts now) (act_then (log_line UsingCombined)
          (act_then (materializeCurrentVersion deps) (act_then (call_out SnapshotChanged)
            (act_then (call_out SyncSuggested) (act_return merged)))))) s2 = (Inr merged, t)"
    using rest unfolding act_then_def [of "on_engine _"] act_bind_Inr by blast
  obtain s3 where d: "decide_all (listOpenConflicts v (en_md (sv_engine s2))) now s2 = (Inr (), s3)"
    and r3: "act_then (log_line UsingCombined) (act_then (materializeCurrentVersion deps) (act_then (call_out SnapshotChanged)
            (act_then (call_out SyncSuggested) (act_return merged)))) s3 = (Inr merged, t)"
    using r2 by (auto simp: act_then_def [of "decide_all _ _"] act_bind_Inr act_read_def)
  obtain s4 where mat: "materializeCurrentVersion deps (snd (log_line UsingCombined s3)) = (Inr (), s4)"
    and t: "t = s4\<lparr>sv_calls := sv_calls s4 @ [SnapshotChanged, SyncSuggested]\<rparr>"
    using r3 by (auto simp: act_then_def act_bind_Inr log_line_def call_out_def act_modify_def)
  have "sv_engine s4 = sv_engine s3"
    using materialize_engine [of deps "snd (log_line UsingCombined s3)"] mat by (simp add: log_line_def act_modify_def)
  moreover have "promote (vd_engine deps) v m now e1 = (Inr x, sv_engine s2)"
    using p s1 by (auto simp: on_engine_def split: prod.splits)
  ultimately show thesis
    by (intro that [OF vt, of rv e1 x "sv_engine s2" s3]) (use me rv d t in auto)
qed

text \<open>
  C11: Combining keeps both sides and settles the conflict. When \<open>combineAndUse\<close> answers with a merged
  version, that is the new one it drew the id for; it is stored with exactly the version that was current
  and the other one as its parents, so nothing of either history is lost; it is now the current version;
  no conflict of the vault is open any more; and the last thing done is to ask for a synchronisation.\<close>

theorem combine_keeps_both_sides:
  assumes "service_run deps (fresh_services tape files) s"
    and "vd_engine deps = desktop_deps sha256 mergef difff deviceId"
    and "\<not> hasRevision i (en_md (sv_engine s))" and "sv_vaultId s = Some v"
    and "combineAndUse deps other pw now i s = (Inr (SummaryMerged m), t)"
  shows "m = i \<and>
    (\<exists>vt h vt' r. getVault v (en_md (sv_engine s)) = Some vt \<and> vault_headRevisionId vt = Some h \<and> h \<noteq> other \<and>
       getVault v (en_md (sv_engine t)) = Some vt' \<and> vault_headRevisionId vt' = Some m \<and>
       getRevision m (en_md (sv_engine t)) = Some r \<and> set (rev_parentIds r) = {h, other}) \<and>
    listOpenConflicts v (en_md (sv_engine t)) = [] \<and> last (sv_calls t) = SyncSuggested"
proof (rule combine_steps [OF assms(5,4)], goal_cases)
  case (1 vt h rv e1 e2 x s3)
  have ok: "desktop_ok sha256 mergef difff deviceId (sv_engine s)" by (rule run_sound(2) [OF assms(1,2)])
  have merged: "merge (desktop_deps sha256 mergef difff deviceId) v h [other] (Some (uniformCredentials pw 1)) None now i
      (sv_engine s) = (Inr (MergeDone rv), e1)"
    using 1(3) by (simp add: assms(2))
  have ok1: "desktop_ok sha256 mergef difff deviceId e1"
    using desktop.engine_step_ok [OF step_merge [OF _ merged] ok] assms(3) by simp
  have promoted: "promote (desktop_deps sha256 mergef difff deviceId) v m now e1 = (Inr x, e2)"
    using 1(5) by (simp add: assms(2))
  note p = promote_done [OF desktop_ok_sound(1) [OF ok1] promoted refl]
  obtain s2 where s2: "sv_engine s2 = e2" "decide_all (listOpenConflicts v (en_md e2)) now s2 = (Inr (), s3)"
    using 1(6) by blast
  from decide_all_conflicts [OF s2(2)] obtain rows where
    rows: "en_md (sv_engine t) = (en_md e2)\<lparr>db_conflicts := rows\<rparr>"
    and closed: "\<forall>c \<in> set rows. cf_status c = OpenStatus \<longrightarrow> c \<in> set (db_conflicts (en_md e2)) \<and>
      cf_id c \<notin> cf_id ` set (listOpenConflicts v (en_md e2))"
    using s2(1) 1(7) by auto
  have "set (listOpenConflicts v (en_md (sv_engine t))) = {}"
    using closed unfolding set_listOpenConflicts rows by auto
  moreover have reads: "getVault v (en_md (sv_engine t)) = getVault v (en_md e2)"
    "getRevision m (en_md (sv_engine t)) = getRevision m (en_md e2)"
    by (rule getVault_cong, simp add: rows) (rule getRevision_cong, simp_all add: rows)
  moreover have "m = i \<and> h \<noteq> other \<and> (\<exists>r. getRevision m (en_md e1) = Some r \<and> set (rev_parentIds r) = {h, other})"
    by (rule merge_done [OF ok assms(3) merged]) (use 1(4) in auto)
  moreover have "last (sv_calls t) = SyncSuggested" using 1(8) by auto
  moreover have "getVault v (en_md (sv_engine s)) = Some vt" using 1(1) by (simp add: the_vault_def)
  ultimately show ?case using p 1(2) by (simp add: reads) blast
qed

theorem combine_keeps_both_sides_witness:
  "\<exists>t. combineAndUse sample_services_deps ''r2'' ''pw'' 12 ''r3'' forked_services = (Inr (SummaryMerged ''r3''), t) \<and>
     listOpenConflicts ''v'' (en_md (sv_engine t)) = []"
proof -
  let ?c = "combineAndUse sample_services_deps ''r2'' ''pw'' 12 ''r3'' forked_services"
  have "fst ?c = Inr (SummaryMerged ''r3'')" using sample_reads by (elim conjE)
  then have c: "?c = (Inr (SummaryMerged ''r3''), snd ?c)" by (metis prod.collapse)
  have new: "\<not> hasRevision ''r3'' (en_md (sv_engine forked_services))"
    and active: "sv_vaultId forked_services = Some ''v''" by (insert sample_reads) (elim conjE; assumption)+
  from combine_keeps_both_sides [OF forked_run sample_engine new active c] c show ?thesis by blast
qed

end
