(* ===== verification/Service_Snapshot.thy ===== *)
theory Service_Snapshot
  imports Service_Properties
begin

text \<open>
  What the interface is told: \<open>snapshot\<close> and \<open>previewMerge\<close> of packages/services/src/vaultServices.ts, with
  the types of snapshot.ts. Dates stand for their ISO texts.
\<close>

section \<open>Types\<close>

record DeviceSummary =
  ds_deviceId :: string
  ds_name :: string
  ds_publicKeyBase64 :: string

record PairedDeviceSummary =
  ps_deviceId :: string
  ps_name :: string
  ps_trust :: DeviceTrust
  ps_pairedAt :: Date
  ps_canReconnect :: bool
  ps_online :: bool
  ps_lastSeenAt :: "Date option"

datatype version_origin = FromYou | FromPeer | FromMerge | FirstVersion

record VersionSummary =
  vs_id :: string
  vs_savedAt :: Date
  vs_sizeBytes :: int
  vs_origin :: version_origin
  vs_summary :: string
  vs_isCurrent :: bool
  vs_canCombine :: bool

datatype SyncState = NeedsSetup | NeedsFile string | UpToDate | InConflict | WaitingForClose

record ConflictSummary =
  cs_id :: string
  cs_currentRevisionId :: string
  cs_incomingRevisionId :: string
  cs_createdAt :: Date
  cs_mergeBaseIds :: "string list"

record VaultSummaryView =
  vv_id :: string
  vv_name :: string
  vv_locked :: bool
  vv_kdbxPath :: "string option"
  vv_headRevisionId :: "string option"

record AppSnapshot =
  as_device :: DeviceSummary
  as_vault :: "VaultSummaryView option"
  as_state :: SyncState
  as_versions :: "VersionSummary list"
  as_conflicts :: "ConflictSummary list"
  as_pairedDevices :: "PairedDeviceSummary list"
  as_verification :: "(string \<times> string) option"
  as_activity :: "activity_line list"
  as_signalUrl :: string

section \<open>The snapshot\<close>

definition own_summary :: "'f VaultServicesDeps \<Rightarrow> DeviceSummary" where
  "own_summary deps =
     \<lparr>ds_deviceId = kp_deviceId (li_keyPair (vd_identity deps)), ds_name = li_name (vd_identity deps),
      ds_publicKeyBase64 = toBase64 (kp_publicKey (li_keyPair (vd_identity deps)))\<rparr>"

definition paired_summaries :: "'f VaultServices \<Rightarrow> PairedDeviceSummary list" where
  "paired_summaries s =
     map (\<lambda>entry.
       \<lparr>ps_deviceId = pd_deviceId entry, ps_name = pd_name entry, ps_trust = pd_trust entry,
        ps_pairedAt = pd_pairedAt entry,
        ps_canReconnect = (pd_deviceId entry \<in> set (map rz_device_id (sv_rendezvous s))),
        ps_online = (pd_deviceId entry \<in> set (onlineDeviceIds s)), ps_lastSeenAt = pd_lastSeenAt entry\<rparr>)
       (ts_list createSqliteTrustStore (sv_trust s))"

text \<open>\<open>new Map\<close> of the listed devices' names.\<close>

definition deviceNames :: "'f VaultServices \<Rightarrow> (DeviceId \<times> string) list" where
  "deviceNames s =
     fold (\<lambda>d m. AList.update (pd_deviceId d) (pd_name d) m) (ts_list createSqliteTrustStore (sv_trust s)) []"

definition origin_of :: "'f VaultServicesDeps \<Rightarrow> Revision \<Rightarrow> version_origin" where
  "origin_of deps revision =
     (if rev_operation revision = Merged then FromMerge
      else if rev_parentIds revision = [] then FirstVersion
      else if (case rev_originDeviceId revision of None \<Rightarrow> False
               | Some d \<Rightarrow> d \<noteq> kp_deviceId (li_keyPair (vd_identity deps)))
      then FromPeer else FromYou)"

definition summary_text :: "'f VaultServices \<Rightarrow> version_origin \<Rightarrow> Revision \<Rightarrow> string" where
  "summary_text s origin revision =
     (case origin of
        FromMerge \<Rightarrow> ''Combined changes from both devices''
      | FirstVersion \<Rightarrow> ''First version''
      | FromPeer \<Rightarrow> ''Saved on '' @
          (case rev_originDeviceId revision of
             None \<Rightarrow> ''another device''
           | Some d \<Rightarrow> (case map_of (deviceNames s) d of None \<Rightarrow> ''another device'' | Some n \<Rightarrow> n))
      | FromYou \<Rightarrow> ''You saved changes in KeePassXC'')"

definition is_diverged :: "Divergence \<Rightarrow> bool" where
  "is_diverged d = (case d of Diverged _ \<Rightarrow> True | _ \<Rightarrow> False)"

definition version_summary ::
  "'f VaultServicesDeps \<Rightarrow> 'f VaultServices \<Rightarrow> RevisionGraph \<Rightarrow> RevisionId option \<Rightarrow> Revision \<Rightarrow> VersionSummary" where
  "version_summary deps s graph headId revision =
     (let origin = origin_of deps revision
      in \<lparr>vs_id = rev_id revision, vs_savedAt = rev_createdAt revision, vs_sizeBytes = rev_sizeBytes revision,
          vs_origin = origin, vs_summary = summary_text s origin revision,
          vs_isCurrent = (headId = Some (rev_id revision)),
          vs_canCombine = (case headId of
             None \<Rightarrow> False
           | Some h \<Rightarrow> rev_id revision \<noteq> h \<and> is_diverged (classifyDivergence graph h (rev_id revision)))\<rparr>)"

definition mergeBasesOf :: "RevisionGraph \<Rightarrow> Conflict \<Rightarrow> RevisionId list" where
  "mergeBasesOf graph conflict =
     (case classifyDivergence graph (cf_currentRevisionId conflict) (cf_incomingRevisionId conflict) of
        Diverged mergeBases \<Rightarrow> mergeBases | _ \<Rightarrow> [])"

definition conflict_summary :: "RevisionGraph \<Rightarrow> Conflict \<Rightarrow> ConflictSummary" where
  "conflict_summary graph conflict =
     \<lparr>cs_id = cf_id conflict, cs_currentRevisionId = cf_currentRevisionId conflict,
      cs_incomingRevisionId = cf_incomingRevisionId conflict, cs_createdAt = cf_createdAt conflict,
      cs_mergeBaseIds = mergeBasesOf graph conflict\<rparr>"

definition sync_state :: "Vault option \<Rightarrow> Conflict list \<Rightarrow> bool \<Rightarrow> SyncState" where
  "sync_state vault conflicts updateHeldBack =
     (case vault of
        None \<Rightarrow> NeedsSetup
      | Some vault \<Rightarrow>
          if vault_kdbxPath vault = None then NeedsFile (vault_name vault)
          else if conflicts \<noteq> [] then InConflict
          else if updateHeldBack then WaitingForClose else UpToDate)"

definition vault_view :: "'f VaultServicesDeps \<Rightarrow> 'f VaultServices \<Rightarrow> Vault \<Rightarrow> VaultSummaryView" where
  "vault_view deps s vault =
     \<lparr>vv_id = vault_id vault, vv_name = vault_name vault,
      vv_locked = (case vault_kdbxPath vault of None \<Rightarrow> False | Some p \<Rightarrow> fa_isLocked (vd_files deps) p (sv_files s)),
      vv_kdbxPath = vault_kdbxPath vault, vv_headRevisionId = vault_headRevisionId vault\<rparr>"

definition prompt_view :: "'f VaultServices \<Rightarrow> (string \<times> string) option" where
  "prompt_view s = map_option (\<lambda>v. (vn_peerName v, vn_code v)) (sv_verification s)"

definition snapshot_of :: "'f VaultServicesDeps \<Rightarrow> 'f VaultServices \<Rightarrow> string \<Rightarrow> AppSnapshot" where
  "snapshot_of deps s url =
     (case sv_vaultId s of
        None \<Rightarrow>
          \<lparr>as_device = own_summary deps, as_vault = None, as_state = NeedsSetup, as_versions = [], as_conflicts = [],
           as_pairedDevices = paired_summaries s, as_verification = prompt_view s, as_activity = sv_activity s,
           as_signalUrl = url\<rparr>
      | Some vaultId \<Rightarrow>
          let db = en_md (sv_engine s);
              vault = getVault vaultId db;
              graph = loadGraph vaultId db;
              conflicts = listOpenConflicts vaultId db;
              headId = (case vault of None \<Rightarrow> None | Some v \<Rightarrow> vault_headRevisionId v)
          in \<lparr>as_device = own_summary deps, as_vault = map_option (vault_view deps s) vault,
              as_state = sync_state vault conflicts (sv_updateHeldBack s),
              as_versions = map (version_summary deps s graph headId) (listRevisions vaultId db),
              as_conflicts = map (conflict_summary graph) conflicts,
              as_pairedDevices = paired_summaries s, as_verification = prompt_view s,
              as_activity = sv_activity s, as_signalUrl = url\<rparr>)"

definition snapshot :: "'f VaultServicesDeps \<Rightarrow> ('f VaultServices, AppSnapshot) action" where
  "snapshot deps = act_bind signalUrl (\<lambda>url. act_bind (act_read Inr) (\<lambda>s. act_return (snapshot_of deps s url)))"

section \<open>Previewing a merge\<close>

datatype preview_result = PreviewReady "(string \<times> nat) list" | PreviewFailed string

definition diff_counts :: "VaultDiff \<Rightarrow> (string \<times> nat) list" where
  "diff_counts diff =
     [(''addedEntries'', length (addedEntries diff)), (''removedEntries'', length (removedEntries diff)),
      (''changedEntries'', length (changedEntries diff)), (''addedGroups'', length (addedGroups diff)),
      (''removedGroups'', length (removedGroups diff)), (''changedGroups'', length (changedGroups diff))]"

definition previewMerge ::
  "'f VaultServicesDeps \<Rightarrow> RevisionId \<Rightarrow> RevisionId list \<Rightarrow> string \<Rightarrow> ('f VaultServices, preview_result) action" where
  "previewMerge deps baseRevisionId incomingRevisionIds password =
     act_bind (act_read requireVaultId) (\<lambda>vaultId.
     act_bind (act_read (\<lambda>s. previewDiff (vd_engine deps) vaultId baseRevisionId incomingRevisionIds
         (Some (uniformCredentials password (length incomingRevisionIds))) (sv_engine s))) (\<lambda>result.
     act_return (case result of
         DiffOutcomeReady diff \<Rightarrow> PreviewReady (diff_counts diff)
       | DiffOutcomeFailed reason \<Rightarrow> PreviewFailed reason
       | DiffOutcomeNeedsCredentials reason \<Rightarrow> PreviewFailed reason)))"

section \<open>Properties\<close>

lemma is_diverged_iff:
  assumes "acyclic (edge g)"
  shows "is_diverged (classifyDivergence g l r) \<longleftrightarrow>
    l \<noteq> r \<and> (l, r) \<notin> (edge g)\<^sup>* \<and> (r, l) \<notin> (edge g)\<^sup>* \<and> common_ancestors g l r \<noteq> {}"
  using findMergeBase_Nil_iff [OF assms] by (auto simp: is_diverged_def classifyDivergence_def Let_def)

text \<open>
  C19: The list of versions tells the truth. For a vault this device tracks, whatever has been done with
  the application: it lists every stored revision of the vault once and nothing else; the one marked as
  current is exactly its head; a version is offered for combining exactly when it and the head are
  neither one a descendant of the other yet share an ancestor; the open conflicts of the vault are listed,
  each with its two versions; the state shows a conflict exactly when the vault has a file on this device
  and an open conflict, and "waiting" only while an update is held back.\<close>

theorem snapshot_versions_exact:
  assumes "service_run deps (fresh_services tape files) s"
    and "vd_engine deps = desktop_deps sha256 mergef difff deviceId"
    and "sv_vaultId s = Some v" and "getVault v (en_md (sv_engine s)) = Some vt"
    and "db = en_md (sv_engine s)" and "shot = snapshot_of deps s url"
  shows "set (map vs_id (as_versions shot)) = {i. \<exists>r. getRevision i db = Some r \<and> rev_vaultId r = v} \<and>
    distinct (map vs_id (as_versions shot)) \<and>
    (\<forall>x \<in> set (as_versions shot). vs_isCurrent x \<longleftrightarrow> vault_headRevisionId vt = Some (vs_id x)) \<and>
    (\<forall>x \<in> set (as_versions shot). vs_canCombine x \<longleftrightarrow>
       (\<exists>h. vault_headRevisionId vt = Some h \<and> h \<noteq> vs_id x \<and>
          (h, vs_id x) \<notin> (edge (loadGraph v db))\<^sup>* \<and> (vs_id x, h) \<notin> (edge (loadGraph v db))\<^sup>* \<and>
          common_ancestors (loadGraph v db) h (vs_id x) \<noteq> {})) \<and>
    (\<lambda>x. (cs_id x, cs_currentRevisionId x, cs_incomingRevisionId x)) ` set (as_conflicts shot) =
      (\<lambda>c. (cf_id c, cf_currentRevisionId c, cf_incomingRevisionId c)) `
        {c \<in> set (db_conflicts db). cf_vaultId c = v \<and> cf_status c = OpenStatus} \<and>
    (as_state shot = InConflict \<longleftrightarrow> vault_kdbxPath vt \<noteq> None \<and>
       (\<exists>c \<in> set (db_conflicts db). cf_vaultId c = v \<and> cf_status c = OpenStatus)) \<and>
    (as_state shot = WaitingForClose \<longrightarrow> sv_updateHeldBack s)"
proof -
  let ?g = "loadGraph v db"
  have db: "db_ok db" using desktop_ok_sound(1) [OF run_sound(2) [OF assms(1,2)]] assms(5) by simp
  have versions: "as_versions shot = map (version_summary deps s ?g (vault_headRevisionId vt)) (listRevisions v db)"
    and conflicts: "as_conflicts shot = map (conflict_summary ?g) (listOpenConflicts v db)"
    and state: "as_state shot = sync_state (Some vt) (listOpenConflicts v db) (sv_updateHeldBack s)"
    using assms(3-6) by (simp_all add: snapshot_of_def Let_def)
  have ids: "map vs_id (as_versions shot) = map rev_id (listRevisions v db)"
    by (simp add: versions version_summary_def Let_def)
  have all: "set (map vs_id (as_versions shot)) = {i. \<exists>r. getRevision i db = Some r \<and> rev_vaultId r = v}"
    unfolding ids set_map set_listRevisions [OF db] by (auto dest: getRevision_id intro: rev_image_eqI)
  have one: "distinct (map vs_id (as_versions shot))"
    unfolding ids by (rule distinct_listRevisions [OF db])
  have current: "vs_isCurrent x \<longleftrightarrow> vault_headRevisionId vt = Some (vs_id x)" if "x \<in> set (as_versions shot)" for x
    using that by (auto simp: versions version_summary_def Let_def)
  have combine: "vs_canCombine x \<longleftrightarrow>
       (\<exists>h. vault_headRevisionId vt = Some h \<and> h \<noteq> vs_id x \<and>
          (h, vs_id x) \<notin> (edge ?g)\<^sup>* \<and> (vs_id x, h) \<notin> (edge ?g)\<^sup>* \<and> common_ancestors ?g h (vs_id x) \<noteq> {})"
    if mem: "x \<in> set (as_versions shot)" for x
  proof -
    obtain r where x: "x = version_summary deps s ?g (vault_headRevisionId vt) r"
      using mem by (auto simp: versions)
    show ?thesis
      by (cases "vault_headRevisionId vt")
        (auto simp: x version_summary_def Let_def is_diverged_iff [OF acyclic_loadGraph [OF db]])
  qed
  have open_ones: "(\<lambda>x. (cs_id x, cs_currentRevisionId x, cs_incomingRevisionId x)) ` set (as_conflicts shot) =
      (\<lambda>c. (cf_id c, cf_currentRevisionId c, cf_incomingRevisionId c)) ` set (listOpenConflicts v db)"
    by (simp add: conflicts image_image conflict_summary_def)
  have in_conflict: "as_state shot = InConflict \<longleftrightarrow> vault_kdbxPath vt \<noteq> None \<and> set (listOpenConflicts v db) \<noteq> {}"
    and waiting: "as_state shot = WaitingForClose \<longrightarrow> sv_updateHeldBack s"
    by (auto simp: state sync_state_def)
  have in_conflict': "as_state shot = InConflict \<longleftrightarrow> vault_kdbxPath vt \<noteq> None \<and>
       (\<exists>c \<in> set (db_conflicts db). cf_vaultId c = v \<and> cf_status c = OpenStatus)"
    unfolding in_conflict set_listOpenConflicts by blast
  show ?thesis
    by (intro conjI ballI all one current combine open_ones [unfolded set_listOpenConflicts] in_conflict' waiting)
qed

theorem snapshot_versions_exact_witness:
  "\<exists>x \<in> set (as_versions (snapshot_of sample_services_deps forked_services ''u'')). vs_id x = ''r2''"
proof -
  have active: "sv_vaultId forked_services = Some ''v''" and "getVault ''v'' (en_md (sv_engine forked_services)) \<noteq> None"
    "map_option rev_vaultId (getRevision ''r2'' (en_md (sv_engine forked_services))) = Some ''v''"
    by (insert sample_reads) (elim conjE; assumption)+
  then obtain vt r where "getVault ''v'' (en_md (sv_engine forked_services)) = Some vt"
    and r: "getRevision ''r2'' (en_md (sv_engine forked_services)) = Some r" "rev_vaultId r = ''v''" by auto
  from snapshot_versions_exact [OF forked_run sample_engine active this(1) refl refl, of "''u''", THEN conjunct1] r
  have "''r2'' \<in> set (map vs_id (as_versions (snapshot_of sample_services_deps forked_services ''u'')))" by blast
  then show ?thesis by auto
qed

end
