(* ===== verification/Service_Prompt.thy ===== *)
theory Service_Prompt
  imports Service_Properties
begin

text \<open>
  The verification prompt of the services over whole runs: which sessions are asked about, which are
  answered, and how. The steps that can touch the prompt are labelled with events; every other step of
  the services is shown to leave it alone.
\<close>

section \<open>The prompt and the promises\<close>

definition is_confirm :: "service_call \<Rightarrow> bool" where
  "is_confirm c \<longleftrightarrow> (case c of ConfirmResolved _ _ \<Rightarrow> True | _ \<Rightarrow> False)"

lemma is_confirm_simps [simp]:
  "is_confirm (ConfirmResolved p yes)" "\<not> is_confirm SnapshotChanged" "\<not> is_confirm SyncSuggested"
  by (simp_all add: is_confirm_def)

text \<open>What is on the screen, and the promises resolved since the launch, in order.\<close>

definition prompt_of :: "'f VaultServices \<Rightarrow> Verification option \<times> service_call list" where
  "prompt_of s = (sv_verification s, filter is_confirm (sv_calls s))"

definition prompt_is :: "Verification option \<times> service_call list \<Rightarrow> 'f VaultServices \<Rightarrow> bool" where
  "prompt_is X s \<longleftrightarrow> prompt_of s = X"

lemmas prompt_simps = prompt_is_def prompt_of_def

section \<open>What leaves the prompt alone\<close>

lemma prompt_light [keeps_rules]:
  "keeps (prompt_is X) (log_line l)" "keeps (prompt_is X) (setActiveVault v)"
  "keeps (prompt_is X) clearHeldBackUpdate" "keeps (prompt_is X) (startWatching deps p)" "keeps (prompt_is X) stop"
  "keeps (prompt_is X) (call_out SnapshotChanged)" "keeps (prompt_is X) (call_out SyncSuggested)"
  unfolding log_line_def call_out_def setActiveVault_def clearHeldBackUpdate_def startWatching_def stop_def
  by (rule keeps_modify; simp add: prompt_simps clear_held_back_def split: option.split)+

lemma prompt_stores [keeps_rules]: "keeps (prompt_is X) (on_engine a)" "keeps (prompt_is X) (on_files b)"
  by (auto simp: holds_def on_engine_def on_files_def prompt_simps split: prod.split)

lemma prompt_fields [keeps_rules]:
  "keeps (prompt_is X) (act_modify (\<lambda>s. s\<lparr>sv_watcher := w\<rparr>))"
  "keeps (prompt_is X) (act_modify (\<lambda>s. s\<lparr>sv_updateHeldBack := h\<rparr>))"
  "keeps (prompt_is X) (act_modify (\<lambda>s. s\<lparr>sv_unlockTimer := h\<rparr>))"
  "keeps (prompt_is X) (act_modify (\<lambda>s. s\<lparr>sv_trust := f s\<rparr>))"
  "keeps (prompt_is X) (act_modify (\<lambda>s. s\<lparr>sv_livePeers := g s\<rparr>))"
  "keeps (prompt_is X) (act_modify (\<lambda>s. s\<lparr>sv_rendezvous := k s\<rparr>))"
  "keeps (prompt_is X) (act_modify (\<lambda>s. s\<lparr>sv_rendezvous := k s, sv_trust := f s\<rparr>))"
  "keeps (prompt_is X) (act_modify (\<lambda>s. s\<lparr>sv_pendingRendezvous := x, sv_pairingStartedAt := y\<rparr>))"
  by (rule keeps_modify; simp add: prompt_simps)+

lemma at_prompt [at_rules]:
  "prompt_is X s \<Longrightarrow> keeps (prompt_is X) a \<Longrightarrow> (\<And>x. keeps (prompt_is X) (f x)) \<Longrightarrow> prompt_is X (snd (act_bind a f s))"
  "prompt_is X s \<Longrightarrow> keeps (prompt_is X) a \<Longrightarrow> keeps (prompt_is X) b \<Longrightarrow> prompt_is X (snd (act_then a b s))"
  "prompt_is X s \<Longrightarrow> keeps (prompt_is X) a \<Longrightarrow> (\<And>e. keeps (prompt_is X) (h e)) \<Longrightarrow> prompt_is X (snd (act_catch a h s))"
  "prompt_is X s \<Longrightarrow> prompt_is X (snd (r, s))"
  "prompt_is X s \<Longrightarrow> prompt_is X (snd (act_return x s))"
  "prompt_is X s \<Longrightarrow> prompt_is X (snd (clearHeldBackUpdate s))"
  "(c \<Longrightarrow> prompt_is X (snd p)) \<Longrightarrow> (\<not> c \<Longrightarrow> prompt_is X (snd q)) \<Longrightarrow> prompt_is X (snd (if c then p else q))"
  "(opt = None \<Longrightarrow> prompt_is X (snd p)) \<Longrightarrow> (\<And>x. opt = Some x \<Longrightarrow> prompt_is X (snd (g x))) \<Longrightarrow>
   prompt_is X (snd (case opt of None \<Rightarrow> p | Some x \<Rightarrow> g x))"
  "(\<And>x y. prompt_is X (snd (k x y))) \<Longrightarrow> prompt_is X (snd (case z of (x, y) \<Rightarrow> k x y))"
  "prompt_is X s \<Longrightarrow> prompt_is X (snd (log_line l s))"
  by (auto intro: holdsD [OF keeps_bind] holdsD [OF keeps_then] holdsD [OF keeps_catch] holdsD [OF prompt_light(3)]
      holdsD [OF prompt_light(1)] split: option.split prod.split)

lemma prompt_hold_back [keeps_rules]: "keeps (prompt_is X) hold_back"
  by (rule holdsI, unfold hold_back_def watchForUnlock_def) (assumption | rule at_rules keeps_rules)+

lemma at_prompt_hold_back [at_rules]: "prompt_is X s \<Longrightarrow> prompt_is X (snd (hold_back s))"
  by (rule holdsD [OF prompt_hold_back])

lemma prompt_materialize [keeps_rules]: "keeps (prompt_is X) (materializeCurrentVersion deps)"
  by (rule holdsI, unfold materialize_defs) (assumption | rule at_rules keeps_rules)+

lemma prompt_failed [keeps_rules]: "keeps P (failed_with e)"
  unfolding failed_with_def by (rule keeps_rules)

lemma prompt_files [keeps_rules]:
  "keeps (prompt_is X) (onWatchedChange deps bs now i)" "keeps (prompt_is X) (recordFileNow deps now i)"
  "keeps (prompt_is X) (applyPendingUpdate deps)" "keeps (prompt_is X) (writeBack deps r ign)"
  unfolding onWatchedChange_def [abs_def] recordFileNow_def [abs_def] applyPendingUpdate_def [abs_def] writeBack_def [abs_def]
  by ((rule holdsI), (assumption | rule at_rules keeps_rules)+)+

lemma prompt_vaults [keeps_rules]:
  "keeps (prompt_is X) (bindVault deps p name now v i)" "keeps (prompt_is X) stopTrackingVault"
  "keeps (prompt_is X) (promote_version deps r now)" "keeps (prompt_is X) (saveVaultAs deps p)"
proof -
  show "keeps (prompt_is X) (bindVault deps p name now v i)"
    by (rule holdsI, unfold bindVault_def Let_def) (assumption | rule at_rules keeps_rules)+
  show "keeps (prompt_is X) stopTrackingVault" "keeps (prompt_is X) (promote_version deps r now)"
    unfolding stopTrackingVault_def promote_version_def by (rule keeps_rules)+
  show "keeps (prompt_is X) (saveVaultAs deps p)"
    unfolding saveVaultAs_def by (rule keeps_rules, rule keeps_rules, rule holdsI) (assumption | rule at_rules keeps_rules)+
qed

lemma prompt_conflicts [keeps_rules]:
  "keeps (prompt_is X) (openConflictFor v r c now)" "keeps (prompt_is X) (resolveConflict deps c d now)"
  "keeps (prompt_is X) (decide_all cs now)"
proof -
  show "keeps (prompt_is X) (openConflictFor v r c now)"
    by (rule holdsI, unfold openConflictFor_def Let_def) (assumption | rule at_rules keeps_rules)+
  show "keeps (prompt_is X) (resolveConflict deps c d now)"
    unfolding resolveConflict_def
    by (rule keeps_rules, rule keeps_rules, rule holdsI) (assumption | rule at_rules keeps_rules)+
  show "keeps (prompt_is X) (decide_all cs now)"
    by (induction cs) (simp_all only: decide_all.simps, (assumption | rule keeps_rules)+)
qed

lemma prompt_merge [keeps_rules]: "keeps (prompt_is X) (merge_versions deps b incoming pw now i)"
proof -
  have outcome: "keeps P (a r)" if "\<And>i. keeps P (a (MergeDone i))" "\<And>i. keeps P (a (MergeFailure i))"
    "\<And>i. keeps P (a (MergeNeedsCredentials i))" for P and a :: "MergeOutcome \<Rightarrow> ('f VaultServices, MergeOutcomeSummary) action" and r
    using that by (cases r) auto
  show ?thesis
    unfolding merge_versions_def
    by (rule keeps_rules, rule keeps_rules, rule keeps_rules, rule keeps_rules, rule outcome)
      (simp_all only: MergeOutcome.case, (assumption | rule keeps_rules)+)
qed

lemma prompt_combine [keeps_rules]: "keeps (prompt_is X) (combineAndUse deps other pw now i)"
  unfolding combineAndUse_def
  by (rule keeps_rules, rule keeps_rules, rule holdsI) (assumption | rule at_rules keeps_rules)+

lemma prompt_get_host [keeps_rules]: "keeps (prompt_is X) get_host"
  by (auto simp: holds_def get_host_def prompt_simps split: prod.split)

lemma prompt_settings [keeps_rules]: "keeps (prompt_is X) (saveConnectionSettings wanted)"
  by (auto simp: holds_def saveConnectionSettings_def act_defs prompt_simps split: prod.split sum.split)

lemma prompt_pairing [keeps_rules]:
  "keeps (prompt_is X) (createPairingCode params post_rooms post_code deps now)"
  "keeps (prompt_is X) (readPairingCode parse_URL fetch deps now code)"
  unfolding createPairingCode_def issueShortCode_def readPairingCode_def accept_offer_def redeemShortCode_def Let_def
  by (rule keeps_rules)+

lemma prompt_devices [keeps_rules]:
  "keeps (prompt_is X) (disconnectDevice d)" "keeps (prompt_is X) (reconnectDevice d)" "keeps (prompt_is X) (forgetDevice d)"
  "keeps (prompt_is X) (peerOpened p)" "keeps (prompt_is X) (peerGone p)"
  unfolding disconnectDevice_def reconnectDevice_def [abs_def] forgetDevice_def [abs_def] Let_def
    peerOpened_def [abs_def] peerGone_def [abs_def]
  by ((rule keeps_rules)+, ((rule holdsI), (assumption | rule at_rules keeps_rules)+)+)

lemma prompt_remember [keeps_rules]: "keeps (prompt_is X) (rememberRendezvous d place now)"
  unfolding rememberRendezvous_def by (rule keeps_rules)

lemma prompt_session_event [keeps_rules]: "keeps (prompt_is X) (on_session_event p ev now)"
proof (rule holdsI)
  fix s :: "'f VaultServices" assume s: "prompt_is X s"
  show "prompt_is X (snd (on_session_event p ev now s))"
    unfolding on_session_event_def
    by (cases ev) (simp_all only: SessionEvent.case, (assumption | rule s at_rules keeps_rules)+)
qed

lemma prompt_after_divergence [keeps_rules]: "keeps (prompt_is X) (after_divergence deps result now c)"
  unfolding after_divergence_def
  by (cases "sr_remoteHead result"; cases "sr_vaultId result"; cases "sr_divergence result")
    (simp_all only: prod.case option.case Divergence.case, (assumption | rule keeps_rules)+)

lemma prompt_sync_failed [keeps_rules]: "keeps (prompt_is X) (sync_failed reason code)"
  unfolding sync_failed_def by (rule keeps_rules)+

lemma prompt_rest:
  "prompt_of (snd (rendezvousFor d s)) = prompt_of s" "prompt_of (snd (standingRendezvous s)) = prompt_of s"
  "prompt_of (snd (begin_session p s)) = prompt_of s" "prompt_of (unlock_tick deps s) = prompt_of s"
  using holdsD [OF prompt_materialize, of "prompt_of s" s deps]
  by (auto simp: rendezvousFor_def standingRendezvous_def begin_session_def unlock_tick_def prompt_simps
      split: option.split list.split)

lemma launch_prompt: "prompt_of (snd (start deps s)) = (None, [])"
proof -
  have "prompt_is (None, []) (launched deps s)" by (simp add: prompt_simps launched_def)
  then have "prompt_is (None, []) (snd (start deps s))"
    unfolding start_def
    by (rule at_prompt(2)) ((rule keeps_rules)+, rule holdsI, (assumption | rule at_rules keeps_rules)+)
  then show ?thesis by (simp add: prompt_is_def)
qed

section \<open>Prompts as events\<close>

text \<open>
  What can happen to the prompt: a handshake of some session asks for the digits to be compared, the
  user answers, five minutes pass, a session ends (any session: \<open>finally\<close> of \<open>runSession\<close> settles
  whatever is on the screen).
\<close>

datatype prompt_event = AsksToConfirm PeerId DeviceId bytes string | UserAnswers bool | TimesOut | SessionOver PeerId

text \<open>
  The promise: one session is asked about at a time, with the digits of the key its peer presented, and
  each that is asked about is answered once. The sessions asked about so far, the answers so far, and
  who waits for one.
\<close>

record prompt_history =
  ph_opened :: "PeerId list"
  ph_answered :: "(PeerId \<times> bool) list"
  ph_waiting :: "(PeerId \<times> string) option"

definition no_prompts :: prompt_history where
  "no_prompts = \<lparr>ph_opened = [], ph_answered = [], ph_waiting = None\<rparr>"

definition answer_waiting :: "bool \<Rightarrow> prompt_history \<Rightarrow> prompt_history" where
  "answer_waiting yes h =
     (case ph_waiting h of
        None \<Rightarrow> h
      | Some (p, _) \<Rightarrow> h\<lparr>ph_answered := ph_answered h @ [(p, yes)], ph_waiting := None\<rparr>)"

fun next_prompt :: "'f VaultServicesDeps \<Rightarrow> prompt_event \<Rightarrow> prompt_history \<Rightarrow> prompt_history" where
  "next_prompt deps (AsksToConfirm p d key name) h =
     (if ph_waiting h = None
      then h\<lparr>ph_opened := ph_opened h @ [p], ph_waiting := Some (p, sas_with deps key)\<rparr> else h)"
| "next_prompt deps (UserAnswers yes) h = answer_waiting yes h"
| "next_prompt deps TimesOut h = answer_waiting False h"
| "next_prompt deps (SessionOver p) h = answer_waiting False h"

definition prompts :: "'f VaultServicesDeps \<Rightarrow> prompt_event list \<Rightarrow> prompt_history" where
  "prompts deps evs = fold (next_prompt deps) evs no_prompts"

lemma prompts_simps [simp]:
  "prompts deps [] = no_prompts" "prompts deps (evs @ [ev]) = next_prompt deps ev (prompts deps evs)"
  by (simp_all add: prompts_def)

text \<open>The services taking such steps, and any other that leaves the prompt alone.\<close>

inductive prompt_run :: "'f VaultServicesDeps \<Rightarrow> 'f VaultServices \<Rightarrow> prompt_event list \<Rightarrow> 'f VaultServices \<Rightarrow> bool"
  for deps s where
  prompts_none: "prompt_run deps s [] s"
| prompts_ask: "prompt_run deps s evs t \<Longrightarrow>
    prompt_run deps s (evs @ [AsksToConfirm p d key name]) (snd (awaitPairingConfirmation deps p d key name t))"
| prompts_answer: "prompt_run deps s evs t \<Longrightarrow> prompt_run deps s (evs @ [UserAnswers yes]) (snd (answerVerification yes t))"
| prompts_timeout: "prompt_run deps s evs t \<Longrightarrow> prompt_run deps s (evs @ [TimesOut]) (snd (verification_timeout t))"
| prompts_returned: "prompt_run deps s evs t \<Longrightarrow>
    prompt_run deps s (evs @ [SessionOver p]) (snd (session_returned deps p result now c t))"
| prompts_threw: "prompt_run deps s evs t \<Longrightarrow>
    prompt_run deps s (evs @ [SessionOver p]) (snd (session_threw p reason code t))"
| prompts_other: "prompt_run deps s evs t \<Longrightarrow> prompt_of u = prompt_of t \<Longrightarrow> prompt_run deps s evs u"

text \<open>Every step of the services is one of these, or a restart, which forgets the prompt with all the rest.\<close>

lemma quiet_step: "keeps (prompt_is (prompt_of t)) a \<Longrightarrow> prompt_of (snd (a t)) = prompt_of t"
  by (simp add: holds_def prompt_is_def)

lemma step_is_prompt_step:
  fixes t u :: "'f VaultServices"
  assumes "service_step deps t u" "prompt_run deps s evs t"
  shows "(\<exists>evs'. prompt_run deps s evs' u) \<or> prompt_of u = (None, [])"
proof -
  have other: "\<exists>evs'. prompt_run deps s evs' u" if "prompt_of u = prompt_of t"
    using prompts_other [OF assms(2) that] by blast
  show ?thesis
    using assms(1)
  proof cases
    case restarts then show ?thesis by (simp add: launch_prompt)
  next
    case (asked_to_confirm p d k n) then show ?thesis using prompts_ask [OF assms(2)] by blast
  next
    case (answered yes) then show ?thesis using prompts_answer [OF assms(2)] by blast
  next
    case not_answered then show ?thesis using prompts_timeout [OF assms(2)] by blast
  next
    case (session_ends p result now c) then show ?thesis using prompts_returned [OF assms(2)] by blast
  next
    case (session_fails p reason code) then show ?thesis using prompts_threw [OF assms(2)] by blast
  next
    case (files_change files) then have "prompt_of u = prompt_of t" by (simp add: prompt_of_def)
    then show ?thesis using other by blast
  next
    case (session_works e devices) then have "prompt_of u = prompt_of t" by (simp add: prompt_of_def)
    then show ?thesis using other by blast
  qed (rule disjI1, rule other, simp only:, (rule prompt_rest | rule quiet_step, rule keeps_rules))+
qed

lemma services_run_prompts:
  "service_run deps (fresh_services tape files) t \<Longrightarrow> \<exists>s evs. prompt_of s = (None, []) \<and> prompt_run deps s evs t"
proof (induction rule: service_run.induct)
  case service_none
  have "prompt_of (fresh_services tape files) = (None, [])" by (simp add: fresh_services_def prompt_of_def)
  then show ?case using prompts_none by blast
next
  case (service_more t u)
  then obtain s evs where s: "prompt_of s = (None, [])" "prompt_run deps s evs t" by blast
  from step_is_prompt_step [OF service_more(2) s(2)] show ?case using s(1) prompts_none by blast
qed

section \<open>The services keep the promise\<close>

definition shows_prompts :: "prompt_history \<Rightarrow> Verification option \<times> service_call list \<Rightarrow> bool" where
  "shows_prompts h X \<longleftrightarrow> map_option (\<lambda>v. (vn_session v, vn_code v)) (fst X) = ph_waiting h \<and>
     snd X = map (\<lambda>(p, yes). ConfirmResolved p yes) (ph_answered h)"

lemma settle_shows:
  "shows_prompts h (prompt_of s) \<Longrightarrow> shows_prompts (answer_waiting yes h) (prompt_of (snd (settleVerification yes l s)))"
  by (cases "sv_verification s"; cases "ph_waiting h")
    (auto simp: shows_prompts_def settleVerification_def answer_waiting_def act_defs prompt_of_def split: option.split)

lemma ask_shows:
  "shows_prompts h (prompt_of s) \<Longrightarrow>
    shows_prompts (next_prompt deps (AsksToConfirm p d key name) h) (prompt_of (snd (awaitPairingConfirmation deps p d key name s)))"
  by (cases "sv_verification s"; cases "ph_waiting h")
    (auto simp: shows_prompts_def awaitPairingConfirmation_def act_defs prompt_of_def)

lemma answer_shows:
  "shows_prompts h (prompt_of s) \<Longrightarrow> shows_prompts (answer_waiting yes h) (prompt_of (snd (answerVerification yes s)))"
  using settle_shows [of h s yes]
  by (cases "sv_verification s"; cases "ph_waiting h")
    (auto simp: answerVerification_def shows_prompts_def answer_waiting_def prompt_of_def)

lemma end_session_prompt: "prompt_of (end_session p s) = prompt_of (snd (settleVerification False DisconnectedBeforeConfirm s))"
  by (simp add: end_session_def Let_def prompt_of_def)

lemma returned_prompt:
  fixes t :: "'f VaultServices"
  shows
  "\<exists>s :: 'f VaultServices. prompt_of s = prompt_of t \<and> prompt_of (snd (session_returned deps p result now c t)) = prompt_of (end_session p s)"
proof -
  have "keeps (prompt_is (prompt_of t)) (act_catch
        (act_then (setActiveVault (sr_vaultId result))
          (act_then (log_line l)
          (act_bind (after_divergence deps result now c) (\<lambda>opened.
           act_then (call_out SnapshotChanged) (act_return (k opened))))))
        (\<lambda>e. sync_failed (error_message e) None))" for l k
    by (rule keeps_rules)+
  note body = quiet_step [OF this]
  show ?thesis
    unfolding session_returned_def snd_case_end by (intro exI conjI, rule body, rule refl)
qed

lemma threw_prompt:
  fixes t :: "'f VaultServices"
  shows
  "\<exists>s :: 'f VaultServices. prompt_of s = prompt_of t \<and> prompt_of (snd (session_threw p reason code t)) = prompt_of (end_session p s)"
  unfolding session_threw_def snd_case_end
  by (intro exI conjI, rule quiet_step [OF prompt_sync_failed], rule refl)

lemma run_shows:
  fixes t :: "'f VaultServices"
  shows "prompt_run deps s evs t \<Longrightarrow> prompt_of s = (None, []) \<Longrightarrow> shows_prompts (prompts deps evs) (prompt_of t)"
proof (induction rule: prompt_run.induct)
  case prompts_none
  then show ?case by (simp add: shows_prompts_def no_prompts_def)
next
  case (prompts_ask evs t p d key name)
  then show ?case using ask_shows by (simp del: next_prompt.simps)
next
  case (prompts_answer evs t yes)
  then show ?case using answer_shows by simp
next
  case (prompts_timeout evs t)
  then show ?case using settle_shows by (simp add: verification_timeout_def)
next
  case (prompts_returned evs t p result now c)
  obtain u :: "'f VaultServices" where "prompt_of u = prompt_of t"
    "prompt_of (snd (session_returned deps p result now c t)) = prompt_of (end_session p u)"
    using returned_prompt by blast
  then show ?case using prompts_returned settle_shows [of _ u False] by (simp add: end_session_prompt)
next
  case (prompts_threw evs t p reason code)
  obtain u :: "'f VaultServices" where "prompt_of u = prompt_of t"
    "prompt_of (snd (session_threw p reason code t)) = prompt_of (end_session p u)"
    using threw_prompt by blast
  then show ?case using prompts_threw settle_shows [of _ u False] by (simp add: end_session_prompt)
next
  case (prompts_other evs t u)
  then show ?case by simp
qed

lemma each_answered_once:
  "ph_opened (prompts deps evs) = map fst (ph_answered (prompts deps evs)) @
     (case ph_waiting (prompts deps evs) of None \<Rightarrow> [] | Some (p, _) \<Rightarrow> [p])"
proof (induction evs rule: rev_induct)
  case Nil
  then show ?case by (simp add: no_prompts_def)
next
  case (snoc ev evs)
  then show ?case by (cases ev) (auto simp: answer_waiting_def split: option.splits)
qed

lemma confirmed_by_the_user:
  "(p, True) \<in> set (ph_answered (prompts deps evs)) \<Longrightarrow>
    \<exists>before after code. evs = before @ UserAnswers True # after \<and> ph_waiting (prompts deps before) = Some (p, code)"
proof (induction evs rule: rev_induct)
  case Nil
  then show ?case by (simp add: no_prompts_def)
next
  case (snoc ev evs)
  show ?case
  proof (cases "(p, True) \<in> set (ph_answered (prompts deps evs))")
    case True
    with snoc.IH show ?thesis by force
  next
    case False
    with snoc.prems have "ev = UserAnswers True \<and> (\<exists>code. ph_waiting (prompts deps evs) = Some (p, code))"
      by (cases ev) (auto simp: answer_waiting_def split: option.splits if_splits)
    then show ?thesis by blast
  qed
qed

text \<open>
  C38: The number on the screen is for one session at a time, and each session asked about is answered
  once. Over any run of the services since a launch: the screen shows the digits of the key that the
  session now waiting has presented, and of no other; a session that asks while another waits is refused
  at once and changes nothing; the promises resolved are those of the sessions whose prompts were
  opened, in that order, each once, and at most the last is still open; and a promise is resolved with yes
  only by the user answering yes while that session's digits are on the screen. A prompt that times out is
  answered no, and so is one on the screen when any session ends, also when that is another's.\<close>

theorem prompt_is_for_one_peer:
  assumes "prompt_of s = (None, [])" "prompt_run deps s evs t"
  defines "h \<equiv> prompts deps evs"
  shows "map_option (\<lambda>v. (vn_session v, vn_code v)) (sv_verification t) = ph_waiting h \<and>
    filter is_confirm (sv_calls t) = map (\<lambda>(p, yes). ConfirmResolved p yes) (ph_answered h) \<and>
    ph_opened h = map fst (ph_answered h) @ (case ph_waiting h of None \<Rightarrow> [] | Some (p, _) \<Rightarrow> [p]) \<and>
    (\<forall>p. (p, True) \<in> set (ph_answered h) \<longrightarrow> (\<exists>before after code.
       evs = before @ UserAnswers True # after \<and> ph_waiting (prompts deps before) = Some (p, code))) \<and>
    (\<forall>p d key name. case awaitPairingConfirmation deps p d key name t of (r, u) \<Rightarrow>
       if ph_waiting h = None
       then r = Inr None \<and> map_option (\<lambda>v. (vn_session v, vn_code v)) (sv_verification u) = Some (p, sas_with deps key)
       else r = Inr (Some False) \<and> u = t)"
proof -
  have shown: "map_option (\<lambda>v. (vn_session v, vn_code v)) (sv_verification t) = ph_waiting h"
    "filter is_confirm (sv_calls t) = map (\<lambda>(p, yes). ConfirmResolved p yes) (ph_answered h)"
    using run_shows [OF assms(2,1)] by (simp_all add: h_def shows_prompts_def prompt_of_def)
  have none: "ph_waiting h = None \<longleftrightarrow> sv_verification t = None" unfolding shown(1) [symmetric] by simp
  have asking: "case awaitPairingConfirmation deps p d key name t of (r, u) \<Rightarrow>
       if ph_waiting h = None
       then r = Inr None \<and> map_option (\<lambda>v. (vn_session v, vn_code v)) (sv_verification u) = Some (p, sas_with deps key)
       else r = Inr (Some False) \<and> u = t" for p d key name
    unfolding none by (auto simp: awaitPairingConfirmation_def act_defs)
  have once: "ph_opened h = map fst (ph_answered h) @ (case ph_waiting h of None \<Rightarrow> [] | Some (p, _) \<Rightarrow> [p])"
    unfolding h_def by (rule each_answered_once)
  have yes: "\<exists>before after code. evs = before @ UserAnswers True # after \<and> ph_waiting (prompts deps before) = Some (p, code)"
    if "(p, True) \<in> set (ph_answered h)" for p
    using that unfolding h_def by (rule confirmed_by_the_user)
  show ?thesis by (intro conjI allI impI shown once yes asking)
qed

text \<open>A second session asks, its end settles the prompt of the first, and the user's yes comes too late.\<close>

theorem prompt_is_for_one_peer_witness:
  "\<exists>t. filter is_confirm (sv_calls t) = [ConfirmResolved ''p'' False] \<and> sv_verification t = None \<and>
     prompt_run sample_services_deps (fresh_services [] home_folder)
       [AsksToConfirm ''p'' ''phone'' [5] ''Phone'', AsksToConfirm ''q'' ''other'' [9] ''Other'', SessionOver ''q'', UserAnswers True] t"
proof -
  let ?s = "fresh_services [] home_folder" and ?d = "sample_services_deps"
  let ?evs = "[AsksToConfirm ''p'' ''phone'' [5] ''Phone'', AsksToConfirm ''q'' ''other'' [9] ''Other'', SessionOver ''q'', UserAnswers True]"
  obtain t where t: "prompt_run ?d ?s ?evs t"
  proof -
    note asked = prompts_ask [where p = "''p''" and d = "''phone''" and key = "[5]" and name = "''Phone''", OF prompts_none]
    note both = prompts_ask [where p = "''q''" and d = "''other''" and key = "[9]" and name = "''Other''", OF asked]
    note over = prompts_threw [where p = "''q''" and reason = "''''" and code = None, OF both]
    from prompts_answer [where yes = True, OF over [of ?d ?s]]
    show thesis by (intro that) simp
  qed
  have fresh: "prompt_of ?s = (None, [])" by (simp add: fresh_services_def prompt_of_def)
  have h: "prompts ?d ?evs = \<lparr>ph_opened = [''p''], ph_answered = [(''p'', False)], ph_waiting = None\<rparr>"
    by (simp add: prompts_def no_prompts_def answer_waiting_def)
  show ?thesis using prompt_is_for_one_peer [OF fresh t] t unfolding h by auto
qed

text \<open>The end of any session, also one with another peer, answers the prompt in the negative.\<close>

lemma another_session_ends_the_prompt:
  assumes "sv_verification s = Some pending"
  shows "ConfirmResolved (vn_session pending) False \<in> set (sv_calls (end_session other s))"
  using assms by (simp add: end_session_def settleVerification_def act_defs Let_def)

end
