(* ===== verification/Link_Hub.thy ===== *)
theory Link_Hub
  imports Wire_Protocol
begin

text \<open>
  The hub of peer links (packages/transport/src/peerLinkHub.ts, peerFrame.ts): the channels a session is
  given, whose bytes travel to the side that owns the real data channels, and what happens to frames that
  arrive while no session is running.

  A link is an object: it lives in a store under its number, so that a session may hold one that the hub
  has replaced since. Handlers and promises are named by the link and the channel they were registered
  on, or by a number, and what is called, resolved or emitted is appended to \<open>hb_outputs\<close> in order. The
  callback \<open>onPeerInitiated\<close> is an argument; it is called last, so a session that it starts at once is
  modelled as it runs. \<open>JSON.parse\<close> is an argument, \<open>None\<close> where it throws.
\<close>

section \<open>Frames\<close>

datatype ChannelName = ControlChannel | BulkChannel

record PeerFrame =
  pf_peerId :: PeerId
  pf_channel :: ChannelName
  pf_text :: "string option"
  pf_bytes :: "bytes option"

datatype channel_data = TextData string | BytesData bytes

definition opensASession :: "(string \<Rightarrow> json option) \<Rightarrow> PeerFrame \<Rightarrow> bool" where
  "opensASession parse frame =
     (case (pf_channel frame, pf_text frame) of
        (ControlChannel, Some text) \<Rightarrow>
          (case parse text of
             None \<Rightarrow> False
           | Some value \<Rightarrow> js_property ''type'' value = Some (JStr ''hello''))
      | _ \<Rightarrow> False)"

section \<open>Channels\<close>

definition LOW_WATER_BYTES :: int where "LOW_WATER_BYTES = 256 * 1024"

datatype hub_output =
    Emitted PeerFrame
  | Handed nat channel_data
  | CloseReported nat ChannelName
  | Drained nat
  | PeerInitiated PeerId

record HubChannel =
  hc_link :: nat
  hc_peerId :: PeerId
  hc_channel :: ChannelName
  hc_handler :: bool
  hc_closeHandler :: bool
  hc_buffered :: int
  hc_drainWaiters :: "nat list"
  hc_closed :: bool

definition new_HubChannel :: "nat \<Rightarrow> PeerId \<Rightarrow> ChannelName \<Rightarrow> HubChannel" where
  "new_HubChannel k peerId channel =
     \<lparr>hc_link = k, hc_peerId = peerId, hc_channel = channel, hc_handler = False, hc_closeHandler = False,
      hc_buffered = 0, hc_drainWaiters = [], hc_closed = False\<rparr>"

definition frame_of :: "HubChannel \<Rightarrow> channel_data \<Rightarrow> PeerFrame" where
  "frame_of c data =
     (case data of
        TextData text \<Rightarrow> \<lparr>pf_peerId = hc_peerId c, pf_channel = hc_channel c, pf_text = Some text, pf_bytes = None\<rparr>
      | BytesData bs \<Rightarrow> \<lparr>pf_peerId = hc_peerId c, pf_channel = hc_channel c, pf_text = None, pf_bytes = Some bs\<rparr>)"

definition channel_send :: "channel_data \<Rightarrow> HubChannel \<Rightarrow> hub_output list \<times> HubChannel" where
  "channel_send data c = (if hc_closed c then [] else [Emitted (frame_of c data)], c)"

definition channel_drain :: "nat \<Rightarrow> HubChannel \<Rightarrow> hub_output list \<times> HubChannel" where
  "channel_drain waiter c =
     (if hc_closed c \<or> hc_buffered c \<le> LOW_WATER_BYTES then ([Drained waiter], c)
      else ([], c\<lparr>hc_drainWaiters := hc_drainWaiters c @ [waiter]\<rparr>))"

definition channel_onMessage :: "HubChannel \<Rightarrow> hub_output list \<times> HubChannel" where
  "channel_onMessage c = ([], c\<lparr>hc_handler := True\<rparr>)"

definition channel_onClose :: "HubChannel \<Rightarrow> hub_output list \<times> HubChannel" where
  "channel_onClose c = ([], c\<lparr>hc_closeHandler := True\<rparr>)"

definition releaseWaiters :: "HubChannel \<Rightarrow> hub_output list \<times> HubChannel" where
  "releaseWaiters c = (map Drained (hc_drainWaiters c), c\<lparr>hc_drainWaiters := []\<rparr>)"

definition channel_close :: "HubChannel \<Rightarrow> hub_output list \<times> HubChannel" where
  "channel_close c =
     (if hc_closed c then ([], c)
      else let (released, c') = releaseWaiters (c\<lparr>hc_closed := True\<rparr>)
           in (released @ (if hc_closeHandler c then [CloseReported (hc_link c) (hc_channel c)] else []), c'))"

definition channel_deliver :: "channel_data \<Rightarrow> HubChannel \<Rightarrow> hub_output list \<times> HubChannel" where
  "channel_deliver data c = (if \<not> hc_closed c \<and> hc_handler c then [Handed (hc_link c) data] else [], c)"

definition channel_reportBuffered :: "int \<Rightarrow> HubChannel \<Rightarrow> hub_output list \<times> HubChannel" where
  "channel_reportBuffered n c =
     (if n \<le> LOW_WATER_BYTES then releaseWaiters (c\<lparr>hc_buffered := n\<rparr>) else ([], c\<lparr>hc_buffered := n\<rparr>))"

datatype channel_op =
    OpSend channel_data | OpDrain nat | OpOnMessage | OpOnClose | OpClose | OpDeliver channel_data | OpBuffered int

fun channel_do :: "channel_op \<Rightarrow> HubChannel \<Rightarrow> hub_output list \<times> HubChannel" where
  "channel_do (OpSend data) = channel_send data"
| "channel_do (OpDrain waiter) = channel_drain waiter"
| "channel_do OpOnMessage = channel_onMessage"
| "channel_do OpOnClose = channel_onClose"
| "channel_do OpClose = channel_close"
| "channel_do (OpDeliver data) = channel_deliver data"
| "channel_do (OpBuffered n) = channel_reportBuffered n"

lemmas channel_defs = channel_send_def channel_drain_def channel_onMessage_def channel_onClose_def
  channel_close_def channel_deliver_def channel_reportBuffered_def releaseWaiters_def

section \<open>The hub\<close>

definition MAX_WAITING :: nat where "MAX_WAITING = 8"

record LinkRecord =
  lk_control :: HubChannel
  lk_bulk :: HubChannel

record PeerLinkHub =
  hb_objects :: "LinkRecord list"
  hb_links :: "(PeerId \<times> nat) list"
  hb_waiting :: "(PeerId \<times> PeerFrame list) list"
  hb_microtasks :: "PeerFrame list list"
  hb_outputs :: "hub_output list"

definition new_PeerLinkHub :: PeerLinkHub where
  "new_PeerLinkHub = \<lparr>hb_objects = [], hb_links = [], hb_waiting = [], hb_microtasks = [], hb_outputs = []\<rparr>"

text \<open>A call of a method on one of the two channels of link \<open>k\<close>.\<close>

definition on_channel :: "nat \<Rightarrow> ChannelName \<Rightarrow> channel_op \<Rightarrow> PeerLinkHub \<Rightarrow> PeerLinkHub" where
  "on_channel k name x h =
     (if k < length (hb_objects h)
      then let link = hb_objects h ! k in
        (case name of
           ControlChannel \<Rightarrow>
             (case channel_do x (lk_control link) of (out, c) \<Rightarrow>
                h\<lparr>hb_objects := (hb_objects h)[k := link\<lparr>lk_control := c\<rparr>], hb_outputs := hb_outputs h @ out\<rparr>)
         | BulkChannel \<Rightarrow>
             (case channel_do x (lk_bulk link) of (out, c) \<Rightarrow>
                h\<lparr>hb_objects := (hb_objects h)[k := link\<lparr>lk_bulk := c\<rparr>], hb_outputs := hb_outputs h @ out\<rparr>))
      else h)"

definition closeLink :: "PeerId \<Rightarrow> PeerLinkHub \<Rightarrow> PeerLinkHub" where
  "closeLink peerId h =
     (let h' = h\<lparr>hb_waiting := AList.delete peerId (hb_waiting h)\<rparr>
      in case map_of (hb_links h') peerId of
           None \<Rightarrow> h'
         | Some k \<Rightarrow>
             on_channel k BulkChannel OpClose
               (on_channel k ControlChannel OpClose (h'\<lparr>hb_links := AList.delete peerId (hb_links h')\<rparr>)))"

definition createLink :: "PeerId \<Rightarrow> PeerLinkHub \<Rightarrow> nat \<times> PeerLinkHub" where
  "createLink peerId h =
     (let held = map_of (hb_waiting h) peerId;
          h' = closeLink peerId (h\<lparr>hb_waiting := AList.delete peerId (hb_waiting h)\<rparr>);
          k = length (hb_objects h')
      in (k, h'\<lparr>hb_objects := hb_objects h' @
               [\<lparr>lk_control = new_HubChannel k peerId ControlChannel, lk_bulk = new_HubChannel k peerId BulkChannel\<rparr>],
             hb_links := AList.update peerId k (hb_links h'),
             hb_microtasks := hb_microtasks h' @ (case held of None \<Rightarrow> [] | Some frames \<Rightarrow> [frames])\<rparr>))"

text \<open>The \<open>close\<close> of the link a session holds closes whatever link its peer has now.\<close>

definition link_close :: "nat \<Rightarrow> PeerLinkHub \<Rightarrow> PeerLinkHub" where
  "link_close k h = (if k < length (hb_objects h) then closeLink (hc_peerId (lk_control (hb_objects h ! k))) h else h)"

definition hold_frame :: "(PeerId \<Rightarrow> PeerLinkHub \<Rightarrow> PeerLinkHub) \<Rightarrow> PeerFrame \<Rightarrow> PeerLinkHub \<Rightarrow> PeerLinkHub" where
  "hold_frame initiated frame h =
     (let peerId = pf_peerId frame;
          held = (case map_of (hb_waiting h) peerId of None \<Rightarrow> [] | Some frames \<Rightarrow> frames);
          held' = (if length held < MAX_WAITING then held @ [frame] else held);
          h' = (if length held < MAX_WAITING then h\<lparr>hb_waiting := AList.update peerId held' (hb_waiting h)\<rparr> else h)
      in if length held' = 1
         then initiated peerId (h'\<lparr>hb_outputs := hb_outputs h' @ [PeerInitiated peerId]\<rparr>) else h')"

definition deliverInbound ::
  "(string \<Rightarrow> json option) \<Rightarrow> (PeerId \<Rightarrow> PeerLinkHub \<Rightarrow> PeerLinkHub) \<Rightarrow> PeerFrame \<Rightarrow> PeerLinkHub \<Rightarrow> PeerLinkHub" where
  "deliverInbound parse initiated frame h =
     (case map_of (hb_links h) (pf_peerId frame) of
        None \<Rightarrow> if opensASession parse frame then hold_frame initiated frame h else h
      | Some k \<Rightarrow>
          (case (pf_channel frame, pf_text frame, pf_bytes frame) of
             (ControlChannel, Some text, _) \<Rightarrow> on_channel k ControlChannel (OpDeliver (TextData text)) h
           | (BulkChannel, _, Some bs) \<Rightarrow> on_channel k BulkChannel (OpDeliver (BytesData bs)) h
           | _ \<Rightarrow> h))"

definition reportBuffered :: "PeerId \<Rightarrow> int \<Rightarrow> PeerLinkHub \<Rightarrow> PeerLinkHub" where
  "reportBuffered peerId n h =
     (case map_of (hb_links h) peerId of None \<Rightarrow> h | Some k \<Rightarrow> on_channel k BulkChannel (OpBuffered n) h)"

definition closeAll :: "PeerLinkHub \<Rightarrow> PeerLinkHub" where
  "closeAll h = fold closeLink (map fst (hb_links h)) h"

text \<open>The first of the deferred deliveries of \<open>createLink\<close>.\<close>

definition run_microtask ::
  "(string \<Rightarrow> json option) \<Rightarrow> (PeerId \<Rightarrow> PeerLinkHub \<Rightarrow> PeerLinkHub) \<Rightarrow> PeerLinkHub \<Rightarrow> PeerLinkHub" where
  "run_microtask parse initiated h =
     (case hb_microtasks h of
        [] \<Rightarrow> h
      | held # rest \<Rightarrow> fold (deliverInbound parse initiated) held (h\<lparr>hb_microtasks := rest\<rparr>))"

text \<open>What \<open>runSession\<close> does with the hub before it first waits: it asks for a link and attaches to it.\<close>

definition start_session :: "PeerId \<Rightarrow> PeerLinkHub \<Rightarrow> PeerLinkHub" where
  "start_session peerId h =
     (case createLink peerId h of (k, h') \<Rightarrow>
        on_channel k ControlChannel OpOnClose (on_channel k BulkChannel OpOnMessage
          (on_channel k ControlChannel OpOnMessage h')))"

section \<open>Runs\<close>

text \<open>
  \<open>willing\<close> is whether the owner answers \<open>onPeerInitiated\<close> by starting a session there and then. Frames
  of any kind arrive at any time; the owner may start and end sessions, close links and report the queue.
\<close>

definition answer :: "bool \<Rightarrow> PeerId \<Rightarrow> PeerLinkHub \<Rightarrow> PeerLinkHub" where
  "answer willing peerId h = (if willing then start_session peerId h else h)"

datatype hub_event =
    Arrives bool PeerFrame | Microtask bool | StartsSession PeerId | ClosesLink PeerId | ClosesHeld nat | ClosesAll
  | Reports PeerId int | SessionSends nat ChannelName channel_data | SessionDrains nat ChannelName nat

fun hub_step :: "(string \<Rightarrow> json option) \<Rightarrow> hub_event \<Rightarrow> PeerLinkHub \<Rightarrow> PeerLinkHub" where
  "hub_step parse (Arrives willing frame) h = deliverInbound parse (answer willing) frame h"
| "hub_step parse (Microtask willing) h = run_microtask parse (answer willing) h"
| "hub_step parse (StartsSession peerId) h = start_session peerId h"
| "hub_step parse (ClosesLink peerId) h = closeLink peerId h"
| "hub_step parse (ClosesHeld k) h = link_close k h"
| "hub_step parse ClosesAll h = closeAll h"
| "hub_step parse (Reports peerId n) h = reportBuffered peerId n h"
| "hub_step parse (SessionSends k name data) h = on_channel k name (OpSend data) h"
| "hub_step parse (SessionDrains k name waiter) h = on_channel k name (OpDrain waiter) h"

section \<open>The contract of a channel\<close>

text \<open>
  What a session relies on when it sends with backpressure: a promise of \<open>drain\<close> is pending only on an
  open channel whose queue is full, none is forgotten, and a closed channel stays closed and silent.
\<close>

locale backpressured_channel =
  fixes act :: "'op \<Rightarrow> 'c \<Rightarrow> 'out list \<times> 'c"
    and is_closed :: "'c \<Rightarrow> bool" and is_full :: "'c \<Rightarrow> bool" and waiting :: "'c \<Rightarrow> nat list"
    and resolved :: "'out list \<Rightarrow> nat list" and carries :: "'out \<Rightarrow> bool"
  assumes closed_stays: "is_closed c \<Longrightarrow> is_closed (snd (act x c))"
    and closed_is_silent: "is_closed c \<Longrightarrow> y \<in> set (fst (act x c)) \<Longrightarrow> \<not> carries y"
    and waits_with_reason: "(waiting c \<noteq> [] \<Longrightarrow> \<not> is_closed c \<and> is_full c) \<Longrightarrow>
      waiting (snd (act x c)) \<noteq> [] \<Longrightarrow> \<not> is_closed (snd (act x c)) \<and> is_full (snd (act x c))"
    and none_forgotten: "w \<in> set (waiting c) \<Longrightarrow>
      w \<in> set (waiting (snd (act x c))) \<or> w \<in> set (resolved (fst (act x c)))"
begin

definition runs :: "'op list \<Rightarrow> 'c \<Rightarrow> 'c" where
  "runs xs c = fold (\<lambda>x c. snd (act x c)) xs c"

definition justified :: "'c \<Rightarrow> bool" where
  "justified c \<longleftrightarrow> (waiting c \<noteq> [] \<longrightarrow> \<not> is_closed c \<and> is_full c)"

lemma justified_act: "justified c \<Longrightarrow> justified (snd (act x c))"
  using waits_with_reason [of c x] by (auto simp: justified_def)

lemma justified_runs: "justified c \<Longrightarrow> justified (runs xs c)"
  unfolding runs_def by (induction xs arbitrary: c) (simp_all add: justified_act)

lemma closed_runs: "is_closed c \<Longrightarrow> is_closed (runs xs c)"
  unfolding runs_def by (induction xs arbitrary: c) (simp_all add: closed_stays)

text \<open>After a close nothing is pending, whatever is called on the channel afterwards.\<close>

lemma nothing_pends_when_closed:
  "justified c \<Longrightarrow> is_closed (runs xs c) \<Longrightarrow> waiting (runs (xs @ ys) c) = []"
  using justified_runs [of c "xs @ ys"] closed_runs [of "runs xs c" ys]
  by (auto simp: justified_def runs_def)

end

definition drained :: "hub_output list \<Rightarrow> nat list" where
  "drained out = concat (map (\<lambda>y. case y of Drained w \<Rightarrow> [w] | _ \<Rightarrow> []) out)"

definition carries_data :: "hub_output \<Rightarrow> bool" where
  "carries_data y = (case y of Emitted _ \<Rightarrow> True | Handed _ _ \<Rightarrow> True | _ \<Rightarrow> False)"

definition is_full :: "HubChannel \<Rightarrow> bool" where
  "is_full c \<longleftrightarrow> LOW_WATER_BYTES < hc_buffered c"

lemma drained_map [simp]: "drained (map Drained ws) = ws"
  by (induction ws) (simp_all add: drained_def)

lemma drained_append [simp]: "drained (xs @ ys) = drained xs @ drained ys"
  by (simp add: drained_def)

lemma drained_simps [simp]: "drained [] = []" "drained [Drained w] = [w]"
  by (simp_all add: drained_def)

interpretation hub_channel: backpressured_channel channel_do hc_closed is_full hc_drainWaiters drained carries_data
proof (unfold_locales, goal_cases)
  case (1 c x) then show ?case by (cases x) (simp_all add: channel_defs)
next
  case (2 c y x) then show ?case by (cases x) (auto simp: channel_defs carries_data_def split: if_splits)
next
  case (3 c x) then show ?case by (cases x) (auto simp: channel_defs is_full_def split: if_splits)
next
  case (4 w c x) then show ?case by (cases x) (auto simp: channel_defs)
qed

section \<open>Well-formed hubs\<close>

definition channel_ok :: "nat \<Rightarrow> PeerId \<Rightarrow> ChannelName \<Rightarrow> HubChannel \<Rightarrow> bool" where
  "channel_ok k peerId name c \<longleftrightarrow>
     hc_link c = k \<and> hc_peerId c = peerId \<and> hc_channel c = name \<and> hub_channel.justified c"

definition peer_of :: "LinkRecord \<Rightarrow> PeerId" where
  "peer_of link = hc_peerId (lk_control link)"

definition is_open :: "LinkRecord \<Rightarrow> bool" where
  "is_open link \<longleftrightarrow> \<not> hc_closed (lk_control link)"

definition link_ok :: "nat \<Rightarrow> LinkRecord \<Rightarrow> bool" where
  "link_ok k link \<longleftrightarrow>
     channel_ok k (peer_of link) ControlChannel (lk_control link) \<and> channel_ok k (peer_of link) BulkChannel (lk_bulk link)"

text \<open>The links of the map are the open ones; what waits is a few hellos of a peer that has no link.\<close>

definition waiting_ok :: "(string \<Rightarrow> json option) \<Rightarrow> PeerLinkHub \<Rightarrow> PeerId \<Rightarrow> PeerFrame list \<Rightarrow> bool" where
  "waiting_ok parse h p fs \<longleftrightarrow>
     map_of (hb_links h) p = None \<and> fs \<noteq> [] \<and> length fs \<le> MAX_WAITING \<and>
     (\<forall>f \<in> set fs. pf_peerId f = p \<and> opensASession parse f)"

definition hub_ok :: "(string \<Rightarrow> json option) \<Rightarrow> PeerLinkHub \<Rightarrow> bool" where
  "hub_ok parse h \<longleftrightarrow>
     (\<forall>k < length (hb_objects h). link_ok k (hb_objects h ! k) \<and>
        hc_closed (lk_bulk (hb_objects h ! k)) = hc_closed (lk_control (hb_objects h ! k)) \<and>
        (is_open (hb_objects h ! k) \<longleftrightarrow> map_of (hb_links h) (peer_of (hb_objects h ! k)) = Some k)) \<and>
     (\<forall>p k. map_of (hb_links h) p = Some k \<longrightarrow> k < length (hb_objects h) \<and> peer_of (hb_objects h ! k) = p) \<and>
     (\<forall>p fs. map_of (hb_waiting h) p = Some fs \<longrightarrow> waiting_ok parse h p fs)"

lemma new_hub_ok: "hub_ok parse new_PeerLinkHub"
  by (simp add: hub_ok_def new_PeerLinkHub_def)

text \<open>Calls that neither open nor close a channel.\<close>

lemma channel_do_keeps:
  "hc_link (snd (channel_do x c)) = hc_link c" "hc_peerId (snd (channel_do x c)) = hc_peerId c"
  "hc_channel (snd (channel_do x c)) = hc_channel c"
  "x \<noteq> OpClose \<Longrightarrow> hc_closed (snd (channel_do x c)) = hc_closed c"
  "hc_closed (snd (channel_do OpClose c))"
  by (cases x; simp add: channel_defs)+

lemma channel_do_ok: "channel_ok k p name c \<Longrightarrow> channel_ok k p name (snd (channel_do x c))"
  by (simp add: channel_ok_def channel_do_keeps hub_channel.justified_act)

lemma on_channel_simps [simp]:
  "length (hb_objects (on_channel k name x h)) = length (hb_objects h)"
  "hb_links (on_channel k name x h) = hb_links h" "hb_waiting (on_channel k name x h) = hb_waiting h"
  "hb_microtasks (on_channel k name x h) = hb_microtasks h"
  by (simp_all add: on_channel_def Let_def split: ChannelName.splits prod.splits)

lemma on_channel_objects:
  "k < length (hb_objects h) \<Longrightarrow> hb_objects (on_channel k name x h) =
     (hb_objects h)[k := (case name of
        ControlChannel \<Rightarrow> (hb_objects h ! k)\<lparr>lk_control := snd (channel_do x (lk_control (hb_objects h ! k)))\<rparr>
      | BulkChannel \<Rightarrow> (hb_objects h ! k)\<lparr>lk_bulk := snd (channel_do x (lk_bulk (hb_objects h ! k)))\<rparr>)]"
  by (simp add: on_channel_def Let_def split: ChannelName.splits prod.splits)

lemma on_channel_ok:
  assumes "hub_ok parse h" and "x \<noteq> OpClose"
  shows "hub_ok parse (on_channel k name x h)"
proof (cases "k < length (hb_objects h)")
  case False
  then show ?thesis using assms(1) by (simp add: on_channel_def)
next
  case True
  let ?L = "hb_objects h ! k"
  have "link_ok k ?L" using assms(1) True by (simp add: hub_ok_def)
  then have "link_ok k (?L\<lparr>lk_control := snd (channel_do x (lk_control ?L))\<rparr>)"
    "link_ok k (?L\<lparr>lk_bulk := snd (channel_do x (lk_bulk ?L))\<rparr>)"
    by (simp_all add: link_ok_def peer_of_def channel_do_ok channel_do_keeps)
  then show ?thesis
    using assms True unfolding hub_ok_def
    by (auto simp: waiting_ok_def on_channel_objects nth_list_update channel_do_keeps peer_of_def is_open_def split: ChannelName.splits)
qed

lemma closeLink_waiting [simp]: "map_of (hb_waiting (closeLink p h)) = (map_of (hb_waiting h))(p := None)"
  by (simp add: closeLink_def Let_def delete_conv' split: option.splits)

lemma closeLink_links [simp]: "map_of (hb_links (closeLink p h)) = (map_of (hb_links h))(p := None)"
  by (auto simp: closeLink_def Let_def delete_conv' split: option.splits)

lemma closeLink_length [simp]: "length (hb_objects (closeLink p h)) = length (hb_objects h)"
  "hb_microtasks (closeLink p h) = hb_microtasks h"
  by (simp_all add: closeLink_def Let_def split: option.splits)

lemma closeLink_objects:
  "hb_objects (closeLink p h) =
     (case map_of (hb_links h) p of
        None \<Rightarrow> hb_objects h
      | Some k \<Rightarrow>
          if k < length (hb_objects h)
          then (hb_objects h)[k := \<lparr>lk_control = snd (channel_close (lk_control (hb_objects h ! k))),
                                   lk_bulk = snd (channel_close (lk_bulk (hb_objects h ! k)))\<rparr>]
          else hb_objects h)"
  by (auto simp: closeLink_def Let_def on_channel_objects on_channel_def split: option.splits prod.splits
      intro!: arg_cong [where f = "list_update (hb_objects h) _"] LinkRecord.equality)

lemma closeLink_ok:
  assumes ok: "hub_ok parse h"
  shows "hub_ok parse (closeLink p h)"
proof (cases "map_of (hb_links h) p")
  case None
  then have "hb_objects (closeLink p h) = hb_objects h" "map_of (hb_links (closeLink p h)) = map_of (hb_links h)"
    by (auto simp: closeLink_objects)
  with ok show ?thesis by (auto simp: hub_ok_def waiting_ok_def)
next
  case (Some k)
  then have k: "k < length (hb_objects h)" "peer_of (hb_objects h ! k) = p"
    using ok by (auto simp: hub_ok_def)
  let ?L = "hb_objects h ! k"
  let ?M = "\<lparr>lk_control = snd (channel_close (lk_control ?L)), lk_bulk = snd (channel_close (lk_bulk ?L))\<rparr>"
  have objects: "hb_objects (closeLink p h) = (hb_objects h)[k := ?M]"
    using Some k by (simp add: closeLink_objects)
  have L: "link_ok k ?L" using ok k by (simp add: hub_ok_def)
  have keeps: "hc_peerId (snd (channel_close c)) = hc_peerId c" "hc_closed (snd (channel_close c))"
    "channel_ok i q name c \<Longrightarrow> channel_ok i q name (snd (channel_close c))" for c i q name
    using channel_do_keeps(2) [of OpClose c] channel_do_keeps(5) [of c] channel_do_ok [of i q name c OpClose] by simp_all
  have M: "link_ok k ?M" "peer_of ?M = p" "\<not> is_open ?M" "hc_closed (lk_bulk ?M)" "hc_closed (lk_control ?M)"
    using L k(2) by (simp_all add: link_ok_def peer_of_def is_open_def keeps)
  have other: "map_of (hb_links h) q = Some i \<Longrightarrow> q \<noteq> p \<Longrightarrow> i \<noteq> k" for q i
    using ok k(2) by (auto simp: hub_ok_def)
  show ?thesis
    using ok M other Some k(1) unfolding hub_ok_def objects
    by (auto simp: waiting_ok_def nth_list_update split: if_splits)
qed

lemma closeAll_ok: "hub_ok parse h \<Longrightarrow> hub_ok parse (closeAll h)"
proof -
  have "hub_ok parse h \<Longrightarrow> hub_ok parse (fold closeLink ps h)" for ps
    by (induction ps arbitrary: h) (simp_all add: closeLink_ok)
  then show "hub_ok parse h \<Longrightarrow> hub_ok parse (closeAll h)" by (simp add: closeAll_def)
qed

lemma createLink_ok:
  assumes "hub_ok parse h"
  shows "hub_ok parse (snd (createLink p h))"
proof -
  define h' where "h' = closeLink p (h\<lparr>hb_waiting := AList.delete p (hb_waiting h)\<rparr>)"
  have "hub_ok parse (h\<lparr>hb_waiting := AList.delete p (hb_waiting h)\<rparr>)"
    using assms by (auto simp: hub_ok_def waiting_ok_def delete_conv')
  then have ok: "hub_ok parse h'" by (simp add: h'_def closeLink_ok)
  have free: "map_of (hb_links h') p = None" "map_of (hb_waiting h') p = None" by (simp_all add: h'_def)
  let ?k = "length (hb_objects h')"
  let ?L = "\<lparr>lk_control = new_HubChannel ?k p ControlChannel, lk_bulk = new_HubChannel ?k p BulkChannel\<rparr>"
  have L: "link_ok ?k ?L" "peer_of ?L = p" "is_open ?L" "hc_closed (lk_bulk ?L) = hc_closed (lk_control ?L)"
    by (simp_all add: link_ok_def peer_of_def is_open_def channel_ok_def new_HubChannel_def hub_channel.justified_def)
  have "hub_ok parse (h'\<lparr>hb_objects := hb_objects h' @ [?L], hb_links := AList.update p ?k (hb_links h'), hb_microtasks := m\<rparr>)" for m
    using ok L free unfolding hub_ok_def
    by (auto simp: waiting_ok_def update_conv' nth_append less_Suc_eq split: if_splits)
  then show ?thesis by (simp add: createLink_def Let_def h'_def)
qed

lemma start_session_ok: "hub_ok parse h \<Longrightarrow> hub_ok parse (start_session p h)"
  using createLink_ok [of parse h p] by (cases "createLink p h") (simp add: start_session_def on_channel_ok)

lemma answer_ok: "hub_ok parse h \<Longrightarrow> hub_ok parse (answer willing p h)"
  by (simp add: answer_def start_session_ok)

lemma hub_ok_outputs [simp]: "hub_ok parse (h\<lparr>hb_outputs := out\<rparr>) = hub_ok parse h"
  "hub_ok parse (h\<lparr>hb_microtasks := m\<rparr>) = hub_ok parse h"
  by (simp_all add: hub_ok_def waiting_ok_def)

lemma hold_frame_ok:
  assumes ok: "hub_ok parse h" and "opensASession parse f" and "map_of (hb_links h) (pf_peerId f) = None"
  shows "hub_ok parse (hold_frame (answer willing) f h)"
proof -
  define held where "held = (case map_of (hb_waiting h) (pf_peerId f) of None \<Rightarrow> [] | Some fs \<Rightarrow> fs)"
  have "\<forall>g \<in> set held. pf_peerId g = pf_peerId f \<and> opensASession parse g"
    using ok by (cases "map_of (hb_waiting h) (pf_peerId f)") (auto simp: held_def hub_ok_def waiting_ok_def)
  then have new: "length held < MAX_WAITING \<Longrightarrow> waiting_ok parse h (pf_peerId f) (held @ [f])"
    using assms(2,3) by (auto simp: waiting_ok_def)
  let ?h = "h\<lparr>hb_waiting := AList.update (pf_peerId f) (held @ [f]) (hb_waiting h)\<rparr>"
  have same: "waiting_ok parse ?h p fs = waiting_ok parse h p fs" for p fs by (simp add: waiting_ok_def)
  have "length held < MAX_WAITING \<Longrightarrow> hub_ok parse ?h"
    using ok new unfolding hub_ok_def same by (simp add: update_conv')
  moreover have "hub_ok parse g \<Longrightarrow> hub_ok parse (answer willing (pf_peerId f) (g\<lparr>hb_outputs := out\<rparr>))" for g out
    by (simp add: answer_ok)
  ultimately show ?thesis
    using ok unfolding hold_frame_def Let_def held_def [symmetric] by (simp del: length_append)
qed

lemma deliverInbound_ok: "hub_ok parse h \<Longrightarrow> hub_ok parse (deliverInbound parse (answer willing) f h)"
  by (auto simp: deliverInbound_def hold_frame_ok on_channel_ok split: option.splits ChannelName.splits)

lemma hub_step_ok: "hub_ok parse h \<Longrightarrow> hub_ok parse (hub_step parse e h)"
proof (cases e)
  case (Microtask willing)
  have "hub_ok parse h \<Longrightarrow> hub_ok parse (fold (deliverInbound parse (answer willing)) fs h)" for fs h
    by (induction fs arbitrary: h) (simp_all add: deliverInbound_ok)
  then show "hub_ok parse h \<Longrightarrow> ?thesis" using Microtask by (auto simp: run_microtask_def split: list.splits)
qed (simp_all add: deliverInbound_ok start_session_ok closeLink_ok closeAll_ok on_channel_ok link_close_def
  reportBuffered_def split: option.split)

lemma hub_run_ok: "hub_ok parse (fold (hub_step parse) es new_PeerLinkHub)"
proof -
  have "hub_ok parse h \<Longrightarrow> hub_ok parse (fold (hub_step parse) es h)" for h
    by (induction es arbitrary: h) (simp_all add: hub_step_ok)
  then show ?thesis by (simp add: new_hub_ok)
qed

section \<open>Properties\<close>

text \<open>
  C23: The hub stays well formed. After any sequence of frames, sessions, closings and reports: what waits
  for a session of a peer is at most eight of its hellos, and only while the peer has no link; the link the
  hub has for a peer is open and is that peer's; a link the hub has replaced or closed is closed on both
  channels; and a promise of \<open>drain\<close> is pending only on an open channel whose queue is above the mark.\<close>

theorem hub_stays_sound:
  assumes "h = fold (hub_step parse) es new_PeerLinkHub"
  shows "(\<forall>p fs. map_of (hb_waiting h) p = Some fs \<longrightarrow>
      map_of (hb_links h) p = None \<and> length fs \<le> 8 \<and> (\<forall>f \<in> set fs. opensASession parse f \<and> pf_peerId f = p)) \<and>
    (\<forall>p k. map_of (hb_links h) p = Some k \<longrightarrow>
      k < length (hb_objects h) \<and> peer_of (hb_objects h ! k) = p \<and> is_open (hb_objects h ! k)) \<and>
    (\<forall>k < length (hb_objects h). map_of (hb_links h) (peer_of (hb_objects h ! k)) \<noteq> Some k \<longrightarrow>
      hc_closed (lk_control (hb_objects h ! k)) \<and> hc_closed (lk_bulk (hb_objects h ! k))) \<and>
    (\<forall>k < length (hb_objects h). \<forall>c \<in> {lk_control (hb_objects h ! k), lk_bulk (hb_objects h ! k)}.
      hc_drainWaiters c \<noteq> [] \<longrightarrow> \<not> hc_closed c \<and> LOW_WATER_BYTES < hc_buffered c)"
proof -
  have ok: "hub_ok parse h" using hub_run_ok assms by simp
  have "waiting_ok parse h p fs" if "map_of (hb_waiting h) p = Some fs" for p fs
    using ok that by (simp add: hub_ok_def)
  then have "\<forall>p fs. map_of (hb_waiting h) p = Some fs \<longrightarrow>
      map_of (hb_links h) p = None \<and> length fs \<le> 8 \<and> (\<forall>f \<in> set fs. opensASession parse f \<and> pf_peerId f = p)"
    by (simp add: waiting_ok_def MAX_WAITING_def)
  moreover have "\<forall>k < length (hb_objects h). \<forall>c \<in> {lk_control (hb_objects h ! k), lk_bulk (hb_objects h ! k)}.
      hc_drainWaiters c \<noteq> [] \<longrightarrow> \<not> hc_closed c \<and> LOW_WATER_BYTES < hc_buffered c"
    using ok by (auto simp: hub_ok_def link_ok_def channel_ok_def hub_channel.justified_def is_full_def)
  moreover have "\<forall>k < length (hb_objects h). map_of (hb_links h) (peer_of (hb_objects h ! k)) \<noteq> Some k \<longrightarrow>
      hc_closed (lk_control (hb_objects h ! k)) \<and> hc_closed (lk_bulk (hb_objects h ! k))"
    using ok unfolding hub_ok_def is_open_def by auto
  moreover have "\<forall>p k. map_of (hb_links h) p = Some k \<longrightarrow>
      k < length (hb_objects h) \<and> peer_of (hb_objects h ! k) = p \<and> is_open (hb_objects h ! k)"
    using ok unfolding hub_ok_def by auto
  ultimately show ?thesis by blast
qed

text \<open>Frames that arrive for a channel with a reader are handed on at once.\<close>

definition listens :: "PeerId \<Rightarrow> nat \<Rightarrow> PeerLinkHub \<Rightarrow> bool" where
  "listens p k h \<longleftrightarrow> map_of (hb_links h) p = Some k \<and> k < length (hb_objects h) \<and>
     (let c = lk_control (hb_objects h ! k) in \<not> hc_closed c \<and> hc_handler c \<and> hc_link c = k)"

lemma deliver_read:
  assumes "listens p k h" and "pf_peerId f = p" and "opensASession parse f"
  shows "deliverInbound parse i f h = h\<lparr>hb_outputs := hb_outputs h @ [Handed k (TextData (the (pf_text f)))]\<rparr>"
proof -
  obtain msg where "pf_channel f = ControlChannel" "pf_text f = Some msg"
    using assms(3) by (auto simp: opensASession_def split: ChannelName.splits option.splits)
  then show ?thesis
    using assms(1,2) by (simp add: listens_def deliverInbound_def on_channel_def Let_def channel_deliver_def list_update_id)
qed

lemma deliver_all_read:
  "listens p k h \<Longrightarrow> \<forall>f \<in> set fs. pf_peerId f = p \<and> opensASession parse f \<Longrightarrow>
   fold (deliverInbound parse i) fs h =
     h\<lparr>hb_outputs := hb_outputs h @ map (\<lambda>f. Handed k (TextData (the (pf_text f)))) fs\<rparr>"
proof (induction fs arbitrary: h)
  case (Cons f fs)
  let ?h = "h\<lparr>hb_outputs := hb_outputs h @ [Handed k (TextData (the (pf_text f)))]\<rparr>"
  have "listens p k ?h" using Cons.prems(1) by (simp add: listens_def)
  then show ?case using Cons.IH [of ?h] Cons.prems by (simp add: deliver_read)
qed simp

lemma start_session_idle:
  assumes "map_of (hb_links h) p = None" and "h' = start_session p h"
  shows "listens p (length (hb_objects h)) h'" "hb_outputs h' = hb_outputs h" "map_of (hb_waiting h') p = None"
    "hb_microtasks h' = hb_microtasks h @ (case map_of (hb_waiting h) p of None \<Rightarrow> [] | Some fs \<Rightarrow> [fs])"
  using assms
  by (simp_all add: start_session_def createLink_def Let_def closeLink_def on_channel_def listens_def channel_onMessage_def
      channel_onClose_def new_HubChannel_def nth_append delete_conv' update_conv' delete_idem)

lemma session_gets_what_waited:
  assumes "hub_ok parse h" and "hb_microtasks h = []" and "map_of (hb_links h) p = None"
    and "held = (case map_of (hb_waiting h) p of None \<Rightarrow> [] | Some fs \<Rightarrow> fs)"
    and "t = run_microtask parse i (start_session p h)"
  shows "hb_outputs t = hb_outputs h @ map (\<lambda>f. Handed (length (hb_objects h)) (TextData (the (pf_text f)))) held"
    "map_of (hb_links t) p = Some (length (hb_objects h))" "map_of (hb_waiting t) p = None"
proof -
  let ?s = "start_session p h"
  note s = start_session_idle [OF assms(3) refl]
  have "\<forall>f \<in> set held. pf_peerId f = p \<and> opensASession parse f"
    using assms(1,4) by (auto simp: hub_ok_def waiting_ok_def split: option.splits)
  moreover have "listens p (length (hb_objects h)) (?s\<lparr>hb_microtasks := []\<rparr>)" using s(1) by (simp add: listens_def)
  ultimately have "t = ?s\<lparr>hb_microtasks := [],
      hb_outputs := hb_outputs h @ map (\<lambda>f. Handed (length (hb_objects h)) (TextData (the (pf_text f)))) held\<rparr>"
    using s(2,4) assms(2,4,5) deliver_all_read [of p "length (hb_objects h)" "?s\<lparr>hb_microtasks := []\<rparr>" held parse i]
    by (cases "map_of (hb_waiting h) p") (simp_all add: run_microtask_def)
  with s show "hb_outputs t = hb_outputs h @ map (\<lambda>f. Handed (length (hb_objects h)) (TextData (the (pf_text f)))) held"
    "map_of (hb_links t) p = Some (length (hb_objects h))" "map_of (hb_waiting t) p = None"
    by (simp_all add: listens_def)
qed

text \<open>
  C24: A peer that speaks first is heard. While no session runs with a peer: a frame that is not a hello
  changes nothing, so it starts no session; its first hello asks the owner for a session, and where the
  owner starts one the hello is the first thing that session is handed; further hellos wait, up to
  eight; and a session started later is handed all that waited, in order, with none left over.\<close>

theorem hello_reaches_its_session:
  assumes "h = fold (hub_step parse) es new_PeerLinkHub" and "hb_microtasks h = []"
    and "map_of (hb_links h) (pf_peerId f) = None"
    and "held = (case map_of (hb_waiting h) (pf_peerId f) of None \<Rightarrow> [] | Some fs \<Rightarrow> fs)"
    and "k = length (hb_objects h)" and "handed = map (\<lambda>f. Handed k (TextData (the (pf_text f))))"
  shows "(if \<not> opensASession parse f then deliverInbound parse (answer willing) f h = h
      else if held = []
      then (let t = run_microtask parse (answer willing) (deliverInbound parse (answer True) f h)
            in hb_outputs t = hb_outputs h @ PeerInitiated (pf_peerId f) # handed [f] \<and>
               map_of (hb_links t) (pf_peerId f) = Some k)
      else (let t = deliverInbound parse (answer willing) f h
            in hb_outputs t = hb_outputs h \<and> map_of (hb_waiting t) (pf_peerId f) = Some (take 8 (held @ [f])))) \<and>
    (let t = run_microtask parse (answer willing) (start_session (pf_peerId f) h)
     in hb_outputs t = hb_outputs h @ handed held \<and> map_of (hb_links t) (pf_peerId f) = Some k \<and>
        map_of (hb_waiting t) (pf_peerId f) = None)"
proof -
  let ?p = "pf_peerId f"
  have ok: "hub_ok parse h" using hub_run_ok assms(1) by simp
  note later = session_gets_what_waited [OF ok assms(2,3,4) refl, of "answer willing", folded assms(5)]
  have first: "let t = run_microtask parse (answer willing) (deliverInbound parse (answer True) f h)
      in hb_outputs t = hb_outputs h @ PeerInitiated ?p # handed [f] \<and> map_of (hb_links t) ?p = Some k"
    if opens: "opensASession parse f" and none: "held = []"
  proof -
    let ?h = "h\<lparr>hb_waiting := AList.update ?p [f] (hb_waiting h), hb_outputs := hb_outputs h @ [PeerInitiated ?p]\<rparr>"
    have idle: "map_of (hb_waiting h) ?p = None"
      using ok none assms(4) by (auto simp: hub_ok_def waiting_ok_def split: option.splits)
    have "hub_ok parse (h\<lparr>hb_waiting := AList.update ?p [f] (hb_waiting h)\<rparr>)"
      using ok opens assms(3) by (auto simp: hub_ok_def waiting_ok_def update_conv' MAX_WAITING_def split: if_splits)
    then have "hub_ok parse ?h" by (simp only: hub_ok_outputs)
    from session_gets_what_waited [OF this _ _ _ refl, of ?p "[f]" "answer willing"] idle opens assms(2,3,5,6)
    show ?thesis by (simp add: deliverInbound_def hold_frame_def Let_def MAX_WAITING_def answer_def update_conv')
  qed
  have again: "let t = deliverInbound parse (answer willing) f h
      in hb_outputs t = hb_outputs h \<and> map_of (hb_waiting t) ?p = Some (take 8 (held @ [f]))"
    if opens: "opensASession parse f" and some: "held \<noteq> []"
  proof -
    obtain fs where fs: "map_of (hb_waiting h) ?p = Some fs" "held = fs" "fs \<noteq> []" "length fs \<le> 8"
      using ok some assms(4) by (auto simp: hub_ok_def waiting_ok_def MAX_WAITING_def split: option.splits)
    then have "length fs \<noteq> 0" by simp
    with fs opens assms(3) show ?thesis
      by (cases "length fs < 8") (simp_all add: deliverInbound_def hold_frame_def Let_def MAX_WAITING_def update_conv')
  qed
  show ?thesis using first again later assms(3,6) by (simp add: deliverInbound_def Let_def)
qed

text \<open>
  A peer says hello twice while this side is idle and unwilling; then a session starts, is handed both, and
  drains a full queue that the closing of the link releases.
\<close>

definition hello_frame :: PeerFrame where
  "hello_frame = \<lparr>pf_peerId = ''p'', pf_channel = ControlChannel, pf_text = Some ''h'', pf_bytes = None\<rparr>"

definition parse_h :: "string \<Rightarrow> json option" where
  "parse_h s = (if s = ''h'' then Some (JObj [(''type'', JStr ''hello'')]) else None)"

definition two_hellos :: "hub_event list" where
  "two_hellos = [Arrives False hello_frame, Arrives False hello_frame]"

definition busy_link :: "hub_event list" where
  "busy_link = two_hellos @ [StartsSession ''p'', Microtask True, Reports ''p'' 300000, SessionDrains 0 BulkChannel 7]"

theorem hub_stays_sound_witness:
  "hc_drainWaiters (lk_bulk (hb_objects (fold (hub_step parse_h) busy_link new_PeerLinkHub) ! 0)) = [7] \<and>
   \<not> hc_closed (lk_bulk (hb_objects (fold (hub_step parse_h) busy_link new_PeerLinkHub) ! 0))"
proof -
  let ?h = "fold (hub_step parse_h) busy_link new_PeerLinkHub"
  have "length (hb_objects ?h) = 1" and waits: "hc_drainWaiters (lk_bulk (hb_objects ?h ! 0)) = [7]" by code_simp+
  with hub_stays_sound [OF refl, of parse_h busy_link] show ?thesis by simp
qed

theorem hello_reaches_its_session_witness:
  "hb_outputs (run_microtask parse_h (answer True) (start_session ''p'' (fold (hub_step parse_h) two_hellos new_PeerLinkHub))) =
   [PeerInitiated ''p'', Handed 0 (TextData ''h''), Handed 0 (TextData ''h'')]"
proof -
  let ?h = "fold (hub_step parse_h) two_hellos new_PeerLinkHub"
  have "hb_microtasks ?h = []" "map_of (hb_links ?h) (pf_peerId hello_frame) = None"
    and "hb_outputs ?h = [PeerInitiated ''p'']" "length (hb_objects ?h) = 0"
    and "map_of (hb_waiting ?h) ''p'' = Some [hello_frame, hello_frame]" by code_simp+
  then show ?thesis
    using hello_reaches_its_session [OF refl, of parse_h two_hellos hello_frame _ _ _ True]
    by (simp add: hello_frame_def Let_def)
qed

text \<open>
  The link a session holds is closed by the name of its peer: an old session that closes its link late
  closes the link of the session that has replaced it.
\<close>

lemma late_close_hits_the_new_link:
  "let h = fold (hub_step parse_h) [StartsSession ''p'', StartsSession ''p'', ClosesHeld 0] new_PeerLinkHub
   in \<not> is_open (hb_objects h ! 1)"
  by code_simp

end
