(* ===== verification/Peer_Bridge.thy ===== *)
theory Peer_Bridge
  imports Complex_Main Link_Hub Service_Peers Room_Registry
begin

text \<open>
  The side that owns the real connections (packages/transport/src/peerBridge.ts): the socket to the
  signaling server with its reconnecting, the WebRTC connections it introduces, their two data channels,
  and the pipe between these and the process that runs the sessions.

  Sockets, connections and data channels are objects in stores; a listener registered on one is an event
  that names it, and the peer or room it captured is a field. Events of the browser arrive in any order
  that its documentation allows (no message from a socket that is not open, no channel from a closed
  connection). Where the code awaits an offer or an answer the rest of it is a job. Calls of the events,
  the host and the sockets are recorded in \<open>pb_reports\<close> in order.
\<close>

section \<open>State\<close>

definition FIRST_RETRY_MS :: rat where "FIRST_RETRY_MS = 1000"
definition MAX_RETRY_MS :: rat where "MAX_RETRY_MS = 30000"

datatype ready_state = StateConnecting | StateOpen | StateClosed

record Socket =
  sk_state :: ready_state
  sk_room :: Rendezvous

record Connection =
  cn_peer :: PeerId
  cn_closed :: bool
  cn_iceServers :: "IceServer list"

record DataChannel =
  dc_peer :: PeerId
  dc_isBulk :: bool
  dc_state :: ready_state

datatype bridge_status =
    Connecting | Reconnecting | FindingOther | WaitingForOther | ConnectingToOther | ServerRefused | CouldNotConnect

datatype bridge_notice =
    ServerClosed string string | LostServer string | RefusedBecause string | NoDirectConnection

datatype bridge_report =
    Status bridge_status
  | Notice bridge_notice
  | OnPeer PeerId
  | OnClosed PeerId
  | HostOpen PeerId
  | HostClosed PeerId
  | HostInbound PeerFrame
  | HostBuffered PeerId int
  | SocketJoin nat RoomId string PeerId
  | SocketSignal nat PeerId "(string \<times> json) list"
  | ChannelSent nat channel_data
  | RemoteDescription nat json
  | IceCandidate nat json

text \<open>
  What is left to do when an awaited browser call ends: announce the offer of a connection and go on with
  the other peers of the room, or announce the answer.
\<close>

datatype bridge_job = OfferJob PeerId nat "PeerId list" | AnswerJob PeerId nat

record PeerBridge =
  pb_sockets :: "Socket list"
  pb_conns :: "Connection list"
  pb_channels :: "DataChannel list"
  pb_socket :: "nat option"
  pb_connections :: "(PeerId \<times> nat) list"
  pb_control :: "(PeerId \<times> nat) list"
  pb_bulk :: "(PeerId \<times> nat) list"
  pb_ready :: "PeerId list"
  pb_detachOutbound :: bool
  pb_localPeerId :: PeerId
  pb_closingDeliberately :: bool
  pb_room :: "Rendezvous option"
  pb_retryDelayMs :: rat
  pb_retryTimer :: "rat option"
  pb_outageReported :: bool
  pb_wakeHooked :: bool
  pb_iceServers :: "IceServer list"
  pb_jobs :: "bridge_job list"
  pb_reports :: "bridge_report list"

definition new_PeerBridge :: "PeerId \<Rightarrow> IceServer list \<Rightarrow> PeerBridge" where
  "new_PeerBridge localPeerId servers =
     \<lparr>pb_sockets = [], pb_conns = [], pb_channels = [], pb_socket = None, pb_connections = [], pb_control = [],
      pb_bulk = [], pb_ready = [], pb_detachOutbound = False, pb_localPeerId = localPeerId,
      pb_closingDeliberately = False, pb_room = None, pb_retryDelayMs = 0, pb_retryTimer = None,
      pb_outageReported = False, pb_wakeHooked = False, pb_iceServers = servers, pb_jobs = [], pb_reports = []\<rparr>"

text \<open>
  What the surroundings decide at a step: whether \<open>new WebSocket\<close> throws, what \<open>Math.random\<close> gives, whether
  there is a window and whether it is hidden, whether closing a channel or connection fires its event
  before it returns, and what \<open>new URL(..).host\<close> gives.
\<close>

record Surroundings =
  sr_throws :: bool
  sr_random :: rat
  sr_window :: bool
  sr_hidden :: bool
  sr_fires_at_once :: bool
  sr_host :: "string \<Rightarrow> string option"

definition report :: "bridge_report list \<Rightarrow> PeerBridge \<Rightarrow> PeerBridge" where
  "report rs b = b\<lparr>pb_reports := pb_reports b @ rs\<rparr>"

definition serverName :: "(string \<Rightarrow> string option) \<Rightarrow> string \<Rightarrow> string" where
  "serverName host url = (case host url of None \<Rightarrow> url | Some h \<Rightarrow> h)"

definition useIceServers :: "IceServer list \<Rightarrow> PeerBridge \<Rightarrow> PeerBridge" where
  "useIceServers servers b = (if servers = [] then b else b\<lparr>pb_iceServers := servers\<rparr>)"

section \<open>The socket and its reconnecting\<close>

definition scheduleRetry :: "Surroundings \<Rightarrow> string \<Rightarrow> string \<Rightarrow> PeerBridge \<Rightarrow> PeerBridge" where
  "scheduleRetry env server detail b =
     (if pb_room b = None \<or> pb_retryTimer b \<noteq> None then b
      else let stillSyncing = (pb_ready b \<noteq> []);
               delay = (if pb_retryDelayMs b = 0 then FIRST_RETRY_MS else min (pb_retryDelayMs b * 2) MAX_RETRY_MS);
               notices =
                 (if stillSyncing then []
                  else Status Reconnecting #
                    (if pb_outageReported b then []
                     else [Notice (if detail \<noteq> [] then ServerClosed server detail else LostServer server)]))
           in report notices
                (b\<lparr>pb_retryDelayMs := delay, pb_outageReported := pb_outageReported b \<or> \<not> stillSyncing,
                   pb_retryTimer := Some (delay * (1/2 + sr_random env * (1/2)))\<rparr>))"

definition openSocket :: "Surroundings \<Rightarrow> PeerBridge \<Rightarrow> PeerBridge" where
  "openSocket env b =
     (case pb_room b of
        None \<Rightarrow> b
      | Some room \<Rightarrow>
          let server = serverName (sr_host env) (rv_signalUrl room);
              b' = report [Status (if pb_retryDelayMs b = 0 then Connecting else Reconnecting)] b
          in if sr_throws env then scheduleRetry env server [] b'
             else b'\<lparr>pb_sockets := pb_sockets b' @ [\<lparr>sk_state = StateConnecting, sk_room = room\<rparr>],
                     pb_socket := Some (length (pb_sockets b'))\<rparr>)"

definition socket_opens :: "nat \<Rightarrow> PeerBridge \<Rightarrow> PeerBridge" where
  "socket_opens k b =
     (let room = sk_room (pb_sockets b ! k)
      in report [Status FindingOther, SocketJoin k (rv_roomId room) (rv_inviteToken room) (pb_localPeerId b)]
           (b\<lparr>pb_sockets := (pb_sockets b)[k := (pb_sockets b ! k)\<lparr>sk_state := StateOpen\<rparr>],
              pb_retryDelayMs := 0, pb_outageReported := False\<rparr>))"

text \<open>The listeners for \<open>error\<close> and \<open>close\<close>, which end in the same function.\<close>

definition socket_failed :: "Surroundings \<Rightarrow> nat \<Rightarrow> string \<Rightarrow> PeerBridge \<Rightarrow> PeerBridge" where
  "socket_failed env k detail b =
     (let b' = b\<lparr>pb_sockets := (pb_sockets b)[k := (pb_sockets b ! k)\<lparr>sk_state := StateClosed\<rparr>]\<rparr>
      in if pb_closingDeliberately b' \<or> pb_socket b' \<noteq> Some k then b'
         else scheduleRetry env (serverName (sr_host env) (rv_signalUrl (sk_room (pb_sockets b ! k)))) detail
                (b'\<lparr>pb_socket := None\<rparr>))"

definition retry_fires :: "Surroundings \<Rightarrow> PeerBridge \<Rightarrow> PeerBridge" where
  "retry_fires env b = openSocket env (b\<lparr>pb_retryTimer := None\<rparr>)"

definition wake :: "Surroundings \<Rightarrow> PeerBridge \<Rightarrow> PeerBridge" where
  "wake env b =
     (if pb_room b = None \<or> pb_socket b \<noteq> None then b
      else if sr_hidden env then b
      else openSocket env (b\<lparr>pb_retryTimer := None, pb_retryDelayMs := 0\<rparr>))"

definition hookWakeEvents :: "Surroundings \<Rightarrow> PeerBridge \<Rightarrow> PeerBridge" where
  "hookWakeEvents env b = (if pb_wakeHooked b \<or> \<not> sr_window env then b else b\<lparr>pb_wakeHooked := True\<rparr>)"

section \<open>Forgetting a peer\<close>

definition forget_peer :: "PeerId \<Rightarrow> PeerBridge \<Rightarrow> PeerBridge" where
  "forget_peer p b = b\<lparr>pb_ready := removeAll p (pb_ready b), pb_control := AList.delete p (pb_control b),
     pb_bulk := AList.delete p (pb_bulk b), pb_connections := AList.delete p (pb_connections b)\<rparr>"

definition mark_channel :: "nat \<Rightarrow> ready_state \<Rightarrow> PeerBridge \<Rightarrow> PeerBridge" where
  "mark_channel i st b = b\<lparr>pb_channels := (pb_channels b)[i := (pb_channels b ! i)\<lparr>dc_state := st\<rparr>]\<rparr>"

definition mark_connection :: "nat \<Rightarrow> PeerBridge \<Rightarrow> PeerBridge" where
  "mark_connection i b = b\<lparr>pb_conns := (pb_conns b)[i := (pb_conns b ! i)\<lparr>cn_closed := True\<rparr>]\<rparr>"

text \<open>
  \<open>teardown\<close>. With \<open>at_once\<close>, closing an open channel or connection calls its listener, which is
  \<open>teardown\<close> for the peer the listener captured, before it returns.
\<close>

partial_function (option) teardown :: "bool \<Rightarrow> PeerId \<Rightarrow> PeerBridge \<Rightarrow> PeerBridge option" where
  "teardown at_once p b =
     (let control = map_of (pb_control b) p; bulk = map_of (pb_bulk b) p; conn = map_of (pb_connections b) p
      in if control = None \<and> bulk = None \<and> conn = None then Some b
         else Option.bind
           (case control of
              None \<Rightarrow> Some (forget_peer p b)
            | Some i \<Rightarrow>
                if dc_state (pb_channels b ! i) = StateClosed then Some (forget_peer p b)
                else if at_once then teardown at_once (dc_peer (pb_channels b ! i)) (mark_channel i StateClosed (forget_peer p b))
                else Some (mark_channel i StateClosed (forget_peer p b))) (\<lambda>b1.
         Option.bind
           (case bulk of
              None \<Rightarrow> Some b1
            | Some i \<Rightarrow>
                if dc_state (pb_channels b1 ! i) = StateClosed then Some b1
                else if at_once then teardown at_once (dc_peer (pb_channels b1 ! i)) (mark_channel i StateClosed b1)
                else Some (mark_channel i StateClosed b1)) (\<lambda>b2.
         Option.bind
           (case conn of
              None \<Rightarrow> Some b2
            | Some i \<Rightarrow>
                if cn_closed (pb_conns b2 ! i) then Some b2
                else if at_once then teardown at_once (cn_peer (pb_conns b2 ! i)) (mark_connection i b2)
                else Some (mark_connection i b2)) (\<lambda>b3.
         Some (report [HostClosed p, OnClosed p] b3)))))"

declare teardown.simps [code]

definition torn_down :: "Surroundings \<Rightarrow> PeerId \<Rightarrow> PeerBridge \<Rightarrow> PeerBridge" where
  "torn_down env p b = (case teardown (sr_fires_at_once env) p b of None \<Rightarrow> b | Some t \<Rightarrow> t)"

definition disconnect :: "Surroundings \<Rightarrow> PeerBridge \<Rightarrow> PeerBridge" where
  "disconnect env b =
     (let b1 = b\<lparr>pb_closingDeliberately := True, pb_room := None, pb_retryTimer := None,
                 pb_wakeHooked := pb_wakeHooked b \<and> \<not> sr_window env, pb_detachOutbound := False\<rparr>;
          b2 = fold (torn_down env) (map fst (pb_connections b1)) b1;
          b3 = (case pb_socket b2 of
                  None \<Rightarrow> b2
                | Some k \<Rightarrow> b2\<lparr>pb_sockets := (pb_sockets b2)[k := (pb_sockets b2 ! k)\<lparr>sk_state := StateClosed\<rparr>]\<rparr>)
      in b3\<lparr>pb_socket := None\<rparr>)"

definition connect :: "Surroundings \<Rightarrow> Rendezvous \<Rightarrow> PeerBridge \<Rightarrow> PeerBridge" where
  "connect env input b =
     openSocket env (hookWakeEvents env
       ((disconnect env b)\<lparr>pb_room := Some input, pb_retryDelayMs := 0, pb_outageReported := False,
          pb_closingDeliberately := False, pb_detachOutbound := True\<rparr>))"

section \<open>Signals\<close>

text \<open>\<open>None\<close>: \<open>send\<close> throws, because the socket is still connecting.\<close>

definition sendSignal :: "PeerId \<Rightarrow> (string \<times> json) list \<Rightarrow> PeerBridge \<Rightarrow> PeerBridge option" where
  "sendSignal target payload b =
     (case pb_socket b of
        None \<Rightarrow> Some b
      | Some k \<Rightarrow>
          (case sk_state (pb_sockets b ! k) of
             StateConnecting \<Rightarrow> None
           | StateOpen \<Rightarrow> Some (report [SocketSignal k target payload] b)
           | StateClosed \<Rightarrow> Some b))"

definition attach :: "PeerId \<Rightarrow> bool \<Rightarrow> ready_state \<Rightarrow> PeerBridge \<Rightarrow> PeerBridge" where
  "attach p isBulk st b =
     (let i = length (pb_channels b);
          b' = b\<lparr>pb_channels := pb_channels b @ [\<lparr>dc_peer = p, dc_isBulk = isBulk, dc_state = st\<rparr>]\<rparr>
      in if isBulk then b'\<lparr>pb_bulk := AList.update p i (pb_bulk b')\<rparr>
         else b'\<lparr>pb_control := AList.update p i (pb_control b')\<rparr>)"

text \<open>\<open>openConnection\<close> up to where it waits; the connection whose offer it waits for, if it does.\<close>

definition openConnection :: "PeerId \<Rightarrow> bool \<Rightarrow> PeerBridge \<Rightarrow> nat option \<times> PeerBridge" where
  "openConnection p initiator b =
     (if map_of (pb_connections b) p \<noteq> None then (None, b)
      else let i = length (pb_conns b);
               b' = b\<lparr>pb_conns := pb_conns b @ [\<lparr>cn_peer = p, cn_closed = False, cn_iceServers = pb_iceServers b\<rparr>],
                      pb_connections := AList.update p i (pb_connections b)\<rparr>
           in if initiator then (Some i, attach p True StateConnecting (attach p False StateConnecting b'))
              else (None, b'))"

text \<open>The loop over the peers that are in the room already.\<close>

fun connect_each :: "PeerId list \<Rightarrow> PeerBridge \<Rightarrow> PeerBridge" where
  "connect_each [] b = b"
| "connect_each (p # ps) b =
     (case openConnection p True b of
        (None, b') \<Rightarrow> connect_each ps b'
      | (Some i, b') \<Rightarrow> b'\<lparr>pb_jobs := pb_jobs b' @ [OfferJob p i ps]\<rparr>)"

text \<open>\<open>payload\<close> is \<open>null\<close> or absent in \<open>None\<close> and \<open>JNull\<close>, where reading its \<open>type\<close> throws.\<close>

definition applySignal :: "PeerId \<Rightarrow> json option \<Rightarrow> PeerBridge \<Rightarrow> PeerBridge" where
  "applySignal p payload b =
     (case (map_of (pb_connections b) p, payload) of
        (Some i, Some signal) \<Rightarrow>
          (case (js_property ''type'' signal, js_property ''description'' signal, js_property ''candidate'' signal) of
             (Some (JStr ty), description, candidate) \<Rightarrow>
               if ty = ''offer'' \<and> description \<noteq> None
               then report [RemoteDescription i (the description)] (b\<lparr>pb_jobs := pb_jobs b @ [AnswerJob p i]\<rparr>)
               else if ty = ''answer'' \<and> description \<noteq> None then report [RemoteDescription i (the description)] b
               else if ty = ''ice'' \<and> candidate \<noteq> None then report [IceCandidate i (the candidate)] b
               else b
           | _ \<Rightarrow> b)
      | _ \<Rightarrow> b)"

fun handleSignal :: "Surroundings \<Rightarrow> ServerSignalMessage \<Rightarrow> PeerBridge \<Rightarrow> PeerBridge" where
  "handleSignal env (JoinedRoom roomId peerId existing) b =
     connect_each existing (report [Status (if existing = [] then WaitingForOther else ConnectingToOther)] b)"
| "handleSignal env (PeerJoined p) b = snd (openConnection p False b)"
| "handleSignal env (PeerLeft p) b = (if p \<in> set (pb_ready b) then b else torn_down env p b)"
| "handleSignal env (SignalFrom p payload) b = applySignal p payload b"
| "handleSignal env (SignalError message) b = report [Status ServerRefused, Notice (RefusedBecause message)] b"

text \<open>
  An awaited call ends with a description, or fails: then the promise is rejected with nobody to handle it,
  and the rest of the job is dropped. So it is when announcing throws.
\<close>

definition job_ends :: "json option \<Rightarrow> bridge_job \<Rightarrow> PeerBridge \<Rightarrow> PeerBridge" where
  "job_ends result job b =
     (case result of
        None \<Rightarrow> b
      | Some description \<Rightarrow>
          (case job of
             OfferJob p i rest \<Rightarrow>
               (case sendSignal p [(''type'', JStr ''offer''), (''description'', description)] b of
                  None \<Rightarrow> b | Some b' \<Rightarrow> connect_each rest b')
           | AnswerJob p i \<Rightarrow>
               (case sendSignal p [(''type'', JStr ''answer''), (''description'', description)] b of
                  None \<Rightarrow> b | Some b' \<Rightarrow> b')))"

definition candidate_found :: "PeerId \<Rightarrow> json \<Rightarrow> PeerBridge \<Rightarrow> PeerBridge" where
  "candidate_found p candidate b =
     (case sendSignal p [(''type'', JStr ''ice''), (''candidate'', candidate)] b of None \<Rightarrow> b | Some b' \<Rightarrow> b')"

datatype connection_state = ConnectionFailed | ConnectionClosed | ConnectionOther

definition connection_becomes :: "Surroundings \<Rightarrow> nat \<Rightarrow> connection_state \<Rightarrow> PeerBridge \<Rightarrow> PeerBridge" where
  "connection_becomes env i st b =
     (let b' = (if st = ConnectionFailed then report [Status CouldNotConnect, Notice NoDirectConnection] b else b)
      in if st = ConnectionFailed \<or> st = ConnectionClosed then torn_down env (cn_peer (pb_conns b' ! i)) b' else b')"

section \<open>Channels\<close>

definition maybeReady :: "PeerId \<Rightarrow> PeerBridge \<Rightarrow> PeerBridge" where
  "maybeReady p b =
     (let is_up = (\<lambda>c. case c of None \<Rightarrow> False | Some i \<Rightarrow> dc_state (pb_channels b ! i) = StateOpen)
      in if \<not> is_up (map_of (pb_control b) p) \<or> \<not> is_up (map_of (pb_bulk b) p) \<or> p \<in> set (pb_ready b) then b
         else report [HostOpen p, OnPeer p] (b\<lparr>pb_ready := pb_ready b @ [p]\<rparr>))"

definition channel_opens :: "nat \<Rightarrow> PeerBridge \<Rightarrow> PeerBridge" where
  "channel_opens i b = maybeReady (dc_peer (pb_channels b ! i)) (mark_channel i StateOpen b)"

definition channel_closes :: "Surroundings \<Rightarrow> nat \<Rightarrow> PeerBridge \<Rightarrow> PeerBridge" where
  "channel_closes env i b = torn_down env (dc_peer (pb_channels b ! i)) (mark_channel i StateClosed b)"

definition channel_says :: "nat \<Rightarrow> channel_data \<Rightarrow> PeerBridge \<Rightarrow> PeerBridge" where
  "channel_says i data b =
     (let c = pb_channels b ! i
      in case (dc_isBulk c, data) of
           (True, BytesData bs) \<Rightarrow>
             report [HostInbound \<lparr>pf_peerId = dc_peer c, pf_channel = BulkChannel, pf_text = None, pf_bytes = Some bs\<rparr>] b
         | (False, TextData s) \<Rightarrow>
             report [HostInbound \<lparr>pf_peerId = dc_peer c, pf_channel = ControlChannel, pf_text = Some s, pf_bytes = None\<rparr>] b
         | _ \<Rightarrow> b)"

text \<open>\<open>queued\<close> is the channel's \<open>bufferedAmount\<close> after the send.\<close>

definition forwardOutbound :: "int \<Rightarrow> PeerFrame \<Rightarrow> PeerBridge \<Rightarrow> PeerBridge" where
  "forwardOutbound queued frame b =
     (case (case pf_channel frame of
              BulkChannel \<Rightarrow> map_of (pb_bulk b) (pf_peerId frame)
            | ControlChannel \<Rightarrow> map_of (pb_control b) (pf_peerId frame)) of
        None \<Rightarrow> b
      | Some i \<Rightarrow>
          if dc_state (pb_channels b ! i) \<noteq> StateOpen then b
          else (case (pf_text frame, pf_bytes frame) of
                  (Some s, _) \<Rightarrow> report [ChannelSent i (TextData s)] b
                | (None, Some bs) \<Rightarrow> report [ChannelSent i (BytesData bs), HostBuffered (pf_peerId frame) queued] b
                | (None, None) \<Rightarrow> b))"

section \<open>Runs\<close>

datatype bridge_event =
    Connects Rendezvous
  | Disconnects
  | SocketOpens nat
  | SocketSays nat ServerSignalMessage
  | SocketFails nat string
  | RetryFires
  | Wakes
  | FrameOut int PeerFrame
  | UsesIceServers "IceServer list"
  | ChannelArrives nat bool ready_state
  | ChannelOpens nat
  | ChannelCloses nat
  | ChannelSays nat channel_data
  | ChannelLow nat int
  | ConnectionBecomes nat connection_state
  | CandidateFound nat json
  | JobEnds nat "json option"

definition job_connection :: "bridge_job \<Rightarrow> nat" where
  "job_connection job = (case job of OfferJob p i rest \<Rightarrow> i | AnswerJob p i \<Rightarrow> i)"

text \<open>
  What the browser's documentation, and the listeners that are registered, allow to happen. An offer or an
  answer that is awaited of a connection that was closed meanwhile does not come.
\<close>

fun may_happen :: "bridge_event \<Rightarrow> PeerBridge \<Rightarrow> bool" where
  "may_happen (SocketOpens k) b = (k < length (pb_sockets b) \<and> sk_state (pb_sockets b ! k) = StateConnecting)"
| "may_happen (SocketSays k m) b = (k < length (pb_sockets b) \<and> sk_state (pb_sockets b ! k) = StateOpen)"
| "may_happen (SocketFails k detail) b = (k < length (pb_sockets b))"
| "may_happen RetryFires b = (pb_retryTimer b \<noteq> None)"
| "may_happen Wakes b = pb_wakeHooked b"
| "may_happen (FrameOut n frame) b = pb_detachOutbound b"
| "may_happen (ChannelArrives i isBulk st) b = (i < length (pb_conns b) \<and> \<not> cn_closed (pb_conns b ! i) \<and> st \<noteq> StateClosed)"
| "may_happen (ChannelOpens i) b = (i < length (pb_channels b) \<and> dc_state (pb_channels b ! i) \<noteq> StateClosed)"
| "may_happen (ChannelCloses i) b = (i < length (pb_channels b))"
| "may_happen (ChannelSays i data) b = (i < length (pb_channels b) \<and> dc_state (pb_channels b ! i) = StateOpen)"
| "may_happen (ChannelLow i n) b = (i < length (pb_channels b) \<and> dc_isBulk (pb_channels b ! i))"
| "may_happen (ConnectionBecomes i st) b = (i < length (pb_conns b))"
| "may_happen (CandidateFound i candidate) b = (i < length (pb_conns b))"
| "may_happen (JobEnds j result) b =
     (j < length (pb_jobs b) \<and> (result \<noteq> None \<longrightarrow> \<not> cn_closed (pb_conns b ! job_connection (pb_jobs b ! j))))"
| "may_happen _ b = True"

fun bridge_step :: "Surroundings \<Rightarrow> bridge_event \<Rightarrow> PeerBridge \<Rightarrow> PeerBridge" where
  "bridge_step env (Connects input) b = connect env input b"
| "bridge_step env Disconnects b = disconnect env b"
| "bridge_step env (SocketOpens k) b = socket_opens k b"
| "bridge_step env (SocketSays k m) b = handleSignal env m b"
| "bridge_step env (SocketFails k detail) b = socket_failed env k detail b"
| "bridge_step env RetryFires b = retry_fires env b"
| "bridge_step env Wakes b = wake env b"
| "bridge_step env (FrameOut queued frame) b = forwardOutbound queued frame b"
| "bridge_step env (UsesIceServers servers) b = useIceServers servers b"
| "bridge_step env (ChannelArrives i isBulk st) b = attach (cn_peer (pb_conns b ! i)) isBulk st b"
| "bridge_step env (ChannelOpens i) b = channel_opens i b"
| "bridge_step env (ChannelCloses i) b = channel_closes env i b"
| "bridge_step env (ChannelSays i data) b = channel_says i data b"
| "bridge_step env (ChannelLow i n) b = report [HostBuffered (dc_peer (pb_channels b ! i)) n] b"
| "bridge_step env (ConnectionBecomes i st) b = connection_becomes env i st b"
| "bridge_step env (CandidateFound i candidate) b = candidate_found (cn_peer (pb_conns b ! i)) candidate b"
| "bridge_step env (JobEnds j result) b =
     job_ends result (pb_jobs b ! j) (b\<lparr>pb_jobs := take j (pb_jobs b) @ drop (Suc j) (pb_jobs b)\<rparr>)"

inductive bridge_run :: "PeerBridge \<Rightarrow> PeerBridge \<Rightarrow> bool" where
  still: "bridge_run b b"
| step: "bridge_run b c \<Longrightarrow> may_happen e c \<Longrightarrow> 0 \<le> sr_random env \<Longrightarrow> sr_random env < 1 \<Longrightarrow>
    bridge_run b (bridge_step env e c)"

end
