(* ===== verification/Bridge_Safety.thy ===== *)
theory Bridge_Safety
  imports Peer_Bridge
begin

text \<open>
  What holds of the bridge of \<open>Peer_Bridge\<close>: forgetting a peer ends and is reported once, a bridge that wants
  to be in a room keeps trying, the peers that are ready are the ones the services believe to be live.
\<close>

section \<open>Forgetting a peer ends\<close>

definition held_entries :: "PeerBridge \<Rightarrow> nat" where
  "held_entries b = length (pb_control b) + length (pb_bulk b) + length (pb_connections b)"

lemma length_delete_le: "length (AList.delete k al) \<le> length al"
  by (induction al) auto

lemma length_delete_less: "map_of al k \<noteq> None \<Longrightarrow> length (AList.delete k al) < length al"
proof (induction al)
  case (Cons x al)
  then show ?case using length_delete_le [of k al] by (cases "fst x = k") auto
qed simp

lemma forget_peer_less:
  assumes "map_of (pb_control b) p \<noteq> None \<or> map_of (pb_bulk b) p \<noteq> None \<or> map_of (pb_connections b) p \<noteq> None"
  shows "held_entries (forget_peer p b) < held_entries b"
proof -
  note le = length_delete_le [of p "pb_control b"] length_delete_le [of p "pb_bulk b"] length_delete_le [of p "pb_connections b"]
  from assms show ?thesis
    using le length_delete_less [of "pb_control b" p] length_delete_less [of "pb_bulk b" p]
      length_delete_less [of "pb_connections b" p]
    by (auto simp: forget_peer_def held_entries_def)
qed

lemma held_entries_mark [simp]:
  "held_entries (mark_channel i st b) = held_entries b" "held_entries (mark_connection i b) = held_entries b"
  "held_entries (report rs b) = held_entries b"
  by (simp_all add: held_entries_def mark_channel_def mark_connection_def report_def)

lemma bind_ends:
  assumes "\<exists>t. m = Some t \<and> P t" and "\<And>t. P t \<Longrightarrow> \<exists>u. f t = Some u \<and> Q u"
  shows "\<exists>u. Option.bind m f = Some u \<and> Q u"
  using assms by auto

lemma teardown_total: "\<exists>t. teardown at_once p b = Some t \<and> held_entries t \<le> held_entries b"
proof (induction "held_entries b" arbitrary: p b rule: less_induct)
  case less
  let ?none = "map_of (pb_control b) p = None \<and> map_of (pb_bulk b) p = None \<and> map_of (pb_connections b) p = None"
  let ?small = "\<lambda>t. held_entries t < held_entries b"
  show ?case
  proof (cases ?none)
    case True
    then show ?thesis by (simp add: teardown.simps [of at_once p b])
  next
    case False
    then have small: "?small (forget_peer p b)" using forget_peer_less by blast
    have nested: "\<exists>u. teardown at_once q t = Some u \<and> ?small u" if "?small t" for q t
      using less [OF that, of q] that by fastforce
    have control: "\<exists>u. (case map_of (pb_control b) p of
          None \<Rightarrow> Some (forget_peer p b)
        | Some i \<Rightarrow>
            if dc_state (pb_channels b ! i) = StateClosed then Some (forget_peer p b)
            else if at_once then teardown at_once (dc_peer (pb_channels b ! i)) (mark_channel i StateClosed (forget_peer p b))
            else Some (mark_channel i StateClosed (forget_peer p b))) = Some u \<and> ?small u"
      using small nested [of "mark_channel i StateClosed (forget_peer p b)" for i] by (auto split: option.splits)
    have bulk: "\<exists>u. (case map_of (pb_bulk b) p of
          None \<Rightarrow> Some t
        | Some i \<Rightarrow>
            if dc_state (pb_channels t ! i) = StateClosed then Some t
            else if at_once then teardown at_once (dc_peer (pb_channels t ! i)) (mark_channel i StateClosed t)
            else Some (mark_channel i StateClosed t)) = Some u \<and> ?small u" if "?small t" for t
      using that nested [of "mark_channel i StateClosed t" for i] by (auto split: option.splits)
    have conn: "\<exists>u. (case map_of (pb_connections b) p of
          None \<Rightarrow> Some t
        | Some i \<Rightarrow>
            if cn_closed (pb_conns t ! i) then Some t
            else if at_once then teardown at_once (cn_peer (pb_conns t ! i)) (mark_connection i t)
            else Some (mark_connection i t)) = Some u \<and> ?small u" if "?small t" for t
      using that nested [of "mark_connection i t" for i] by (auto split: option.splits)
    have "\<exists>u. teardown at_once p b = Some u \<and> ?small u"
      unfolding teardown.simps [of at_once p b] Let_def using False
      by (simp only: if_False) (intro bind_ends [OF control] bind_ends [OF bulk] bind_ends [OF conn], simp_all)
    then show ?thesis by fastforce
  qed
qed

section \<open>What forgetting a peer does\<close>

definition owners_ok :: "PeerBridge \<Rightarrow> bool" where
  "owners_ok b \<longleftrightarrow>
     (\<forall>p i. map_of (pb_control b) p = Some i \<longrightarrow> i < length (pb_channels b) \<and> dc_peer (pb_channels b ! i) = p) \<and>
     (\<forall>p i. map_of (pb_bulk b) p = Some i \<longrightarrow> i < length (pb_channels b) \<and> dc_peer (pb_channels b ! i) = p) \<and>
     (\<forall>p i. map_of (pb_connections b) p = Some i \<longrightarrow> i < length (pb_conns b) \<and> cn_peer (pb_conns b ! i) = p)"

definition close_channel_of :: "nat option \<Rightarrow> PeerBridge \<Rightarrow> PeerBridge" where
  "close_channel_of c = (case c of None \<Rightarrow> id | Some i \<Rightarrow> mark_channel i StateClosed)"

definition close_connection_of :: "nat option \<Rightarrow> PeerBridge \<Rightarrow> PeerBridge" where
  "close_connection_of c = (case c of None \<Rightarrow> id | Some i \<Rightarrow> mark_connection i)"

text \<open>Remove the peer, close its channels and its connection, report it closed.\<close>

definition dismantle :: "PeerId \<Rightarrow> PeerBridge \<Rightarrow> PeerBridge" where
  "dismantle p b =
     (if map_of (pb_control b) p = None \<and> map_of (pb_bulk b) p = None \<and> map_of (pb_connections b) p = None then b
      else report [HostClosed p, OnClosed p]
        (close_connection_of (map_of (pb_connections b) p) (close_channel_of (map_of (pb_bulk b) p)
          (close_channel_of (map_of (pb_control b) p) (forget_peer p b)))))"

lemma teardown_nothing:
  "map_of (pb_control b) p = None \<Longrightarrow> map_of (pb_bulk b) p = None \<Longrightarrow> map_of (pb_connections b) p = None \<Longrightarrow>
   teardown at_once p b = Some b"
  by (simp add: teardown.simps [of at_once p b])

lemma mark_maps [simp]:
  "pb_control (mark_channel i st b) = pb_control b" "pb_bulk (mark_channel i st b) = pb_bulk b"
  "pb_connections (mark_channel i st b) = pb_connections b" "pb_conns (mark_channel i st b) = pb_conns b"
  "pb_control (mark_connection i b) = pb_control b" "pb_bulk (mark_connection i b) = pb_bulk b"
  "pb_connections (mark_connection i b) = pb_connections b" "pb_channels (mark_connection i b) = pb_channels b"
  "pb_ready (mark_channel i st b) = pb_ready b" "pb_reports (mark_channel i st b) = pb_reports b"
  "pb_ready (mark_connection i b) = pb_ready b" "pb_reports (mark_connection i b) = pb_reports b"
  "length (pb_channels (mark_channel i st b)) = length (pb_channels b)"
  "length (pb_conns (mark_connection i b)) = length (pb_conns b)"
  by (simp_all add: mark_channel_def mark_connection_def)

lemma mark_peer [simp]:
  "dc_peer (pb_channels (mark_channel i st b) ! k) = dc_peer (pb_channels b ! k)"
  "cn_peer (pb_conns (mark_connection i b) ! k) = cn_peer (pb_conns b ! k)"
  by (cases "i < length (pb_channels b)"; cases "k = i"; simp add: mark_channel_def list_update_beyond)
     (cases "i < length (pb_conns b)"; cases "k = i"; simp add: mark_connection_def list_update_beyond)

lemma mark_closed_again:
  "dc_state (pb_channels b ! i) = StateClosed \<Longrightarrow> mark_channel i StateClosed b = b"
  "cn_closed (pb_conns b ! i) \<Longrightarrow> mark_connection i b = b"
proof -
  assume "dc_state (pb_channels b ! i) = StateClosed"
  then have "(pb_channels b ! i)\<lparr>dc_state := StateClosed\<rparr> = pb_channels b ! i" by (simp add: DataChannel.equality)
  then show "mark_channel i StateClosed b = b" by (simp add: mark_channel_def)
next
  assume "cn_closed (pb_conns b ! i)"
  then have "(pb_conns b ! i)\<lparr>cn_closed := True\<rparr> = pb_conns b ! i" by (simp add: Connection.equality)
  then show "mark_connection i b = b" by (simp add: mark_connection_def)
qed

lemma forget_peer_simps [simp]:
  "map_of (pb_control (forget_peer p b)) = (map_of (pb_control b))(p := None)"
  "map_of (pb_bulk (forget_peer p b)) = (map_of (pb_bulk b))(p := None)"
  "map_of (pb_connections (forget_peer p b)) = (map_of (pb_connections b))(p := None)"
  "pb_channels (forget_peer p b) = pb_channels b" "pb_conns (forget_peer p b) = pb_conns b"
  "pb_ready (forget_peer p b) = removeAll p (pb_ready b)"
  by (simp_all add: forget_peer_def delete_conv')

lemma teardown_dismantles:
  assumes "owners_ok b"
  shows "teardown at_once p b = Some (dismantle p b)"
proof -
  have owners: "map_of (pb_control b) p = Some i \<Longrightarrow> dc_peer (pb_channels b ! i) = p"
    "map_of (pb_bulk b) p = Some i \<Longrightarrow> dc_peer (pb_channels b ! i) = p"
    "map_of (pb_connections b) p = Some i \<Longrightarrow> cn_peer (pb_conns b ! i) = p" for i
    using assms by (auto simp: owners_ok_def)
  show ?thesis
    unfolding teardown.simps [of at_once p b] dismantle_def Let_def
    by (auto simp: owners teardown_nothing mark_closed_again close_channel_of_def close_connection_of_def
        split: option.splits)
qed

lemma torn_down_dismantles: "owners_ok b \<Longrightarrow> torn_down env p b = dismantle p b"
  by (simp add: torn_down_def teardown_dismantles)

section \<open>The two halves of a bridge\<close>

text \<open>The peers a host holds to be live, from what it was told.\<close>

definition hear :: "bridge_report \<Rightarrow> PeerId set \<Rightarrow> PeerId set" where
  "hear r live = (case r of HostOpen p \<Rightarrow> insert p live | HostClosed p \<Rightarrow> live - {p} | _ \<Rightarrow> live)"

definition said_live :: "PeerBridge \<Rightarrow> PeerId set" where
  "said_live b = fold hear (pb_reports b) {}"

definition retry_part :: "PeerBridge \<Rightarrow> Socket list \<times> nat option \<times> Rendezvous option \<times> rat \<times> rat option \<times> bool" where
  "retry_part b = (pb_sockets b, pb_socket b, pb_room b, pb_retryDelayMs b, pb_retryTimer b, pb_closingDeliberately b)"

definition peer_part ::
  "PeerBridge \<Rightarrow> (PeerId \<Rightarrow> nat option) \<times> (PeerId \<Rightarrow> nat option) \<times> (PeerId \<Rightarrow> nat option) \<times> DataChannel list \<times>
     Connection list \<times> PeerId list \<times> PeerId set" where
  "peer_part b = (map_of (pb_control b), map_of (pb_bulk b), map_of (pb_connections b), pb_channels b, pb_conns b,
     pb_ready b, said_live b)"

text \<open>Who wants a room holds a socket that is not closed or waits for a retry within the bounds, never both.\<close>

definition retry_ok :: "PeerBridge \<Rightarrow> bool" where
  "retry_ok b \<longleftrightarrow>
     (pb_room b \<noteq> None \<longleftrightarrow> pb_socket b \<noteq> None \<or> pb_retryTimer b \<noteq> None) \<and>
     (pb_room b \<noteq> None \<longrightarrow> \<not> pb_closingDeliberately b) \<and>
     (\<forall>k < length (pb_sockets b). sk_state (pb_sockets b ! k) \<noteq> StateClosed \<longrightarrow> pb_socket b = Some k) \<and>
     (\<forall>k. pb_socket b = Some k \<longrightarrow> pb_retryTimer b = None \<and>
        k < length (pb_sockets b) \<and> sk_state (pb_sockets b ! k) \<noteq> StateClosed) \<and>
     (pb_retryDelayMs b = 0 \<or> FIRST_RETRY_MS \<le> pb_retryDelayMs b \<and> pb_retryDelayMs b \<le> MAX_RETRY_MS) \<and>
     (\<forall>w. pb_retryTimer b = Some w \<longrightarrow> pb_retryDelayMs b \<noteq> 0 \<and> pb_retryDelayMs b / 2 \<le> w \<and> w \<le> pb_retryDelayMs b)"

lemma retry_okD:
  assumes "retry_ok b"
  shows "pb_room b \<noteq> None \<longleftrightarrow> pb_socket b \<noteq> None \<or> pb_retryTimer b \<noteq> None"
    and "pb_room b \<noteq> None \<Longrightarrow> \<not> pb_closingDeliberately b"
    and "i < length (pb_sockets b) \<Longrightarrow> sk_state (pb_sockets b ! i) \<noteq> StateClosed \<Longrightarrow> pb_socket b = Some i"
    and "pb_socket b = Some k \<Longrightarrow> pb_retryTimer b = None"
    and "pb_socket b = Some k \<Longrightarrow> k < length (pb_sockets b)"
    and "pb_socket b = Some k \<Longrightarrow> sk_state (pb_sockets b ! k) \<noteq> StateClosed"
    and "pb_retryDelayMs b = 0 \<or> FIRST_RETRY_MS \<le> pb_retryDelayMs b \<and> pb_retryDelayMs b \<le> MAX_RETRY_MS"
    and "pb_retryTimer b = Some w \<Longrightarrow>
      pb_retryDelayMs b \<noteq> 0 \<and> pb_retryDelayMs b / 2 \<le> w \<and> w \<le> pb_retryDelayMs b"
  using assms unfolding retry_ok_def by blast+

text \<open>Sockets other than the one in use may close.\<close>

lemma retry_ok_sockets:
  assumes ok: "retry_ok b" and "length ss = length (pb_sockets b)"
    and only: "\<And>i. i < length ss \<Longrightarrow> sk_state (ss ! i) \<noteq> StateClosed \<Longrightarrow> pb_socket b = Some i"
    and own: "\<And>i. pb_socket b = Some i \<Longrightarrow> sk_state (ss ! i) \<noteq> StateClosed"
  shows "retry_ok (b\<lparr>pb_sockets := ss\<rparr>)"
proof -
  let ?c = "b\<lparr>pb_sockets := ss\<rparr>"
  have same: "pb_room ?c = pb_room b" "pb_socket ?c = pb_socket b" "pb_retryTimer ?c = pb_retryTimer b"
    "pb_closingDeliberately ?c = pb_closingDeliberately b" "pb_retryDelayMs ?c = pb_retryDelayMs b" "pb_sockets ?c = ss"
    by simp_all
  note D = retry_okD [OF ok]
  show ?thesis unfolding retry_ok_def same
  proof (intro conjI allI impI)
    show "pb_room b \<noteq> None \<longleftrightarrow> pb_socket b \<noteq> None \<or> pb_retryTimer b \<noteq> None" by (rule D(1))
    show "pb_retryDelayMs b = 0 \<or> FIRST_RETRY_MS \<le> pb_retryDelayMs b \<and> pb_retryDelayMs b \<le> MAX_RETRY_MS" by (rule D(7))
    show "\<not> pb_closingDeliberately b" if "pb_room b \<noteq> None" by (rule D(2) [OF that])
    show "pb_socket b = Some k" if "k < length ss" "sk_state (ss ! k) \<noteq> StateClosed" for k by (rule only [OF that])
    show "pb_retryTimer b = None" if "pb_socket b = Some k" for k by (rule D(4) [OF that])
    show "k < length ss" if "pb_socket b = Some k" for k using D(5) [OF that] assms(2) by simp
    show "sk_state (ss ! k) \<noteq> StateClosed" if "pb_socket b = Some k" for k by (rule own [OF that])
    show "pb_retryDelayMs b \<noteq> 0" "pb_retryDelayMs b / 2 \<le> w" "w \<le> pb_retryDelayMs b"
      if "pb_retryTimer b = Some w" for w using D(8) [OF that] by blast+
  qed
qed

definition peers_ok :: "PeerBridge \<Rightarrow> bool" where
  "peers_ok b \<longleftrightarrow> owners_ok b \<and>
     (\<forall>p. map_of (pb_connections b) p = None \<longrightarrow> map_of (pb_control b) p = None \<and> map_of (pb_bulk b) p = None) \<and>
     (\<forall>p i. map_of (pb_connections b) p = Some i \<longrightarrow> \<not> cn_closed (pb_conns b ! i)) \<and>
     (\<forall>i < length (pb_conns b). \<not> cn_closed (pb_conns b ! i) \<longrightarrow>
        map_of (pb_connections b) (cn_peer (pb_conns b ! i)) = Some i) \<and>
     (\<forall>p \<in> set (pb_ready b). map_of (pb_control b) p \<noteq> None \<and> map_of (pb_bulk b) p \<noteq> None) \<and>
     said_live b = set (pb_ready b)"

lemma retry_ok_cong: "retry_part c = retry_part b \<Longrightarrow> retry_ok c = retry_ok b"
  by (simp add: retry_ok_def retry_part_def)

lemma peers_ok_cong: "peer_part c = peer_part b \<Longrightarrow> peers_ok c = peers_ok b"
  by (simp add: peers_ok_def owners_ok_def peer_part_def)

lemma fold_hear_silent: "\<forall>r \<in> set rs. \<forall>live. hear r live = live \<Longrightarrow> fold hear rs live = live"
  by (induction rs) simp_all

lemma said_live_report: "said_live (report rs b) = fold hear rs (said_live b)"
  by (simp add: said_live_def report_def)

lemma report_simps [simp]:
  "pb_sockets (report rs b) = pb_sockets b" "pb_socket (report rs b) = pb_socket b" "pb_room (report rs b) = pb_room b"
  "pb_retryDelayMs (report rs b) = pb_retryDelayMs b" "pb_retryTimer (report rs b) = pb_retryTimer b"
  "pb_closingDeliberately (report rs b) = pb_closingDeliberately b" "pb_outageReported (report rs b) = pb_outageReported b"
  "pb_control (report rs b) = pb_control b" "pb_bulk (report rs b) = pb_bulk b" "pb_connections (report rs b) = pb_connections b"
  "pb_channels (report rs b) = pb_channels b" "pb_conns (report rs b) = pb_conns b" "pb_ready (report rs b) = pb_ready b"
  "pb_jobs (report rs b) = pb_jobs b"
  by (simp_all add: report_def)

lemma retry_part_report [simp]: "retry_part (report rs b) = retry_part b"
  by (simp add: retry_part_def)

lemma peer_part_report: "\<forall>r \<in> set rs. \<forall>live. hear r live = live \<Longrightarrow> peer_part (report rs b) = peer_part b"
  by (simp add: peer_part_def said_live_report fold_hear_silent)

text \<open>The socket's half is not touched by what is done with peers.\<close>

lemma retry_part_close [simp]:
  "retry_part (close_channel_of c b) = retry_part b" "retry_part (close_connection_of c b) = retry_part b"
  "retry_part (mark_channel i st b) = retry_part b" "retry_part (forget_peer p b) = retry_part b"
  by (simp_all add: close_channel_of_def close_connection_of_def mark_channel_def mark_connection_def forget_peer_def
      retry_part_def split: option.splits)

lemma retry_part_peers [simp]:
  "retry_part (dismantle p b) = retry_part b" "retry_part (attach p isBulk st b) = retry_part b"
  "retry_part (snd (openConnection p initiator b)) = retry_part b" "retry_part (maybeReady p b) = retry_part b"
  "retry_part (applySignal p payload b) = retry_part b"
  by (auto simp: dismantle_def attach_def openConnection_def maybeReady_def applySignal_def Let_def retry_part_def
      close_channel_of_def close_connection_of_def mark_channel_def mark_connection_def forget_peer_def
      split: option.splits json.splits)

lemma retry_part_connect_each [simp]: "retry_part (connect_each ps b) = retry_part b"
proof (induction ps arbitrary: b)
  case (Cons p ps)
  then show ?case using retry_part_peers(3) [of p True b]
    by (cases "openConnection p True b") (auto simp: retry_part_def split: option.splits)
qed simp

lemma sendSignal_cases: "sendSignal p payload b = Some c \<Longrightarrow> c = b \<or> (\<exists>k. c = report [SocketSignal k p payload] b)"
  by (auto simp: sendSignal_def split: option.splits ready_state.splits)

text \<open>The peers' half is not touched by what is done with the socket.\<close>

lemma peer_part_socket [simp]:
  "peer_part (scheduleRetry env server detail b) = peer_part b" "peer_part (openSocket env b) = peer_part b"
  "peer_part (socket_opens k b) = peer_part b" "peer_part (socket_failed env k detail b) = peer_part b"
  "peer_part (retry_fires env b) = peer_part b" "peer_part (wake env b) = peer_part b"
  "peer_part (hookWakeEvents env b) = peer_part b"
proof -
  have schedule: "peer_part (scheduleRetry env server detail b) = peer_part b" for server detail b
    by (simp add: scheduleRetry_def Let_def peer_part_report hear_def) (simp add: peer_part_def said_live_def)
  then show "peer_part (scheduleRetry env server detail b) = peer_part b" .
  have opens: "peer_part (openSocket env b) = peer_part b" for b
    by (simp add: openSocket_def Let_def schedule peer_part_report hear_def split: option.split)
      (simp add: peer_part_def said_live_def report_def hear_def)
  then show "peer_part (openSocket env b) = peer_part b" .
  show "peer_part (socket_opens k b) = peer_part b"
    by (simp add: socket_opens_def Let_def peer_part_report hear_def) (simp add: peer_part_def said_live_def)
  show "peer_part (socket_failed env k detail b) = peer_part b"
    by (simp add: socket_failed_def Let_def schedule) (simp add: peer_part_def said_live_def)
  show "peer_part (retry_fires env b) = peer_part b"
    by (simp add: retry_fires_def opens) (simp add: peer_part_def said_live_def)
  show "peer_part (wake env b) = peer_part b"
    by (simp add: wake_def opens) (simp add: peer_part_def said_live_def)
  show "peer_part (hookWakeEvents env b) = peer_part b"
    by (simp add: hookWakeEvents_def peer_part_def said_live_def)
qed

section \<open>The socket's half stays well formed\<close>

lemma scheduleRetry_retry_ok:
  assumes "0 \<le> sr_random env" "sr_random env < 1" and "pb_room b \<noteq> None" and "pb_socket b = None"
    and "pb_retryDelayMs b = 0 \<or> FIRST_RETRY_MS \<le> pb_retryDelayMs b \<and> pb_retryDelayMs b \<le> MAX_RETRY_MS"
    and "pb_retryTimer b = None" and "\<not> pb_closingDeliberately b"
    and "\<forall>k < length (pb_sockets b). sk_state (pb_sockets b ! k) = StateClosed"
  shows "retry_ok (scheduleRetry env server detail b)"
proof -
  let ?d = "if pb_retryDelayMs b = 0 then FIRST_RETRY_MS else min (pb_retryDelayMs b * 2) MAX_RETRY_MS"
  have d: "FIRST_RETRY_MS \<le> ?d" "?d \<le> MAX_RETRY_MS" "?d \<noteq> 0"
    using assms(5) by (auto simp: FIRST_RETRY_MS_def MAX_RETRY_MS_def min_def)
  then have "0 \<le> ?d" by (simp add: FIRST_RETRY_MS_def)
  then have "?d / 2 \<le> ?d * (1/2 + sr_random env * (1/2))" "?d * (1/2 + sr_random env * (1/2)) \<le> ?d * 1"
    using assms(1,2) mult_left_mono [of "1/2" "1/2 + sr_random env * (1/2)" ?d]
      mult_left_mono [of "1/2 + sr_random env * (1/2)" 1 ?d] by simp_all
  with d assms show ?thesis
    by (simp add: scheduleRetry_def Let_def retry_ok_def)
qed

lemma openSocket_retry_ok:
  assumes "0 \<le> sr_random env" "sr_random env < 1" and "pb_room b \<noteq> None" and "pb_socket b = None"
    and "pb_retryDelayMs b = 0 \<or> FIRST_RETRY_MS \<le> pb_retryDelayMs b \<and> pb_retryDelayMs b \<le> MAX_RETRY_MS"
    and "pb_retryTimer b = None" and "\<not> pb_closingDeliberately b"
    and "\<forall>k < length (pb_sockets b). sk_state (pb_sockets b ! k) = StateClosed"
  shows "retry_ok (openSocket env b)"
  using assms scheduleRetry_retry_ok [of env] by (auto simp: openSocket_def Let_def) (simp_all add: retry_ok_def nth_append)

lemma socket_opens_retry_ok:
  assumes "retry_ok b" and "k < length (pb_sockets b)" and "sk_state (pb_sockets b ! k) = StateConnecting"
  shows "retry_ok (socket_opens k b)"
proof -
  note D = retry_okD [OF assms(1)]
  have k: "pb_socket b = Some k" using D(3) [OF assms(2)] assms(3) by simp
  have "pb_room b \<noteq> None" using D(1) k by blast
  moreover have "pb_retryTimer b = None" "\<not> pb_closingDeliberately b" using D(2,4) k calculation by blast+
  moreover have "sk_state (pb_sockets b ! i) = StateClosed" if "i < length (pb_sockets b)" "i \<noteq> k" for i
    using D(3) [of i] that k by auto
  ultimately show ?thesis
    using k assms(2) by (simp add: retry_ok_def socket_opens_def Let_def nth_list_update)
qed

lemma socket_failed_retry_ok:
  assumes ok: "retry_ok b" and "0 \<le> sr_random env" "sr_random env < 1"
  shows "retry_ok (socket_failed env k detail b)"
proof (cases "pb_socket b = Some k")
  case True
  note D = retry_okD [OF ok]
  have "pb_room b \<noteq> None" using D(1) True by blast
  moreover have "pb_retryTimer b = None" "\<not> pb_closingDeliberately b" using D(2,4) True calculation by blast+
  moreover have "\<forall>i < length (pb_sockets b).
      sk_state ((pb_sockets b)[k := (pb_sockets b ! k)\<lparr>sk_state := StateClosed\<rparr>] ! i) = StateClosed"
  proof (intro allI impI)
    fix i assume "i < length (pb_sockets b)"
    then show "sk_state ((pb_sockets b)[k := (pb_sockets b ! k)\<lparr>sk_state := StateClosed\<rparr>] ! i) = StateClosed"
      using D(3) [of i] True by (cases "i = k") auto
  qed
  ultimately show ?thesis
    using True assms(2,3) D(7) by (simp add: socket_failed_def Let_def scheduleRetry_retry_ok)
next
  case False
  note D = retry_okD [OF ok]
  have "retry_ok (b\<lparr>pb_sockets := (pb_sockets b)[k := (pb_sockets b ! k)\<lparr>sk_state := StateClosed\<rparr>]\<rparr>)"
  proof (rule retry_ok_sockets [OF ok])
    fix i assume "i < length ((pb_sockets b)[k := (pb_sockets b ! k)\<lparr>sk_state := StateClosed\<rparr>])"
      and "sk_state ((pb_sockets b)[k := (pb_sockets b ! k)\<lparr>sk_state := StateClosed\<rparr>] ! i) \<noteq> StateClosed"
    then show "pb_socket b = Some i" using D(3) [of i] by (cases "i = k") simp_all
  next
    fix i assume "pb_socket b = Some i"
    then show "sk_state ((pb_sockets b)[k := (pb_sockets b ! k)\<lparr>sk_state := StateClosed\<rparr>] ! i) \<noteq> StateClosed"
      using D(6) [of i] False by (cases "i = k") simp_all
  qed simp
  with False show ?thesis by (simp add: socket_failed_def Let_def)
qed

lemma quiet_socket:
  assumes "retry_ok b" and "pb_socket b = None" and "pb_room b \<noteq> None"
  shows "\<not> pb_closingDeliberately b" "\<forall>k < length (pb_sockets b). sk_state (pb_sockets b ! k) = StateClosed"
  using retry_okD(2,3) [OF assms(1)] assms(2,3) by fastforce+

lemma retry_fires_retry_ok:
  assumes "retry_ok b" and "pb_retryTimer b \<noteq> None" and "0 \<le> sr_random env" "sr_random env < 1"
  shows "retry_ok (retry_fires env b)"
proof -
  have s: "pb_room b \<noteq> None" "pb_socket b = None" using retry_okD(1,4) [OF assms(1)] assms(2) by fastforce+
  with quiet_socket [OF assms(1) s(2,1)] retry_okD(7) [OF assms(1)] assms(3,4) show ?thesis
    by (simp add: retry_fires_def openSocket_retry_ok)
qed

lemma wake_retry_ok:
  assumes "retry_ok b" and "0 \<le> sr_random env" "sr_random env < 1"
  shows "retry_ok (wake env b)"
proof (cases "pb_room b = None \<or> pb_socket b \<noteq> None \<or> sr_hidden env")
  case True
  with assms(1) show ?thesis by (auto simp: wake_def)
next
  case False
  then have s: "pb_room b \<noteq> None" "pb_socket b = None" "\<not> sr_hidden env" by auto
  then show ?thesis
    using quiet_socket [OF assms(1) s(2,1)] assms(2,3)
      openSocket_retry_ok [of env "b\<lparr>pb_retryTimer := None, pb_retryDelayMs := 0\<rparr>"] by (auto simp: wake_def)
qed

section \<open>The peers' half stays well formed\<close>

lemma peers_okD:
  assumes "peers_ok b"
  shows "map_of (pb_control b) p = Some i \<Longrightarrow> i < length (pb_channels b) \<and> dc_peer (pb_channels b ! i) = p"
    and "map_of (pb_bulk b) p = Some i \<Longrightarrow> i < length (pb_channels b) \<and> dc_peer (pb_channels b ! i) = p"
    and "map_of (pb_connections b) p = Some i \<Longrightarrow> i < length (pb_conns b) \<and> cn_peer (pb_conns b ! i) = p"
    and "map_of (pb_connections b) p = None \<Longrightarrow> map_of (pb_control b) p = None \<and> map_of (pb_bulk b) p = None"
    and "map_of (pb_connections b) p = Some i \<Longrightarrow> \<not> cn_closed (pb_conns b ! i)"
    and "i < length (pb_conns b) \<Longrightarrow> \<not> cn_closed (pb_conns b ! i) \<Longrightarrow>
      map_of (pb_connections b) (cn_peer (pb_conns b ! i)) = Some i"
    and "p \<in> set (pb_ready b) \<Longrightarrow> map_of (pb_control b) p \<noteq> None \<and> map_of (pb_bulk b) p \<noteq> None"
    and "said_live b = set (pb_ready b)"
  using assms unfolding peers_ok_def owners_ok_def by blast+

lemma peers_okI:
  assumes "\<And>p i. map_of (pb_control b) p = Some i \<Longrightarrow> i < length (pb_channels b) \<and> dc_peer (pb_channels b ! i) = p"
    and "\<And>p i. map_of (pb_bulk b) p = Some i \<Longrightarrow> i < length (pb_channels b) \<and> dc_peer (pb_channels b ! i) = p"
    and "\<And>p i. map_of (pb_connections b) p = Some i \<Longrightarrow> i < length (pb_conns b) \<and> cn_peer (pb_conns b ! i) = p"
    and "\<And>p. map_of (pb_connections b) p = None \<Longrightarrow> map_of (pb_control b) p = None \<and> map_of (pb_bulk b) p = None"
    and "\<And>p i. map_of (pb_connections b) p = Some i \<Longrightarrow> \<not> cn_closed (pb_conns b ! i)"
    and "\<And>i. i < length (pb_conns b) \<Longrightarrow> \<not> cn_closed (pb_conns b ! i) \<Longrightarrow>
      map_of (pb_connections b) (cn_peer (pb_conns b ! i)) = Some i"
    and "\<And>p. p \<in> set (pb_ready b) \<Longrightarrow> map_of (pb_control b) p \<noteq> None \<and> map_of (pb_bulk b) p \<noteq> None"
    and "said_live b = set (pb_ready b)"
  shows "peers_ok b"
  using assms unfolding peers_ok_def owners_ok_def by blast

lemma peers_ok_channel [simp]: "peers_ok (mark_channel i st b) = peers_ok b"
proof -
  have "said_live (mark_channel i st b) = said_live b" "pb_ready (mark_channel i st b) = pb_ready b"
    by (simp_all add: said_live_def mark_channel_def)
  then show ?thesis by (simp add: peers_ok_def owners_ok_def)
qed

lemma peers_ok_silent: "\<forall>r \<in> set rs. \<forall>live. hear r live = live \<Longrightarrow> peers_ok (report rs b) = peers_ok b"
  by (rule peers_ok_cong) (rule peer_part_report)

lemma close_parts [simp]:
  "pb_control (close_channel_of c b) = pb_control b" "pb_bulk (close_channel_of c b) = pb_bulk b"
  "pb_connections (close_channel_of c b) = pb_connections b" "pb_conns (close_channel_of c b) = pb_conns b"
  "pb_ready (close_channel_of c b) = pb_ready b" "pb_reports (close_channel_of c b) = pb_reports b"
  "length (pb_channels (close_channel_of c b)) = length (pb_channels b)"
  "dc_peer (pb_channels (close_channel_of c b) ! k) = dc_peer (pb_channels b ! k)"
  "pb_control (close_connection_of c b) = pb_control b" "pb_bulk (close_connection_of c b) = pb_bulk b"
  "pb_connections (close_connection_of c b) = pb_connections b" "pb_channels (close_connection_of c b) = pb_channels b"
  "pb_ready (close_connection_of c b) = pb_ready b" "pb_reports (close_connection_of c b) = pb_reports b"
  "length (pb_conns (close_connection_of c b)) = length (pb_conns b)"
  "cn_peer (pb_conns (close_connection_of c b) ! k) = cn_peer (pb_conns b ! k)"
  by (simp_all add: close_channel_of_def close_connection_of_def split: option.split)

lemma close_connection_state:
  "i < length (pb_conns b) \<Longrightarrow>
   cn_closed (pb_conns (close_connection_of c b) ! i) \<longleftrightarrow> c = Some i \<or> cn_closed (pb_conns b ! i)"
  by (cases c; cases "c = Some i") (simp_all add: close_connection_of_def mark_connection_def)

text \<open>What is known of a peer after it was forgotten.\<close>

lemma dismantle_maps [simp]:
  "map_of (pb_control (dismantle p b)) = (map_of (pb_control b))(p := None)"
  "map_of (pb_bulk (dismantle p b)) = (map_of (pb_bulk b))(p := None)"
  "map_of (pb_connections (dismantle p b)) = (map_of (pb_connections b))(p := None)"
  by (auto simp: dismantle_def)

lemma dismantle_channels [simp]:
  "length (pb_channels (dismantle p b)) = length (pb_channels b)"
  "dc_peer (pb_channels (dismantle p b) ! k) = dc_peer (pb_channels b ! k)"
  "length (pb_conns (dismantle p b)) = length (pb_conns b)"
  "cn_peer (pb_conns (dismantle p b) ! k) = cn_peer (pb_conns b ! k)"
  by (simp_all add: dismantle_def)

lemma dismantle_state:
  "i < length (pb_conns b) \<Longrightarrow>
   cn_closed (pb_conns (dismantle p b) ! i) \<longleftrightarrow> map_of (pb_connections b) p = Some i \<or> cn_closed (pb_conns b ! i)"
  by (auto simp: dismantle_def close_connection_state)

lemma dismantle_ready: "peers_ok b \<Longrightarrow> pb_ready (dismantle p b) = removeAll p (pb_ready b)"
proof -
  assume "peers_ok b"
  then have "map_of (pb_control b) p = None \<Longrightarrow> p \<notin> set (pb_ready b)" by (auto simp: peers_ok_def)
  then show ?thesis by (auto simp: dismantle_def)
qed

lemma dismantle_live: "peers_ok b \<Longrightarrow> said_live (dismantle p b) = said_live b - {p}"
proof -
  assume ok: "peers_ok b"
  then have none: "map_of (pb_control b) p = None \<Longrightarrow> p \<notin> said_live b" by (auto simp: peers_ok_def)
  have "said_live (close_connection_of c (close_channel_of d (close_channel_of e (forget_peer p b)))) = said_live b" for c d e
    by (simp add: said_live_def forget_peer_def)
  with none show ?thesis by (auto simp: dismantle_def said_live_report hear_def)
qed

lemma dismantle_ok:
  assumes ok: "peers_ok b"
  shows "peers_ok (dismantle p b)"
proof -
  note D = peers_okD [OF ok]
  have one: "p = q" if "map_of (pb_connections b) p = Some i" "map_of (pb_connections b) q = Some i" for q i
    using D(3) [OF that(1)] D(3) [OF that(2)] by simp
  show ?thesis
  proof (rule peers_okI, goal_cases)
    case (5 q i)
    then show ?case using D(3) [of q i] D(5) [of q i] one by (auto simp: dismantle_state split: if_splits)
  next
    case (6 i)
    then show ?case using D(6) [of i] D(3) [of p i] by (auto simp: dismantle_state)
  next
    case (7 q)
    then show ?case using D(7) [of q] dismantle_ready [OF ok] by auto
  next
    case 8
    then show ?case using D(8) dismantle_ready [OF ok] dismantle_live [OF ok] by auto
  qed (use D(1-4) in \<open>auto split: if_splits\<close>)
qed

lemma torn_down_ok: "peers_ok b \<Longrightarrow> torn_down env p b = dismantle p b \<and> peers_ok (dismantle p b)"
  using torn_down_dismantles dismantle_ok by (auto simp: peers_ok_def)

lemma attach_keeps:
  assumes ok: "peers_ok b" and up: "map_of (pb_connections b) p \<noteq> None"
  shows "peers_ok (attach p isBulk st b)"
proof -
  have same: "pb_conns (attach p isBulk st b) = pb_conns b" "pb_connections (attach p isBulk st b) = pb_connections b"
    "pb_ready (attach p isBulk st b) = pb_ready b" "said_live (attach p isBulk st b) = said_live b"
    "pb_channels (attach p isBulk st b) = pb_channels b @ [\<lparr>dc_peer = p, dc_isBulk = isBulk, dc_state = st\<rparr>]"
    "map_of (pb_control (attach p isBulk st b)) =
       (if isBulk then map_of (pb_control b) else (map_of (pb_control b))(p \<mapsto> length (pb_channels b)))"
    "map_of (pb_bulk (attach p isBulk st b)) =
       (if isBulk then (map_of (pb_bulk b))(p \<mapsto> length (pb_channels b)) else map_of (pb_bulk b))"
    by (simp_all add: attach_def Let_def said_live_def update_conv')
  note D = peers_okD [OF ok]
  show ?thesis
    by (rule peers_okI; unfold same)
      (use D up in \<open>force simp: nth_append split: if_splits\<close>)+
qed

lemma openConnection_ok: "peers_ok b \<Longrightarrow> peers_ok (snd (openConnection p initiator b))"
proof (cases "map_of (pb_connections b) p")
  case None
  assume ok: "peers_ok b"
  let ?c = "b\<lparr>pb_conns := pb_conns b @ [\<lparr>cn_peer = p, cn_closed = False, cn_iceServers = pb_iceServers b\<rparr>],
              pb_connections := AList.update p (length (pb_conns b)) (pb_connections b)\<rparr>"
  have same: "pb_channels ?c = pb_channels b" "pb_control ?c = pb_control b" "pb_bulk ?c = pb_bulk b"
    "pb_ready ?c = pb_ready b" "said_live ?c = said_live b"
    "pb_conns ?c = pb_conns b @ [\<lparr>cn_peer = p, cn_closed = False, cn_iceServers = pb_iceServers b\<rparr>]"
    "map_of (pb_connections ?c) = (map_of (pb_connections b))(p \<mapsto> length (pb_conns b))"
    by (simp_all add: said_live_def update_conv')
  note D = peers_okD [OF ok]
  have c: "peers_ok ?c"
    by (rule peers_okI; unfold same) (use D None in \<open>force simp: nth_append less_Suc_eq split: if_splits\<close>)+
  have up: "map_of (pb_connections ?c) p \<noteq> None" by (simp add: update_conv')
  have "pb_connections (attach p False StateConnecting ?c) = pb_connections ?c" by (simp add: attach_def Let_def)
  with up have "map_of (pb_connections (attach p False StateConnecting ?c)) p \<noteq> None" by simp
  with c None show ?thesis
    by (simp add: openConnection_def Let_def attach_keeps [OF attach_keeps [OF c up]] del: fun_upd_apply)
qed (simp add: openConnection_def)

lemma peers_ok_jobs [simp]: "peers_ok (b\<lparr>pb_jobs := js\<rparr>) = peers_ok b"
  by (rule peers_ok_cong) (simp add: peer_part_def said_live_def)

lemma connect_each_ok: "peers_ok b \<Longrightarrow> peers_ok (connect_each ps b)"
proof (induction ps arbitrary: b)
  case (Cons p ps)
  then show ?case using openConnection_ok [of b p True]
    by (cases "openConnection p True b") (auto split: option.splits)
qed simp

lemma maybeReady_ok:
  assumes ok: "peers_ok b"
  shows "peers_ok (maybeReady p b)"
proof (cases "maybeReady p b = b")
  case False
  let ?c = "report [HostOpen p, OnPeer p] (b\<lparr>pb_ready := pb_ready b @ [p]\<rparr>)"
  have eq: "maybeReady p b = ?c" and up: "map_of (pb_control b) p \<noteq> None" "map_of (pb_bulk b) p \<noteq> None"
    using False by (auto simp: maybeReady_def Let_def split: if_splits option.splits)
  have "said_live ?c = insert p (said_live b)" by (simp add: said_live_report hear_def) (simp add: said_live_def)
  then have "peers_ok ?c" using ok up by (simp add: peers_ok_def owners_ok_def)
  then show ?thesis by (simp add: eq)
qed (simp add: ok)

section \<open>Every step keeps both\<close>

definition bridge_ok :: "PeerBridge \<Rightarrow> bool" where
  "bridge_ok b \<longleftrightarrow> retry_ok b \<and> peers_ok b"

lemma new_bridge_ok: "bridge_ok (new_PeerBridge localPeerId servers)"
  by (simp add: bridge_ok_def retry_ok_def peers_ok_def owners_ok_def new_PeerBridge_def said_live_def)

lemma bridge_okD: "bridge_ok b \<Longrightarrow> retry_ok b" "bridge_ok b \<Longrightarrow> peers_ok b"
  by (simp_all add: bridge_ok_def)

lemma fold_torn_down:
  "peers_ok b \<Longrightarrow> peers_ok (fold (torn_down env) ps b) \<and> retry_part (fold (torn_down env) ps b) = retry_part b \<and>
   (\<forall>q. q \<in> set ps \<or> map_of (pb_connections b) q = None \<longrightarrow> map_of (pb_connections (fold (torn_down env) ps b)) q = None)"
proof (induction ps arbitrary: b)
  case (Cons p ps)
  have down: "torn_down env p b = dismantle p b" "peers_ok (dismantle p b)" using torn_down_ok [OF Cons.prems] by blast+
  note IH = Cons.IH [OF down(2)]
  have "map_of (pb_connections (dismantle p b)) q = None" if "q = p \<or> map_of (pb_connections b) q = None" for q
    using that by (simp only: dismantle_maps) auto
  then have "map_of (pb_connections (fold (torn_down env) ps (dismantle p b))) q = None"
    if "q \<in> set (p # ps) \<or> map_of (pb_connections b) q = None" for q
    using IH that by (metis set_ConsD)
  moreover have "retry_part (fold (torn_down env) ps (dismantle p b)) = retry_part b" using IH by simp
  moreover have "fold (torn_down env) (p # ps) b = fold (torn_down env) ps (dismantle p b)" by (simp add: down(1))
  ultimately show ?case using IH by metis
qed simp

text \<open>After a disconnect nothing is left but objects that are closed.\<close>

lemma disconnect_parts:
  assumes ok: "bridge_ok b"
  shows "peers_ok (disconnect env b)" "pb_connections (disconnect env b) = []" "pb_socket (disconnect env b) = None"
    "pb_room (disconnect env b) = None" "pb_retryTimer (disconnect env b) = None"
    "pb_retryDelayMs (disconnect env b) = pb_retryDelayMs b"
    "\<forall>k < length (pb_sockets (disconnect env b)). sk_state (pb_sockets (disconnect env b) ! k) = StateClosed"
proof -
  define b1 where "b1 = b\<lparr>pb_closingDeliberately := True, pb_room := None, pb_retryTimer := None,
      pb_wakeHooked := pb_wakeHooked b \<and> \<not> sr_window env, pb_detachOutbound := False\<rparr>"
  define b2 where "b2 = fold (torn_down env) (map fst (pb_connections b1)) b1"
  define ss where "ss = (case pb_socket b2 of None \<Rightarrow> pb_sockets b2
      | Some k \<Rightarrow> (pb_sockets b2)[k := (pb_sockets b2 ! k)\<lparr>sk_state := StateClosed\<rparr>])"
  have d: "disconnect env b = b2\<lparr>pb_sockets := ss, pb_socket := None\<rparr>"
    by (simp add: disconnect_def Let_def b1_def b2_def ss_def split: option.split)
  have "peer_part b1 = peer_part b" by (simp add: b1_def peer_part_def said_live_def)
  then have "peers_ok b1" using bridge_okD(2) [OF ok] peers_ok_cong by blast
  note f = fold_torn_down [OF this, of env "map fst (pb_connections b1)", folded b2_def]
  have b2: "peers_ok b2" "retry_part b2 = retry_part b1" using f by blast+
  have gone: "map_of (pb_connections b2) q = None" for q
  proof -
    have "q \<in> set (map fst (pb_connections b1)) \<or> map_of (pb_connections b1) q = None" by (simp add: map_of_eq_None_iff)
    then show ?thesis using f by blast
  qed
  have same: "pb_sockets b2 = pb_sockets b" "pb_socket b2 = pb_socket b" "pb_room b2 = None" "pb_retryTimer b2 = None"
    "pb_retryDelayMs b2 = pb_retryDelayMs b"
    using b2(2) by (simp_all add: b1_def retry_part_def)
  have "peer_part (disconnect env b) = peer_part b2" by (simp add: d peer_part_def said_live_def)
  then show "peers_ok (disconnect env b)" using b2(1) peers_ok_cong by blast
  show "pb_connections (disconnect env b) = []"
    using gone [of "fst (hd (pb_connections b2))"] by (cases "pb_connections b2") (simp_all add: d)
  show "pb_socket (disconnect env b) = None" "pb_room (disconnect env b) = None" "pb_retryTimer (disconnect env b) = None"
    "pb_retryDelayMs (disconnect env b) = pb_retryDelayMs b" by (simp_all add: d same)
  have D: "retry_ok b" using ok by (simp add: bridge_ok_def)
  show "\<forall>k < length (pb_sockets (disconnect env b)). sk_state (pb_sockets (disconnect env b) ! k) = StateClosed"
  proof (intro allI impI)
    fix k assume "k < length (pb_sockets (disconnect env b))"
    then have k: "k < length (pb_sockets b)" by (simp add: d ss_def same split: option.splits)
    show "sk_state (pb_sockets (disconnect env b) ! k) = StateClosed"
      using retry_okD(3) [OF D k] k
      by (cases "sk_state (pb_sockets b ! k) = StateClosed"; cases "pb_socket b = Some k")
        (auto simp: d ss_def same nth_list_update split: option.split)
  qed
qed

lemma disconnect_ok: "bridge_ok b \<Longrightarrow> bridge_ok (disconnect env b)"
proof -
  assume ok: "bridge_ok b"
  note parts = disconnect_parts [OF ok, of env]
  have "retry_ok (disconnect env b)"
    unfolding retry_ok_def parts(3-6) using retry_okD(7) [OF bridge_okD(1) [OF ok]] parts(7) by simp
  with parts(1) show ?thesis by (simp add: bridge_ok_def)
qed

lemma connect_ok:
  assumes ok: "bridge_ok b" and env: "0 \<le> sr_random env" "sr_random env < 1"
  shows "bridge_ok (connect env input b)"
proof -
  define c where "c = (disconnect env b)\<lparr>pb_room := Some input, pb_retryDelayMs := 0, pb_outageReported := False,
      pb_closingDeliberately := False, pb_detachOutbound := True\<rparr>"
  note parts = disconnect_parts [OF ok, of env]
  have "peer_part c = peer_part (disconnect env b)" by (simp add: c_def peer_part_def said_live_def)
  then have "peers_ok (connect env input b)"
    using parts(1) peers_ok_cong [of "connect env input b" "disconnect env b"] by (simp add: connect_def c_def)
  moreover have "retry_part (hookWakeEvents env c) = retry_part c" by (simp add: hookWakeEvents_def retry_part_def)
  then have "retry_ok (openSocket env (hookWakeEvents env c))"
    using parts openSocket_retry_ok [OF env, of "hookWakeEvents env c"] by (simp add: retry_part_def c_def)
  ultimately show ?thesis by (simp add: bridge_ok_def connect_def c_def)
qed

lemma sendSignal_ok: "sendSignal p payload b = Some c \<Longrightarrow> bridge_ok b \<Longrightarrow> bridge_ok c"
  using sendSignal_cases [of p payload b c] peers_ok_silent retry_ok_cong [of "report _ b" b]
  by (auto simp: bridge_ok_def hear_def)

lemma bridge_ok_parts: "bridge_ok b \<Longrightarrow> retry_part c = retry_part b \<Longrightarrow> peers_ok c \<Longrightarrow> bridge_ok c"
  using retry_ok_cong [of c b] by (simp add: bridge_ok_def)

lemma bridge_ok_peer_part: "bridge_ok b \<Longrightarrow> retry_ok c \<Longrightarrow> peer_part c = peer_part b \<Longrightarrow> bridge_ok c"
  using peers_ok_cong [of c b] by (simp add: bridge_ok_def)

lemma report_ok: "bridge_ok b \<Longrightarrow> \<forall>r \<in> set rs. \<forall>live. hear r live = live \<Longrightarrow> bridge_ok (report rs b)"
  by (rule bridge_ok_parts) (simp_all add: peers_ok_silent bridge_okD)

lemma torn_down_bridge: "bridge_ok b \<Longrightarrow> bridge_ok (torn_down env p b)"
  using torn_down_ok [OF bridge_okD(2), of b env p] bridge_ok_parts [of b "dismantle p b"] by simp

lemma connect_each_bridge: "bridge_ok b \<Longrightarrow> bridge_ok (connect_each ps b)"
  by (rule bridge_ok_parts) (simp_all add: connect_each_ok bridge_okD)

lemma mark_bridge: "bridge_ok b \<Longrightarrow> bridge_ok (mark_channel i st b)"
  by (rule bridge_ok_parts) (simp_all add: bridge_okD)

lemma openConnection_bridge: "bridge_ok b \<Longrightarrow> bridge_ok (snd (openConnection p initiator b))"
  by (rule bridge_ok_parts) (simp_all add: openConnection_ok bridge_okD)

lemma handleSignal_ok: "bridge_ok b \<Longrightarrow> bridge_ok (handleSignal env m b)"
proof (cases m)
  case (JoinedRoom r p ps)
  assume "bridge_ok b"
  then show ?thesis by (simp add: JoinedRoom connect_each_bridge report_ok hear_def)
next
  case (PeerJoined p)
  assume "bridge_ok b"
  then show ?thesis by (simp add: PeerJoined openConnection_bridge)
next
  case (PeerLeft p)
  assume "bridge_ok b"
  then show ?thesis by (simp add: PeerLeft torn_down_bridge)
next
  case (SignalFrom p payload)
  assume ok: "bridge_ok b"
  have "peer_part (applySignal p payload b) = peer_part b"
    by (auto simp: applySignal_def peer_part_report hear_def split: option.splits json.splits)
      (simp_all add: peer_part_def said_live_def report_def hear_def)
  then have "peers_ok (applySignal p payload b)" using bridge_okD(2) [OF ok] peers_ok_cong by blast
  with ok show ?thesis by (simp add: SignalFrom bridge_ok_parts [of b])
next
  case (SignalError t)
  assume "bridge_ok b"
  then show ?thesis by (simp add: SignalError report_ok hear_def)
qed

lemma bridge_step_ok:
  assumes ok: "bridge_ok b" and may: "may_happen e b" and env: "0 \<le> sr_random env" "sr_random env < 1"
  shows "bridge_ok (bridge_step env e b)"
proof (cases e)
  case (Connects input)
  then show ?thesis by (simp add: connect_ok ok env)
next
  case Disconnects
  then show ?thesis by (simp add: disconnect_ok ok)
next
  case (SocketOpens k)
  with may show ?thesis
    by (auto intro: bridge_ok_peer_part [OF ok] simp: socket_opens_retry_ok bridge_okD [OF ok])
next
  case (SocketSays k m)
  then show ?thesis by (simp add: handleSignal_ok ok)
next
  case (SocketFails k detail)
  then show ?thesis
    by (auto intro: bridge_ok_peer_part [OF ok] simp: socket_failed_retry_ok env bridge_okD [OF ok])
next
  case RetryFires
  with may show ?thesis
    using bridge_ok_peer_part [OF ok retry_fires_retry_ok [OF bridge_okD(1) [OF ok] _ env]] by simp
next
  case Wakes
  then show ?thesis by (auto intro: bridge_ok_peer_part [OF ok] simp: wake_retry_ok env bridge_okD [OF ok])
next
  case (FrameOut queued frame)
  then show ?thesis
    by (auto simp: forwardOutbound_def ok report_ok hear_def split: option.splits)
next
  case (UsesIceServers servers)
  then show ?thesis
    by (auto intro!: bridge_ok_parts [OF ok] peers_ok_cong [THEN iffD2, OF _ bridge_okD(2) [OF ok]]
        simp: useIceServers_def ok retry_part_def peer_part_def said_live_def)
next
  case (ChannelArrives i isBulk st)
  with may have "map_of (pb_connections b) (cn_peer (pb_conns b ! i)) \<noteq> None"
    using peers_okD(6) [OF bridge_okD(2) [OF ok]] by simp
  then show ?thesis using attach_keeps [OF bridge_okD(2) [OF ok]] bridge_ok_parts [OF ok] by (simp add: ChannelArrives)
next
  case (ChannelOpens i)
  have "peers_ok (maybeReady (dc_peer (pb_channels b ! i)) (mark_channel i StateOpen b))"
    using maybeReady_ok bridge_okD(2) [OF ok] by simp
  then show ?thesis by (simp add: ChannelOpens channel_opens_def bridge_ok_parts [OF ok])
next
  case (ChannelCloses i)
  then show ?thesis by (simp add: channel_closes_def torn_down_bridge mark_bridge ok)
next
  case (ChannelSays i data)
  then show ?thesis
    by (auto simp: channel_says_def Let_def ok report_ok hear_def split: bool.splits channel_data.splits)
next
  case (ChannelLow i n)
  then show ?thesis by (simp add: report_ok ok hear_def)
next
  case (ConnectionBecomes i st)
  then show ?thesis by (simp add: connection_becomes_def Let_def torn_down_bridge report_ok ok hear_def)
next
  case (CandidateFound i candidate)
  then show ?thesis
    by (auto simp: candidate_found_def ok split: option.split dest: sendSignal_ok [OF _ ok])
next
  case (JobEnds j result)
  let ?c = "b\<lparr>pb_jobs := take j (pb_jobs b) @ drop (Suc j) (pb_jobs b)\<rparr>"
  have c: "bridge_ok ?c"
    by (rule bridge_ok_parts [OF ok]) (simp_all add: retry_part_def bridge_okD [OF ok])
  show ?thesis
    by (auto simp: JobEnds job_ends_def c split: option.split bridge_job.split
        intro: connect_each_bridge dest: sendSignal_ok [OF _ c])
qed

lemma bridge_run_ok: "bridge_run b c \<Longrightarrow> bridge_ok b \<Longrightarrow> bridge_ok c"
  by (induction rule: bridge_run.induct) (simp_all add: bridge_step_ok)

section \<open>Properties\<close>

text \<open>
  C20: A device that wants to be in a room never gives up. After any run: it holds a socket that is connecting
  or open, or a retry is due between half a second and thirty seconds from when it was set, never both and,
  without a room, neither; no other socket is still open. When the socket in use fails, with \<open>error\<close> or
  \<open>close\<close> and at whatever stage, a retry is due, after twice the delay before, from one second up to
  thirty; and when it is due a new socket is opened, or, where the address is malformed, the next retry is due.\<close>

theorem bridge_keeps_trying:
  assumes "bridge_run (new_PeerBridge me servers) b" and "0 \<le> sr_random env" "sr_random env < 1"
  shows "(pb_room b \<noteq> None \<longleftrightarrow> pb_socket b \<noteq> None \<or> pb_retryTimer b \<noteq> None) \<and>
    (pb_socket b = None \<or> pb_retryTimer b = None) \<and>
    (\<forall>k < length (pb_sockets b). sk_state (pb_sockets b ! k) \<noteq> StateClosed \<longleftrightarrow> pb_socket b = Some k) \<and>
    (\<forall>w. pb_retryTimer b = Some w \<longrightarrow> 500 \<le> w \<and> w \<le> 30000) \<and>
    (\<forall>k detail. pb_socket b = Some k \<longrightarrow>
       (let c = socket_failed env k detail b
        in pb_socket c = None \<and> pb_retryTimer c \<noteq> None \<and>
           pb_retryDelayMs c = (if pb_retryDelayMs b = 0 then 1000 else min (pb_retryDelayMs b * 2) 30000))) \<and>
    (pb_retryTimer b \<noteq> None \<longrightarrow>
       (let c = retry_fires env b
        in if sr_throws env then pb_retryTimer c \<noteq> None
           else pb_socket c = Some (length (pb_sockets b)) \<and> pb_retryTimer c = None))"
proof -
  have ok: "retry_ok b" using bridge_run_ok [OF assms(1) new_bridge_ok] by (simp add: bridge_ok_def)
  note D = retry_okD [OF ok]
  have "pb_socket b = None \<or> pb_retryTimer b = None" using D(4) by (cases "pb_socket b") auto
  moreover have "\<forall>k < length (pb_sockets b). sk_state (pb_sockets b ! k) \<noteq> StateClosed \<longleftrightarrow> pb_socket b = Some k"
    using D(3,6) by blast
  moreover have "500 \<le> w \<and> w \<le> 30000" if "pb_retryTimer b = Some w" for w
    using D(7) D(8) [OF that] by (auto simp: FIRST_RETRY_MS_def MAX_RETRY_MS_def)
  moreover have "let c = socket_failed env k detail b
        in pb_socket c = None \<and> pb_retryTimer c \<noteq> None \<and>
           pb_retryDelayMs c = (if pb_retryDelayMs b = 0 then 1000 else min (pb_retryDelayMs b * 2) 30000)"
    if k: "pb_socket b = Some k" for k detail
  proof -
    have "pb_room b \<noteq> None" using D(1) k by blast
    moreover have "\<not> pb_closingDeliberately b" "pb_retryTimer b = None" using D(2,4) k calculation by blast+
    ultimately show ?thesis
      using k by (simp add: socket_failed_def scheduleRetry_def Let_def FIRST_RETRY_MS_def MAX_RETRY_MS_def)
  qed
  moreover have "let c = retry_fires env b
        in if sr_throws env then pb_retryTimer c \<noteq> None
           else pb_socket c = Some (length (pb_sockets b)) \<and> pb_retryTimer c = None" if "pb_retryTimer b \<noteq> None"
  proof -
    have "pb_room b \<noteq> None" using D(1) that by blast
    then show ?thesis by (auto simp: retry_fires_def openSocket_def scheduleRetry_def Let_def)
  qed
  ultimately show ?thesis using D(1) by blast
qed

text \<open>
  C21: Forgetting a peer ends, and is reported once. On any bridge at all \<open>teardown\<close> ends, also when every
  close fires its event before it returns and lands in \<open>teardown\<close> again. On a bridge that a run has reached,
  it does the same whether events fire at once or not: the peer is in no map and not ready any more, and it is
  reported closed to the host and the window exactly once if there was anything of it, and else not at all.\<close>

theorem teardown_ends:
  assumes "bridge_run (new_PeerBridge me servers) b"
  shows "(\<exists>t. teardown at_once q any_bridge = Some t) \<and>
    teardown True p b = teardown False p b \<and>
    (\<exists>t. teardown at_once p b = Some t \<and>
      map_of (pb_control t) p = None \<and> map_of (pb_bulk t) p = None \<and> map_of (pb_connections t) p = None \<and>
      p \<notin> set (pb_ready t) \<and>
      pb_reports t = pb_reports b @ (if map_of (pb_connections b) p = None then [] else [HostClosed p, OnClosed p]))"
proof -
  have ok: "peers_ok b" using bridge_run_ok [OF assms new_bridge_ok] by (simp add: bridge_ok_def)
  have "pb_reports (dismantle p b) = pb_reports b @ (if map_of (pb_connections b) p = None then [] else [HostClosed p, OnClosed p])"
    using peers_okD(4) [OF ok, of p] by (auto simp: dismantle_def report_def forget_peer_def)
  moreover have "p \<notin> set (pb_ready (dismantle p b))" by (simp add: dismantle_ready [OF ok])
  moreover have "teardown at_once p b = Some (dismantle p b)" for at_once
    using teardown_dismantles ok by (simp add: peers_ok_def)
  ultimately show ?thesis using teardown_total [of at_once q any_bridge] by auto
qed

text \<open>What the process that runs the sessions does with the bridge's reports: \<open>peer:open\<close> and \<open>peer:closed\<close>.\<close>

definition host_hears :: "bridge_report \<Rightarrow> 'f VaultServices \<Rightarrow> 'f VaultServices" where
  "host_hears r s = (case r of HostOpen p \<Rightarrow> snd (peerOpened p s) | HostClosed p \<Rightarrow> snd (peerGone p s) | _ \<Rightarrow> s)"

lemma host_hears_live: "fst ` set (sv_livePeers (host_hears r s)) = hear r (fst ` set (sv_livePeers s))"
proof -
  have keys: "map_of al k = None \<longleftrightarrow> k \<notin> fst ` set al" for al :: "(PeerId \<times> DeviceId option) list" and k
    by (simp add: map_of_eq_None_iff)
  show ?thesis
    by (cases r) (auto simp: host_hears_def hear_def peerOpened_def peerGone_def act_then_def act_bind_def act_modify_def
        call_out_def keys dom_update delete_keys [symmetric] dest!: map_of_SomeD split: if_splits)
qed

text \<open>
  C22: The devices shown as online are those with open channels. The services that are told of a bridge's
  peers over the whole of any run hold exactly those peers to be live that the bridge holds ready, and each of
  these has both channels and a connection that is not closed.\<close>

theorem live_peers_are_ready:
  assumes "bridge_run (new_PeerBridge me servers) b" and "sv_livePeers s = []"
  shows "fst ` set (sv_livePeers (fold host_hears (pb_reports b) s)) = set (pb_ready b) \<and>
    (\<forall>p \<in> set (pb_ready b). map_of (pb_control b) p \<noteq> None \<and> map_of (pb_bulk b) p \<noteq> None \<and>
       (\<exists>i. map_of (pb_connections b) p = Some i \<and> \<not> cn_closed (pb_conns b ! i)))"
proof -
  have ok: "peers_ok b" using bridge_run_ok [OF assms(1) new_bridge_ok] by (simp add: bridge_ok_def)
  note D = peers_okD [OF ok]
  have "fst ` set (sv_livePeers (fold host_hears rs s)) = fold hear rs (fst ` set (sv_livePeers s))" for rs and s :: "'a VaultServices"
    by (induction rs arbitrary: s) (simp_all add: host_hears_live)
  then have "fst ` set (sv_livePeers (fold host_hears (pb_reports b) s)) = set (pb_ready b)"
    using D(8) assms(2) by (simp add: said_live_def)
  moreover have "\<exists>i. map_of (pb_connections b) p = Some i \<and> \<not> cn_closed (pb_conns b ! i)" if "p \<in> set (pb_ready b)" for p
    using D(7) [OF that] D(4) [of p] D(5) [of p] by (cases "map_of (pb_connections b) p") auto
  ultimately show ?thesis using D(7) by blast
qed

section \<open>Concrete runs\<close>

definition calm :: Surroundings where
  "calm = \<lparr>sr_throws = False, sr_random = 0, sr_window = True, sr_hidden = False, sr_fires_at_once = True,
     sr_host = (\<lambda>_. Some ''host'')\<rparr>"

fun play :: "bridge_event list \<Rightarrow> PeerBridge \<Rightarrow> PeerBridge option" where
  "play [] b = Some b"
| "play (e # es) b = (if may_happen e b then play es (bridge_step calm e b) else None)"

lemma play_run: "bridge_run a b \<Longrightarrow> play es b = Some c \<Longrightarrow> bridge_run a c"
proof (induction es arbitrary: b)
  case (Cons e es)
  then have "may_happen e b" "play es (bridge_step calm e b) = Some c" by (auto split: if_splits)
  moreover from this(1) Cons.prems(1) have "bridge_run a (bridge_step calm e b)"
    by (intro bridge_run.step) (simp_all add: calm_def)
  ultimately show ?case using Cons.IH by blast
qed simp

definition sample_place :: Rendezvous where
  "sample_place = \<lparr>rv_roomId = ''r'', rv_inviteToken = ''t'', rv_signalUrl = ''ws://h/signal''\<rparr>"

text \<open>Two devices meet and their channels open; then the signaling server goes away.\<close>

definition meeting :: "bridge_event list" where
  "meeting = [Connects sample_place, SocketOpens 0, SocketSays 0 (JoinedRoom ''r'' ''me'' [''p'']),
     JobEnds 0 (Some JNull), ChannelOpens 0, ChannelOpens 1, SocketFails 0 []]"

definition met :: PeerBridge where
  "met = the (play meeting (new_PeerBridge ''me'' []))"

lemma met_run: "bridge_run (new_PeerBridge ''me'' []) met"
proof -
  have "play meeting (new_PeerBridge ''me'' []) \<noteq> None" by code_simp
  then have "play meeting (new_PeerBridge ''me'' []) = Some met" by (simp add: met_def)
  then show ?thesis using play_run [OF bridge_run.still] by blast
qed

theorem bridge_keeps_trying_witness:
  "pb_retryTimer met = Some 500 \<and> pb_socket (retry_fires calm met) = Some 1"
proof -
  have timer: "pb_retryTimer met = Some 500" and one: "length (pb_sockets met) = 1" by code_simp+
  from bridge_keeps_trying [OF met_run, of calm] timer
  have "pb_socket (retry_fires calm met) = Some (length (pb_sockets met))" by (simp add: calm_def Let_def)
  with timer one show ?thesis by simp
qed

theorem teardown_ends_witness:
  "\<exists>t. teardown True ''p'' met = Some t \<and> pb_ready met = [''p''] \<and> ''p'' \<notin> set (pb_ready t) \<and>
    pb_reports t = pb_reports met @ [HostClosed ''p'', OnClosed ''p'']"
proof -
  have "map_of (pb_connections met) ''p'' \<noteq> None" and ready: "pb_ready met = [''p'']" by code_simp+
  with teardown_ends [OF met_run, of True "''p''" met "''p''"] show ?thesis by auto
qed

theorem live_peers_are_ready_witness:
  "\<forall>s :: unit VaultServices.
     fst ` set (sv_livePeers (fold host_hears (pb_reports met) (s\<lparr>sv_livePeers := []\<rparr>))) = {''p''}"
proof
  fix s :: "unit VaultServices"
  have "pb_ready met = [''p'']" by code_simp
  with live_peers_are_ready [OF met_run, of "s\<lparr>sv_livePeers := []\<rparr>"]
  show "fst ` set (sv_livePeers (fold host_hears (pb_reports met) (s\<lparr>sv_livePeers := []\<rparr>))) = {''p''}" by simp
qed

text \<open>
  A candidate found while the socket is reconnecting is lost: \<open>send\<close> throws, and nobody sends it later.
\<close>

lemma candidate_lost_while_reconnecting:
  "\<exists>b. play (meeting @ [RetryFires]) (new_PeerBridge ''me'' []) = Some b \<and>
     sk_state (pb_sockets b ! the (pb_socket b)) = StateConnecting \<and> candidate_found ''p'' JNull b = b"
proof -
  have "play (meeting @ [RetryFires]) (new_PeerBridge ''me'' []) \<noteq> None" by code_simp
  then obtain b where b: "play (meeting @ [RetryFires]) (new_PeerBridge ''me'' []) = Some b" by auto
  have "map_option (\<lambda>b. sk_state (pb_sockets b ! the (pb_socket b)) = StateConnecting \<and> pb_socket b \<noteq> None)
      (play (meeting @ [RetryFires]) (new_PeerBridge ''me'' [])) = Some True" by code_simp
  with b have "sk_state (pb_sockets b ! the (pb_socket b)) = StateConnecting \<and> pb_socket b \<noteq> None" by simp
  with b show ?thesis by (auto simp: candidate_found_def sendSignal_def)
qed

text \<open>
  The loop over the peers of a room waits for each offer in turn. A peer that leaves while its offer is made
  takes its connection with it, the awaited offer does not come, and the peers after it are never connected.
\<close>

lemma leaving_peer_strands_the_rest:
  "map_option (\<lambda>b. (map_of (pb_connections b) ''q'', length (pb_jobs b), may_happen (JobEnds 0 (Some d)) b,
       map_of (pb_connections (bridge_step calm (JobEnds 0 None) b)) ''q''))
     (play [Connects sample_place, SocketOpens 0, SocketSays 0 (JoinedRoom ''r'' ''me'' [''p'', ''q'']),
        SocketSays 0 (PeerLeft ''p'')] (new_PeerBridge ''me'' [])) = Some (None, 1, False, None)"
  by code_simp

text \<open>
  Listeners are bound to the name of the peer: the late close event of a channel that was torn down takes
  down the connection that has been opened with the same peer since.
\<close>

lemma late_close_event_hits_the_new_connection:
  "map_option (\<lambda>b. (length (pb_conns b), map_of (pb_connections b) ''p''))
     (play [Connects sample_place, SocketOpens 0, SocketSays 0 (JoinedRoom ''r'' ''me'' [''p'']),
        SocketSays 0 (PeerLeft ''p''), SocketSays 0 (PeerJoined ''p''), ChannelCloses 0] (new_PeerBridge ''me'' [])) =
   Some (2, None)"
  by code_simp

end
