(* ===== verification/Mobile_Storage.thy ===== *)
theory Mobile_Storage
  imports Blob_Files Device_Identity
begin

text \<open>
  What the phone keeps: its files and blobs (apps/mobile/src/platform/appStorage.ts) and the database that
  lives in memory and is written out whole (apps/mobile/src/platform/sqlite.ts).

  Files are those of \<open>Blob_Files\<close>, with the same tape of outcomes. The file plugin takes and gives base64
  text and keeps the bytes it stands for. SQLite in the WebView (sql.js) is a parameter: a database of
  any type, what a statement makes of it, and its \<open>export\<close>, which by its documentation closes and
  reopens the database, so that prepared statements are dead and pragmas are back to their defaults.
\<close>

section \<open>Files of the app\<close>

text \<open>The loop of \<open>toBase64\<close>, \<open>step\<close> bytes at a time.\<close>

function binary_string :: "nat \<Rightarrow> bytes \<Rightarrow> nat list" where
  "binary_string step bs =
     (if step = 0 \<or> bs = [] then [] else map unat (take step bs) @ binary_string step (drop step bs))"
  by pat_completeness auto

termination by (relation "measure (\<lambda>(step, bs). length bs)") auto

declare binary_string.simps [simp del]

definition app_toBase64 :: "bytes \<Rightarrow> string" where
  "app_toBase64 bs = btoa (binary_string 32768 bs)"

lemma binary_string_all: "0 < step \<Longrightarrow> binary_string step bs = map unat bs"
proof (induction step bs rule: binary_string.induct)
  case (1 step bs)
  then show ?case
    by (subst binary_string.simps) (auto simp flip: map_append)
qed

lemma app_toBase64_eq: "app_toBase64 bs = toBase64 bs"
  by (simp add: app_toBase64_def toBase64_def binary_string_all)

text \<open>What the plugin keeps of the text it is given, and gives back as text.\<close>

definition plugin_keeps :: "string \<Rightarrow> bytes" where
  "plugin_keeps text = (case fromBase64 text of None \<Rightarrow> [] | Some bs \<Rightarrow> bs)"

definition readAppFile :: "path \<Rightarrow> disk \<Rightarrow> bytes option" where
  "readAppFile p d =
     (case map_of (dk_files d) p of None \<Rightarrow> None | Some content \<Rightarrow> fromBase64 (toBase64 content))"

definition part_path :: "path \<Rightarrow> path" where
  "part_path p = butlast p @ [last p @ ''.part'']"

text \<open>
  The calls of a write, and the error it throws. The plugin removes the target before it renames; that the
  target is not there yet is not an error.
\<close>

definition app_write_calls :: "io_outcome \<Rightarrow> path \<Rightarrow> bytes \<Rightarrow> disk_call list \<times> js_error option" where
  "app_write_calls outcome p bs =
     (let temporary = part_path p; data = plugin_keeps (app_toBase64 bs)
      in case outcome of
           OpenFails \<Rightarrow> ([], Some (ThrownError ''write failed''))
         | WriteFails n \<Rightarrow> ([OpenTemp temporary, WriteTo temporary (take n data)], Some (ThrownError ''write failed''))
         | RenameFails \<Rightarrow>
             ([OpenTemp temporary, WriteTo temporary data, RemoveFile p], Some (ThrownError ''rename failed''))
         | IoOk \<Rightarrow> ([OpenTemp temporary, WriteTo temporary data, RemoveFile p, RenameTo temporary p], None))"

definition writeAppFileAtomic :: "path \<Rightarrow> bytes \<Rightarrow> (disk, unit) action" where
  "writeAppFileAtomic p bs d =
     (let (calls, error) = app_write_calls (snd (next_io d)) p bs
      in (case error of None \<Rightarrow> Inr () | Some e \<Rightarrow> Inl e,
          d\<lparr>dk_files := fold do_call calls (dk_files d), dk_tape := tl (dk_tape d)\<rparr>))"

lemma plugin_keeps_bytes [simp]: "plugin_keeps (app_toBase64 bs) = bs"
  by (simp add: plugin_keeps_def app_toBase64_eq fromBase64_toBase64)

lemma readAppFile_eq: "readAppFile p d = map_of (dk_files d) p"
  by (simp add: readAppFile_def fromBase64_toBase64 split: option.split)

lemma part_path_other [simp]: "part_path p \<noteq> p" "p \<noteq> part_path p"
proof -
  have "length (last (part_path p)) = length (last p) + 5" by (simp add: part_path_def)
  then show "part_path p \<noteq> p" "p \<noteq> part_path p" by (metis add_cancel_left_right zero_neq_numeral)+
qed

lemma part_calls:
  "map_of (fold do_call [OpenTemp (part_path p), WriteTo (part_path p) data, RemoveFile p] fs) q =
     (if q = part_path p then Some data else if q = p then None else map_of fs q)"
  "map_of (fold do_call [OpenTemp (part_path p), WriteTo (part_path p) data, RemoveFile p, RenameTo (part_path p) p] fs) q =
     (if q = p then Some data else if q = part_path p then None else map_of fs q)"
  by (simp_all add: update_conv' delete_conv')

lemma app_write_moment:
  assumes "m \<in> set (moments (fst (app_write_calls outcome p bs)) fs)"
  shows "map_of m p \<in> {map_of fs p, None, Some bs}" and "q \<noteq> p \<Longrightarrow> q \<noteq> part_path p \<Longrightarrow> map_of m q = map_of fs q"
proof -
  let ?wr = "[OpenTemp (part_path p), WriteTo (part_path p) bs]"
  consider content where "m \<in> set (moments [OpenTemp (part_path p), WriteTo (part_path p) content] fs)"
    | "m = fold do_call (?wr @ [RemoveFile p]) fs"
    | "m = fold do_call ((?wr @ [RemoveFile p]) @ [RenameTo (part_path p) p]) fs"
  proof (cases outcome)
    case OpenFails
    then show ?thesis using assms that(1) by (simp add: app_write_calls_def)
  next
    case (WriteFails n)
    then show ?thesis using that(1) assms by (simp only: app_write_calls_def Let_def io_outcome.case fst_conv)
  next
    case RenameFails
    with assms have "m \<in> set (moments (?wr @ [RemoveFile p]) fs)"
      by (simp only: app_write_calls_def Let_def io_outcome.case fst_conv append.simps plugin_keeps_bytes)
    from last_call [OF this] show ?thesis using that(1,2) by (auto simp only: inside_call.simps)
  next
    case IoOk
    with assms have "m \<in> set (moments ((?wr @ [RemoveFile p]) @ [RenameTo (part_path p) p]) fs)"
      by (simp only: app_write_calls_def Let_def io_outcome.case fst_conv append.simps plugin_keeps_bytes)
    from last_call [OF this] have "m \<in> set (moments (?wr @ [RemoveFile p]) fs) \<or>
        m = fold do_call ((?wr @ [RemoveFile p]) @ [RenameTo (part_path p) p]) fs" by (simp only: inside_call.simps)
    then show ?thesis using that last_call [of m ?wr "RemoveFile p" fs] by (auto simp only: inside_call.simps)
  qed
  then have "map_of m p \<in> {map_of fs p, None, Some bs} \<and> (\<forall>q. q \<noteq> p \<longrightarrow> q \<noteq> part_path p \<longrightarrow> map_of m q = map_of fs q)"
  proof cases
    case (1 content)
    show ?thesis using temp_moment_other [OF 1] by simp
  qed (simp_all only: append.simps part_calls part_path_other if_False if_True simp_thms insert_iff, simp_all)
  then show "map_of m p \<in> {map_of fs p, None, Some bs}" and "q \<noteq> p \<Longrightarrow> q \<noteq> part_path p \<Longrightarrow> map_of m q = map_of fs q"
    by blast+
qed

section \<open>Blobs of the app\<close>

definition app_sizeOf :: "Sha256Hex \<Rightarrow> disk \<Rightarrow> nat option" where
  "app_sizeOf hash d = map_option length (map_of (dk_files d) (blob_path hash))"

definition app_has :: "Sha256Hex \<Rightarrow> disk \<Rightarrow> bool" where
  "app_has hash d = (app_sizeOf hash d \<noteq> None)"

definition app_put :: "(bytes \<Rightarrow> string) \<Rightarrow> bytes \<Rightarrow> (disk, Sha256Hex) action" where
  "app_put sha256 bs =
     act_bind (act_lift (asSha256Hex (sha256 bs))) (\<lambda>hash d.
       if app_has hash d then (Inr hash, d)
       else act_bind (writeAppFileAtomic (blob_path hash) bs) (\<lambda>_. act_return hash) d)"

definition app_get :: "Sha256Hex \<Rightarrow> disk \<Rightarrow> bytes result" where
  "app_get hash d =
     (case readAppFile (blob_path hash) d of
        None \<Rightarrow> Inl (ThrownError (''no stored bytes for '' @ hash))
      | Some bs \<Rightarrow> Inr bs)"

definition app_delete :: "Sha256Hex \<Rightarrow> (disk, unit) action" where
  "app_delete hash d = (Inr (), d\<lparr>dk_files := AList.delete (blob_path hash) (dk_files d)\<rparr>)"

definition AppBlobStore :: "(bytes \<Rightarrow> string) \<Rightarrow> disk BlobStore" where
  "AppBlobStore sha256 =
     \<lparr>bl_has = app_has, bl_put = app_put sha256, bl_get = app_get, bl_sizeOf = app_sizeOf, bl_delete = app_delete\<rparr>"

lemma blob_part_path [simp]: "blob_path h \<noteq> part_path (blob_path k)" "part_path (blob_path k) \<noteq> blob_path h"
proof -
  have "last (last (part_path (blob_path k))) \<noteq> last (last (blob_path h))"
    by (simp add: part_path_def blob_path_def)
  then show "blob_path h \<noteq> part_path (blob_path k)" "part_path (blob_path k) \<noteq> blob_path h" by metis+
qed

lemma app_has_iff: "app_has h d \<longleftrightarrow> map_of (dk_files d) (blob_path h) \<noteq> None"
  by (simp add: app_has_def app_sizeOf_def)

lemma app_get_iff: "app_get h d = Inr c \<longleftrightarrow> map_of (dk_files d) (blob_path h) = Some c"
  by (auto simp: app_get_def readAppFile_eq split: option.splits)

text \<open>A \<open>put\<close> leaves every blob as it was but the one it writes, which is absent as before or complete.\<close>

lemma app_put_blobs:
  assumes "app_put sha256 bs d = (r, t)"
  shows "map_of (dk_files t) (blob_path k) = map_of (dk_files d) (blob_path k) \<or>
      k = sha256 bs \<and> map_of (dk_files d) (blob_path k) = None \<and> map_of (dk_files t) (blob_path k) = Some bs"
    and "r = Inr h \<Longrightarrow> h = sha256 bs \<and> map_of (dk_files t) (blob_path h) \<noteq> None"
proof -
  consider e where "asSha256Hex (sha256 bs) = Inl e" | "asSha256Hex (sha256 bs) = Inr (sha256 bs)"
    by (cases "is_hex64 (sha256 bs)") (auto simp: asSha256Hex_def)
  then have "(map_of (dk_files t) (blob_path k) = map_of (dk_files d) (blob_path k) \<or>
      k = sha256 bs \<and> map_of (dk_files d) (blob_path k) = None \<and> map_of (dk_files t) (blob_path k) = Some bs) \<and>
      (r = Inr h \<longrightarrow> h = sha256 bs \<and> map_of (dk_files t) (blob_path h) \<noteq> None)"
    using assms
    by cases (auto simp: app_put_def act_bind_simp app_has_iff writeAppFileAtomic_def app_write_calls_def Let_def
        update_conv' delete_conv' split: if_splits prod.splits io_outcome.splits)
  then show "map_of (dk_files t) (blob_path k) = map_of (dk_files d) (blob_path k) \<or>
      k = sha256 bs \<and> map_of (dk_files d) (blob_path k) = None \<and> map_of (dk_files t) (blob_path k) = Some bs"
    and "r = Inr h \<Longrightarrow> h = sha256 bs \<and> map_of (dk_files t) (blob_path h) \<noteq> None" by blast+
qed

text \<open>The phone's store keeps the contract the engine relies on.\<close>

interpretation app_store: blob_store "AppBlobStore sha256" sha256 "\<lambda>d. blobs_ok sha256 (dk_files d)"
  for sha256 :: "bytes \<Rightarrow> string"
proof
  fix s t :: disk and bs r
  assume inv: "blobs_ok sha256 (dk_files s)" and put: "bl_put (AppBlobStore sha256) bs s = (r, t)"
  show "blobs_ok sha256 (dk_files t)"
    unfolding blobs_ok_def
  proof (intro allI impI)
    fix h c assume "map_of (dk_files t) (blob_path h) = Some c"
    then show "sha256 c = h"
      using inv put app_put_blobs(1) [of sha256 bs s r t h] by (auto simp: AppBlobStore_def blobs_ok_def)
  qed
next
  fix s t :: disk and bs h
  assume "bl_put (AppBlobStore sha256) bs s = (Inr h, t)"
  then show "h = sha256 bs \<and> bl_has (AppBlobStore sha256) h t"
    using app_put_blobs(2) [of sha256 bs s "Inr h" t h] by (auto simp: AppBlobStore_def app_has_iff)
next
  fix s t :: disk and bs r k
  assume "bl_put (AppBlobStore sha256) bs s = (r, t)" "bl_has (AppBlobStore sha256) k s"
  then show "bl_has (AppBlobStore sha256) k t \<and> bl_get (AppBlobStore sha256) k t = bl_get (AppBlobStore sha256) k s"
    using app_put_blobs(1) [of sha256 bs s r t k]
    by (auto simp: AppBlobStore_def app_has_iff app_get_def readAppFile_eq)
next
  fix k s
  show "bl_has (AppBlobStore sha256) k s \<longleftrightarrow> (\<exists>c. bl_get (AppBlobStore sha256) k s = Inr c)"
    by (simp add: AppBlobStore_def app_has_iff app_get_iff)
next
  fix s :: disk and k c
  assume "blobs_ok sha256 (dk_files s)" "bl_get (AppBlobStore sha256) k s = Inr c"
  then show "sha256 c = k" by (simp add: AppBlobStore_def app_get_iff blobs_ok_def)
qed

section \<open>The database in memory\<close>

definition FLUSH_DEBOUNCE_MS :: nat where "FLUSH_DEBOUNCE_MS = 150"

text \<open>
  \<open>ws_queue\<close> are the writes that are chained on \<open>writing\<close> and have not ended; \<open>ws_broken\<close> is that this
  promise was rejected, so that whatever is chained on it is never run. A prepared statement belongs to the
  generation of the database it was prepared on.
\<close>

record 'd WebSqlite =
  ws_db :: 'd
  ws_generation :: nat
  ws_cache :: "(string \<times> nat) list"
  ws_foreignKeys :: bool
  ws_dirty :: bool
  ws_timer :: bool
  ws_queue :: "bytes list"
  ws_broken :: bool
  ws_file :: "bytes option"

definition openWebSqlite :: "'d \<Rightarrow> (bytes \<Rightarrow> 'd) \<Rightarrow> bytes option \<Rightarrow> 'd WebSqlite" where
  "openWebSqlite blank load existing =
     \<lparr>ws_db = (case existing of None \<Rightarrow> blank | Some bs \<Rightarrow> load bs), ws_generation = 0, ws_cache = [],
      ws_foreignKeys = True, ws_dirty = False, ws_timer = False, ws_queue = [], ws_broken = False,
      ws_file = existing\<rparr>"

text \<open>The statement that is used: the one that is held, or one prepared now.\<close>

definition statementFor :: "string \<Rightarrow> 'd WebSqlite \<Rightarrow> nat \<times> 'd WebSqlite" where
  "statementFor sql s =
     (case map_of (ws_cache s) sql of
        Some held \<Rightarrow> (held, s)
      | None \<Rightarrow> (ws_generation s, s\<lparr>ws_cache := AList.update sql (ws_generation s) (ws_cache s)\<rparr>))"

definition flush :: "('d \<Rightarrow> bytes) \<Rightarrow> 'd WebSqlite \<Rightarrow> 'd WebSqlite" where
  "flush exporting s =
     (let s = s\<lparr>ws_timer := False\<rparr>
      in if \<not> ws_dirty s then s
         else s\<lparr>ws_dirty := False, ws_generation := Suc (ws_generation s), ws_foreignKeys := False, ws_cache := [],
                ws_queue := if ws_broken s then ws_queue s else ws_queue s @ [exporting (ws_db s)]\<rparr>)"

text \<open>\<open>/^\s*(commit|rollback)/iu\<close>.\<close>

definition ends_transaction :: "string \<Rightarrow> bool" where
  "ends_transaction sql =
     (let s = js_toLowerCase (dropWhile is_js_space sql)
      in take 6 s = ''commit'' \<or> take 8 s = ''rollback'')"

definition touched :: "('d \<Rightarrow> bytes) \<Rightarrow> string \<Rightarrow> 'd WebSqlite \<Rightarrow> 'd WebSqlite" where
  "touched exporting sql s =
     (let s = s\<lparr>ws_dirty := True\<rparr>
      in if ends_transaction sql then flush exporting s
         else if ws_timer s then s else s\<lparr>ws_timer := True\<rparr>)"

text \<open>\<open>get\<close> and \<open>all\<close> use a statement; \<open>run\<close> uses one, \<open>exec\<close> none, and both change the database by \<open>f\<close>.\<close>

datatype 'd sql_event =
    Queries string | Runs string "'d \<Rightarrow> 'd" | Execs string "'d \<Rightarrow> 'd" | FlushTimer | FlushNow | WriteEnds bool

fun sql_step :: "('d \<Rightarrow> bytes) \<Rightarrow> 'd sql_event \<Rightarrow> 'd WebSqlite \<Rightarrow> 'd WebSqlite" where
  "sql_step exporting (Queries sql) s = snd (statementFor sql s)"
| "sql_step exporting (Runs sql f) s =
     (let s = snd (statementFor sql s) in touched exporting sql (s\<lparr>ws_db := f (ws_db s)\<rparr>))"
| "sql_step exporting (Execs sql f) s = touched exporting sql (s\<lparr>ws_db := f (ws_db s)\<rparr>)"
| "sql_step exporting FlushTimer s = (if ws_timer s then flush exporting s else s)"
| "sql_step exporting FlushNow s = flush exporting s"
| "sql_step exporting (WriteEnds ok) s =
     (case ws_queue s of
        [] \<Rightarrow> s
      | bs # rest \<Rightarrow>
          if ok then s\<lparr>ws_file := Some bs, ws_queue := rest\<rparr> else s\<lparr>ws_broken := True, ws_queue := []\<rparr>)"

section \<open>What holds of it\<close>

text \<open>What the file will hold when the writes that are under way have ended.\<close>

definition saved :: "'d WebSqlite \<Rightarrow> bytes option" where
  "saved s = (if ws_queue s = [] then ws_file s else Some (last (ws_queue s)))"

definition sql_ok :: "('d \<Rightarrow> bytes) \<Rightarrow> 'd \<Rightarrow> bytes option \<Rightarrow> 'd WebSqlite \<Rightarrow> bool" where
  "sql_ok exporting opened existing s \<longleftrightarrow>
     (ws_dirty s \<longrightarrow> ws_timer s) \<and>
     (\<not> ws_dirty s \<longrightarrow> \<not> ws_broken s \<longrightarrow>
        saved s = Some (exporting (ws_db s)) \<or> ws_db s = opened \<and> saved s = existing) \<and>
     (\<forall>(sql, g) \<in> set (ws_cache s). g = ws_generation s) \<and>
     (ws_foreignKeys s \<longleftrightarrow> ws_generation s = 0)"

lemma sql_ok_open: "sql_ok exporting (ws_db (openWebSqlite blank load existing)) existing (openWebSqlite blank load existing)"
  by (simp add: sql_ok_def openWebSqlite_def saved_def)

lemma cache_update: "x \<in> set (AList.update k v al) \<Longrightarrow> x = (k, v) \<or> x \<in> set al"
  by (induction al) (auto split: if_splits)

lemma sql_ok_statement: "sql_ok exporting opened existing s \<Longrightarrow> sql_ok exporting opened existing (snd (statementFor sql s))"
  by (auto simp: statementFor_def sql_ok_def saved_def dest!: cache_update split: option.splits)

lemma sql_ok_flush:
  assumes "sql_ok exporting opened existing s \<or> ws_dirty s \<and> (\<forall>(sql, g) \<in> set (ws_cache s). g = ws_generation s)"
  shows "sql_ok exporting opened existing (flush exporting s)"
  using assms by (auto simp: flush_def Let_def sql_ok_def saved_def)

lemma sql_ok_touched:
  assumes "sql_ok exporting opened existing s"
  shows "sql_ok exporting opened existing (touched exporting sql (s\<lparr>ws_db := d\<rparr>))"
proof (cases "ends_transaction sql")
  case True
  have "sql_ok exporting opened existing (flush exporting (s\<lparr>ws_db := d, ws_dirty := True\<rparr>))"
    by (rule sql_ok_flush) (use assms in \<open>simp add: sql_ok_def\<close>)
  then show ?thesis by (simp add: touched_def True)
next
  case False
  then show ?thesis using assms by (cases "ws_timer s") (simp_all add: touched_def Let_def sql_ok_def saved_def)
qed

lemma sql_ok_step: "sql_ok exporting opened existing s \<Longrightarrow> sql_ok exporting opened existing (sql_step exporting e s)"
proof (cases e)
  case (WriteEnds ok)
  assume "sql_ok exporting opened existing s"
  with WriteEnds show ?thesis by (cases "ws_queue s") (auto simp: sql_ok_def saved_def split: if_splits)
qed (simp_all add: sql_ok_statement sql_ok_touched sql_ok_flush Let_def)

lemma sql_ok_run: "sql_ok exporting opened existing s \<Longrightarrow> sql_ok exporting opened existing (fold (sql_step exporting) es s)"
  by (induction es arbitrary: s) (simp_all add: sql_ok_step)

section \<open>Properties\<close>

text \<open>
  C25: The phone's database is on the file when nothing is left to do. After any queries, changes, timers,
  flushes and ends of writes: as long as no write has failed, when no timer runs and no write is under way the
  file holds what the database exports now, or nothing has changed since it was opened; a statement that ends
  a transaction has its write under way at once; and a statement that is held was prepared on the database
  as it is now, never on one an export has closed.\<close>

theorem database_reaches_the_file:
  fixes s :: "'d WebSqlite"
  assumes "s = fold (sql_step exporting) es (openWebSqlite blank load existing)"
  shows "(\<not> ws_timer s \<longrightarrow> ws_queue s = [] \<longrightarrow> \<not> ws_broken s \<longrightarrow>
      ws_file s = Some (exporting (ws_db s)) \<or>
      ws_db s = ws_db (openWebSqlite blank load existing) \<and> ws_file s = existing) \<and>
    (\<not> ws_broken s \<longrightarrow> ends_transaction sql \<longrightarrow>
      (let t = sql_step exporting (Runs sql f) s
       in ws_queue t = ws_queue s @ [exporting (ws_db t)] \<and> \<not> ws_timer t)) \<and>
    fst (statementFor sql s) = ws_generation s"
proof -
  let ?o = "openWebSqlite blank load existing"
  have ok: "sql_ok exporting (ws_db ?o) existing s"
    using sql_ok_run [OF sql_ok_open, where exporting = exporting and es = es] assms by simp
  then have "fst (statementFor sql s) = ws_generation s"
    by (auto simp: statementFor_def sql_ok_def dest!: map_of_SomeD split: option.splits)
  moreover have "\<not> ws_broken s \<longrightarrow> ends_transaction sql \<longrightarrow>
      (let t = sql_step exporting (Runs sql f) s
       in ws_queue t = ws_queue s @ [exporting (ws_db t)] \<and> \<not> ws_timer t)"
    by (simp add: statementFor_def touched_def flush_def Let_def split: option.splits)
  ultimately show ?thesis using ok by (auto simp: sql_ok_def saved_def)
qed

text \<open>A vault is stored in a transaction, and the write of its commit ends.\<close>

definition sample_statements :: "nat list sql_event list" where
  "sample_statements = [Execs ''BEGIN IMMEDIATE'' id, Runs ''INSERT'' (\<lambda>d. 1 # d), Execs ''COMMIT'' id, WriteEnds True]"

theorem database_reaches_the_file_witness:
  "ws_file (fold (sql_step (map word_of_nat)) sample_statements (openWebSqlite [] (map unat) None)) = Some [1]"
proof -
  let ?s = "fold (sql_step (map word_of_nat)) sample_statements (openWebSqlite [] (map unat) None)"
  have "\<not> ws_timer ?s \<and> ws_queue ?s = [] \<and> \<not> ws_broken ?s \<and> ws_db ?s = [1]" by code_simp
  moreover have "ws_db (openWebSqlite [] (map unat) None) = []" by (simp add: openWebSqlite_def)
  ultimately show ?thesis
    using database_reaches_the_file [OF refl, of "map word_of_nat" sample_statements "[]" "map unat" None] by simp
qed

text \<open>
  What the comments do not say. One failed write is the end of saving: the later ones are chained on a
  promise that was rejected. After the first flush foreign keys are off, since nothing turns them on again.
  And \<open>writeAppFileAtomic\<close> is not atomic where the file exists: there is a moment at which there is none,
  and a phone that stops there opens an empty database.
\<close>

lemma failed_write_stops_saving:
  "ws_broken s \<Longrightarrow> ws_queue s = [] \<Longrightarrow> ws_file (fold (sql_step exporting) es s) = ws_file s"
proof -
  have "ws_broken (sql_step exporting e s) \<and> ws_queue (sql_step exporting e s) = [] \<and>
      ws_file (sql_step exporting e s) = ws_file s" if "ws_broken s" "ws_queue s = []" for e s
    using that by (cases e) (auto simp: statementFor_def touched_def flush_def Let_def split: option.splits)
  then show "ws_broken s \<Longrightarrow> ws_queue s = [] \<Longrightarrow> ?thesis" by (induction es arbitrary: s) simp_all
qed

lemma foreign_keys_off_after_flush:
  "ws_dirty s \<Longrightarrow> \<not> ws_foreignKeys (fold (sql_step exporting) es (flush exporting s))"
proof -
  have "\<not> ws_foreignKeys (fold (sql_step exporting) es t)" if "\<not> ws_foreignKeys t" for t
  proof -
    have "\<not> ws_foreignKeys (sql_step exporting e u)" if "\<not> ws_foreignKeys u" for e u
      using that by (cases e) (auto simp: statementFor_def touched_def flush_def Let_def split: option.splits list.splits)
    then show ?thesis using that by (induction es arbitrary: t) simp_all
  qed
  then show "ws_dirty s \<Longrightarrow> ?thesis" by (simp add: flush_def Let_def)
qed

lemma app_write_loses_the_file:
  "map_of fs p = Some c \<Longrightarrow> \<exists>m \<in> set (moments (fst (app_write_calls IoOk p bs)) fs). map_of m p = None"
proof -
  let ?upto = "[OpenTemp (part_path p), WriteTo (part_path p) bs, RemoveFile p]"
  have "fst (app_write_calls IoOk p bs) = ?upto @ [RenameTo (part_path p) p]" by (simp add: app_write_calls_def Let_def)
  moreover have "fold do_call ?upto fs \<in> set (moments (?upto @ [RenameTo (part_path p) p]) fs)"
    using last_moment [of ?upto fs] by (simp only: moments_snoc set_append Un_iff) blast
  moreover have "map_of (fold do_call ?upto fs) p = None" by (simp only: part_calls part_path_other if_False if_True simp_thms)
  ultimately show ?thesis by metis
qed

text \<open>
  The phone's blobs are crash safe all the same, since a blob is never written twice. At every moment of a
  \<open>put\<close> at which the process can stop, a blob that was not there is absent or complete, and every other is
  as it was; and what \<open>get\<close> gives after a \<open>put\<close> that succeeds has the hash it is asked for.\<close>

theorem app_put_crash_safe:
  assumes "blobs_ok sha256 (dk_files d)" and "\<not> app_has (sha256 bs) d"
    and "m \<in> set (moments (fst (app_write_calls (snd (next_io d)) (blob_path (sha256 bs)) bs)) (dk_files d))"
    and "app_put sha256 bs d = (r, d')"
  shows "blobs_ok sha256 m \<and> map_of m (blob_path (sha256 bs)) \<in> {None, Some bs} \<and>
    (\<forall>k. k \<noteq> sha256 bs \<longrightarrow> map_of m (blob_path k) = map_of (dk_files d) (blob_path k)) \<and>
    blobs_ok sha256 (dk_files d') \<and>
    (\<forall>h. r = Inr h \<longrightarrow> (\<exists>c. app_get h d' = Inr c \<and> sha256 c = sha256 bs))"
proof -
  have put: "bl_put (AppBlobStore sha256) bs d = (r, d')" using assms(4) by (simp add: AppBlobStore_def)
  have "map_of m (blob_path (sha256 bs)) \<in> {None, Some bs}"
    using app_write_moment(1) [OF assms(3)] assms(2) by (simp add: app_has_iff)
  moreover have "\<And>k. k \<noteq> sha256 bs \<Longrightarrow> map_of m (blob_path k) = map_of (dk_files d) (blob_path k)"
    using app_write_moment(2) [OF assms(3)] by simp
  moreover from calculation have "blobs_ok sha256 m"
    using assms(1) unfolding blobs_ok_def by (metis empty_iff insert_iff option.distinct(1) option.inject)
  moreover have "blobs_ok sha256 (dk_files d')" by (rule app_store.put_inv [OF assms(1) put])
  moreover have "\<exists>c. app_get h d' = Inr c \<and> sha256 c = sha256 bs" if "r = Inr h" for h
    using app_store.put_then_get [OF assms(1), of bs h d'] put that by (simp add: AppBlobStore_def)
  ultimately show ?thesis by blast
qed

theorem app_put_crash_safe_witness:
  "blobs_ok (\<lambda>b. if b = [1, 2] then replicate 64 CHR ''a'' else []) (AList.update (part_path (blob_path (replicate 64 CHR ''a''))) [1] [])"
proof -
  let ?sha = "\<lambda>b :: bytes. if b = [1, 2] then replicate 64 CHR ''a'' else []"
  let ?d = "\<lparr>dk_files = [], dk_tape = []\<rparr>"
  let ?p = "blob_path (?sha [1, 2])"
  obtain r d' where put: "app_put ?sha [1, 2] ?d = (r, d')" by (cases "app_put ?sha [1, 2] ?d")
  have "AList.update (part_path ?p) [1] [] \<in> set (inside_call (WriteTo (part_path ?p) [1, 2]) (do_call (OpenTemp (part_path ?p)) []))"
    by (simp add: numeral_2_eq_2)
  then have "AList.update (part_path ?p) [1] [] \<in> set (moments (fst (app_write_calls (snd (next_io ?d)) ?p [1, 2])) (dk_files ?d))"
    by (simp add: app_write_calls_def next_io_def Let_def del: inside_call.simps do_call.simps)
  with app_put_crash_safe [of ?sha ?d "[1, 2]", OF _ _ _ put] show ?thesis by (simp add: app_has_iff)
qed

end
