(* ===== verification/Identity_Store.thy ===== *)
theory Identity_Store
  imports Vault_Services
begin

text \<open>
  The key of a device across starts: apps/desktop/src/main/identityStore.ts and \<open>loadIdentity\<close> of
  apps/mobile/src/platform/androidPlatform.ts. The operating system's keychain is a parameter, the file is
  what \<open>JSON.parse\<close> makes of its text, and the key that is drawn and the names the system gives are arguments.
\<close>

section \<open>The file and the keychain\<close>

record StoredIdentity =
  si_name :: string
  si_privateKey :: string
  si_encrypted :: bool

datatype identity_file = NoIdentityFile | UnreadableIdentity | IdentityFile StoredIdentity

text \<open>\<open>None\<close> where the keychain throws.\<close>

record keychain =
  kc_available :: bool
  kc_protect :: "string \<Rightarrow> string"
  kc_unprotect :: "string \<Rightarrow> string option"

definition generateDeviceKeyPair :: "(bytes \<Rightarrow> bytes) \<Rightarrow> (bytes \<Rightarrow> bytes) \<Rightarrow> bytes \<Rightarrow> DeviceKeyPair" where
  "generateDeviceKeyPair sha256 getPublicKey drawn =
     \<lparr>kp_deviceId = deviceIdFor sha256 (getPublicKey drawn), kp_publicKey = getPublicKey drawn, kp_privateKey = drawn\<rparr>"

section \<open>Names\<close>

definition non_empty :: "string \<Rightarrow> string \<Rightarrow> string" where
  "non_empty fallback s = (if s = [] then fallback else s)"

definition strip_local :: "string \<Rightarrow> string" where
  "strip_local host = (if js_endsWith host ''.local'' then take (length host - 6) host else host)"

definition defaultDeviceName :: "string option \<Rightarrow> string \<Rightarrow> string" where
  "defaultDeviceName label host =
     (case label of
        Some l \<Rightarrow> if js_trim l \<noteq> [] then js_trim l else non_empty ''This device'' (strip_local host)
      | None \<Rightarrow> non_empty ''This device'' (strip_local host))"

text \<open>On the phone: the manufacturer and the model, where the system gives them.\<close>

definition androidDeviceName :: "(string \<times> string) option \<Rightarrow> string" where
  "androidDeviceName info =
     (case info of
        None \<Rightarrow> ''Android device''
      | Some (manufacturer, model) \<Rightarrow>
          non_empty ''Android device'' (js_trim (if manufacturer = [] then model
             else if model = [] then manufacturer else manufacturer @ '' '' @ model)))"

section \<open>Loading\<close>

text \<open>What the file gives, \<open>None\<close> where reading, decrypting or decoding throws.\<close>

definition read_identity ::
  "(bytes \<Rightarrow> bytes) \<Rightarrow> (bytes \<Rightarrow> bytes) \<Rightarrow> keychain \<Rightarrow> identity_file \<Rightarrow> LoadedIdentity option" where
  "read_identity sha256 getPublicKey kc file =
     (case file of
        IdentityFile stored \<Rightarrow>
          (case (if si_encrypted stored then kc_unprotect kc (si_privateKey stored) else Some (si_privateKey stored)) of
             None \<Rightarrow> None
           | Some hex \<Rightarrow>
               (case res_bind (fromHex hex) (keyPairFromPrivateKey sha256 getPublicKey) of
                  Inl _ \<Rightarrow> None
                | Inr keyPair \<Rightarrow> Some \<lparr>li_keyPair = keyPair, li_name = si_name stored,
                    li_atRestUnprotected = (\<not> si_encrypted stored)\<rparr>))
      | _ \<Rightarrow> None)"

definition mint_identity ::
  "(bytes \<Rightarrow> bytes) \<Rightarrow> (bytes \<Rightarrow> bytes) \<Rightarrow> keychain \<Rightarrow> bytes \<Rightarrow> string \<Rightarrow> LoadedIdentity \<times> identity_file" where
  "mint_identity sha256 getPublicKey kc drawn name =
     (let keyPair = generateDeviceKeyPair sha256 getPublicKey drawn;
          hex = toHex (kp_privateKey keyPair)
      in (\<lparr>li_keyPair = keyPair, li_name = name, li_atRestUnprotected = (\<not> kc_available kc)\<rparr>,
          IdentityFile \<lparr>si_name = name, si_privateKey = if kc_available kc then kc_protect kc hex else hex,
                        si_encrypted = kc_available kc\<rparr>))"

definition loadOrCreateIdentity ::
  "(bytes \<Rightarrow> bytes) \<Rightarrow> (bytes \<Rightarrow> bytes) \<Rightarrow> keychain \<Rightarrow> bytes \<Rightarrow> string option \<Rightarrow> string \<Rightarrow> identity_file \<Rightarrow>
   LoadedIdentity \<times> identity_file" where
  "loadOrCreateIdentity sha256 getPublicKey kc drawn label host file =
     (case read_identity sha256 getPublicKey kc file of
        Some identity \<Rightarrow> (identity, file)
      | None \<Rightarrow> mint_identity sha256 getPublicKey kc drawn (defaultDeviceName label host))"

definition loadIdentity ::
  "(bytes \<Rightarrow> bytes) \<Rightarrow> (bytes \<Rightarrow> bytes) \<Rightarrow> keychain \<Rightarrow> bytes \<Rightarrow> (string \<times> string) option \<Rightarrow> identity_file \<Rightarrow>
   LoadedIdentity \<times> identity_file" where
  "loadIdentity sha256 getPublicKey kc drawn info file =
     (case read_identity sha256 getPublicKey kc file of
        Some identity \<Rightarrow> (identity, file)
      | None \<Rightarrow> mint_identity sha256 getPublicKey kc drawn (androidDeviceName info))"

section \<open>Properties\<close>

lemma mint_reads_back:
  assumes "length drawn = 32" and "\<And>text. kc_unprotect kc (kc_protect kc text) = Some text"
    and "kc_available kc' = kc_available kc" and "kc_unprotect kc' = kc_unprotect kc"
  shows "read_identity sha256 getPublicKey kc' (snd (mint_identity sha256 getPublicKey kc drawn name)) =
    Some (fst (mint_identity sha256 getPublicKey kc drawn name))"
  using assms
  by (simp add: mint_identity_def read_identity_def Let_def generateDeviceKeyPair_def fromHex_toHex
      keyPairFromPrivateKey_def)

text \<open>
  C26: A device stays the same device. On a computer and on a phone: once a start has drawn a key, every later
  start, whatever it would draw or be called by then, has the same key, id and name and leaves the file as it
  is, as long as the keychain gives back what it was given to keep; and the id is the hash of the key.\<close>

theorem identity_is_kept:
  assumes "length drawn = 32" and "\<And>text. kc_unprotect kc (kc_protect kc text) = Some text"
    and "loadOrCreateIdentity sha256 getPublicKey kc drawn label host NoIdentityFile = (identity, file)"
    and "loadIdentity sha256 getPublicKey kc drawn info NoIdentityFile = (phone, phone_file)"
  shows "loadOrCreateIdentity sha256 getPublicKey kc drawn' label' host' file = (identity, file) \<and>
    loadIdentity sha256 getPublicKey kc drawn' info' phone_file = (phone, phone_file) \<and>
    kp_deviceId (li_keyPair identity) = deviceIdFor sha256 (getPublicKey drawn) \<and>
    kp_privateKey (li_keyPair identity) = drawn \<and> (li_atRestUnprotected identity \<longleftrightarrow> \<not> kc_available kc)"
proof -
  have none: "read_identity sha256 getPublicKey kc NoIdentityFile = None" by (simp add: read_identity_def)
  have i: "(identity, file) = mint_identity sha256 getPublicKey kc drawn (defaultDeviceName label host)"
    and p: "(phone, phone_file) = mint_identity sha256 getPublicKey kc drawn (androidDeviceName info)"
    using assms(3,4) by (simp_all add: loadOrCreateIdentity_def loadIdentity_def none)
  have "read_identity sha256 getPublicKey kc file = Some identity"
    "read_identity sha256 getPublicKey kc phone_file = Some phone"
    using mint_reads_back [OF assms(1,2) refl refl, of sha256 getPublicKey] i [symmetric] p [symmetric]
    by (metis fst_conv snd_conv)+
  then show ?thesis
    using i by (auto simp: loadOrCreateIdentity_def loadIdentity_def mint_identity_def Let_def generateDeviceKeyPair_def)
qed

definition open_keychain :: keychain where
  "open_keychain = \<lparr>kc_available = True, kc_protect = (\<lambda>s. ''k'' @ s), kc_unprotect = (\<lambda>s. Some (tl s))\<rparr>"

definition locked_keychain :: keychain where
  "locked_keychain = open_keychain\<lparr>kc_unprotect := (\<lambda>s. None)\<rparr>"

theorem identity_is_kept_witness:
  "let (identity, file) = loadOrCreateIdentity id id open_keychain (replicate 32 7) None ''h'' NoIdentityFile
   in loadOrCreateIdentity id id open_keychain (replicate 32 8) None ''other'' file = (identity, file)"
proof -
  obtain identity kept where i: "loadOrCreateIdentity id id open_keychain (replicate 32 7) None ''h'' NoIdentityFile = (identity, kept)"
    by force
  obtain phone phone_file where "loadIdentity id id open_keychain (replicate 32 7) None NoIdentityFile = (phone, phone_file)"
    by force
  from identity_is_kept [OF _ _ i this] i show ?thesis by (simp add: open_keychain_def)
qed

text \<open>
  A keychain that is locked for one start costs the identity: the file is replaced by one with a new key,
  and when the keychain opens again the old key is gone.
\<close>

lemma locked_keychain_replaces_the_identity:
  assumes "length drawn = 32" "length drawn' = 32" "getPublicKey drawn \<noteq> getPublicKey drawn'"
    and "loadOrCreateIdentity sha256 getPublicKey open_keychain drawn label host NoIdentityFile = (identity, file)"
    and "loadOrCreateIdentity sha256 getPublicKey locked_keychain drawn' label host file = (second, file')"
    and "loadOrCreateIdentity sha256 getPublicKey open_keychain drawn'' label host file' = (third, file'')"
  shows "kp_publicKey (li_keyPair third) \<noteq> kp_publicKey (li_keyPair identity)"
  using assms
  by (auto simp: loadOrCreateIdentity_def read_identity_def mint_identity_def Let_def open_keychain_def
      locked_keychain_def generateDeviceKeyPair_def keyPairFromPrivateKey_def fromHex_toHex)
end
