(* ===== verification/Spec2Isabelle.thy ===== *)
theory Spec2Isabelle
  imports Dag_Topology Revision_Model Chunk_Framing Wire_Protocol Short_Code Device_Identity
    Pairing_Trust Blob_Files Metadata_Store Session_Delivery Signaling_Safety Settings_Store Vault_File Service_Snapshot Service_Prompt Bridge_Safety
    Mobile_Storage Identity_Store
begin

text \<open>
  PassVault keeps one encrypted KeePass file in step between a person's own devices, directly from device
  to device. Each device records every saved state of the file as a revision, a content hash with the
  revisions it came from; two paired devices exchange the revisions they lack; and a divergence is shown
  to the person and never resolved by the program. This library models the program as it is written in
  TypeScript under src/ and proves what makes it correct.

  \<^bold>\<open>The parts and how they meet.\<close> A save of the file is seen by the watcher (\<open>Vault_File\<close>), which hands
  the bytes to the services (\<open>Vault_Services\<close>); these record them through the engine (\<open>Sync_Engine\<close>) in
  a blob store (\<open>Blob_Files\<close>, on the phone \<open>Mobile_Storage\<close>) and a metadata store (\<open>Metadata_Tables\<close>,
  \<open>Metadata_Store\<close>), and bring the file in step with the head of the history. The peer bridge
  (\<open>Peer_Bridge\<close>) meets other devices through the signaling server (\<open>Signaling_Server\<close> with
  \<open>Room_Registry\<close>, \<open>Code_Registry\<close>, \<open>Rate_Limit\<close>) and pipes the frames of its data channels to the hub
  (\<open>Link_Hub\<close>), which gives each session (\<open>Sync_Session\<close>) a link. A session authenticates the peer
  (\<open>Pairing_Trust\<close>, \<open>Device_Identity\<close>), exchanges histories in messages (\<open>Wire_Protocol\<close>,
  \<open>Control_Inbox\<close>), decides from the two graphs what to ask for (\<open>Revision_Dag\<close>), and moves revisions in
  chunks (\<open>Chunk_Framing\<close>) into the engine. The services hear how it ended (\<open>Service_Peers\<close>) and tell the
  interface (\<open>Service_Snapshot\<close>, \<open>Failure_Messages\<close>).

  \<^bold>\<open>Conventions\<close> (\<open>Js_Prelude\<close>). A thrown \<open>Error\<close> and a rejected promise are the \<open>Inl\<close> of a sum; \<open>undefined\<close> is
  \<open>None\<close>; a \<open>Map\<close> is the list of its entries in insertion order; bytes are words of 8 bits and counters of
  the wire are 32 bits wide; numbers that are only counted or compared are natural numbers. An asynchronous
  method that other code cannot interleave with runs to its end; where the interleaving matters (session,
  watcher, hub, bridge, signaling server, database in memory) the component is a machine over the events the
  outside gives it, with the calls it makes recorded as outputs. Keeping the file in
  step takes what happens between its look at the lock and its write as an argument.

  \<^bold>\<open>Theories and sources.\<close>
  \<^item> packages/core/src: \<open>Revision_Dag\<close>, \<open>Dag_Ancestry\<close> and \<open>Dag_Topology\<close> are dag.ts (the searches are
    worklists with termination proofs; the lemmas say that they compute reachability, the best common
    ancestors, an order with parents first and the exact missing set). \<open>Revision_Model\<close> is model.ts, lineage.ts,
    revisions.ts, conflicts.ts and transfers.ts. \<open>Chunk_Framing\<close> is framing.ts with the sender's loop of
    session.ts; \<open>Wire_Protocol\<close> is protocol.ts; \<open>Short_Code\<close> is shortCode.ts. The ports of ports.ts and
    interpreter.ts are records of functions in the theories that use them.
  \<^item> packages/identity/src: \<open>Device_Identity\<close> is identity.ts, \<open>Pairing_Trust\<close> is pairing.ts, authenticator.ts and
    sqliteTrustStore.ts of packages/storage-sql.
  \<^item> packages/storage-node/src: \<open>Blob_Files\<close> is blobStore.ts, on a disk whose calls fail as an explicit tape says;
    \<open>Vault_File\<close> is vaultFile.ts with nodePlatform.ts of the desktop.
  \<^item> packages/storage-sql/src: \<open>Metadata_Tables\<close> and \<open>Metadata_Store\<close> are sqliteMetadataStore.ts and schema.ts, as
    operations on lists of rows; \<open>Settings_Store\<close> is settingsStore.ts with connection.ts.
  \<^item> packages/sync/src: \<open>Sync_Engine\<close> and \<open>Engine_Invariants\<close> are engine.ts; \<open>Control_Inbox\<close> is
    controlInbox.ts; \<open>Sync_Session\<close>, \<open>Session_Safety\<close>, \<open>Session_Properties\<close> and \<open>Session_Delivery\<close> are
    session.ts.
  \<^item> packages/kdbx/src: \<open>Kdbx_Interpreter\<close> is kdbxInterpreter.ts, snapshot.ts and types.ts.
  \<^item> packages/services/src: \<open>Vault_Services\<close> and \<open>Service_Peers\<close> are vaultServices.ts with platform.ts,
    \<open>Service_Snapshot\<close> is its snapshot and preview with snapshot.ts, \<open>Failure_Messages\<close> its explanations;
    \<open>Service_Safety\<close>, \<open>Service_Properties\<close> and \<open>Service_Prompt\<close> hold what is proved of them.
  \<^item> packages/transport/src: \<open>Link_Hub\<close> is peerLinkHub.ts and peerFrame.ts; \<open>Peer_Bridge\<close> and
    \<open>Bridge_Safety\<close> are peerBridge.ts, and \<open>host_hears\<close> the two handlers of apps/desktop/src/main/index.ts that
    pass its news to the services.
  \<^item> apps/signaling/src: \<open>Rate_Limit\<close>, \<open>Code_Registry\<close>, \<open>Room_Registry\<close>, \<open>Signaling_Server\<close> and
    \<open>Signaling_Safety\<close> are rateLimit.ts, shortCodes.ts, rooms.ts with signalingTypes.ts, and index.ts.
  \<^item> apps: \<open>Identity_Store\<close> is identityStore.ts of the desktop and \<open>loadIdentity\<close> of androidPlatform.ts;
    \<open>Mobile_Storage\<close> is appStorage.ts and sqlite.ts of the phone.
\<close>

text \<open>
  \<^bold>\<open>Interfaces.\<close> Where one part relies on another the contract is a locale, and each is interpreted on the
  model's own definitions.
  \<^item> \<open>blob_store\<close> (\<open>Blob_Files\<close>): what a \<open>put\<close> and a \<open>get\<close> promise; \<open>file_store\<close> on the computer,
    \<open>app_store\<close> on the phone.
  \<^item> \<open>metadata_store\<close> (\<open>Metadata_Store\<close>): what every operation keeps of the history; \<open>sqlite_md\<close>.
  \<^item> \<open>trust_store\<close> (\<open>Pairing_Trust\<close>): \<open>map_store\<close> and \<open>sql_store\<close>.
  \<^item> \<open>sync_engine\<close> (\<open>Engine_Invariants\<close>), over the two stores: \<open>desktop\<close>; extended by \<open>sync_session\<close>
    (\<open>Session_Safety\<close>): \<open>desk\<close>.
  \<^item> \<open>vault_files\<close> (\<open>Vault_File\<close>), through which the services use the file: \<open>node_files\<close>.
  \<^item> \<open>backpressured_channel\<close> (\<open>Link_Hub\<close>), what a session relies on when it waits for a channel to drain:
    \<open>hub_channel\<close>.

  \<^bold>\<open>What is shown.\<close> The history: whatever is done, the stored revisions are a graph without cycles whose bytes
  are there under their hashes (C1, C34), the searches on it are exact (C4, C8, C9, C36) and the database's
  own recursive query agrees with them within a vault (C35). Synchronising: nothing is said or stored before the peer has
  proved itself (C6, C13, C14), a hostile peer only adds (C7) and stays within bounds (C28, C31), an honest one
  leaves nothing missing (C5), and what is sent is what arrives (C27, C29). The services: their state stays
  sound along every run (C2), the file is written exactly when and with what it should be (C10, C32), no save
  is lost unless its file cannot be read twice (C12), combining keeps both sides (C11), a disconnect can be taken
  back and touches no other device (C15), the prompt asks for one session at a time (C38), and the interface is
  told the truth (C19, C39). Meeting: the
  server tells a room only to its members, who showed its token (C16), and admits no client beyond its rate (C40), the bridge keeps trying (C20) and takes down what
  it built (C21), the live peers are the ready ones (C22), and a hello reaches the session it starts (C24).
  Lemmas beside the properties show, on concrete runs, behaviour the comments of the source do not promise.

  \<^bold>\<open>Bounds and termination.\<close> No definition runs on fuel. Loops are total functions with measures; the searches of
  the graph are measured by the revisions not yet seen, the query of the database by the rows it can still
  produce, framing by the bytes left. \<open>teardown\<close> of the bridge, which calls itself through the events that
  closing fires, is a partial function into \<open>option\<close> and is proved to return on every bridge (C21). The
  constants are the source's: the limits of protocol.ts, 64 frames without a header, 8 held hellos, a retry
  after 1 to 30 seconds, 10000 codes and 100001 buckets on the server, 150 milliseconds before the database
  is written.

  \<^bold>\<open>Parameters.\<close> SHA-256, ed25519, kdbxweb, sql.js, SQLite's execution of a statement, the keychain, \<open>fetch\<close> and
  \<open>JSON.parse\<close> of a text (\<open>Link_Hub\<close>, \<open>Settings_Store\<close>) are arguments. What is assumed of them is a hypothesis of
  the theorem that needs it: a hash has 64 hexadecimal digits, a keychain gives back what it was given. No
  theorem assumes that a hash has no collisions.
\<close>

text \<open>
  \<^bold>\<open>Not modelled.\<close>
  \<^item> The user interface (packages/ui, the renderer and the entry points of the phone): it renders the snapshot and
    calls the services.
  \<^item> The desktop process (apps/desktop/src/main, but for the two handlers named above) and the preload script:
    windows, menus and the registration of calls between processes.
  \<^item> Android's side: the native plugin is Java, and androidPlatform.ts, native.ts and api.ts call it; the services
    see it as any \<open>VaultFileAccess\<close>.
  \<^item> sqliteDriver.ts, store.ts, and the binding of parameters in sqlite.ts: the statements are modelled as the
    operations on tables that they are. kdbxweb.ts and argon2.ts bind third-party code.
  \<^item> webrtcMesh.ts, webrtcLink.ts, memoryLink.ts and signalingClient.ts, which only tests and the demo use: the
    apps connect through the bridge and the hub. The demo and the scripts print a walk-through.
  \<^item> Time and chance are arguments: clocks, drawn ids, nonces and codes are not generated by the model.
  \<^item> Two methods of the services that run at the same time: each runs to its end here, except the watcher's
    deliveries, the sessions and the prompt, which have steps of their own, and the time between the look at the
    lock and the write of the file. Recording a conflict is one step.
\<close>

end
